(* ===== verification/Rust_Str.thy ===== *)
theory Rust_Str
  imports Prelude
begin

text \<open>
  The part of Rust's \<open>str\<close> and integer-parsing library that the program uses, on UTF-8 byte
  lists.  Patterns that are a single ASCII byte work bytewise, because an ASCII byte never occurs
  inside a multi-byte character.  Operations on \<open>char\<close>s (\<open>trim\<close>,
  \<open>split_whitespace\<close>, \<open>chars().take\<close>) go through \<open>chars\<close>, which cuts a byte list
  into its characters, so Unicode white space is trimmed as Rust trims it.
\<close>

subsection \<open>Characters of a UTF-8 byte list\<close>

definition byte :: "char \<Rightarrow> nat" where
  "byte c = of_char c"

definition chr :: "nat \<Rightarrow> char" where
  "chr n = char_of n"

lemma byte_less [simp]: "byte c < 256"
  by (simp add: byte_def)

lemma byte_chr [simp]: "n < 256 \<Longrightarrow> byte (chr n) = n"
  by (simp add: byte_def chr_def)

lemma chr_byte [simp]: "chr (byte c) = c"
  by (simp add: byte_def chr_def)

lemma byte_inject [simp]: "byte c = byte d \<longleftrightarrow> c = d"
  by (metis chr_byte)

text \<open>UTF-8 continuation bytes are \<open>0x80..=0xBF\<close>.\<close>

definition is_cont :: "char \<Rightarrow> bool" where
  "is_cont c \<longleftrightarrow> 128 \<le> byte c \<and> byte c < 192"

definition is_ascii :: "char \<Rightarrow> bool" where
  "is_ascii c \<longleftrightarrow> byte c < 128"

fun chars :: "str \<Rightarrow> str list" where
  "chars [] = []"
| "chars (c # cs) = (c # takeWhile is_cont cs) # chars (dropWhile is_cont cs)"

lemma concat_chars [simp]: "concat (chars s) = s"
  by (induction s rule: chars.induct) auto

lemma chars_nonempty: "x \<in> set (chars s) \<Longrightarrow> x \<noteq> []"
  by (induction s rule: chars.induct) auto

lemma is_cont_not_ascii: "is_ascii c \<Longrightarrow> \<not> is_cont c"
  by (simp add: is_ascii_def is_cont_def)

lemma chars_ascii: "\<forall>c\<in>set s. is_ascii c \<Longrightarrow> chars s = map (\<lambda>c. [c]) s"
proof (induction s rule: chars.induct)
  case (2 c cs)
  have cont: "takeWhile is_cont cs = []" "dropWhile is_cont cs = cs"
    using "2.prems" by (cases cs; simp add: is_cont_not_ascii)+
  have "chars cs = map (\<lambda>c. [c]) cs"
    using "2.IH" "2.prems" by (simp add: cont(2))
  then show ?case by (simp add: cont)
qed simp

text \<open>
  A list of characters as \<open>chars\<close> produces them: none is empty, a character other than the
  first does not begin with a continuation byte, and only continuation bytes follow a first byte.
\<close>

definition char_list :: "str list \<Rightarrow> bool" where
  "char_list xs \<longleftrightarrow> (\<forall>x\<in>set xs. x \<noteq> [] \<and> (\<forall>c\<in>set (tl x). is_cont c))
     \<and> (\<forall>x\<in>set (tl xs). \<not> is_cont (hd x))"

lemma chars_hd_not_cont:
  "x \<in> set (chars (dropWhile is_cont cs)) \<Longrightarrow> \<not> is_cont (hd x)"
proof (induction cs rule: length_induct)
  case (1 cs)
  show ?case
  proof (cases "dropWhile is_cont cs")
    case Nil
    have "x \<in> set (chars [])" using "1.prems" unfolding Nil .
    then show ?thesis by simp
  next
    case (Cons d ds)
    then have d: "\<not> is_cont d" by (metis hd_dropWhile list.distinct(1) list.sel(1))
    have len: "length ds < length cs"
      using Cons by (metis Suc_le_eq length_Cons length_dropWhile_le)
    from "1.prems" Cons have "x = d # takeWhile is_cont ds \<or> x \<in> set (chars (dropWhile is_cont ds))"
      by simp
    then show ?thesis
    proof
      assume "x = d # takeWhile is_cont ds"
      then show ?thesis using d by simp
    next
      assume "x \<in> set (chars (dropWhile is_cont ds))"
      then show ?thesis using "1.IH" len by blast
    qed
  qed
qed

lemma char_list_chars: "char_list (chars s)"
proof -
  have "x \<in> set (chars s) \<Longrightarrow> \<forall>c\<in>set (tl x). is_cont c" for x
    by (induction s rule: chars.induct) (auto dest: set_takeWhileD)
  moreover have "x \<in> set (tl (chars s)) \<Longrightarrow> \<not> is_cont (hd x)" for x
    by (cases s) (auto dest: chars_hd_not_cont)
  ultimately show ?thesis by (auto simp: char_list_def chars_nonempty)
qed

lemma chars_concat: "char_list xs \<Longrightarrow> chars (concat xs) = xs"
proof (induction xs)
  case (Cons x xs)
  from Cons.prems obtain c cs where x: "x = c # cs" and cont: "\<forall>d\<in>set cs. is_cont d"
    by (cases x) (auto simp: char_list_def)
  from Cons.prems have xs: "char_list xs"
    by (cases xs) (auto simp: char_list_def)
  have stop: "takeWhile is_cont (concat xs) = [] \<and> dropWhile is_cont (concat xs) = concat xs"
  proof (cases xs)
    case (Cons y ys)
    then obtain d ds where "y = d # ds" "\<not> is_cont d"
      using Cons.prems by (cases y) (auto simp: char_list_def)
    then show ?thesis using Cons by simp
  qed simp
  show ?case
    using Cons.IH [OF xs] cont stop
    by (simp add: x takeWhile_no_match dropWhile_no_match)
qed simp

lemma char_list_dropWhile: "char_list xs \<Longrightarrow> char_list (dropWhile P xs)"
proof (induction xs)
  case (Cons x xs)
  have "char_list xs" using Cons.prems by (cases xs) (simp_all add: char_list_def)
  with Cons show ?case by simp
qed simp

lemma char_list_prefix: "char_list (xs @ ys) \<Longrightarrow> char_list xs"
  by (cases xs) (auto simp: char_list_def)

subsection \<open>Well-formed UTF-8\<close>

text \<open>
  \<open>String::from_utf8\<close> accepts exactly the well-formed byte sequences of the Unicode standard
  (table 3-7): no overlong forms, no surrogates, nothing above U+10FFFF.
\<close>

fun utf8_valid :: "str \<Rightarrow> bool" where
  "utf8_valid [] = True"
| "utf8_valid (a # s) =
     (if byte a < 128 then utf8_valid s
      else case s of [] \<Rightarrow> False
        | b # s \<Rightarrow>
            if 194 \<le> byte a \<and> byte a \<le> 223 then is_cont b \<and> utf8_valid s
            else case s of [] \<Rightarrow> False
              | c # s \<Rightarrow>
                  if byte a = 224 then 160 \<le> byte b \<and> byte b \<le> 191 \<and> is_cont c \<and> utf8_valid s
                  else if byte a = 237 then 128 \<le> byte b \<and> byte b \<le> 159 \<and> is_cont c \<and> utf8_valid s
                  else if 225 \<le> byte a \<and> byte a \<le> 239 then is_cont b \<and> is_cont c \<and> utf8_valid s
                  else case s of [] \<Rightarrow> False
                    | d # s \<Rightarrow>
                        if byte a = 240 then 144 \<le> byte b \<and> byte b \<le> 191 \<and> is_cont c \<and> is_cont d \<and> utf8_valid s
                        else if byte a = 244 then 128 \<le> byte b \<and> byte b \<le> 143 \<and> is_cont c \<and> is_cont d \<and> utf8_valid s
                        else if 241 \<le> byte a \<and> byte a \<le> 243 then is_cont b \<and> is_cont c \<and> is_cont d \<and> utf8_valid s
                        else False)"

definition from_utf8 :: "str \<Rightarrow> str option" where
  "from_utf8 bs = (if utf8_valid bs then Some bs else None)"

lemma utf8_valid_ascii: "\<forall>c\<in>set s. is_ascii c \<Longrightarrow> utf8_valid s"
  by (induction s) (auto simp: is_ascii_def)

subsection \<open>White space and trimming\<close>

text \<open>
  The characters of Unicode's \<open>White_Space\<close> property in UTF-8: U+0009..U+000D, U+0020, U+0085,
  U+00A0, U+1680, U+2000..U+200A, U+2028, U+2029, U+202F, U+205F and U+3000.
\<close>

definition unicode_ws :: "str list" where
  "unicode_ws =
     [[CHR 0x09], [CHR 0x0A], [CHR 0x0B], [CHR 0x0C], [CHR 0x0D], [CHR 0x20],
      [CHR 0xC2, CHR 0x85], [CHR 0xC2, CHR 0xA0], [CHR 0xE1, CHR 0x9A, CHR 0x80],
      [CHR 0xE2, CHR 0x80, CHR 0x80], [CHR 0xE2, CHR 0x80, CHR 0x81],
      [CHR 0xE2, CHR 0x80, CHR 0x82], [CHR 0xE2, CHR 0x80, CHR 0x83],
      [CHR 0xE2, CHR 0x80, CHR 0x84], [CHR 0xE2, CHR 0x80, CHR 0x85],
      [CHR 0xE2, CHR 0x80, CHR 0x86], [CHR 0xE2, CHR 0x80, CHR 0x87],
      [CHR 0xE2, CHR 0x80, CHR 0x88], [CHR 0xE2, CHR 0x80, CHR 0x89],
      [CHR 0xE2, CHR 0x80, CHR 0x8A], [CHR 0xE2, CHR 0x80, CHR 0xA8],
      [CHR 0xE2, CHR 0x80, CHR 0xA9], [CHR 0xE2, CHR 0x80, CHR 0xAF],
      [CHR 0xE2, CHR 0x81, CHR 0x9F], [CHR 0xE3, CHR 0x80, CHR 0x80]]"

definition is_whitespace :: "str \<Rightarrow> bool" where
  "is_whitespace ch \<longleftrightarrow> List.member unicode_ws ch"

text \<open>\<open>u8::is_ascii_whitespace\<close>: space, tab, line feed, form feed, carriage return.\<close>

definition is_ascii_ws :: "char \<Rightarrow> bool" where
  "is_ascii_ws c \<longleftrightarrow> byte c \<in> {9, 10, 12, 13, 32}"

definition trim_start :: "str \<Rightarrow> str" where
  "trim_start s = concat (dropWhile is_whitespace (chars s))"

definition trim_end :: "str \<Rightarrow> str" where
  "trim_end s = concat (rev (dropWhile is_whitespace (rev (chars s))))"

definition trim :: "str \<Rightarrow> str" where
  "trim s = trim_end (trim_start s)"

lemma chars_trim_start: "chars (trim_start s) = dropWhile is_whitespace (chars s)"
  by (simp add: trim_start_def chars_concat char_list_dropWhile char_list_chars)

lemma chars_trim_end: "chars (trim_end s) = rev (dropWhile is_whitespace (rev (chars s)))"
proof -
  let ?w = "rev (dropWhile is_whitespace (rev (chars s)))"
  have "chars s = ?w @ rev (takeWhile is_whitespace (rev (chars s)))"
    by (metis rev_append rev_rev_ident takeWhile_dropWhile_id)
  then have "char_list ?w"
    by (metis char_list_chars char_list_prefix)
  then show ?thesis by (simp add: trim_end_def chars_concat)
qed

lemma trim_start_idem [simp]: "trim_start (trim_start s) = trim_start s"
  by (simp add: trim_start_def [of "trim_start s"] chars_trim_start) (simp add: trim_start_def)

lemma trim_end_idem [simp]: "trim_end (trim_end s) = trim_end s"
  by (simp add: trim_end_def [of "trim_end s"] chars_trim_end) (simp add: trim_end_def)

lemma dropWhile_rev_dropWhile:
  "dropWhile P (rev (dropWhile P (rev (dropWhile P xs)))) = rev (dropWhile P (rev (dropWhile P xs)))"
proof (cases "dropWhile P xs")
  case (Cons y ys)
  then have y: "\<not> P y" by (metis hd_dropWhile list.distinct(1) list.sel(1))
  have "rev (dropWhile P (rev (y # ys))) = y # rev (dropWhile P (rev ys))"
    using y by (simp add: dropWhile_append)
  then show ?thesis using y Cons by simp
next
  case Nil
  show ?thesis unfolding Nil by simp
qed

lemma trim_idem [simp]: "trim (trim s) = trim s"
proof -
  have "trim_start (trim s) = trim s"
    by (simp add: trim_def trim_start_def [of "trim_end _"] chars_trim_end chars_trim_start
        dropWhile_rev_dropWhile) (simp add: trim_end_def chars_trim_start)
  then show ?thesis by (simp add: trim_def)
qed

lemma set_trim_subset: "set (trim s) \<subseteq> set s"
proof -
  have a: "set (trim_start t) \<subseteq> set t" for t
    using set_dropWhile_subset [of is_whitespace "chars t"] concat_chars [of t]
    by (metis (no_types, lifting) UN_mono set_concat subset_refl trim_start_def)
  have b: "set (trim_end t) \<subseteq> set t" for t
    using set_dropWhile_subset [of is_whitespace "rev (chars t)"] concat_chars [of t]
    by (metis (no_types, lifting) UN_mono set_concat set_rev subset_refl trim_end_def)
  show ?thesis using a b by (fastforce simp: trim_def)
qed

lemma trim_Nil [simp]: "trim [] = []"
  by (simp add: trim_def trim_start_def trim_end_def)

text \<open>\<open>split_whitespace\<close>: the maximal runs of non-white characters.\<close>

function word_runs :: "str list \<Rightarrow> str list" where
  "word_runs cs =
     (case dropWhile is_whitespace cs of
        [] \<Rightarrow> []
      | d # ds \<Rightarrow> concat (d # takeWhile (\<lambda>x. \<not> is_whitespace x) ds)
                 # word_runs (dropWhile (\<lambda>x. \<not> is_whitespace x) ds))"
  by pat_completeness auto
termination
proof (relation "measure length")
  fix cs d ds
  assume "dropWhile is_whitespace cs = d # ds"
  then have "length ds < length cs"
    by (metis Suc_le_eq length_Cons length_dropWhile_le)
  then show "(dropWhile (\<lambda>x. \<not> is_whitespace x) ds, cs) \<in> measure length"
    by (simp add: le_less_trans [OF length_dropWhile_le])
qed simp

declare word_runs.simps [simp del]

definition split_whitespace :: "str \<Rightarrow> str list" where
  "split_whitespace s = word_runs (chars s)"

text \<open>\<open>split_ascii_whitespace\<close>: the same with ASCII white space only, bytewise.\<close>

function split_ascii_whitespace :: "str \<Rightarrow> str list" where
  "split_ascii_whitespace s =
     (case dropWhile is_ascii_ws s of
        [] \<Rightarrow> []
      | d # ds \<Rightarrow> (d # takeWhile (\<lambda>x. \<not> is_ascii_ws x) ds)
                 # split_ascii_whitespace (dropWhile (\<lambda>x. \<not> is_ascii_ws x) ds))"
  by pat_completeness auto
termination
proof (relation "measure length")
  fix s d ds
  assume "dropWhile is_ascii_ws s = d # ds"
  then have "length ds < length s"
    by (metis Suc_le_eq length_Cons length_dropWhile_le)
  then show "(dropWhile (\<lambda>x. \<not> is_ascii_ws x) ds, s) \<in> measure length"
    by (simp add: le_less_trans [OF length_dropWhile_le])
qed simp

declare split_ascii_whitespace.simps [simp del]

lemma split_ascii_whitespace_word:
  "w \<noteq> [] \<Longrightarrow> \<forall>c\<in>set w. \<not> is_ascii_ws c \<Longrightarrow> split_ascii_whitespace w = [w]"
proof -
  assume w: "w \<noteq> []" "\<forall>c\<in>set w. \<not> is_ascii_ws c"
  then obtain d ds where d: "w = d # ds" by (cases w) auto
  have nil: "split_ascii_whitespace [] = []" by (simp add: split_ascii_whitespace.simps)
  have t: "takeWhile (\<lambda>x. \<not> is_ascii_ws x) ds = ds" and r: "dropWhile (\<lambda>x. \<not> is_ascii_ws x) ds = []"
    using w d by auto
  have dw: "dropWhile is_ascii_ws (d # ds) = d # ds" using w d by simp
  show ?thesis
    unfolding d by (subst split_ascii_whitespace.simps) (simp only: dw list.case t r nil)
qed

subsection \<open>Searching and splitting at a substring\<close>

definition starts_with :: "str \<Rightarrow> str \<Rightarrow> bool" where
  "starts_with s p \<longleftrightarrow> prefix p s"

definition ends_with :: "str \<Rightarrow> str \<Rightarrow> bool" where
  "ends_with s p \<longleftrightarrow> prefix (rev p) (rev s)"

definition strip_prefix :: "str \<Rightarrow> str \<Rightarrow> str option" where
  "strip_prefix s p = (if prefix p s then Some (drop (length p) s) else None)"

definition strip_suffix :: "str \<Rightarrow> str \<Rightarrow> str option" where
  "strip_suffix s p = (if ends_with s p then Some (take (length s - length p) s) else None)"

text \<open>\<open>str::find\<close> with a string pattern: the byte offset of the first occurrence.\<close>

fun str_find :: "str \<Rightarrow> str \<Rightarrow> nat option" where
  "str_find p [] = (if p = [] then Some 0 else None)"
| "str_find p (c # cs) = (if prefix p (c # cs) then Some 0 else map_option Suc (str_find p cs))"

definition contains :: "str \<Rightarrow> str \<Rightarrow> bool" where
  "contains s p \<longleftrightarrow> str_find p s \<noteq> None"

definition split_once :: "str \<Rightarrow> str \<Rightarrow> (str \<times> str) option" where
  "split_once s p = (case str_find p s of None \<Rightarrow> None
     | Some i \<Rightarrow> Some (take i s, drop (i + length p) s))"

definition rsplit_once :: "str \<Rightarrow> str \<Rightarrow> (str \<times> str) option" where
  "rsplit_once s p = (case split_once (rev s) (rev p) of None \<Rightarrow> None
     | Some (a, b) \<Rightarrow> Some (rev b, rev a))"

lemma ends_with_suffix: "ends_with s p \<longleftrightarrow> suffix p s"
  by (simp add: ends_with_def suffix_to_prefix)

lemma str_find_bound: "str_find p s = Some i \<Longrightarrow> i + length p \<le> length s"
proof (induction s arbitrary: i)
  case (Cons x s)
  then show ?case using prefix_length_le [of p "x # s"] by (fastforce split: if_splits)
qed (simp split: if_splits)

lemma str_find_split: "str_find p s = Some i \<Longrightarrow> s = take i s @ p @ drop (i + length p) s"
proof (induction s arbitrary: i)
  case (Cons c cs)
  show ?case
  proof (cases "prefix p (c # cs)")
    case True
    with Cons.prems show ?thesis by (auto simp: prefix_def)
  next
    case False
    with Cons.prems obtain j where "str_find p cs = Some j" "i = Suc j" by auto
    with Cons.IH show ?thesis by simp
  qed
qed (auto split: if_splits)

lemma split_once_append: "split_once s p = Some (a, b) \<Longrightarrow> s = a @ p @ b"
  by (auto simp: split_once_def split: option.splits dest: str_find_split)

lemma rsplit_once_append: "rsplit_once s p = Some (a, b) \<Longrightarrow> s = a @ p @ b"
proof -
  assume "rsplit_once s p = Some (a, b)"
  then have "split_once (rev s) (rev p) = Some (rev b, rev a)"
    by (auto simp: rsplit_once_def split: option.splits)
  then have "rev s = rev b @ rev p @ rev a" by (rule split_once_append)
  then show ?thesis by (metis append.assoc rev_append rev_rev_ident)
qed

lemma str_find_None_iff: "str_find p s = None \<longleftrightarrow> \<not> sublist p s"
proof (induction s)
  case Nil
  then show ?case by (auto simp: sublist_def)
next
  case (Cons c cs)
  have "sublist p (c # cs) \<longleftrightarrow> prefix p (c # cs) \<or> sublist p cs"
    by (rule sublist_Cons_right)
  with Cons show ?case by auto
qed

lemma contains_sublist: "contains s p \<longleftrightarrow> sublist p s"
  by (simp add: contains_def str_find_None_iff)

lemma strip_prefix_Some: "strip_prefix s p = Some r \<longleftrightarrow> s = p @ r"
  by (auto simp: strip_prefix_def prefix_def)

subsection \<open>Splitting at one ASCII byte\<close>

definition split_once_c :: "str \<Rightarrow> char \<Rightarrow> (str \<times> str) option" where
  "split_once_c s c =
     (if List.member s c
      then Some (takeWhile (\<lambda>x. x \<noteq> c) s, tl (dropWhile (\<lambda>x. x \<noteq> c) s)) else None)"

definition rsplit_once_c :: "str \<Rightarrow> char \<Rightarrow> (str \<times> str) option" where
  "rsplit_once_c s c =
     (case split_once_c (rev s) c of None \<Rightarrow> None | Some (a, b) \<Rightarrow> Some (rev b, rev a))"

fun split_c :: "str \<Rightarrow> char \<Rightarrow> str list" where
  "split_c [] c = [[]]"
| "split_c (x # xs) c =
     (if x = c then [] # split_c xs c
      else (case split_c xs c of [] \<Rightarrow> [[x]] | y # ys \<Rightarrow> (x # y) # ys))"

fun join :: "str \<Rightarrow> str list \<Rightarrow> str" where
  "join sep [] = []"
| "join sep [x] = x"
| "join sep (x # y # zs) = x @ sep @ join sep (y # zs)"

lemma split_once_c_None [simp]: "split_once_c s c = None \<longleftrightarrow> c \<notin> set s"
  by (simp add: split_once_c_def)

lemma split_once_c_Some:
  "split_once_c s c = Some (a, b) \<longleftrightarrow> s = a @ c # b \<and> c \<notin> set a"
proof
  assume "split_once_c s c = Some (a, b)"
  then have c: "c \<in> set s" and a: "a = takeWhile (\<lambda>x. x \<noteq> c) s"
    and b: "b = tl (dropWhile (\<lambda>x. x \<noteq> c) s)"
    by (auto simp: split_once_c_def split: if_splits)
  have "s = a @ dropWhile (\<lambda>x. x \<noteq> c) s" by (simp add: a)
  also have "dropWhile (\<lambda>x. x \<noteq> c) s = c # b" using dropWhile_neq_Cons [OF c] b by simp
  finally show "s = a @ c # b \<and> c \<notin> set a" by (simp add: a takeWhile_neq_notin)
next
  assume "s = a @ c # b \<and> c \<notin> set a"
  then have s: "s = a @ c # b" and a: "\<forall>x\<in>set a. x \<noteq> c" by auto
  show "split_once_c s c = Some (a, b)"
    using takeWhile_no_match [OF a, of "c # b"] dropWhile_no_match [OF a, of "c # b"]
    by (simp add: split_once_c_def s)
qed

lemma rsplit_once_c_None [simp]: "rsplit_once_c s c = None \<longleftrightarrow> c \<notin> set s"
  by (cases "split_once_c (rev s) c") (auto simp: rsplit_once_c_def split_once_c_def split: if_splits)

lemma rsplit_once_c_Some:
  "rsplit_once_c s c = Some (a, b) \<longleftrightarrow> s = a @ c # b \<and> c \<notin> set b"
proof -
  have "rsplit_once_c s c = Some (a, b) \<longleftrightarrow> split_once_c (rev s) c = Some (rev b, rev a)"
    by (auto simp: rsplit_once_c_def simp del: split_once_c_None split: option.splits)
  also have "\<dots> \<longleftrightarrow> rev s = rev b @ c # rev a \<and> c \<notin> set b"
    by (simp add: split_once_c_Some)
  also have "rev s = rev b @ c # rev a \<longleftrightarrow> s = a @ c # b"
    by (metis append.assoc append_Cons append_Nil rev.simps(2) rev_append rev_rev_ident)
  finally show ?thesis .
qed

lemma split_once_c_notin [simp]: "c \<notin> set s \<Longrightarrow> split_once_c s c = None"
  by simp

lemma rsplit_once_c_notin [simp]: "c \<notin> set s \<Longrightarrow> rsplit_once_c s c = None"
  by simp

lemma split_once_c_mid [simp]: "c \<notin> set a \<Longrightarrow> split_once_c (a @ c # b) c = Some (a, b)"
  by (simp add: split_once_c_Some)

lemma rsplit_once_c_mid [simp]: "c \<notin> set b \<Longrightarrow> rsplit_once_c (a @ c # b) c = Some (a, b)"
  by (simp add: rsplit_once_c_Some)

lemma split_c_not_Nil [simp]: "split_c s c \<noteq> []"
  by (induction s) (auto split: list.splits)

lemma join_split_c: "join [c] (split_c s c) = s"
proof (induction s)
  case (Cons x xs)
  show ?case
  proof (cases "split_c xs c")
    case (Cons y ys)
    with Cons.IH show ?thesis by (cases ys) auto
  qed simp
qed simp

lemma split_c_no_sep: "y \<in> set (split_c s c) \<Longrightarrow> c \<notin> set y"
  by (induction s arbitrary: y) (auto split: if_splits list.splits)

lemma split_c_noop: "c \<notin> set s \<Longrightarrow> split_c s c = [s]"
  by (induction s) auto

lemma split_c_append: "c \<notin> set a \<Longrightarrow> split_c (a @ c # b) c = a # split_c b c"
  by (induction a) auto

lemma split_c_join:
  "xs \<noteq> [] \<Longrightarrow> \<forall>x\<in>set xs. c \<notin> set x \<Longrightarrow> split_c (join [c] xs) c = xs"
proof (induction xs rule: induct_list012)
  case (3 x y zs)
  then show ?case by (simp add: split_c_append)
qed (auto simp: split_c_noop)

lemma set_split_c: "y \<in> set (split_c s c) \<Longrightarrow> set y \<subseteq> set s"
  by (induction s arbitrary: y) (fastforce split: if_splits list.splits)+

text \<open>\<open>str::find\<close> with one ASCII byte.\<close>

definition find_c :: "char \<Rightarrow> str \<Rightarrow> nat option" where
  "find_c c s = (if List.member s c then Some (length (takeWhile (\<lambda>x. x \<noteq> c) s)) else None)"

lemma find_c_append: "c \<notin> set a \<Longrightarrow> find_c c (a @ c # b) = Some (length a)"
proof -
  assume "c \<notin> set a"
  then have "\<forall>x\<in>set a. x \<noteq> c" by auto
  then have "takeWhile (\<lambda>x. x \<noteq> c) (a @ c # b) = a"
    using takeWhile_no_match [of a "\<lambda>x. x \<noteq> c" "c # b"] by simp
  then show ?thesis by (simp add: find_c_def)
qed

lemma find_c_notin [simp]: "c \<notin> set s \<Longrightarrow> find_c c s = None"
  by (simp add: find_c_def)

lemma find_c_take:
  assumes "find_c c s = Some n"
  shows "n < length s \<and> s ! n = c \<and> c \<notin> set (take n s)"
proof -
  have c: "c \<in> set s" and n: "n = length (takeWhile (\<lambda>x. x \<noteq> c) s)"
    using assms by (auto simp: find_c_def split: if_splits)
  have "takeWhile (\<lambda>x. x \<noteq> c) s @ c # tl (dropWhile (\<lambda>x. x \<noteq> c) s) = s"
    using dropWhile_neq_Cons [OF c] by (metis takeWhile_dropWhile_id)
  then show ?thesis
    using takeWhile_neq_notin [of c s] unfolding n
    by (metis append_eq_conv_conj length_append length_Cons less_add_Suc1 add_Suc_right nth_append_length)
qed

lemma str_find_scheme:
  "CHR '':'' \<notin> set sch \<Longrightarrow> str_find ''://'' (sch @ CHR '':'' # CHR ''/'' # CHR ''/'' # t) = Some (length sch)"
  by (induction sch) auto

lemma split_once_scheme:
  "CHR '':'' \<notin> set sch \<Longrightarrow> split_once (sch @ CHR '':'' # CHR ''/'' # CHR ''/'' # t) ''://'' = Some (sch, t)"
  by (simp add: split_once_def str_find_scheme)

subsection \<open>Trimming one ASCII byte or a string\<close>

definition trim_start_c :: "str \<Rightarrow> char \<Rightarrow> str" where
  "trim_start_c s c = dropWhile (\<lambda>x. x = c) s"

definition trim_end_c :: "str \<Rightarrow> char \<Rightarrow> str" where
  "trim_end_c s c = rev (dropWhile (\<lambda>x. x = c) (rev s))"

definition trim_c :: "str \<Rightarrow> char \<Rightarrow> str" where
  "trim_c s c = trim_end_c (trim_start_c s c) c"

text \<open>\<open>trim_end_matches\<close> with a string pattern removes the suffix as often as it occurs.\<close>

function trim_end_str :: "str \<Rightarrow> str \<Rightarrow> str" where
  "trim_end_str s p =
     (if p \<noteq> [] \<and> ends_with s p then trim_end_str (take (length s - length p) s) p else s)"
  by pat_completeness auto
termination
proof (relation "measure (\<lambda>(s, p). length s)")
  fix s p :: str
  assume "p \<noteq> [] \<and> ends_with s p"
  then have "p \<noteq> []" "length p \<le> length s"
    by (auto simp: ends_with_suffix suffix_def)
  then show "((take (length s - length p) s, p), s, p) \<in> measure (\<lambda>(s, p). length s)"
    by (cases p) auto
qed simp

declare trim_end_str.simps [simp del]

lemma trim_end_c_idem [simp]: "trim_end_c (trim_end_c s c) c = trim_end_c s c"
  by (simp add: trim_end_c_def)

lemma trim_end_c_noop: "s = [] \<or> last s \<noteq> c \<Longrightarrow> trim_end_c s c = s"
  by (cases s rule: rev_cases) (auto simp: trim_end_c_def)

lemma trim_end_c_last: "trim_end_c s c = [] \<or> last (trim_end_c s c) \<noteq> c"
  by (induction s rule: rev_induct) (auto simp: trim_end_c_def)

lemma trim_end_c_prefix: "prefix (trim_end_c s c) s"
  by (induction s rule: rev_induct) (auto simp: trim_end_c_def prefix_snoc)

lemma trim_end_str_prefix: "prefix (trim_end_str s p) s"
proof (induction s p rule: trim_end_str.induct)
  case (1 s p)
  show ?case
  proof (cases "p \<noteq> [] \<and> ends_with s p")
    case True
    with "1.IH" have "prefix (trim_end_str (take (length s - length p) s) p) (take (length s - length p) s)"
      by blast
    also have "prefix (take (length s - length p) s) s" by (rule take_is_prefix)
    finally show ?thesis using True by (simp add: trim_end_str.simps [of s])
  next
    case False
    then show ?thesis by (subst trim_end_str.simps) auto
  qed
qed

lemma trim_end_str_noop: "\<not> ends_with s p \<Longrightarrow> trim_end_str s p = s"
  by (simp add: trim_end_str.simps)

subsection \<open>ASCII case\<close>

definition ascii_lower :: "char \<Rightarrow> char" where
  "ascii_lower c = (if 65 \<le> byte c \<and> byte c \<le> 90 then chr (byte c + 32) else c)"

definition ascii_upper :: "char \<Rightarrow> char" where
  "ascii_upper c = (if 97 \<le> byte c \<and> byte c \<le> 122 then chr (byte c - 32) else c)"

definition to_ascii_lowercase :: "str \<Rightarrow> str" where
  "to_ascii_lowercase s = map ascii_lower s"

definition to_ascii_uppercase :: "str \<Rightarrow> str" where
  "to_ascii_uppercase s = map ascii_upper s"

definition eq_ignore_ascii_case :: "str \<Rightarrow> str \<Rightarrow> bool" where
  "eq_ignore_ascii_case a b \<longleftrightarrow> to_ascii_lowercase a = to_ascii_lowercase b"

definition is_ascii_upper :: "char \<Rightarrow> bool" where
  "is_ascii_upper c \<longleftrightarrow> 65 \<le> byte c \<and> byte c \<le> 90"

definition is_ascii_lower :: "char \<Rightarrow> bool" where
  "is_ascii_lower c \<longleftrightarrow> 97 \<le> byte c \<and> byte c \<le> 122"

definition is_ascii_digit :: "char \<Rightarrow> bool" where
  "is_ascii_digit c \<longleftrightarrow> 48 \<le> byte c \<and> byte c \<le> 57"

definition is_ascii_alphanumeric :: "char \<Rightarrow> bool" where
  "is_ascii_alphanumeric c \<longleftrightarrow> is_ascii_upper c \<or> is_ascii_lower c \<or> is_ascii_digit c"

lemma ascii_lower_idem [simp]: "ascii_lower (ascii_lower c) = ascii_lower c"
  by (simp add: ascii_lower_def)

lemma to_ascii_lowercase_idem [simp]: "to_ascii_lowercase (to_ascii_lowercase s) = to_ascii_lowercase s"
  by (simp add: to_ascii_lowercase_def)

lemma to_ascii_lowercase_append [simp]:
  "to_ascii_lowercase (a @ b) = to_ascii_lowercase a @ to_ascii_lowercase b"
  by (simp add: to_ascii_lowercase_def)

lemma to_ascii_lowercase_Nil [simp]: "to_ascii_lowercase s = [] \<longleftrightarrow> s = []"
  by (simp add: to_ascii_lowercase_def)

lemma ascii_lower_fixes:
  "\<not> (65 \<le> byte c \<and> byte c \<le> 90) \<Longrightarrow> \<not> (97 \<le> byte c \<and> byte c \<le> 122) \<Longrightarrow> ascii_lower d = c \<longleftrightarrow> d = c"
  by (auto simp: ascii_lower_def split: if_splits)

lemma to_ascii_lowercase_mem:
  assumes "\<not> is_ascii_upper c" "\<not> is_ascii_lower c"
  shows "c \<in> set (to_ascii_lowercase s) \<longleftrightarrow> c \<in> set s"
proof -
  have *: "ascii_lower d = c \<longleftrightarrow> d = c" for d
    using assms ascii_lower_fixes [of c d] by (simp add: is_ascii_upper_def is_ascii_lower_def)
  then have "c \<in> ascii_lower ` set s \<longleftrightarrow> c \<in> set s" by (metis image_iff)
  then show ?thesis by (simp add: to_ascii_lowercase_def)
qed

subsection \<open>Numbers\<close>

definition digit_val :: "char \<Rightarrow> nat" where
  "digit_val c = byte c - 48"

definition digit_char :: "nat \<Rightarrow> char" where
  "digit_char n = chr (48 + n)"

fun show_nat :: "nat \<Rightarrow> str" where
  "show_nat n = (if n < 10 then [digit_char n] else show_nat (n div 10) @ [digit_char (n mod 10)])"

declare show_nat.simps [simp del]

definition show_int :: "int \<Rightarrow> str" where
  "show_int i = (if i < 0 then CHR ''-'' # show_nat (nat (- i)) else show_nat (nat i))"

definition parse_digits :: "str \<Rightarrow> nat option" where
  "parse_digits s =
     (if s \<noteq> [] \<and> list_all is_ascii_digit s then Some (foldl (\<lambda>n c. 10 * n + digit_val c) 0 s) else None)"

text \<open>\<open>str::parse\<close> at an unsigned width: an optional \<open>+\<close>, then digits, checked for overflow.\<close>

definition parse_unsigned :: "nat \<Rightarrow> str \<Rightarrow> nat option" where
  "parse_unsigned w s =
     (case parse_digits (case s of [] \<Rightarrow> [] | c # t \<Rightarrow> if c = CHR ''+'' then t else s) of
        None \<Rightarrow> None
      | Some n \<Rightarrow> if n < 2 ^ w then Some n else None)"

text \<open>\<open>str::parse\<close> at a signed width: an optional sign, then digits, checked for overflow.\<close>

definition parse_signed :: "nat \<Rightarrow> str \<Rightarrow> int option" where
  "parse_signed w s =
     (case s of
        [] \<Rightarrow> None
      | c # t \<Rightarrow>
          (if c = CHR ''-'' then
             (case parse_digits t of None \<Rightarrow> None
              | Some n \<Rightarrow> if n \<le> 2 ^ (w - 1) then Some (- int n) else None)
           else
             (case parse_digits (if c = CHR ''+'' then t else s) of None \<Rightarrow> None
              | Some n \<Rightarrow> if n < 2 ^ (w - 1) then Some (int n) else None)))"

abbreviation parse_u16 :: "str \<Rightarrow> nat option" where "parse_u16 \<equiv> parse_unsigned 16"
abbreviation parse_u64 :: "str \<Rightarrow> nat option" where "parse_u64 \<equiv> parse_unsigned 64"
abbreviation parse_i64 :: "str \<Rightarrow> int option" where "parse_i64 \<equiv> parse_signed 64"

lemma digit_char_simps [simp]:
  assumes "n < 10"
  shows "is_ascii_digit (digit_char n)" "digit_val (digit_char n) = n"
  using assms by (auto simp: digit_char_def is_ascii_digit_def digit_val_def)

lemma show_nat_not_Nil [simp]: "show_nat n \<noteq> []"
  by (subst show_nat.simps) simp

lemma show_nat_digits: "list_all is_ascii_digit (show_nat n)"
proof (induction n rule: show_nat.induct)
  case (1 n)
  then show ?case by (cases "n < 10") (simp_all add: show_nat.simps [of n])
qed

lemma show_nat_value: "foldl (\<lambda>n c. 10 * n + digit_val c) 0 (show_nat n) = n"
proof (induction n rule: show_nat.induct)
  case (1 n)
  then show ?case by (cases "n < 10") (simp_all add: show_nat.simps [of n])
qed

lemma parse_digits_show_nat [simp]: "parse_digits (show_nat n) = Some n"
  by (simp add: parse_digits_def show_nat_digits show_nat_value)

lemma show_nat_hd: "is_ascii_digit (hd (show_nat n))"
  using show_nat_digits [of n] by (cases "show_nat n") auto

lemma show_nat_Cons: "show_nat n = c # t \<Longrightarrow> is_ascii_digit c"
  using show_nat_hd [of n] by simp

lemma digit_not_sign: "is_ascii_digit c \<Longrightarrow> c \<noteq> CHR ''+'' \<and> c \<noteq> CHR ''-''"
  by (auto simp: is_ascii_digit_def byte_def)

lemma parse_unsigned_show_nat: "n < 2 ^ w \<Longrightarrow> parse_unsigned w (show_nat n) = Some n"
proof -
  assume n: "n < 2 ^ w"
  obtain c t where s: "show_nat n = c # t" by (cases "show_nat n") auto
  then have "c \<noteq> CHR ''+''" using show_nat_Cons digit_not_sign by blast
  with s have "(case show_nat n of [] \<Rightarrow> [] | c # t \<Rightarrow> if c = CHR ''+'' then t else show_nat n) = show_nat n"
    by simp
  then show ?thesis by (simp add: parse_unsigned_def n)
qed

lemma parse_unsigned_bound: "parse_unsigned w s = Some n \<Longrightarrow> n < 2 ^ w"
  by (auto simp: parse_unsigned_def split: option.splits if_splits)

lemma parse_signed_show_int:
  "- (2 ^ (w - 1)) \<le> i \<Longrightarrow> i < 2 ^ (w - 1) \<Longrightarrow> parse_signed w (show_int i) = Some i"
proof -
  assume lo: "- (2 ^ (w - 1)) \<le> i" and hi: "i < 2 ^ (w - 1)"
  show ?thesis
  proof (cases "i < 0")
    case True
    have "nat (- i) \<le> 2 ^ (w - 1)" using lo by (simp add: nat_le_iff)
    then show ?thesis using True by (simp add: show_int_def parse_signed_def)
  next
    case False
    obtain c t where s: "show_nat (nat i) = c # t" by (cases "show_nat (nat i)") auto
    then have c: "c \<noteq> CHR ''+'' \<and> c \<noteq> CHR ''-''" using show_nat_Cons digit_not_sign by blast
    have "nat i < 2 ^ (w - 1)" using hi by (simp add: False nat_less_iff)
    then show ?thesis using False c s parse_digits_show_nat [of "nat i"]
      by (simp add: show_int_def parse_signed_def)
  qed
qed

subsection \<open>Replacing\<close>

text \<open>\<open>str::replace\<close>: every non-overlapping occurrence from the left; the pattern is not empty.\<close>

function replace_all :: "str \<Rightarrow> str \<Rightarrow> str \<Rightarrow> str" where
  "replace_all s p r =
     (if p = [] then s
      else (case str_find p s of None \<Rightarrow> s
            | Some i \<Rightarrow> take i s @ r @ replace_all (drop (i + length p) s) p r))"
  by pat_completeness auto
termination
proof (relation "measure (\<lambda>(s, p, r). length s)")
  fix s p r :: str and i
  assume p: "p \<noteq> []" and "str_find p s = Some i"
  then have "s = take i s @ p @ drop (i + length p) s" by (intro str_find_split)
  then have "length s = length (take i s) + length p + length (drop (i + length p) s)"
    by (metis add.assoc length_append)
  then show "((drop (i + length p) s, p, r), s, p, r) \<in> measure (\<lambda>(s, p, r). length s)"
    using p by (cases p) auto
qed simp

declare replace_all.simps [simp del]

subsection \<open>Printable ASCII\<close>

definition printable :: "str \<Rightarrow> bool" where
  "printable s = list_all (\<lambda>c. 33 \<le> byte c \<and> byte c \<le> 126) s"

lemma printable_append [simp]: "printable (a @ b) \<longleftrightarrow> printable a \<and> printable b"
  by (simp add: printable_def)

lemma printable_Cons [simp]: "printable (c # b) \<longleftrightarrow> 33 \<le> byte c \<and> byte c \<le> 126 \<and> printable b"
  by (simp add: printable_def)

lemma printable_Nil [simp]: "printable []"
  by (simp add: printable_def)

lemma single_ws: "[c] \<in> set unicode_ws \<Longrightarrow> byte c < 33"
  by (auto simp: unicode_ws_def byte_def)

lemma trim_printable: "printable s \<Longrightarrow> trim s = s"
proof -
  assume p: "printable s"
  then have "\<forall>c\<in>set s. is_ascii c" by (auto simp: printable_def list_all_iff is_ascii_def)
  then have ch: "chars s = map (\<lambda>c. [c]) s" by (rule chars_ascii)
  have nw: "\<forall>x\<in>set (chars s). \<not> is_whitespace x"
  proof
    fix x assume "x \<in> set (chars s)"
    then obtain c where c: "c \<in> set s" "x = [c]" unfolding ch by auto
    then have "\<not> byte c < 33" using p by (auto simp: printable_def list_all_iff)
    then have "[c] \<notin> set unicode_ws" using single_ws by blast
    then show "\<not> is_whitespace x" by (simp add: is_whitespace_def c(2))
  qed
  have dw: "dropWhile is_whitespace xs = xs" if "\<forall>x\<in>set xs. \<not> is_whitespace x" for xs
    using that by (cases xs) auto
  have "trim_start s = s" unfolding trim_start_def using dw [OF nw] by simp
  moreover have "trim_end s = s" unfolding trim_end_def using dw [of "rev (chars s)"] nw by simp
  ultimately show ?thesis by (simp add: trim_def)
qed

lemma split_c_mid: "split_c (a @ c # b) c = split_c a c @ split_c b c"
proof (induction a)
  case (Cons x a)
  show ?case
  proof (cases "x = c")
    case False
    obtain y ys where "split_c a c = y # ys" by (cases "split_c a c") auto
    then show ?thesis using Cons False by simp
  qed (use Cons in simp)
qed simp

end
