(* ===== verification/Codec.thy ===== *)
theory Codec
  imports Rust_Str
begin

text \<open>
  The contract that every encoder/decoder pair of the program offers its callers.  The client
  code (the HTTP Basic header, the wiki page body, the query string of a request) relies on
  exactly these laws, and the theories of the encoders interpret the locales on their own
  definitions.
\<close>

text \<open>
  \<open>enc\<close> never fails; \<open>dec\<close> may.  \<open>ok\<close> says which values the encoder is given
  (for text codecs: byte lists that are UTF-8).
\<close>

locale codec =
  fixes enc :: "'a \<Rightarrow> str"
    and dec :: "str \<Rightarrow> 'a option"
    and ok :: "'a \<Rightarrow> bool"
  assumes dec_enc: "ok x \<Longrightarrow> dec (enc x) = Some x"
begin

lemma enc_inject: "ok x \<Longrightarrow> ok y \<Longrightarrow> enc x = enc y \<longleftrightarrow> x = y"
  by (metis dec_enc option.inject)

lemma enc_inj_on: "inj_on enc {x. ok x}"
  by (auto simp: inj_on_def enc_inject)

text \<open>Encoding a list of values elementwise loses nothing.\<close>

lemma map_dec_enc: "\<forall>x\<in>set xs. ok x \<Longrightarrow> map dec (map enc xs) = map Some xs"
  by (induction xs) (auto simp: dec_enc)

lemma map_enc_inject:
  "\<forall>x\<in>set xs. ok x \<Longrightarrow> \<forall>y\<in>set ys. ok y \<Longrightarrow> map enc xs = map enc ys \<longleftrightarrow> xs = ys"
  by (intro inj_on_map_eq_map) (auto simp: inj_on_def enc_inject)

end

text \<open>
  A strict codec: the decoder accepts nothing but encodings, up to \<open>norm\<close> (the characters
  it ignores).  Two different texts that decode to one value are then the same text.
\<close>

locale strict_codec = codec +
  fixes norm :: "str \<Rightarrow> str"
  assumes enc_dec: "dec s = Some x \<Longrightarrow> enc x = norm s"
begin

lemma dec_inject: "dec s = Some x \<Longrightarrow> dec t = Some x \<Longrightarrow> norm s = norm t"
  using enc_dec by metis

lemma dec_image: "dec s \<noteq> None \<Longrightarrow> norm s \<in> range enc"
  by (metis enc_dec option.exhaust rangeI)

end

text \<open>
  A codec whose output avoids a separator: what a caller needs to put encoded values side by side
  and get them back by splitting.
\<close>

locale separated_codec = codec +
  fixes sep :: char
  assumes enc_sep: "sep \<notin> set (enc x)"
begin

lemma split_join_enc:
  assumes "xs \<noteq> []" "\<forall>x\<in>set xs. ok x"
  shows "map dec (split_c (join [sep] (map enc xs)) sep) = map Some xs"
proof -
  have "split_c (join [sep] (map enc xs)) sep = map enc xs"
    using assms(1) enc_sep by (intro split_c_join) auto
  then show ?thesis using map_dec_enc [OF assms(2)] by simp
qed

lemma split_enc: "split_c (enc x) sep = [enc x]"
  by (simp add: split_c_noop enc_sep)

end

end
