(* ===== verification/Encode.thy ===== *)
theory Encode
  imports Codec
begin

text \<open>
  Percent-encoding of path parameters and query values: \<open>crates/forgejo-core/src/http/encode.rs\<close>.
  A byte is kept when it is RFC 3986 unreserved (or named in \<open>extra\<close>), and written as
  \<open>%XX\<close> otherwise.  The Rust function returns the input unchanged when no byte needs encoding;
  the model keeps that branch, and \<open>encode_eq_concat\<close> shows that it changes nothing.
\<close>

subsection \<open>Encoding\<close>

definition is_unreserved :: "char \<Rightarrow> bool" where
  "is_unreserved b \<longleftrightarrow> is_ascii_alphanumeric b
     \<or> b = CHR ''-'' \<or> b = CHR ''.'' \<or> b = CHR ''_'' \<or> b = CHR ''~''"

definition HEX :: str where
  "HEX = ''0123456789ABCDEF''"

definition pct :: "char \<Rightarrow> str" where
  "pct b = [CHR ''%'', HEX ! (byte b div 16), HEX ! (byte b mod 16)]"

definition keep_byte :: "str \<Rightarrow> char \<Rightarrow> bool" where
  "keep_byte extra b \<longleftrightarrow> is_unreserved b \<or> List.member extra b"

definition encode_pct :: "str \<Rightarrow> str \<Rightarrow> str" where
  "encode_pct s extra =
     (if list_all (keep_byte extra) s then s
      else concat (map (\<lambda>b. if keep_byte extra b then [b] else pct b) s))"

definition seg :: "str \<Rightarrow> str" where
  "seg s = encode_pct s []"

definition path_like :: "str \<Rightarrow> str" where
  "path_like s = encode_pct s ''/''"

definition query :: "str \<Rightarrow> str" where
  "query s = encode_pct s []"

definition form :: "str \<Rightarrow> str" where
  "form s = concat (map (\<lambda>b. if b = CHR '' '' then ''+'' else if is_unreserved b then [b] else pct b) s)"

fun query_string_from :: "str \<Rightarrow> (str \<times> str) list \<Rightarrow> str" where
  "query_string_from out [] = out"
| "query_string_from out ((k, v) # ps) =
     query_string_from ((if out \<noteq> [] then out @ ''&'' else out) @ query k @ ''='' @ query v) ps"

definition query_string :: "(str \<times> str) list \<Rightarrow> str" where
  "query_string ps = query_string_from [] ps"

subsection \<open>Decoding\<close>

definition unhex :: "char \<Rightarrow> nat option" where
  "unhex b =
     (if 48 \<le> byte b \<and> byte b \<le> 57 then Some (byte b - 48)
      else if 97 \<le> byte b \<and> byte b \<le> 102 then Some (byte b - 97 + 10)
      else if 65 \<le> byte b \<and> byte b \<le> 70 then Some (byte b - 65 + 10)
      else None)"

text \<open>The scanning loop of \<open>decode_query\<close>; a \<open>%\<close> needs two more bytes to be an escape.\<close>

fun decode_loop :: "str \<Rightarrow> str" where
  "decode_loop [] = []"
| "decode_loop (c # cs) =
     (if c = CHR ''+'' then CHR '' '' # decode_loop cs
      else if c = CHR ''%'' then
        (case cs of
           h # l # rest \<Rightarrow>
             (case (unhex h, unhex l) of
                (Some hi, Some lo) \<Rightarrow> chr (16 * hi + lo) # decode_loop rest
              | _ \<Rightarrow> CHR ''%'' # decode_loop cs)
         | _ \<Rightarrow> c # decode_loop cs)
      else c # decode_loop cs)"

definition decode_query :: "str \<Rightarrow> str option" where
  "decode_query s =
     (if \<not> (List.member s CHR ''%'' \<or> List.member s CHR ''+'') then Some s
      else from_utf8 (decode_loop s))"

subsection \<open>Lemmas\<close>

lemma HEX_nth_set: "n < 16 \<Longrightarrow> HEX ! n \<in> set HEX"
  by (rule nth_mem) (simp add: HEX_def)

lemma unhex_HEX: "n < 16 \<Longrightarrow> unhex (HEX ! n) = Some n"
proof -
  have "list_all (\<lambda>n. unhex (HEX ! n) = Some n) [0..<16]" by code_simp
  then show "n < 16 \<Longrightarrow> unhex (HEX ! n) = Some n" by (simp add: list_all_iff)
qed

lemma HEX_unreserved: "list_all is_unreserved HEX"
  by code_simp

lemma HEX_nth_unreserved [simp]: "n < 16 \<Longrightarrow> is_unreserved (HEX ! n)"
  using HEX_unreserved HEX_nth_set by (auto simp: list_all_iff)

lemma pct_nibbles [simp]: "byte b div 16 < 16" "byte b mod 16 < 16"
  using byte_less [of b] by linarith simp

lemma decode_pct [simp]: "decode_loop (pct b @ s) = b # decode_loop s"
  by (simp add: pct_def unhex_HEX)

lemma is_unreserved_not [simp]:
  "\<not> is_unreserved CHR ''%''" "\<not> is_unreserved CHR ''+''" "\<not> is_unreserved CHR ''/''"
  "\<not> is_unreserved CHR ''&''" "\<not> is_unreserved CHR ''=''" "\<not> is_unreserved CHR ''?''"
  "\<not> is_unreserved CHR ''#''" "\<not> is_unreserved CHR '' ''"
  by code_simp+

lemma is_ascii_unreserved: "is_unreserved c \<Longrightarrow> is_ascii c"
  by (auto simp: is_unreserved_def is_ascii_alphanumeric_def is_ascii_upper_def is_ascii_lower_def
      is_ascii_digit_def is_ascii_def byte_def)

lemma is_ascii_signs [simp]: "is_ascii CHR ''%''" "is_ascii CHR ''+''"
  by code_simp+

lemma encode_eq_concat:
  "encode_pct s extra = concat (map (\<lambda>b. if keep_byte extra b then [b] else pct b) s)"
proof (cases "list_all (keep_byte extra) s")
  case True
  then have "concat (map (\<lambda>b. if keep_byte extra b then [b] else pct b) s) = s"
    by (induction s) auto
  with True show ?thesis by (simp add: encode_pct_def)
qed (auto simp: encode_pct_def)

lemma encode_pct_Nil [simp]: "encode_pct [] extra = []"
  by (simp add: encode_eq_concat)

lemma encode_pct_Cons:
  "encode_pct (c # s) extra = (if keep_byte extra c then [c] else pct c) @ encode_pct s extra"
  by (simp add: encode_eq_concat)

lemma encode_pct_append: "encode_pct (s @ t) extra = encode_pct s extra @ encode_pct t extra"
  by (simp add: encode_eq_concat)

lemma set_encode_pct: "c \<in> set (encode_pct s extra) \<Longrightarrow> is_unreserved c \<or> c \<in> set extra \<or> c = CHR ''%''"
  by (auto simp: encode_eq_concat pct_def keep_byte_def split: if_splits)

lemma decode_loop_encode:
  assumes "CHR ''%'' \<notin> set extra" "CHR ''+'' \<notin> set extra"
  shows "decode_loop (encode_pct s extra) = s"
proof (induction s)
  case (Cons c s)
  show ?case
  proof (cases "keep_byte extra c")
    case True
    then have "c \<noteq> CHR ''%''" "c \<noteq> CHR ''+''"
      using assms is_unreserved_not by (auto simp: keep_byte_def)
    then show ?thesis using True Cons by (simp add: encode_pct_Cons)
  next
    case False
    then show ?thesis using Cons by (simp add: encode_pct_Cons)
  qed
qed simp

lemma decode_loop_noop:
  "CHR ''%'' \<notin> set s \<Longrightarrow> CHR ''+'' \<notin> set s \<Longrightarrow> decode_loop s = s"
  by (induction s) auto

lemma decode_query_loop: "utf8_valid s \<Longrightarrow> decode_query s = from_utf8 (decode_loop s)"
  by (simp add: decode_query_def decode_loop_noop from_utf8_def)

lemma utf8_valid_query: "utf8_valid (query s)"
  by (rule utf8_valid_ascii) (auto simp: query_def dest!: set_encode_pct intro: is_ascii_unreserved)

lemma decode_loop_form: "decode_loop (form s) = s"
  by (induction s) (auto simp: form_def)

lemma utf8_valid_form: "utf8_valid (form s)"
  by (rule utf8_valid_ascii)
     (auto simp: form_def pct_def is_ascii_unreserved split: if_splits)

subsection \<open>The codecs\<close>

interpretation query_codec: codec query decode_query utf8_valid
  by unfold_locales
     (simp add: decode_query_loop utf8_valid_query, simp add: query_def decode_loop_encode from_utf8_def)

interpretation form_codec: codec form decode_query utf8_valid
  by unfold_locales (simp add: decode_query_loop utf8_valid_form decode_loop_form from_utf8_def)

interpretation seg_codec: separated_codec seg decode_query utf8_valid "CHR ''/''"
  by unfold_locales
     (simp add: seg_def query_codec.dec_enc [unfolded query_def], auto simp: seg_def dest!: set_encode_pct)

lemma seg_no_structural:
  "c \<in> {CHR ''/'', CHR ''?'', CHR ''#'', CHR ''&'', CHR ''='', CHR '' ''} \<Longrightarrow> c \<notin> set (seg s)"
  by (auto simp: seg_def dest!: set_encode_pct)

lemma query_no_structural:
  "c \<in> {CHR ''/'', CHR ''?'', CHR ''#'', CHR ''&'', CHR ''='', CHR '' '', CHR ''+''} \<Longrightarrow> c \<notin> set (query s)"
  by (auto simp: query_def dest!: set_encode_pct)

lemma split_path_like: "split_c (path_like s) CHR ''/'' = map seg (split_c s CHR ''/'')"
proof (induction s)
  case Nil
  then show ?case by (simp add: path_like_def seg_def)
next
  case (Cons c s)
  have keep: "keep_byte ''/'' c \<longleftrightarrow> c = CHR ''/'' \<or> keep_byte [] c"
    by (auto simp: keep_byte_def)
  obtain y ys where y: "split_c s CHR ''/'' = y # ys"
    by (cases "split_c s CHR ''/''") auto
  have no: "CHR ''/'' \<notin> set (if keep_byte [] c then [c] else pct c)" if "c \<noteq> CHR ''/''"
    using that set_encode_pct [of "CHR ''/''" "[c]" "[]"] by (auto simp: encode_pct_Cons)
  have split: "split_c (a @ path_like s) CHR ''/'' = (a @ seg y) # map seg ys" if "CHR ''/'' \<notin> set a" for a
    using that Cons.IH y by (induction a) auto
  show ?case
    using Cons.IH y no split [of "if keep_byte [] c then [c] else pct c"]
    by (auto simp: path_like_def seg_def encode_pct_Cons keep)
qed

text \<open>Reading a query string back, as the server does: split at \<open>&\<close>, then at the first \<open>=\<close>.\<close>

definition read_pair :: "str \<Rightarrow> (str \<times> str) option" where
  "read_pair p = (case split_once_c p CHR ''='' of None \<Rightarrow> None
     | Some (k, v) \<Rightarrow> (case (decode_query k, decode_query v) of
         (Some k', Some v') \<Rightarrow> Some (k', v') | _ \<Rightarrow> None))"

definition write_pair :: "str \<times> str \<Rightarrow> str" where
  "write_pair p = query (fst p) @ ''='' @ query (snd p)"

interpretation pair_codec: separated_codec write_pair read_pair
  "\<lambda>p. utf8_valid (fst p) \<and> utf8_valid (snd p)" "CHR ''&''"
proof unfold_locales
  fix p :: "str \<times> str"
  assume ok: "utf8_valid (fst p) \<and> utf8_valid (snd p)"
  have "split_once_c (write_pair p) CHR ''='' = Some (query (fst p), query (snd p))"
    by (simp add: write_pair_def split_once_c_Some query_no_structural)
  with ok show "read_pair (write_pair p) = Some p"
    by (simp add: read_pair_def query_codec.dec_enc)
next
  show "CHR ''&'' \<notin> set (write_pair p)" for p
    by (simp add: write_pair_def query_no_structural)
qed

lemma query_string_from_join:
  "query_string_from out ps =
     (if ps = [] then out else if out = [] then join ''&'' (map write_pair ps)
      else out @ ''&'' @ join ''&'' (map write_pair ps))"
proof (induction ps arbitrary: out)
  case (Cons p ps)
  obtain k v where p: "p = (k, v)" by force
  show ?case using Cons.IH by (cases ps) (auto simp: p write_pair_def)
qed simp

lemma query_string_join: "query_string ps = join ''&'' (map write_pair ps)"
  by (simp add: query_string_def query_string_from_join)

lemma query_string_read:
  assumes "ps \<noteq> []" "\<forall>p\<in>set ps. utf8_valid (fst p) \<and> utf8_valid (snd p)"
  shows "map read_pair (split_c (query_string ps) CHR ''&'') = map Some ps"
  using pair_codec.split_join_enc [OF assms] by (simp add: query_string_join)

subsection \<open>Properties\<close>

text \<open>C11. A path parameter is one segment of the URL: whatever the value, its encoding holds no
  character that could end the segment, start a query or a fragment, and it reads back.\<close>

theorem seg_stays_one_segment:
  "split_c (seg s) CHR ''/'' = [seg s]
   \<and> (\<forall>c \<in> {CHR ''/'', CHR ''?'', CHR ''#'', CHR ''&'', CHR ''='', CHR '' ''}. c \<notin> set (seg s))
   \<and> Encode.decode_loop (seg s) = s"
proof -
  have "CHR ''%'' \<notin> set []" "CHR ''+'' \<notin> set []" by simp_all
  note decode_loop_encode [OF this, of s]
  then show ?thesis using seg_codec.split_enc seg_no_structural by (auto simp: seg_def)
qed

theorem seg_stays_one_segment_witness:
  "seg ''a/b c'' = ''a%2Fb%20c'' \<and> split_c (seg ''a/b c'') CHR ''/'' = [seg ''a/b c'']"
proof -
  have "seg ''a/b c'' = ''a%2Fb%20c''" by code_simp
  then show ?thesis using seg_stays_one_segment [of "''a/b c''"] by simp
qed

text \<open>A slash in a path-like parameter is kept, and every segment between slashes is encoded
  exactly as a single path parameter is.\<close>

theorem path_like_keeps_segments:
  "split_c (path_like s) CHR ''/'' = map seg (split_c s CHR ''/'')"
  by (rule split_path_like)

text \<open>The query string of a request reads back as the list of pairs it was made from, in
  order, repeated keys included: split at ampersands, then at the first equals sign, then decode.\<close>

theorem query_string_reads_back:
  assumes "ps \<noteq> []" "\<forall>p\<in>set ps. utf8_valid (fst p) \<and> utf8_valid (snd p)"
  shows "map read_pair (split_c (query_string ps) CHR ''&'') = map Some ps"
  by (rule query_string_read [OF assms])

theorem query_string_reads_back_witness:
  "map read_pair (split_c (query_string [(''q'', ''a&b=c''), (''q'', ''x y'')]) CHR ''&'')
   = [Some (''q'', ''a&b=c''), Some (''q'', ''x y'')]"
proof -
  have "\<forall>p\<in>set [(''q'', ''a&b=c''), (''q'', ''x y'')]. utf8_valid (fst p) \<and> utf8_valid (snd p)"
    by (simp add: byte_def)
  then show ?thesis
    using query_string_reads_back [of "[(''q'', ''a&b=c''), (''q'', ''x y'')]"] by simp
qed

end
