(* ===== verification/Base64.thy ===== *)
theory Base64
  imports Codec "HOL-Library.Word"
begin

unbundle bit_operations_syntax

text \<open>
  Base64: \<open>crates/forgejo-core/src/http/base64.rs\<close> (the strict codec behind HTTP Basic, PKCE and
  the JSON bodies) and \<open>crates/fjo/src/cmd/wiki/b64.rs\<close> (the lenient reader of wiki pages).
  The accumulators are 32-bit words, as in the code: the bits shifted out at the top are lost.
\<close>

subsection \<open>Encoding\<close>

definition ALPHABET :: str where
  "ALPHABET = ''ABCDEFGHIJKLMNOPQRSTUVWXYZabcdefghijklmnopqrstuvwxyz0123456789+/''"

definition URL_ALPHABET :: str where
  "URL_ALPHABET = ''ABCDEFGHIJKLMNOPQRSTUVWXYZabcdefghijklmnopqrstuvwxyz0123456789-_''"

text \<open>\<open>u32::from(b)\<close> of a byte.\<close>

definition u32 :: "char \<Rightarrow> 32 word" where
  "u32 b = of_nat (byte b)"

text \<open>\<open>slice::chunks(3)\<close>.\<close>

fun chunks3 :: "str \<Rightarrow> str list" where
  "chunks3 [] = []"
| "chunks3 (a # b # c # rest) = [a, b, c] # chunks3 rest"
| "chunks3 rest = [rest]"

lemmas chunks3_induct = chunks3.induct [case_names Nil More One Two]

definition chunk_bits :: "str \<Rightarrow> 32 word" where
  "chunk_bits chunk =
     push_bit 16 (u32 (chunk ! 0))
     OR push_bit 8 (if 1 < length chunk then u32 (chunk ! 1) else 0)
     OR (if 2 < length chunk then u32 (chunk ! 2) else 0)"

text \<open>The sextet \<open>n >> (18 - 6 * i) & 0x3f\<close>.\<close>

definition sx :: "32 word \<Rightarrow> nat \<Rightarrow> 32 word" where
  "sx n i = drop_bit (18 - 6 * i) n AND 63"

definition encode_chunk :: "str \<Rightarrow> bool \<Rightarrow> str \<Rightarrow> str" where
  "encode_chunk alphabet pad chunk =
     concat (map (\<lambda>i. if i \<le> length chunk
                      then [alphabet ! unat (sx (chunk_bits chunk) i)]
                      else if pad then ''='' else []) [0..<4])"

definition encode_with :: "str \<Rightarrow> str \<Rightarrow> bool \<Rightarrow> str" where
  "encode_with bytes alphabet pad = concat (map (encode_chunk alphabet pad) (chunks3 bytes))"

definition encode :: "str \<Rightarrow> str" where
  "encode input = encode_with input ALPHABET True"

definition encode_url_nopad :: "str \<Rightarrow> str" where
  "encode_url_nopad input = encode_with input URL_ALPHABET False"

subsection \<open>Strict decoding\<close>

definition sextet :: "char \<Rightarrow> 32 word option" where
  "sextet b =
     (if 65 \<le> byte b \<and> byte b \<le> 90 then Some (u32 b - 65)
      else if 97 \<le> byte b \<and> byte b \<le> 122 then Some (u32 b - 97 + 26)
      else if 48 \<le> byte b \<and> byte b \<le> 57 then Some (u32 b - 48 + 52)
      else if b = CHR ''+'' then Some 62
      else if b = CHR ''/'' then Some 63
      else None)"

text \<open>
  The decoding loop: the bytes pushed out, and the accumulator and bit count left at the end.
  \<open>low_byte\<close> is the cast \<open>as u8\<close>.
\<close>

definition low_byte :: "32 word \<Rightarrow> char" where
  "low_byte w = chr (unat (take_bit 8 w))"

fun decode_loop :: "32 word \<Rightarrow> nat \<Rightarrow> str \<Rightarrow> (str \<times> 32 word \<times> nat) option" where
  "decode_loop acc bits [] = Some ([], acc, bits)"
| "decode_loop acc bits (b # bs) =
     (case sextet b of None \<Rightarrow> None
      | Some v \<Rightarrow>
          (let acc' = push_bit 6 acc OR v; bits' = bits + 6
           in if 8 \<le> bits' then
                (case decode_loop acc' (bits' - 8) bs of None \<Rightarrow> None
                 | Some (out, r) \<Rightarrow> Some (low_byte (drop_bit (bits' - 8) acc') # out, r))
              else decode_loop acc' bits' bs))"

definition payload_of :: "str \<Rightarrow> str option" where
  "payload_of clean =
     (let at = length (takeWhile (\<lambda>b. b \<noteq> CHR ''='') clean) in
      if at = length clean then Some clean
      else if at + 2 < length clean \<or> at + 4 \<le> length clean then None
      else if \<not> list_all (\<lambda>b. b = CHR ''='') (drop at clean) then None
      else Some (take at clean))"

definition decode :: "str \<Rightarrow> str option" where
  "decode input =
     (let clean = filter (\<lambda>b. \<not> is_ascii_ws b) input in
      if \<not> 4 dvd length clean then None
      else (case payload_of clean of None \<Rightarrow> None
        | Some payload \<Rightarrow>
            (case decode_loop 0 0 payload of None \<Rightarrow> None
             | Some (out, acc, bits) \<Rightarrow>
                 if 0 < bits \<and> acc AND (push_bit bits 1 - 1) \<noteq> 0 then None else Some out)))"

definition decode_lenient :: "str \<Rightarrow> str" where
  "decode_lenient input =
     (case decode input of Some bytes \<Rightarrow> (case from_utf8 bytes of Some t \<Rightarrow> t | None \<Rightarrow> input)
      | None \<Rightarrow> input)"

subsection \<open>The wiki codec\<close>

definition wiki_encode :: "str \<Rightarrow> str" where
  "wiki_encode input =
     concat (map (\<lambda>chunk. concat (map (\<lambda>i. if i \<le> length chunk
                                             then [ALPHABET ! unat (sx (chunk_bits chunk) i)]
                                             else ''='') [0..<4])) (chunks3 input))"

definition wiki_sextet :: "char \<Rightarrow> 32 word option" where
  "wiki_sextet ch =
     (if 65 \<le> byte ch \<and> byte ch \<le> 90 then Some (u32 ch - 65)
      else if 97 \<le> byte ch \<and> byte ch \<le> 122 then Some (u32 ch - 97 + 26)
      else if 48 \<le> byte ch \<and> byte ch \<le> 57 then Some (u32 ch - 48 + 52)
      else if ch = CHR ''+'' \<or> ch = CHR ''-'' then Some 62
      else if ch = CHR ''/'' \<or> ch = CHR ''_'' then Some 63
      else None)"

text \<open>
  The loop runs over \<open>chars()\<close>; a multi-byte character is in no arm of the match, and neither is
  any of its bytes, so the loop over bytes returns \<open>None\<close> in the same cases.
\<close>

fun wiki_loop :: "32 word \<Rightarrow> nat \<Rightarrow> nat \<Rightarrow> str \<Rightarrow> (str \<times> 32 word \<times> nat \<times> nat) option" where
  "wiki_loop acc bits padding [] = Some ([], acc, bits, padding)"
| "wiki_loop acc bits padding (ch # rest) =
     (if is_ascii_ws ch then wiki_loop acc bits padding rest
      else if ch = CHR ''='' then wiki_loop acc bits (padding + 1) rest
      else if 0 < padding then None
      else (case wiki_sextet ch of None \<Rightarrow> None
        | Some v \<Rightarrow>
            (let acc' = push_bit 6 acc OR v; bits' = bits + 6
             in if 8 \<le> bits' then
                  (case wiki_loop acc' (bits' - 8) padding rest of None \<Rightarrow> None
                   | Some (out, r) \<Rightarrow> Some (low_byte (drop_bit (bits' - 8) acc' AND 255) # out, r))
                else wiki_loop acc' bits' padding rest)))"

definition wiki_decode_bytes :: "str \<Rightarrow> str option" where
  "wiki_decode_bytes input =
     (case wiki_loop 0 0 0 input of None \<Rightarrow> None
      | Some (out, acc, bits, padding) \<Rightarrow>
          if 6 \<le> bits \<or> acc AND (push_bit bits 1 - 1) \<noteq> 0 then None
          else if 2 < padding \<or> (out = [] \<and> list_ex (\<lambda>c. \<not> is_ascii_ws c) input) then None
          else Some out)"

text \<open>\<open>lossy\<close> stands for \<open>String::from_utf8_lossy\<close>, which is the identity on UTF-8.\<close>

definition wiki_decode :: "(str \<Rightarrow> str) \<Rightarrow> str \<Rightarrow> str" where
  "wiki_decode lossy input =
     (case wiki_decode_bytes input of Some bytes \<Rightarrow> lossy bytes | None \<Rightarrow> input)"

subsection \<open>Alphabet lemmas\<close>

lemma ALPHABET_ranges:
  "n < 26 \<Longrightarrow> ALPHABET ! n = chr (65 + n)"
  "n < 26 \<Longrightarrow> ALPHABET ! (26 + n) = chr (97 + n)"
  "n < 10 \<Longrightarrow> ALPHABET ! (52 + n) = chr (48 + n)"
proof -
  have "list_all (\<lambda>n. ALPHABET ! n = chr (65 + n)) [0..<26]"
    "list_all (\<lambda>n. ALPHABET ! (26 + n) = chr (97 + n)) [0..<26]"
    "list_all (\<lambda>n. ALPHABET ! (52 + n) = chr (48 + n)) [0..<10]" by code_simp+
  then show "n < 26 \<Longrightarrow> ALPHABET ! n = chr (65 + n)"
    "n < 26 \<Longrightarrow> ALPHABET ! (26 + n) = chr (97 + n)"
    "n < 10 \<Longrightarrow> ALPHABET ! (52 + n) = chr (48 + n)" by (simp_all add: list_all_iff)
qed

lemma ALPHABET_last: "ALPHABET ! 62 = CHR ''+''" "ALPHABET ! 63 = CHR ''/''"
  by code_simp+

lemma sextet_ALPHABET: "n < 64 \<Longrightarrow> sextet (ALPHABET ! n) = Some (of_nat n)"
proof -
  assume "n < 64"
  then consider "n < 26" | k where "n = 26 + k" "k < 26" | k where "n = 52 + k" "k < 10"
    | "n = 62" | "n = 63"
    using that(2) [of "n - 26"] that(3) [of "n - 52"] by linarith
  then show ?thesis
  proof cases
    case 1
    then show ?thesis by (simp add: ALPHABET_ranges(1) sextet_def u32_def)
  next
    case 2
    then show ?thesis by (simp add: ALPHABET_ranges(2) sextet_def u32_def)
  next
    case 3
    then show ?thesis by (simp add: ALPHABET_ranges(3) sextet_def u32_def)
  qed (simp_all add: ALPHABET_last sextet_def byte_def)
qed

lemma byte_mod32 [simp]: "byte c mod 4294967296 = byte c"
  using byte_less [of c] by (intro mod_less) linarith

lemma unat_u32 [simp]: "unat (u32 c) = byte c"
  by (simp add: u32_def unat_of_nat take_bit_eq_mod)

lemma unat_u32_shift:
  assumes "k \<le> byte c" "j < 1000"
  shows "unat (u32 c - of_nat k + of_nat j) = byte c - k + j"
proof -
  have "u32 c - of_nat k + of_nat j = (of_nat (byte c - k + j) :: 32 word)"
    using assms by (simp add: u32_def of_nat_diff)
  moreover have "byte c - k + j < 2 ^ LENGTH(32)"
  proof -
    have "byte c - k + j < 1256" using byte_less [of c] assms by linarith
    then show ?thesis by simp
  qed
  ultimately show ?thesis by (simp only: unat_of_nat mod_less)
qed

lemma sextet_inverse: "sextet c = Some v \<Longrightarrow> unat v < 64 \<and> ALPHABET ! unat v = c"
proof -
  assume s: "sextet c = Some v"
  consider "65 \<le> byte c \<and> byte c \<le> 90" "v = u32 c - 65"
    | "97 \<le> byte c \<and> byte c \<le> 122" "v = u32 c - 97 + 26"
    | "48 \<le> byte c \<and> byte c \<le> 57" "v = u32 c - 48 + 52"
    | "c = CHR ''+''" "v = 62" | "c = CHR ''/''" "v = 63"
    using s by (auto simp: sextet_def split: if_splits)
  then show ?thesis
  proof cases
    case 1
    then have "unat v = byte c - 65" using unat_u32_shift [of 65 c 0] by simp
    moreover have "byte c - 65 < 26" using 1 by linarith
    ultimately show ?thesis using 1 ALPHABET_ranges(1) [of "byte c - 65"] by simp
  next
    case 2
    then have "unat v = 26 + (byte c - 97)" using unat_u32_shift [of 97 c 26] by simp
    moreover have "byte c - 97 < 26" using 2 by linarith
    ultimately show ?thesis using 2 ALPHABET_ranges(2) [of "byte c - 97"] by simp
  next
    case 3
    then have "unat v = 52 + (byte c - 48)" using unat_u32_shift [of 48 c 52] by simp
    moreover have "byte c - 48 < 10" using 3 by linarith
    ultimately show ?thesis using 3 ALPHABET_ranges(3) [of "byte c - 48"] by simp
  qed (simp_all add: ALPHABET_last)
qed

subsection \<open>Three bytes are four sextets\<close>

lemma take_u32: "take_bit 8 (u32 c) = u32 c"
proof -
  have "unat (take_bit 8 (u32 c)) = unat (u32 c)"
    using byte_less [of c] by (simp only: unsigned_take_bit_eq unat_u32) (simp add: take_bit_eq_mod)
  then show ?thesis by (simp only: word_unat_eq_iff)
qed

lemma bit_u32 [simp]: "8 \<le> n \<Longrightarrow> \<not> bit (u32 c) n"
  by (metis bit_take_bit_iff not_le take_u32)

lemma low_byte_u32 [simp]: "low_byte (u32 c) = c"
  by (simp add: low_byte_def take_u32)

lemma sx_take: "sx n i = take_bit 6 (drop_bit (18 - 6 * i) n)"
proof -
  have "mask 6 = (63 :: 32 word)" by (simp add: mask_eq_exp_minus_1)
  then show ?thesis by (simp add: sx_def take_bit_eq_mask)
qed

lemma sx_less: "unat (sx n i) < 64"
proof -
  have "unat (sx n i) < 2 ^ 6"
    by (simp only: sx_take unsigned_take_bit_eq take_bit_nat_less_exp)
  then show ?thesis by simp
qed

lemma sextet_sx [simp]: "sextet (ALPHABET ! unat (sx n i)) = Some (sx n i)"
  using sextet_ALPHABET [OF sx_less] by simp

text \<open>What the decoder pushes out after each of four sextets, whatever was in the accumulator.\<close>

lemma all_less_8: "(\<forall>n<8. P n) \<longleftrightarrow> P 0 \<and> P 1 \<and> P 2 \<and> P 3 \<and> P 4 \<and> P 5 \<and> P 6 \<and> P (7::nat)"
  by (simp add: numeral_eq_Suc All_less_Suc) blast

lemma take_u32_eqI: "(\<forall>n<8. bit w n = bit (u32 c) n) \<Longrightarrow> take_bit 8 w = u32 c"
  by (rule bit_word_eqI) (metis bit_take_bit_iff bit_u32 not_le)

lemma push_bytes:
  fixes acc :: "32 word" and a b c :: char
  defines "n \<equiv> push_bit 16 (u32 a) OR push_bit 8 (u32 b) OR u32 c"
  defines "acc2 \<equiv> push_bit 6 (push_bit 6 acc OR sx n 0) OR sx n 1"
  defines "acc3 \<equiv> push_bit 6 acc2 OR sx n 2"
  defines "acc4 \<equiv> push_bit 6 acc3 OR sx n 3"
  shows "low_byte (drop_bit 4 acc2) = a" "low_byte (drop_bit 2 acc3) = b" "low_byte acc4 = c"
proof -
  have a: "take_bit 8 (drop_bit 4 acc2) = u32 a"
    by (rule take_u32_eqI) (simp add: all_less_8 acc2_def n_def sx_take bit_simps,
        simp add: numeral_2_eq_2 numeral_3_eq_3)
  have b: "take_bit 8 (drop_bit 2 acc3) = u32 b"
    by (rule take_u32_eqI) (simp add: all_less_8 acc3_def acc2_def n_def sx_take bit_simps)
  have c: "take_bit 8 acc4 = u32 c"
    by (rule take_u32_eqI) (simp add: all_less_8 acc4_def acc3_def n_def sx_take bit_simps)
  show "low_byte (drop_bit 4 acc2) = a" "low_byte (drop_bit 2 acc3) = b" "low_byte acc4 = c"
    by (simp_all add: low_byte_def a b c)
qed

subsection \<open>Encoded chunks\<close>

lemma u32_0 [simp]: "u32 (chr 0) = 0"
  by (simp add: u32_def)

lemma upto_4: "[0..<4] = [0, 1, 2, 3 :: nat]"
  by (simp add: upt_rec numeral_eq_Suc)

lemma encode_chunk_3:
  "encode_chunk alphabet pad [a, b, c] =
     (let n = push_bit 16 (u32 a) OR push_bit 8 (u32 b) OR u32 c
      in [alphabet ! unat (sx n 0), alphabet ! unat (sx n 1), alphabet ! unat (sx n 2), alphabet ! unat (sx n 3)])"
  by (simp add: encode_chunk_def chunk_bits_def upto_4 Let_def)

lemma encode_chunk_2:
  "encode_chunk alphabet pad [a, b] =
     (let n = push_bit 16 (u32 a) OR push_bit 8 (u32 b)
      in [alphabet ! unat (sx n 0), alphabet ! unat (sx n 1), alphabet ! unat (sx n 2)]
         @ (if pad then ''='' else []))"
  by (simp add: encode_chunk_def chunk_bits_def upto_4 Let_def)

lemma encode_chunk_1:
  "encode_chunk alphabet pad [a] =
     (let n = push_bit 16 (u32 a)
      in [alphabet ! unat (sx n 0), alphabet ! unat (sx n 1)] @ (if pad then ''=='' else []))"
  by (simp add: encode_chunk_def chunk_bits_def upto_4 Let_def)

lemmas encode_chunks = encode_chunk_1 encode_chunk_2 encode_chunk_3

abbreviation unpadded :: "str \<Rightarrow> str" where
  "unpadded bs \<equiv> encode_with bs ALPHABET False"

definition pad_count :: "nat \<Rightarrow> nat" where
  "pad_count n = (3 - n mod 3) mod 3"

lemma unpadded_simps [simp]:
  "unpadded [] = []"
  "unpadded (a # b # c # rest) = encode_chunk ALPHABET False [a, b, c] @ unpadded rest"
  "unpadded [a] = encode_chunk ALPHABET False [a]"
  "unpadded [a, b] = encode_chunk ALPHABET False [a, b]"
  by (simp_all add: encode_with_def)

lemma encode_unpadded: "encode bs = unpadded bs @ replicate (pad_count (length bs)) CHR ''=''"
proof (induction bs rule: chunks3_induct)
  case (More a b c rest)
  then show ?case by (simp add: encode_def encode_with_def encode_chunk_3 Let_def pad_count_def)
qed (simp_all add: encode_def encode_with_def encode_chunks Let_def pad_count_def numeral_2_eq_2)

lemma ALPHABET_set: "n < 64 \<Longrightarrow> ALPHABET ! n \<in> set ALPHABET"
  by (rule nth_mem) (simp add: ALPHABET_def)

lemma set_unpadded: "set (unpadded bs) \<subseteq> set ALPHABET"
  by (induction bs rule: chunks3_induct)
     (auto simp: encode_chunks Let_def intro: ALPHABET_set sx_less)

lemma ALPHABET_chars: "list_all (\<lambda>c. \<not> is_ascii_ws c \<and> c \<noteq> CHR ''='') ALPHABET"
  by code_simp

lemma unpadded_char: "c \<in> set (unpadded bs) \<Longrightarrow> \<not> is_ascii_ws c \<and> c \<noteq> CHR ''=''"
  using set_unpadded ALPHABET_chars by (fastforce simp: list_all_iff)

lemma length_unpadded: "4 dvd length (unpadded bs) + pad_count (length bs)"
proof (induction bs rule: chunks3_induct)
  case (More a b c rest)
  have eq: "length (unpadded (a # b # c # rest)) + pad_count (length (a # b # c # rest))
      = 4 + (length (unpadded rest) + pad_count (length rest))"
    by (simp add: encode_chunk_3 Let_def pad_count_def)
  show ?case unfolding eq by (intro dvd_add More.IH) simp
next
  case (One a)
  then show ?case by (simp add: encode_chunk_1 Let_def pad_count_def) presburger
next
  case (Two a b)
  then show ?case by (simp add: encode_chunk_2 Let_def pad_count_def) presburger
qed (simp add: pad_count_def)

lemma payload_of_padded:
  assumes "CHR ''='' \<notin> set p" "k \<le> 2"
  shows "payload_of (p @ replicate k CHR ''='') = Some p"
proof -
  have "takeWhile (\<lambda>b. b \<noteq> CHR ''='') (p @ replicate k CHR ''='')
      = p @ takeWhile (\<lambda>b. b \<noteq> CHR ''='') (replicate k CHR ''='')"
    using assms(1) by (intro takeWhile_no_match) auto
  also have "\<dots> = p" by (cases k) auto
  finally have "takeWhile (\<lambda>b. b \<noteq> CHR ''='') (p @ replicate k CHR ''='') = p" .
  then show ?thesis using assms(2) by (auto simp: payload_of_def Let_def list_all_iff)
qed

subsection \<open>Decoding inverts encoding\<close>

lemma low_mask: "acc AND (2 ^ bits - 1) = take_bit bits (acc :: 32 word)"
  by (simp add: take_bit_eq_mask mask_eq_exp_minus_1)

lemma leftover_1: "take_bit 4 (push_bit 6 acc OR sx (push_bit 16 (u32 a)) 1) = 0"
  by (rule bit_word_eqI) (auto simp: sx_take bit_simps)

lemma leftover_2: "take_bit 2 (push_bit 6 acc OR sx (push_bit 16 (u32 a) OR push_bit 8 (u32 b)) 2) = 0"
  by (rule bit_word_eqI) (auto simp: sx_take bit_simps)

lemma decode_loop_unpadded:
  "\<exists>acc' bits'. decode_loop acc 0 (unpadded bs @ []) = Some (bs, acc', bits') \<and> take_bit bits' acc' = 0"
proof (induction bs arbitrary: acc rule: chunks3_induct)
  case (More a b c rest)
  let ?n = "push_bit 16 (u32 a) OR push_bit 8 (u32 b) OR u32 c"
  let ?acc4 = "push_bit 6 (push_bit 6 (push_bit 6 (push_bit 6 acc OR sx ?n 0) OR sx ?n 1) OR sx ?n 2) OR sx ?n 3"
  obtain acc' bits' where "decode_loop ?acc4 0 (unpadded rest) = Some (rest, acc', bits')"
    "take_bit bits' acc' = 0"
    using More.IH [of ?acc4] by auto
  then show ?case
    using push_bytes [where acc = acc and a = a and b = b and c = c]
    by (simp add: encode_chunk_3 Let_def)
next
  case (One a)
  then show ?case
    using push_bytes(1) [where acc = acc and a = a and b = "chr 0" and c = "chr 0"]
      leftover_1 [of "push_bit 6 acc OR sx (push_bit 16 (u32 a)) 0" a]
    by (simp add: encode_chunk_1 Let_def)
next
  case (Two a b)
  then show ?case
    using push_bytes(1,2) [where acc = acc and a = a and b = b and c = "chr 0"]
      leftover_2 [of "push_bit 6 (push_bit 6 acc OR sx (push_bit 16 (u32 a) OR push_bit 8 (u32 b)) 0)
        OR sx (push_bit 16 (u32 a) OR push_bit 8 (u32 b)) 1" a b]
    by (simp add: encode_chunk_2 Let_def)
qed simp

lemma decode_encode: "decode (encode bs) = Some bs"
proof -
  let ?k = "pad_count (length bs)"
  have "filter (\<lambda>b. \<not> is_ascii_ws b) (encode bs) = encode bs"
    using unpadded_char by (auto simp: encode_unpadded filter_id_conv is_ascii_ws_def byte_def)
  moreover have "4 dvd length (encode bs)"
    using length_unpadded by (simp add: encode_unpadded)
  moreover have "payload_of (encode bs) = Some (unpadded bs)"
    unfolding encode_unpadded using unpadded_char
    by (intro payload_of_padded) (auto simp: pad_count_def)
  moreover obtain acc' bits' where
    "decode_loop 0 0 (unpadded bs) = Some (bs, acc', bits')" "take_bit bits' acc' = 0"
    using decode_loop_unpadded [of 0 bs] by auto
  ultimately show ?thesis by (simp add: decode_def Let_def low_mask)
qed

subsection \<open>Strictness: nothing else decodes\<close>

lemma sextet_take6: "sextet c = Some v \<Longrightarrow> take_bit 6 v = v"
proof -
  assume "sextet c = Some v"
  then have "unat v < 2 ^ 6" using sextet_inverse by simp
  then have "unat (take_bit 6 v) = unat v"
    by (simp only: unsigned_take_bit_eq take_bit_nat_eq_self)
  then show ?thesis by (simp only: word_unat_eq_iff)
qed

lemma sextet_bit: "sextet c = Some v \<Longrightarrow> 6 \<le> n \<Longrightarrow> \<not> bit v n"
  by (metis bit_take_bit_iff not_le sextet_take6)

lemma u32_low_byte: "u32 (low_byte w) = take_bit 8 w"
proof -
  have "unat (take_bit 8 w) < 256"
    using take_bit_nat_less_exp [of 8 "unat w"] by (simp add: unsigned_take_bit_eq)
  then show ?thesis by (simp add: u32_def low_byte_def)
qed

lemma all_less_6: "(\<forall>n<6. P n) \<longleftrightarrow> P 0 \<and> P 1 \<and> P 2 \<and> P 3 \<and> P 4 \<and> P (5::nat)"
  by (simp add: numeral_eq_Suc All_less_Suc) blast

lemma sx_eqI:
  assumes v: "sextet c = Some v" and bits: "\<forall>k<6. bit n (18 - 6 * i + k) = bit v k"
  shows "sx n i = v"
proof (rule bit_word_eqI)
  fix k :: nat
  show "bit (sx n i) k = bit v k"
    using bits sextet_bit [OF v, of k] by (cases "k < 6") (simp_all add: sx_take bit_simps)
qed

lemma pull_sextets:
  fixes acc v0 v1 v2 v3 :: "32 word"
  defines "acc2 \<equiv> push_bit 6 (push_bit 6 acc OR v0) OR v1"
  defines "acc3 \<equiv> push_bit 6 acc2 OR v2"
  defines "acc4 \<equiv> push_bit 6 acc3 OR v3"
  defines "n \<equiv> push_bit 16 (take_bit 8 (drop_bit 4 acc2))
     OR push_bit 8 (take_bit 8 (drop_bit 2 acc3)) OR take_bit 8 acc4"
  assumes v: "sextet w = Some v0" "sextet x = Some v1" "sextet y = Some v2" "sextet z = Some v3"
  shows "sx n 0 = v0" "sx n 1 = v1" "sx n 2 = v2" "sx n 3 = v3"
proof -
  note nobit = sextet_bit [OF v(1)] sextet_bit [OF v(2)] sextet_bit [OF v(3)] sextet_bit [OF v(4)]
  show "sx n 0 = v0"
    by (rule sx_eqI [OF v(1)]) (simp add: all_less_6 n_def acc4_def acc3_def acc2_def bit_simps nobit)
  show "sx n 1 = v1"
    by (rule sx_eqI [OF v(2)]) (simp add: all_less_6 n_def acc4_def acc3_def acc2_def bit_simps nobit)
  show "sx n 2 = v2"
    by (rule sx_eqI [OF v(3)]) (simp add: all_less_6 n_def acc4_def acc3_def acc2_def bit_simps nobit,
        simp add: numeral_2_eq_2 numeral_3_eq_3)
  show "sx n 3 = v3"
    by (rule sx_eqI [OF v(4)]) (simp add: all_less_6 n_def acc4_def acc3_def acc2_def bit_simps nobit)
qed

lemma take_bit_0_bit: "take_bit m (w :: 32 word) = 0 \<Longrightarrow> k < m \<Longrightarrow> \<not> bit w k"
  by (metis bit_0_eq bit_take_bit_iff bot_apply bot_bool_def)

lemma pull_tail_1:
  fixes acc v0 v1 :: "32 word"
  defines "acc2 \<equiv> push_bit 6 (push_bit 6 acc OR v0) OR v1"
  defines "n \<equiv> push_bit 16 (take_bit 8 (drop_bit 4 acc2))"
  assumes v: "sextet w = Some v0" "sextet x = Some v1" and left: "take_bit 4 acc2 = 0"
  shows "sx n 0 = v0" "sx n 1 = v1"
proof -
  note nobit = sextet_bit [OF v(1)] sextet_bit [OF v(2)]
  have low: "\<not> bit v1 0" "\<not> bit v1 1" "\<not> bit v1 2" "\<not> bit v1 3"
    using take_bit_0_bit [OF left, of 0] take_bit_0_bit [OF left, of 1]
      take_bit_0_bit [OF left, of 2] take_bit_0_bit [OF left, of 3]
    by (simp_all add: acc2_def bit_simps)
  show "sx n 0 = v0"
    by (rule sx_eqI [OF v(1)]) (simp add: all_less_6 n_def acc2_def bit_simps nobit)
  show "sx n 1 = v1"
    by (rule sx_eqI [OF v(2)]) (use low in \<open>simp add: all_less_6 n_def acc2_def bit_simps nobit\<close>)
qed

lemma pull_tail_2:
  fixes acc v0 v1 v2 :: "32 word"
  defines "acc2 \<equiv> push_bit 6 (push_bit 6 acc OR v0) OR v1"
  defines "acc3 \<equiv> push_bit 6 acc2 OR v2"
  defines "n \<equiv> push_bit 16 (take_bit 8 (drop_bit 4 acc2)) OR push_bit 8 (take_bit 8 (drop_bit 2 acc3))"
  assumes v: "sextet w = Some v0" "sextet x = Some v1" "sextet y = Some v2"
    and left: "take_bit 2 acc3 = 0"
  shows "sx n 0 = v0" "sx n 1 = v1" "sx n 2 = v2"
proof -
  note nobit = sextet_bit [OF v(1)] sextet_bit [OF v(2)] sextet_bit [OF v(3)]
  have low: "\<not> bit v2 0" "\<not> bit v2 1"
    using take_bit_0_bit [OF left, of 0] take_bit_0_bit [OF left, of 1]
    by (simp_all add: acc3_def bit_simps)
  show "sx n 0 = v0"
    by (rule sx_eqI [OF v(1)]) (simp add: all_less_6 n_def acc3_def acc2_def bit_simps nobit)
  show "sx n 1 = v1"
    by (rule sx_eqI [OF v(2)]) (simp add: all_less_6 n_def acc3_def acc2_def bit_simps nobit)
  show "sx n 2 = v2"
    by (rule sx_eqI [OF v(3)]) (use low in \<open>simp add: all_less_6 n_def acc3_def acc2_def bit_simps nobit,
        simp add: numeral_2_eq_2 numeral_3_eq_3\<close>)
qed

text \<open>A recursion over four characters at a time, for its induction rule.\<close>

fun quads :: "str \<Rightarrow> nat" where
  "quads (w # x # y # z # rest) = Suc (quads rest)"
| "quads rest = 0"

lemmas quads_induct = quads.induct [case_names Four Nil One Two Three]

lemma ALPHABET_sextet: "sextet c = Some v \<Longrightarrow> ALPHABET ! unat v = c"
  using sextet_inverse by blast

lemma decode_loop_strict:
  "decode_loop acc 0 s = Some (out, acc', bits') \<Longrightarrow> take_bit bits' acc' = 0 \<Longrightarrow> length s mod 4 \<noteq> 1
   \<Longrightarrow> unpadded out = s"
proof (induction s arbitrary: acc out rule: quads_induct)
  case (Four w x y z rest)
  from Four.prems(1) obtain v0 v1 v2 v3 where
    v: "sextet w = Some v0" "sextet x = Some v1" "sextet y = Some v2" "sextet z = Some v3"
    by (auto simp: Let_def split: option.splits)
  let ?acc2 = "push_bit 6 (push_bit 6 acc OR v0) OR v1"
  let ?acc3 = "push_bit 6 ?acc2 OR v2"
  let ?acc4 = "push_bit 6 ?acc3 OR v3"
  from Four.prems(1) v obtain out' where
    loop: "decode_loop ?acc4 0 rest = Some (out', acc', bits')"
    and out: "out = low_byte (drop_bit 4 ?acc2) # low_byte (drop_bit 2 ?acc3) # low_byte ?acc4 # out'"
    by (auto simp: Let_def simp del: drop_bit_or push_bit_or split: option.splits)
  have "length rest mod 4 \<noteq> 1" using Four.prems(3) by simp
  then have "unpadded out' = rest" using Four.IH [OF loop Four.prems(2)] by simp
  then show ?case
    using pull_sextets [OF v, of acc] ALPHABET_sextet [OF v(1)] ALPHABET_sextet [OF v(2)]
      ALPHABET_sextet [OF v(3)] ALPHABET_sextet [OF v(4)]
    by (simp add: out encode_chunk_3 Let_def u32_low_byte del: drop_bit_or push_bit_or)
next
  case (Two w x)
  from Two.prems(1) obtain v0 v1 where v: "sextet w = Some v0" "sextet x = Some v1"
    by (auto simp: Let_def split: option.splits)
  let ?acc2 = "push_bit 6 (push_bit 6 acc OR v0) OR v1"
  have out: "out = [low_byte (drop_bit 4 ?acc2)]" "take_bit 4 ?acc2 = 0"
    using Two.prems(1,2) v by (auto simp: Let_def simp del: drop_bit_or push_bit_or take_bit_or)
  show ?case
    using pull_tail_1 [OF v out(2)] ALPHABET_sextet [OF v(1)] ALPHABET_sextet [OF v(2)]
    by (simp add: out(1) encode_chunk_1 Let_def u32_low_byte del: drop_bit_or push_bit_or take_bit_or)
next
  case (Three w x y)
  from Three.prems(1) obtain v0 v1 v2 where
    v: "sextet w = Some v0" "sextet x = Some v1" "sextet y = Some v2"
    by (auto simp: Let_def split: option.splits)
  let ?acc2 = "push_bit 6 (push_bit 6 acc OR v0) OR v1"
  let ?acc3 = "push_bit 6 ?acc2 OR v2"
  have out: "out = [low_byte (drop_bit 4 ?acc2), low_byte (drop_bit 2 ?acc3)]" "take_bit 2 ?acc3 = 0"
    using Three.prems(1,2) v by (auto simp: Let_def simp del: drop_bit_or push_bit_or take_bit_or)
  show ?case
    using pull_tail_2 [OF v out(2)] ALPHABET_sextet [OF v(1)] ALPHABET_sextet [OF v(2)]
      ALPHABET_sextet [OF v(3)]
    by (simp add: out(1) encode_chunk_2 Let_def u32_low_byte del: drop_bit_or push_bit_or take_bit_or)
qed simp_all

lemma payload_of_Some:
  "payload_of clean = Some p \<Longrightarrow> \<exists>k\<le>2. clean = p @ replicate k CHR ''='' \<and> CHR ''='' \<notin> set p \<and> (4 \<le> length clean \<longrightarrow> p \<noteq> [])"
proof -
  assume p: "payload_of clean = Some p"
  let ?t = "takeWhile (\<lambda>b. b \<noteq> CHR ''='') clean"
  show ?thesis
  proof (cases "length ?t = length clean")
    case True
    let ?d = "dropWhile (\<lambda>b. b \<noteq> CHR ''='') clean"
    have td: "?t @ ?d = clean" by simp
    then have "length ?t + length ?d = length clean" by (metis length_append)
    then have "?d = []" using True by simp
    then have t: "?t = clean" using td by simp
    then have "CHR ''='' \<notin> set clean" using takeWhile_neq_notin [of "CHR ''=''" clean] by metis
    moreover have "p = clean" using p True by (simp add: payload_of_def)
    ultimately show ?thesis by (intro exI [of _ 0]) auto
  next
    case False
    let ?r = "drop (length ?t) clean"
    have tk: "take (length ?t) clean = ?t" by (metis takeWhile_eq_take)
    have p': "p = ?t" and small: "length clean \<le> length ?t + 2" "length clean < length ?t + 4"
      and eqs: "list_all (\<lambda>b. b = CHR ''='') ?r"
      using p False tk by (auto simp: payload_of_def Let_def split: if_splits)
    from eqs have "\<forall>y\<in>set ?r. y = CHR ''=''" by (simp only: list_all_iff)
    from replicate_length_same [OF this] have r: "?r = replicate (length ?r) CHR ''=''" by (rule sym)
    have "clean = ?t @ ?r" by (metis append_take_drop_id takeWhile_eq_take)
    then have "clean = p @ replicate (length ?r) CHR ''=''" using p' r by metis
    moreover have "length ?r \<le> 2" using small(1) by simp
    moreover have "4 \<le> length clean \<longrightarrow> p \<noteq> []" using small p' by auto
    ultimately show ?thesis using p' takeWhile_neq_notin by metis
  qed
qed

lemma decode_Some:
  assumes "decode s = Some bs"
  obtains k acc' bits' where "k \<le> 2"
    "filter (\<lambda>b. \<not> is_ascii_ws b) s = unpadded bs @ replicate k CHR ''=''"
    "4 dvd length (unpadded bs) + k" "length (unpadded bs) mod 4 \<noteq> 1"
    "4 \<le> length (unpadded bs) + k \<longrightarrow> unpadded bs \<noteq> []"
    "decode_loop 0 0 (unpadded bs) = Some (bs, acc', bits')" "take_bit bits' acc' = 0"
proof -
  let ?clean = "filter (\<lambda>b. \<not> is_ascii_ws b) s"
  from assms have "4 dvd length ?clean" by (auto simp: decode_def Let_def split: if_splits)
  from assms obtain p where pay: "payload_of ?clean = Some p"
    by (auto simp: decode_def Let_def split: if_splits option.splits)
  from assms pay obtain acc' bits' where
    loop: "decode_loop 0 0 p = Some (bs, acc', bits')" and left: "bits' = 0 \<or> take_bit bits' acc' = 0"
    by (auto simp: decode_def Let_def low_mask split: if_splits option.splits)
  from left have left: "take_bit bits' acc' = 0" by auto
  from payload_of_Some [OF pay] obtain k where
    k: "k \<le> 2" "?clean = p @ replicate k CHR ''=''" "4 \<le> length ?clean \<longrightarrow> p \<noteq> []" by blast
  have dv: "4 dvd length p + k" using \<open>4 dvd length ?clean\<close> k(2) by simp
  have m: "length p mod 4 \<noteq> 1" using dv k(1) by presburger
  have "unpadded bs = p" by (rule decode_loop_strict [OF loop left m])
  then show ?thesis using that [OF k(1)] k dv m loop left by simp
qed

lemma encode_decode: "decode s = Some bs \<Longrightarrow> encode bs = filter (\<lambda>b. \<not> is_ascii_ws b) s"
proof -
  assume "decode s = Some bs"
  then obtain k where k: "k \<le> 2" "4 dvd length (unpadded bs) + k"
    "filter (\<lambda>b. \<not> is_ascii_ws b) s = unpadded bs @ replicate k CHR ''=''"
    by (rule decode_Some)
  have "pad_count (length bs) \<le> 2" by (simp add: pad_count_def)
  then have "pad_count (length bs) = k" using k(1,2) length_unpadded [of bs] by presburger
  then show ?thesis using k(3) by (simp add: encode_unpadded)
qed

subsection \<open>The wiki reader accepts what the strict one does\<close>

lemma wiki_sextet_sextet: "sextet c = Some v \<Longrightarrow> wiki_sextet c = Some v"
  by (auto simp: sextet_def wiki_sextet_def split: if_splits)

lemma low_byte_255 [simp]: "low_byte (w AND 255) = low_byte w"
proof -
  have "mask 8 = (255 :: 32 word)" by (simp add: mask_eq_exp_minus_1)
  then have "w AND 255 = take_bit 8 w" by (simp add: take_bit_eq_mask)
  then show ?thesis by (simp add: low_byte_def)
qed

lemma decode_loop_bits:
  "decode_loop acc bits s = Some (out, acc', bits') \<Longrightarrow> bits < 8 \<Longrightarrow> bits' = (bits + 6 * length s) mod 8"
proof (induction acc bits s arbitrary: out rule: decode_loop.induct)
  case (2 acc bits b bs)
  show ?case
  proof (cases "8 \<le> bits + 6")
    case True
    from "2.prems"(1) True obtain v out' where v: "sextet b = Some v"
      and loop: "decode_loop (push_bit 6 acc OR v) (bits + 6 - 8) bs = Some (out', acc', bits')"
      by (auto simp: Let_def split: option.splits)
    have "bits' = (bits + 6 - 8 + 6 * length bs) mod 8"
      using "2.IH"(1) [OF v refl refl True loop] "2.prems"(2) by linarith
    moreover obtain m where "bits = m + 2" using True using that [of "bits - 2"] by simp
    ultimately show ?thesis by simp
  next
    case False
    from "2.prems"(1) False obtain v where v: "sextet b = Some v"
      and loop: "decode_loop (push_bit 6 acc OR v) (bits + 6) bs = Some (out, acc', bits')"
      by (auto simp: Let_def split: option.splits)
    have "bits + 6 < 8" using False by simp
    then have "bits' = (bits + 6 + 6 * length bs) mod 8"
      by (rule "2.IH"(2) [OF v refl refl False loop])
    then show ?thesis by (simp add: add.assoc)
  qed
qed simp

lemma wiki_loop_padding:
  "filter (\<lambda>b. \<not> is_ascii_ws b) s = replicate k CHR ''='' \<Longrightarrow> wiki_loop acc bits n s = Some ([], acc, bits, n + k)"
proof (induction s arbitrary: n k)
  case (Cons c s)
  show ?case
  proof (cases "is_ascii_ws c")
    case True
    with Cons show ?thesis by simp
  next
    case False
    with Cons.prems obtain k' where "k = Suc k'" "c = CHR ''=''"
      "filter (\<lambda>b. \<not> is_ascii_ws b) s = replicate k' CHR ''=''"
      by (cases k) auto
    with False Cons.IH [of k' "n + 1"] show ?thesis by simp
  qed
qed simp

lemma wiki_loop_clean:
  "decode_loop acc bits p = Some (out, acc', bits') \<Longrightarrow> CHR ''='' \<notin> set p
   \<Longrightarrow> filter (\<lambda>b. \<not> is_ascii_ws b) s = p @ replicate k CHR ''=''
   \<Longrightarrow> wiki_loop acc bits 0 s = Some (out, acc', bits', k)"
proof (induction s arbitrary: acc bits p out)
  case Nil
  then show ?case by simp
next
  case (Cons c s)
  show ?case
  proof (cases "is_ascii_ws c")
    case True
    with Cons show ?thesis by simp
  next
    case False
    show ?thesis
    proof (cases p)
      case Nil
      with Cons.prems show ?thesis using wiki_loop_padding [of "c # s" k acc bits 0] by simp
    next
      case (Cons d p')
      then have d: "d = c" "c \<noteq> CHR ''=''" "CHR ''='' \<notin> set p'"
        "filter (\<lambda>b. \<not> is_ascii_ws b) s = p' @ replicate k CHR ''=''"
        using Cons.prems(2,3) False by auto
      with Cons.prems(1) obtain v where v: "sextet c = Some v"
        by (auto simp: Cons split: option.splits)
      note w = wiki_sextet_sextet [OF v]
      show ?thesis
        using Cons.prems(1) d False v w Cons.IH [OF _ d(3,4)]
        by (auto simp: Cons Let_def split: option.splits if_splits)
    qed
  qed
qed

lemma unpadded_Nil: "unpadded bs = [] \<longleftrightarrow> bs = []"
  by (cases bs rule: chunks3.cases) (simp_all add: encode_chunks Let_def)

lemma wiki_decode_strict: "decode s = Some bs \<Longrightarrow> wiki_decode_bytes s = Some bs"
proof -
  assume "decode s = Some bs"
  then obtain k acc' bits' where d: "k \<le> 2"
    "filter (\<lambda>b. \<not> is_ascii_ws b) s = unpadded bs @ replicate k CHR ''=''"
    "4 dvd length (unpadded bs) + k" "length (unpadded bs) mod 4 \<noteq> 1"
    "4 \<le> length (unpadded bs) + k \<longrightarrow> unpadded bs \<noteq> []"
    "decode_loop 0 0 (unpadded bs) = Some (bs, acc', bits')" "take_bit bits' acc' = 0"
    by (rule decode_Some)
  have "bits' = (6 * length (unpadded bs)) mod 8" using decode_loop_bits [OF d(6)] by simp
  then have "bits' < 6" using d(4) by presburger
  moreover have "wiki_loop 0 0 0 s = Some (bs, acc', bits', k)"
    using d(2,6) unpadded_char by (intro wiki_loop_clean) auto
  moreover have "bs = [] \<longrightarrow> \<not> list_ex (\<lambda>c. \<not> is_ascii_ws c) s"
  proof
    assume "bs = []"
    then have "k = 0" using d(1,3) by (cases k) (auto dest: dvd_imp_le)
    then have "filter (\<lambda>b. \<not> is_ascii_ws b) s = []" using d(2) \<open>bs = []\<close> by simp
    then show "\<not> list_ex (\<lambda>c. \<not> is_ascii_ws c) s" by (auto simp: filter_empty_conv list_ex_iff)
  qed
  ultimately show ?thesis
    using d(1,7) by (auto simp: wiki_decode_bytes_def low_mask)
qed

lemma wiki_encode_eq: "wiki_encode bs = encode bs"
  by (simp add: wiki_encode_def encode_def encode_with_def encode_chunk_def [abs_def])

subsection \<open>The codecs\<close>

interpretation base64: strict_codec encode decode "\<lambda>_. True" "filter (\<lambda>b. \<not> is_ascii_ws b)"
  by unfold_locales (simp_all add: decode_encode encode_decode)

interpretation wiki64: codec wiki_encode wiki_decode_bytes "\<lambda>_. True"
  by unfold_locales (simp add: wiki_decode_strict base64.dec_enc wiki_encode_eq)

subsection \<open>Properties\<close>

text \<open>The strict decoder is the exact inverse of the encoder: every byte list comes back from
  its encoding, and a text is accepted only when, white space aside, it is the encoding of the
  bytes returned (so no stray padding, no unused bits, no foreign character is let through).\<close>

theorem base64_strict_inverse:
  "Base64.decode (Base64.encode bs) = Some bs
   \<and> (Base64.decode s = Some bs \<longrightarrow> Base64.encode bs = filter (\<lambda>b. \<not> is_ascii_ws b) s)"
  using base64.dec_enc base64.enc_dec by blast

theorem base64_strict_inverse_witness:
  "Base64.decode ''aGk='' = Some ''hi'' \<and> Base64.encode ''hi'' = ''aGk=''"
proof -
  have d: "Base64.decode ''aGk='' = Some ''hi''" by code_simp
  have "filter (\<lambda>b. \<not> is_ascii_ws b) ''aGk='' = ''aGk=''" by code_simp
  then show ?thesis using d base64_strict_inverse [of "''hi''" "''aGk=''"] by simp
qed

text \<open>The wiki's lenient codec reads back every page it encodes, and its reader agrees with
  the strict decoder wherever the strict one accepts.\<close>

theorem wiki_agrees_with_strict:
  "wiki_decode_bytes (wiki_encode page) = Some page
   \<and> (Base64.decode s = Some bs \<longrightarrow> wiki_decode_bytes s = Some bs)"
  using wiki64.dec_enc wiki_decode_strict by blast

theorem wiki_agrees_with_strict_witness: "wiki_decode_bytes ''aGk='' = Some ''hi''"
proof -
  have "Base64.decode ''aGk='' = Some ''hi''" by code_simp
  then show ?thesis using wiki_agrees_with_strict by blast
qed

end
