(* ===== verification/Slug.thy ===== *)
theory Slug
  imports Rust_Str
begin

text \<open>
  The small value types of \<open>crates/forgejo-core/src/types\<close>: repository slugs and \<open>-R\<close>
  references (\<open>slug.rs\<close>), token scopes (\<open>scope.rs\<close>) and identifiers (\<open>ids.rs\<close>).
\<close>

subsection \<open>Repository slugs\<close>

record repo_slug =
  slug_owner :: str
  slug_name :: str

definition slug_new :: "str \<Rightarrow> str \<Rightarrow> repo_slug" where
  "slug_new ow nm = \<lparr>slug_owner = ow, slug_name = nm\<rparr>"

definition slug_show :: "repo_slug \<Rightarrow> str" where
  "slug_show s = slug_owner s @ ''/'' @ slug_name s"

record parse_slug_error =
  pse_input :: str
  pse_reason :: str

definition repo_slug_from_str :: "str \<Rightarrow> (parse_slug_error, repo_slug) res" where
  "repo_slug_from_str s =
     (let t = trim_end_c (trim s) CHR ''/'';
          err = (\<lambda>reason. Inl \<lparr>pse_input = s, pse_reason = reason\<rparr>)
      in case split_once_c t CHR ''/'' of
           None \<Rightarrow> err ''expected owner/name''
         | Some (ow, nm) \<Rightarrow>
             if ow = [] \<or> nm = [] then err ''owner and name must both be present''
             else if List.member nm CHR ''/'' then err (''expected exactly one '' @ [CHR 0x27, CHR ''/'', CHR 0x27])
             else Inr (slug_new ow (trim_end_str nm ''.git'')))"

record repo_ref =
  ref_host :: "str option"
  ref_slug :: repo_slug

definition repo_ref_show :: "repo_ref \<Rightarrow> str" where
  "repo_ref_show r = (case ref_host r of Some h \<Rightarrow> h @ ''/'' @ slug_show (ref_slug r)
     | None \<Rightarrow> slug_show (ref_slug r))"

definition repo_ref_from_str :: "str \<Rightarrow> (parse_slug_error, repo_ref) res" where
  "repo_ref_from_str s =
     (let t = trim s;
          err = (\<lambda>reason. Inl \<lparr>pse_input = s, pse_reason = reason\<rparr>);
          rest = (case split_once t ''://'' of
                    Some (_, r) \<Rightarrow> (case split_once_c r CHR ''@'' of None \<Rightarrow> r | Some (_, after) \<Rightarrow> after)
                  | None \<Rightarrow> t);
          parts = split_c (trim_end_c rest CHR ''/'') CHR ''/'';
          n = length parts
      in if n = 2 then
           Inr \<lparr>ref_host = None,
                ref_slug = slug_new (parts ! 0) (trim_end_str (parts ! 1) ''.git'')\<rparr>
         else if 3 \<le> n \<and> hd parts \<noteq> [] then
           Inr \<lparr>ref_host = Some (hd parts),
                ref_slug = slug_new (parts ! (n - 2)) (trim_end_str (parts ! (n - 1)) ''.git'')\<rparr>
         else err ''expected owner/name or host/owner/name'')"

subsection \<open>Scopes\<close>

datatype access = Read | Write

type_synonym scope = str

definition KNOWN_AREAS :: "str list" where
  "KNOWN_AREAS =
     [''activitypub'', ''admin'', ''issue'', ''misc'', ''notification'', ''organization'',
      ''package'', ''repository'', ''user'']"

definition access_as_str :: "access \<Rightarrow> str" where
  "access_as_str a = (case a of Read \<Rightarrow> ''read'' | Write \<Rightarrow> ''write'')"

definition for_method :: "str \<Rightarrow> access" where
  "for_method m =
     (if List.member [''GET'', ''HEAD'', ''OPTIONS''] (to_ascii_uppercase m) then Read else Write)"

definition scope_new :: "access \<Rightarrow> str \<Rightarrow> scope" where
  "scope_new a area = access_as_str a @ '':'' @ area"

definition scope_parts :: "scope \<Rightarrow> (access \<times> str) option" where
  "scope_parts s =
     (case split_once_c s CHR '':'' of None \<Rightarrow> None
      | Some (a, area) \<Rightarrow>
          if a = ''read'' then Some (Read, area)
          else if a = ''write'' then Some (Write, area)
          else None)"

definition satisfies :: "scope \<Rightarrow> scope \<Rightarrow> bool" where
  "satisfies s needed =
     (if s = ''all'' \<or> s = needed then True
      else (case (scope_parts s, scope_parts needed) of
              (Some (Write, have), Some (Read, want)) \<Rightarrow> have = want
            | _ \<Rightarrow> False))"

definition scope_from_str :: "str \<Rightarrow> scope" where
  "scope_from_str s = trim s"

definition scopes_join :: "scope list \<Rightarrow> str" where
  "scopes_join scopes = join '', '' scopes"

subsection \<open>Identifiers\<close>

definition id_from_str :: "str \<Rightarrow> (str, int) res" where
  "id_from_str s =
     (case parse_i64 (trim_start_c (trim s) CHR ''#'') of Some i \<Rightarrow> Inr i | None \<Rightarrow> Inl s)"

subsection \<open>Lemmas on slugs\<close>

lemma trim_end_str_not_suffix: "p \<noteq> [] \<Longrightarrow> \<not> ends_with (trim_end_str s p) p"
proof (induction s p rule: trim_end_str.induct)
  case (1 s p)
  then show ?case by (cases "ends_with s p") (simp_all add: trim_end_str.simps [of s])
qed

lemma set_trim_end_str: "set (trim_end_str s p) \<subseteq> set s"
  using trim_end_str_prefix set_mono_prefix by blast

lemma repo_slug_from_str_Inr:
  "repo_slug_from_str s = Inr r \<Longrightarrow>
   \<exists>nm. trim_end_c (trim s) CHR ''/'' = slug_owner r @ CHR ''/'' # nm
      \<and> slug_owner r \<noteq> [] \<and> nm \<noteq> [] \<and> CHR ''/'' \<notin> set (slug_owner r) \<and> CHR ''/'' \<notin> set nm
      \<and> slug_name r = trim_end_str nm ''.git''"
  by (auto simp: repo_slug_from_str_def slug_new_def Let_def split_once_c_Some simp del: split_once_c_None
      split: option.splits if_splits)

lemma repo_slug_from_str_show:
  assumes "ow \<noteq> []" "nm \<noteq> []" "CHR ''/'' \<notin> set ow" "CHR ''/'' \<notin> set nm"
    "\<not> ends_with nm ''.git''" "trim (ow @ ''/'' @ nm) = ow @ ''/'' @ nm"
  shows "repo_slug_from_str (ow @ ''/'' @ nm) = Inr (slug_new ow nm)"
proof -
  have "last (ow @ CHR ''/'' # nm) \<noteq> CHR ''/''"
    using assms(2,4) last_in_set [of nm] by (cases nm) fastforce+
  then have "trim_end_c (ow @ CHR ''/'' # nm) CHR ''/'' = ow @ CHR ''/'' # nm"
    by (intro trim_end_c_noop) simp
  then show ?thesis
    using assms by (simp add: repo_slug_from_str_def trim_end_str_noop)
qed

text \<open>A URL's parts: the credentials go, the first segment is the host, the last two the slug.\<close>

lemma split_last_two:
  assumes "CHR ''/'' \<notin> set h" "\<forall>x\<in>set mid. CHR ''/'' \<notin> set x" "CHR ''/'' \<notin> set a" "CHR ''/'' \<notin> set b"
  shows "split_c (join ''/'' (h # mid @ [a, b])) CHR ''/'' = h # mid @ [a, b]"
  using assms by (intro split_c_join) auto

subsection \<open>Lemmas on scopes\<close>

lemma scope_parts_new: "scope_parts (scope_new a area) = Some (a, area)"
proof -
  have "CHR '':'' \<notin> set (access_as_str a)" by (cases a) (simp_all add: access_as_str_def)
  then have "split_once_c (scope_new a area) CHR '':'' = Some (access_as_str a, area)"
    by (simp add: scope_new_def)
  then show ?thesis by (cases a) (simp_all add: scope_parts_def access_as_str_def)
qed

lemma scope_parts_eq: "scope_parts s = Some (a, area) \<longleftrightarrow> s = scope_new a area"
proof
  assume "scope_parts s = Some (a, area)"
  then show "s = scope_new a area"
    by (auto simp: scope_parts_def scope_new_def access_as_str_def split_once_c_Some
        simp del: split_once_c_None split: option.splits if_splits)
qed (simp add: scope_parts_new)

lemma scope_parts_all [simp]: "scope_parts ''all'' = None"
  by (simp add: scope_parts_def)

lemma satisfies_iff:
  "satisfies s t \<longleftrightarrow> s = ''all'' \<or> s = t \<or> (\<exists>area. s = scope_new Write area \<and> t = scope_new Read area)"
proof -
  have "(case (p, q) of (Some (Write, have), Some (Read, want)) \<Rightarrow> have = want | _ \<Rightarrow> False)
        \<longleftrightarrow> (\<exists>area. p = Some (Write, area) \<and> q = Some (Read, area))" for p q :: "(access \<times> str) option"
    by (auto split: option.splits access.splits)
  then show ?thesis unfolding satisfies_def scope_parts_eq [symmetric] by simp
qed

lemma scope_new_inject: "scope_new a x = scope_new b y \<longleftrightarrow> a = b \<and> x = y"
  by (metis option.inject prod.inject scope_parts_new)

lemma scope_new_not_all [simp]: "scope_new a x \<noteq> ''all''" "''all'' \<noteq> scope_new a x"
  by (metis option.distinct(1) scope_parts_all scope_parts_new)+

text \<open>
  What the error messages rely on: \<open>satisfies\<close> is an order with a greatest element.
\<close>

locale bounded_above_order =
  fixes le :: "'a \<Rightarrow> 'a \<Rightarrow> bool"
    and greatest :: 'a
  assumes refl: "le x x"
    and trans: "le x y \<Longrightarrow> le y z \<Longrightarrow> le x z"
    and antisym: "le x y \<Longrightarrow> le y x \<Longrightarrow> x = y"
    and top: "le greatest x"
begin

lemma unique_top: "(\<forall>x. le y x) \<Longrightarrow> y = greatest"
  using antisym top by blast

text \<open>Holding more satisfies more: a requirement met by one of a set stays met above it.\<close>

lemma upward: "\<exists>h\<in>set have. le h need \<Longrightarrow> \<forall>h\<in>set have. \<exists>k\<in>set have'. le k h \<Longrightarrow> \<exists>k\<in>set have'. le k need"
  using trans by blast

end

interpretation scope_order: bounded_above_order satisfies "''all''"
proof unfold_locales
  show "satisfies x x" for x by (simp add: satisfies_iff)
  show "satisfies x z" if "satisfies x y" "satisfies y z" for x y z
    using that by (auto simp: satisfies_iff scope_new_inject)
  show "x = y" if "satisfies x y" "satisfies y x" for x y
    using that by (auto simp: satisfies_iff scope_new_inject)
  show "satisfies ''all'' x" for x by (simp add: satisfies_iff)
qed

subsection \<open>Properties\<close>

text \<open>A parsed slug has a non-empty owner, no slash on either side and a name without a
  \<open>.git\<close> suffix; and a slug of that shape, printed, parses back to itself.\<close>

theorem repo_slug_parse_print:
  "(repo_slug_from_str s = Inr r \<longrightarrow>
      slug_owner r \<noteq> [] \<and> CHR ''/'' \<notin> set (slug_owner r) \<and> CHR ''/'' \<notin> set (slug_name r)
      \<and> \<not> ends_with (slug_name r) ''.git'')
   \<and> (slug_owner q \<noteq> [] \<and> slug_name q \<noteq> [] \<and> CHR ''/'' \<notin> set (slug_owner q)
      \<and> CHR ''/'' \<notin> set (slug_name q) \<and> \<not> ends_with (slug_name q) ''.git''
      \<and> trim (slug_show q) = slug_show q
      \<longrightarrow> repo_slug_from_str (slug_show q) = Inr q)"
proof (intro conjI impI; (elim conjE)?)
  assume "repo_slug_from_str s = Inr r"
  then show "slug_owner r \<noteq> []" "CHR ''/'' \<notin> set (slug_owner r)" "CHR ''/'' \<notin> set (slug_name r)"
    "\<not> ends_with (slug_name r) ''.git''"
    using repo_slug_from_str_Inr [of s r] set_trim_end_str trim_end_str_not_suffix [of "''.git''"]
    by (auto dest!: subsetD [OF set_trim_end_str])
next
  assume "slug_owner q \<noteq> []" "slug_name q \<noteq> []" "CHR ''/'' \<notin> set (slug_owner q)"
    "CHR ''/'' \<notin> set (slug_name q)" "\<not> ends_with (slug_name q) ''.git''"
    "trim (slug_show q) = slug_show q"
  then show "repo_slug_from_str (slug_show q) = Inr q"
    using repo_slug_from_str_show [of "slug_owner q" "slug_name q"]
    by (simp add: slug_show_def slug_new_def)
qed

theorem repo_slug_parse_print_witness:
  "repo_slug_from_str ''perf3ct/fjo'' = Inr \<lparr>slug_owner = ''perf3ct'', slug_name = ''fjo''\<rparr>"
proof -
  have "\<not> ends_with ''fjo'' ''.git'' \<and> trim ''perf3ct/fjo'' = ''perf3ct/fjo''" by code_simp
  then show ?thesis
    using repo_slug_parse_print [of "[]" undefined "\<lparr>slug_owner = ''perf3ct'', slug_name = ''fjo''\<rparr>"]
    by (simp add: slug_show_def)
qed

text \<open>A full URL given to \<open>-R\<close> yields its first segment as the host and its last two as the
  slug, whatever the credentials before the at sign and the subpath in between; the credentials
  are no part of the result.\<close>

theorem repo_ref_of_url:
  assumes "CHR '':'' \<notin> set sch" "CHR ''@'' \<notin> set creds"
    "h \<noteq> []" "nm \<noteq> []" "\<forall>x\<in>set (h # mid @ [ow, nm]). CHR ''/'' \<notin> set x"
    "trim (sch @ ''://'' @ creds @ ''@'' @ join ''/'' (h # mid @ [ow, nm]))
      = sch @ ''://'' @ creds @ ''@'' @ join ''/'' (h # mid @ [ow, nm])"
  shows "repo_ref_from_str (sch @ ''://'' @ creds @ ''@'' @ join ''/'' (h # mid @ [ow, nm]))
         = Inr \<lparr>ref_host = Some h, ref_slug = slug_new ow (trim_end_str nm ''.git'')\<rparr>"
proof -
  let ?parts = "h # mid @ [ow, nm]"
  let ?path = "join ''/'' ?parts"
  have snoc: "xs \<noteq> [] \<Longrightarrow> join ''/'' (xs @ [y]) = join ''/'' xs @ CHR ''/'' # y" for xs and y :: str
    by (induction xs rule: induct_list012) auto
  have "?path = join ''/'' (h # mid @ [ow]) @ CHR ''/'' # nm"
    using snoc [of "h # mid @ [ow]" nm] by simp
  moreover have "last (x @ CHR ''/'' # nm) \<noteq> CHR ''/''" for x
    using assms(4,5) last_in_set [of nm] by (cases nm) fastforce+
  ultimately have "trim_end_c ?path CHR ''/'' = ?path" by (metis trim_end_c_noop)
  moreover have "split_c ?path CHR ''/'' = ?parts" using assms(5) by (intro split_c_join) auto
  moreover have "?parts ! (length ?parts - 2) = ow" "?parts ! (length ?parts - 1) = nm"
    by (simp_all add: nth_append)
  ultimately show ?thesis
    using assms(1,2,3,6) split_once_scheme [OF assms(1)]
    by (simp add: repo_ref_from_str_def Let_def)
qed

theorem repo_ref_of_url_witness:
  "repo_ref_from_str ''https://me:pw@git.example/sub/o/n.git''
   = Inr \<lparr>ref_host = Some ''git.example'', ref_slug = slug_new ''o'' ''n''\<rparr>"
proof -
  have "trim ''https://me:pw@git.example/sub/o/n.git'' = ''https://me:pw@git.example/sub/o/n.git''"
    "trim_end_str ''n.git'' ''.git'' = ''n''" by code_simp+
  then show ?thesis
    using repo_ref_of_url [of "''https''" "''me:pw''" "''git.example''" "''n.git''" "[''sub'']" "''o''"]
    by simp
qed

text \<open>Holding a scope satisfies a requirement exactly when it is \<open>all\<close>, the same scope, or
  the write scope of the same area; this is a partial order with \<open>all\<close> on top, so a token that
  is given more never satisfies less.\<close>

theorem scope_satisfies_order:
  "satisfies s s \<and> satisfies ''all'' s
   \<and> (satisfies s t \<and> satisfies t u \<longrightarrow> satisfies s u)
   \<and> (satisfies s t \<and> satisfies t s \<longrightarrow> s = t)
   \<and> (satisfies s t \<longleftrightarrow> s = ''all'' \<or> s = t
        \<or> (\<exists>area. s = scope_new Write area \<and> t = scope_new Read area))"
  by (intro conjI impI; (elim conjE)?)
     (rule scope_order.refl, rule scope_order.top, erule (1) scope_order.trans,
      erule (1) scope_order.antisym, rule satisfies_iff)

theorem scope_satisfies_order_witness:
  "satisfies ''write:issue'' ''read:issue'' \<and> satisfies ''all'' ''read:issue''"
proof -
  have "satisfies ''all'' ''write:issue'' \<and> satisfies ''write:issue'' ''read:issue''" by code_simp
  then show ?thesis using scope_satisfies_order [of "''all''" "''write:issue''" "''read:issue''"] by blast
qed

end
