(* ===== verification/Compat.thy ===== *)
theory Compat
  imports Rust_Str "HOL-Library.Product_Lexorder"
begin

text \<open>
  The forward-compatibility notes of \<open>crates/forgejo-core/src/error/compat.rs\<close>: values a newer
  server sent, collected while a command runs and drained once at its end.  The process-global
  \<open>Mutex<BTreeSet<Note>>\<close> is a set passed from step to step; \<open>drain\<close> lists it in the
  derived order of \<open>Note\<close>.  Locking cannot fail here: the mutex is poisoned only by a panic while
  it is held, and no operation on the set panics.  Also \<open>types/timestamp.rs\<close>, whose
  deserializer is one of the two writers; the date parser (crate jiff) is a parameter.
\<close>

datatype compat_note = UnknownEnum str str | Unparsed str str

text \<open>The derived \<open>Ord\<close>: variants in declaration order, then the fields lexicographically.\<close>

fun note_key :: "compat_note \<Rightarrow> nat \<times> str \<times> str" where
  "note_key (UnknownEnum t v) = (0, t, v)"
| "note_key (Unparsed w v) = (1, w, v)"

lemma note_key_inject [simp]: "note_key a = note_key b \<longleftrightarrow> a = b"
  by (cases a; cases b) auto

instantiation compat_note :: linorder
begin

definition less_eq_compat_note :: "compat_note \<Rightarrow> compat_note \<Rightarrow> bool" where
  "less_eq_compat_note a b \<longleftrightarrow> note_key a \<le> note_key b"

definition less_compat_note :: "compat_note \<Rightarrow> compat_note \<Rightarrow> bool" where
  "less_compat_note a b \<longleftrightarrow> note_key a < note_key b"

instance
proof
  show "(x < y) = (x \<le> y \<and> \<not> y \<le> x)" for x y :: compat_note
    by (auto simp: less_eq_compat_note_def less_compat_note_def less_le_not_le)
  show "x \<le> x" for x :: compat_note by (simp add: less_eq_compat_note_def)
  show "x \<le> z" if "x \<le> y" "y \<le> z" for x y z :: compat_note
    using that by (auto simp: less_eq_compat_note_def)
  show "x = y" if "x \<le> y" "y \<le> x" for x y :: compat_note
    using that by (metis less_eq_compat_note_def note_key_inject order_antisym)
  show "x \<le> y \<or> y \<le> x" for x y :: compat_note
    by (auto simp: less_eq_compat_note_def)
qed

end

subsection \<open>The store\<close>

type_synonym note_store = "compat_note set"

definition CLIP_MAX :: nat where
  "CLIP_MAX = 64"

text \<open>The ellipsis U+2026 in UTF-8.\<close>

definition ellipsis :: str where
  "ellipsis = [CHR 0xE2, CHR 0x80, CHR 0xA6]"

definition clip :: "str \<Rightarrow> str" where
  "clip v = (if length (chars v) \<le> CLIP_MAX then v else concat (take CLIP_MAX (chars v)) @ ellipsis)"

definition note_unknown_enum :: "str \<Rightarrow> str \<Rightarrow> note_store \<Rightarrow> note_store" where
  "note_unknown_enum type_name v s = insert (UnknownEnum type_name (clip v)) s"

definition note_unparsed :: "str \<Rightarrow> str \<Rightarrow> note_store \<Rightarrow> note_store" where
  "note_unparsed what v s = insert (Unparsed what (clip v)) s"

definition drain :: "note_store \<Rightarrow> compat_note list \<times> note_store" where
  "drain s = (sorted_list_of_set s, {})"

definition forget :: "note_store \<Rightarrow> note_store" where
  "forget s = snd (drain s)"

text \<open>\<open>FJO_NO_COMPAT_NOTES\<close> as the environment has it.\<close>

definition is_suppressed :: "str option \<Rightarrow> bool" where
  "is_suppressed var = (case var of None \<Rightarrow> False | Some v \<Rightarrow> v \<noteq> [] \<and> v \<noteq> ''0'')"

subsection \<open>Timestamps\<close>

text \<open>\<open>year\<close> is the civil year in UTC of an instant, \<open>secs\<close> its seconds since the epoch.\<close>

definition ts_is_unset :: "('t \<Rightarrow> int) \<Rightarrow> ('t \<Rightarrow> int) \<Rightarrow> 't \<Rightarrow> bool" where
  "ts_is_unset year secs t \<longleftrightarrow> year t \<le> 1 \<or> secs t = 0"

definition opt_timestamp ::
  "(str \<Rightarrow> 't option) \<Rightarrow> ('t \<Rightarrow> int) \<Rightarrow> ('t \<Rightarrow> int) \<Rightarrow> str option \<Rightarrow> note_store \<Rightarrow> 't option \<times> note_store" where
  "opt_timestamp parse year secs raw store =
     (case raw of None \<Rightarrow> (None, store)
      | Some s \<Rightarrow>
          (let s = trim s in
           if s = [] then (None, store)
           else (case parse s of
                   Some t \<Rightarrow> (if ts_is_unset year secs t then None else Some t, store)
                 | None \<Rightarrow> (None, note_unparsed ''timestamp'' s store))))"

subsection \<open>Lemmas\<close>

lemma chars_length_concat_le: "char_list xs \<Longrightarrow> length (chars (concat xs)) = length xs"
  by (simp add: chars_concat)

lemma length_chars_append: "\<not> is_cont d \<Longrightarrow> chars (a @ d # b) = chars a @ chars (d # b)"
proof (induction a rule: chars.induct)
  case (2 c cs)
  show ?case
  proof (cases "\<forall>x\<in>set cs. is_cont x")
    case True
    then have t: "takeWhile is_cont cs = cs" and d: "dropWhile is_cont cs = []" by auto
    have "chars (c # cs) = [c # cs]" by (simp only: chars.simps t d)
    moreover have "chars ((c # cs) @ d # b) = (c # cs) # chars (d # b)"
      by (simp only: append_Cons chars.simps takeWhile_no_match [OF True] dropWhile_no_match [OF True])
         (simp add: "2.prems")
    ultimately show ?thesis by (simp only: append_Cons append_Nil)
  next
    case False
    then have "takeWhile is_cont (cs @ d # b) = takeWhile is_cont cs"
      "dropWhile is_cont (cs @ d # b) = dropWhile is_cont cs @ d # b"
      by (induction cs) auto
    then show ?thesis using 2 by simp
  qed
qed simp

lemma char_list_take: "char_list xs \<Longrightarrow> char_list (take n xs)"
  by (metis append_take_drop_id char_list_prefix)

lemma clip_chars: "length (chars (clip v)) \<le> CLIP_MAX + 1"
proof (cases "length (chars v) \<le> CLIP_MAX")
  case False
  have "chars (concat (take CLIP_MAX (chars v))) = take CLIP_MAX (chars v)"
    by (simp add: chars_concat char_list_take char_list_chars)
  moreover have "chars ellipsis = [ellipsis]" "\<not> is_cont (CHR 0xE2)"
    by (simp_all add: ellipsis_def is_cont_def byte_def)
  ultimately have "chars (clip v) = take CLIP_MAX (chars v) @ [ellipsis]"
    using False length_chars_append [of "CHR 0xE2" "concat (take CLIP_MAX (chars v))" "[CHR 0x80, CHR 0xA6]"]
    by (simp add: clip_def ellipsis_def)
  then show ?thesis by simp
qed (simp add: clip_def)

lemma drain_snd [simp]: "snd (drain s) = {}"
  by (simp add: drain_def)

text \<open>The notes a run can have recorded: what the two writers insert, in any order.\<close>

inductive recorded :: "note_store \<Rightarrow> bool" where
  start: "recorded {}"
| unknown: "recorded s \<Longrightarrow> recorded (note_unknown_enum t v s)"
| unparsed: "recorded s \<Longrightarrow> recorded (note_unparsed w v s)"
| drained: "recorded s \<Longrightarrow> recorded (snd (drain s))"

fun note_value :: "compat_note \<Rightarrow> str" where
  "note_value (UnknownEnum t v) = v"
| "note_value (Unparsed w v) = v"

lemma recorded_finite: "recorded s \<Longrightarrow> finite s"
  by (induction rule: recorded.induct) (auto simp: note_unknown_enum_def note_unparsed_def)

lemma recorded_clipped: "recorded s \<Longrightarrow> n \<in> s \<Longrightarrow> length (chars (note_value n)) \<le> CLIP_MAX + 1"
proof (induction rule: recorded.induct)
  case (unknown s t v)
  then show ?case using clip_chars [of v] by (auto simp: note_unknown_enum_def)
next
  case (unparsed s w v)
  then show ?case using clip_chars [of v] by (auto simp: note_unparsed_def)
qed simp_all

lemma recorded_opt_timestamp: "recorded s \<Longrightarrow> recorded (snd (opt_timestamp parse year secs raw s))"
  by (auto simp: opt_timestamp_def Let_def intro: recorded.unparsed split: option.splits)

subsection \<open>Properties\<close>

text \<open>Whatever a run records, its one report lists every note once, in order, each value cut
  to at most 65 characters, and leaves nothing for a second report.\<close>

theorem drain_reports_once:
  assumes "recorded s"
  shows "set (fst (drain s)) = s \<and> sorted (fst (drain s)) \<and> distinct (fst (drain s))
         \<and> (\<forall>n\<in>set (fst (drain s)). length (chars (note_value n)) \<le> 65)
         \<and> fst (drain (snd (drain s))) = []"
  using recorded_finite [OF assms] recorded_clipped [OF assms]
  by (fastforce simp: drain_def CLIP_MAX_def)

theorem drain_reports_once_witness:
  "set (fst (drain (note_unparsed ''timestamp'' ''nope'' {}))) = {Unparsed ''timestamp'' ''nope''}"
proof -
  have "note_unparsed ''timestamp'' ''nope'' {} = {Unparsed ''timestamp'' ''nope''}" by code_simp
  moreover have "recorded (note_unparsed ''timestamp'' ''nope'' {})"
    by (intro recorded.intros)
  ultimately show ?thesis using drain_reports_once by metis
qed

text \<open>An optional timestamp never fails and never reads an unset one as a date: what is
  returned parses from the trimmed text and lies after year one and off the epoch, and a note is
  recorded exactly when the text is not empty and does not parse.\<close>

theorem opt_timestamp_tolerant:
  "opt_timestamp parse year secs (Some raw) store = (r, store') \<Longrightarrow>
   (\<forall>t. r = Some t \<longleftrightarrow> trim raw \<noteq> [] \<and> parse (trim raw) = Some t \<and> year t > 1 \<and> secs t \<noteq> 0)
   \<and> store' = (if trim raw \<noteq> [] \<and> parse (trim raw) = None
               then note_unparsed ''timestamp'' (trim raw) store else store)"
  by (auto simp: opt_timestamp_def Let_def ts_is_unset_def split: if_splits option.splits)

theorem opt_timestamp_tolerant_witness:
  "fst (opt_timestamp (\<lambda>s. if s = ''zero'' then Some (1 :: int) else None) id (\<lambda>_. 7) (Some '' zero '') {}) = None"
proof -
  have t: "trim '' zero '' = ''zero''" by code_simp
  let ?p = "\<lambda>s. if s = ''zero'' then Some (1 :: int) else None"
  obtain r st where "opt_timestamp ?p id (\<lambda>_. 7) (Some '' zero '') {} = (r, st)" by force
  with opt_timestamp_tolerant [OF this] t show ?thesis by (cases r) auto
qed

end
