(* ===== verification/Errors.thy ===== *)
theory Errors
  imports Compat
begin

text \<open>
  The error taxonomy of \<open>crates/forgejo-core/src/error/mod.rs\<close> and the process status computed
  from it (\<open>crates/fjo/src/exit.rs\<close>).  The fields of a variant are positional, in the order of
  the source.  A message assembled with \<open>format!\<close> is kept as its template and the values put
  into it (\<open>Fmt\<close>), so that a theorem can say which value a message names.  A \<open>Duration\<close> is
  its number of nanoseconds, a \<open>PathBuf\<close> its text, an \<open>io::Error\<close> whether its kind is
  \<open>BrokenPipe\<close>, which is all the program asks of one.
\<close>

subsection \<open>Types\<close>

datatype msg = Fmt str "str list"

datatype phase = PConnect | PHeaders | PBody

datatype keyring_cause = NoBackend | Locked | Denied | KTimeout | KOther str

datatype callback_failure = Bind str | CbTimeout nat

datatype agit_remedy = ForcePush | PushOptionsDisabled | TopicRequired | Unrecognised

datatype io_error = BrokenPipe | OtherIo str

record attempt =
  att_what :: str
  att_outcome :: msg

record field_error =
  fe_field :: "str option"
  fe_message :: str

record failed_check =
  fc_name :: str
  fc_url :: "str option"

record remote_candidate =
  rc_remote :: str
  rc_host :: str
  rc_slug :: str

type_synonym duration = nat

datatype (plugins only: code) error_kind =
    Dns str
  | Connect str nat str str bool
  | Tls str str bool
  | Timeout str duration phase
  | Proxy str str
  | NoHostConfigured
  | UnknownHost str "str list"
  | NotAuthenticated str
  | TokenRejected str "str option" str
  | InsufficientScope str "str list" "str list option" str
  | TwoFactorRequired str
  | KeyringUnavailable keyring_cause
  | CredFilePermissions str nat
  | OauthNotSupported str "str list"
  | OauthAuthorizationDenied str str "str option"
  | OauthStateMismatch str
  | OauthCallbackUnavailable str "nat option" callback_failure
  | OauthTokenExchangeFailed str str "str option"
  | OauthEntropyUnavailable str
  | OauthRefreshFailed str str "str option"
  | NotAGitRepo
  | RepoNotResolved "attempt list"
  | AmbiguousRemote "remote_candidate list"
  | RemoteHostUnknown str str
  | RepoNotFound str str "str option" bool "str option"
  | ResourceNotFound str str "str option" "str option"
  | RouteNotFound str str "str option"
  | Conflict str
  | Validation "field_error list" "str option"
  | QuotaExceeded str "str option"
  | Archived str str
  | StateConflict "str option" "str option" str
  | ChecksPending "str option" str "str list"
  | ChecksFailed "str option" str "failed_check list"
  | RunFailed "str option" str str "str list" "str option"
  | PaginationDidNotTerminate nat nat
  | RateLimited str "duration option"
  | Forbidden str
  | ServerError nat str
  | UnexpectedStatus nat str
  | Decode str str str
  | Usage msg
  | UnknownJsonField str "str list" "str option"
  | JqCompile str str "nat option"
  | Template msg nat
  | PathNotFound str str
  | GitFailed str str "int option"
  | AgitRefused str agit_remedy str
  | Io io_error
  | Cancelled

datatype credential_kind = Pat | Oauth2

datatype token_source = Keyring str | File str | EnvVar str | Flag

record request_ctx =
  ctx_host :: "str option"
  ctx_login :: "str option"
  ctx_method :: "str option"
  ctx_path :: "str option"
  ctx_repo :: "str option"
  ctx_status :: "nat option"
  ctx_token_source :: "token_source option"
  ctx_credential_kind :: "credential_kind option"

definition empty_ctx :: request_ctx where
  "empty_ctx = \<lparr>ctx_host = None, ctx_login = None, ctx_method = None, ctx_path = None, ctx_repo = None,
     ctx_status = None, ctx_token_source = None, ctx_credential_kind = None\<rparr>"

record error =
  err_kind :: error_kind
  err_ctx :: request_ctx

definition error_new :: "error_kind \<Rightarrow> error" where
  "error_new k = \<lparr>err_kind = k, err_ctx = empty_ctx\<rparr>"

definition failed_check_new :: "str \<Rightarrow> str option \<Rightarrow> failed_check" where
  "failed_check_new nm url =
     \<lparr>fc_name = nm,
      fc_url = (case url of None \<Rightarrow> None | Some u \<Rightarrow> if trim u = [] then None else Some u)\<rparr>"

subsection \<open>Operations\<close>

definition from_stderr :: "str \<Rightarrow> agit_remedy" where
  "from_stderr stderr =
     (let lower = to_ascii_lowercase stderr in
      if contains lower ''does not support push options'' then PushOptionsDisabled
      else if contains lower ''non-fast-forward'' \<or> contains lower ''fetch first''
        \<or> contains lower ''rejected'' then ForcePush
      else if contains lower ''topic'' then TopicRequired
      else Unrecognised)"

definition exit_code :: "error_kind \<Rightarrow> int" where
  "exit_code k =
     (case k of
        Usage _ \<Rightarrow> 2 | UnknownJsonField _ _ _ \<Rightarrow> 2 | JqCompile _ _ _ \<Rightarrow> 2 | Template _ _ \<Rightarrow> 2
      | PathNotFound _ _ \<Rightarrow> 2
      | NotAuthenticated _ \<Rightarrow> 4 | TokenRejected _ _ _ \<Rightarrow> 4 | InsufficientScope _ _ _ _ \<Rightarrow> 4
      | TwoFactorRequired _ \<Rightarrow> 4 | NoHostConfigured \<Rightarrow> 4 | UnknownHost _ _ \<Rightarrow> 4
      | OauthNotSupported _ _ \<Rightarrow> 4 | OauthAuthorizationDenied _ _ _ \<Rightarrow> 4 | OauthStateMismatch _ \<Rightarrow> 4
      | OauthCallbackUnavailable _ _ _ \<Rightarrow> 4 | OauthTokenExchangeFailed _ _ _ \<Rightarrow> 4
      | OauthRefreshFailed _ _ _ \<Rightarrow> 4 | OauthEntropyUnavailable _ \<Rightarrow> 4
      | RepoNotFound _ _ _ _ _ \<Rightarrow> 5 | ResourceNotFound _ _ _ _ \<Rightarrow> 5 | RouteNotFound _ _ _ \<Rightarrow> 5
      | Dns _ \<Rightarrow> 6 | Connect _ _ _ _ _ \<Rightarrow> 6 | Tls _ _ _ \<Rightarrow> 6 | Timeout _ _ _ \<Rightarrow> 6 | Proxy _ _ \<Rightarrow> 6
      | ServerError _ _ \<Rightarrow> 7 | PaginationDidNotTerminate _ _ \<Rightarrow> 7
      | RateLimited _ _ \<Rightarrow> 8 | ChecksPending _ _ _ \<Rightarrow> 8
      | Cancelled \<Rightarrow> 130
      | _ \<Rightarrow> 1)"

definition is_transient :: "error_kind \<Rightarrow> bool" where
  "is_transient k =
     (case k of
        Dns _ \<Rightarrow> True | Connect _ _ _ _ _ \<Rightarrow> True | Timeout _ _ _ \<Rightarrow> True
      | RateLimited _ _ \<Rightarrow> True | ServerError _ _ \<Rightarrow> True
      | _ \<Rightarrow> False)"

subsection \<open>The process status\<close>

text \<open>
  \<open>Clap\<close> carries what \<open>clap\<close> says about its own error: whether it goes to stderr, and its text.
\<close>

datatype fail = Clap bool str | Run error

definition is_broken_pipe :: "error \<Rightarrow> bool" where
  "is_broken_pipe e = (case err_kind e of Io io \<Rightarrow> io = BrokenPipe | _ \<Rightarrow> False)"

text \<open>
  The notes block: \<open>label\<close> is the (possibly bold) \<open>note:\<close>, \<open>dbg\<close> the \<open>Debug\<close> form
  of a string, \<open>var\<close> the value of \<open>FJO_NO_COMPAT_NOTES\<close>.
\<close>

definition note_line :: "(str \<Rightarrow> str) \<Rightarrow> compat_note \<Rightarrow> str" where
  "note_line dbg n = (case n of
       UnknownEnum type_name v \<Rightarrow> ''      '' @ type_name @ '': '' @ dbg v
     | Unparsed what v \<Rightarrow> ''      '' @ what @ '': '' @ dbg v)"

definition print_notes :: "str \<Rightarrow> (str \<Rightarrow> str) \<Rightarrow> str option \<Rightarrow> note_store \<Rightarrow> str list \<times> note_store" where
  "print_notes label dbg var store =
     (if is_suppressed var then ([], store)
      else (let (ns, store') = drain store in
            if ns = [] then ([], store')
            else ((label @ '' this instance sent '' @ show_nat (length ns) @ '' value''
                   @ (if length ns = 1 then [] else ''s'')
                   @ '' newer than the API description this build was generated from. They were passed through unchanged.'')
                  # map (note_line dbg) ns @ [''      Silence this with FJO_NO_COMPAT_NOTES=1.''], store')))"

text \<open>
  The status as \<open>u8\<close>, the lines written to stdout and stderr by the report, and the notes left.
  \<open>render\<close> is the diagnostic renderer (\<open>error/render.rs\<close>), whose output nothing here reads.
\<close>

definition report ::
  "(error \<Rightarrow> str) \<Rightarrow> str \<Rightarrow> (str \<Rightarrow> str) \<Rightarrow> str option \<Rightarrow> note_store \<Rightarrow> (fail, unit) res
   \<Rightarrow> nat \<times> str list \<times> str list \<times> note_store" where
  "report render label dbg var store result =
     (let (code, out, err) =
            (case result of
               Inr _ \<Rightarrow> (0, [], [])
             | Inl (Clap use_stderr t) \<Rightarrow> if use_stderr then (2, [], [t]) else (0, [t], [])
             | Inl (Run e) \<Rightarrow>
                 if is_broken_pipe e then (0, [], [])
                 else (if 0 \<le> exit_code (err_kind e) \<and> exit_code (err_kind e) \<le> 255
                       then nat (exit_code (err_kind e)) else 1, [], [render e]));
          (lines, store') = print_notes label dbg var store
      in (code, out, err @ lines, store'))"

subsection \<open>Lemmas\<close>

lemma exit_code_range: "exit_code k \<in> {1, 2, 4, 5, 6, 7, 8, 130}"
  by (cases k) (simp_all add: exit_code_def)

lemma exit_code_transient: "is_transient k \<Longrightarrow> exit_code k \<in> {6, 7, 8}"
  by (cases k) (simp_all add: exit_code_def is_transient_def)

text \<open>The status alone, as a function of the command's result.\<close>

definition status_of :: "(fail, unit) res \<Rightarrow> nat" where
  "status_of result =
     (case result of
        Inr _ \<Rightarrow> 0
      | Inl (Clap use_stderr _) \<Rightarrow> if use_stderr then 2 else 0
      | Inl (Run e) \<Rightarrow> if is_broken_pipe e then 0 else nat (exit_code (err_kind e)))"

lemma report_status_of: "fst (report render label dbg var store result) = status_of result"
proof -
  have "0 \<le> exit_code k \<and> exit_code k \<le> 255" for k using exit_code_range [of k] by auto
  then show ?thesis
    by (simp add: report_def status_of_def Let_def split: sum.splits fail.splits prod.splits)
qed

lemma status_of_range: "status_of result \<in> {0, 1, 2, 4, 5, 6, 7, 8, 130}"
proof (cases result)
  case (Inl f)
  show ?thesis
  proof (cases f)
    case (Run e)
    then show ?thesis using Inl exit_code_range [of "err_kind e"] by (auto simp: status_of_def)
  qed (simp add: Inl status_of_def)
qed (simp add: status_of_def)

lemma status_of_0:
  "status_of result = 0 \<longleftrightarrow>
     (case result of Inr _ \<Rightarrow> True | Inl (Clap use_stderr _) \<Rightarrow> \<not> use_stderr | Inl (Run e) \<Rightarrow> is_broken_pipe e)"
proof -
  have "nat (exit_code k) \<noteq> 0" for k using exit_code_range [of k] by auto
  then show ?thesis by (auto simp: status_of_def split: sum.splits fail.splits)
qed

subsection \<open>Properties\<close>

text \<open>The process exits 0 exactly when the command succeeded, the user asked for help or the
  reader closed the pipe; every other failure gets one of the documented codes, and the
  compatibility notes, the colour and the renderer never change it.\<close>

theorem report_status:
  "(fst (report render label dbg var store result) = 0
     \<longleftrightarrow> (case result of Inr _ \<Rightarrow> True | Inl (Clap use_stderr _) \<Rightarrow> \<not> use_stderr
           | Inl (Run e) \<Rightarrow> is_broken_pipe e))
   \<and> fst (report render label dbg var store result) \<in> {0, 1, 2, 4, 5, 6, 7, 8, 130}
   \<and> fst (report render label dbg var store result) = fst (report render' label' dbg' var' store' result)"
  unfolding report_status_of using status_of_0 status_of_range by blast

text \<open>Only network, server and rate-limit failures are transient: no error that a script is
  told to fix (usage, credentials, a missing object, a settled refusal) is ever retried.\<close>

theorem transient_exit_codes:
  assumes "is_transient k"
  shows "exit_code k \<in> {6, 7, 8}"
  by (rule exit_code_transient [OF assms])

theorem transient_exit_codes_witness: "exit_code (ServerError 503 ''down'') \<in> {6, 7, 8}"
  by (rule transient_exit_codes) (simp add: is_transient_def)

end
