(* ===== verification/Retry.thy ===== *)
theory Retry
  imports Errors "HOL-Library.Word"
begin

unbundle bit_operations_syntax

text \<open>
  When a request is sent again: \<open>crates/forgejo-core/src/http/retry.rs\<close>.  The policy's decisions
  are pure functions of the attempt; the loop that obeys them is the client's
  (\<open>http/mod.rs\<close>).  The floating-point jitter enters as \<open>spread\<close>, the map from the unjittered
  delay to the jittered one for the policy's \<open>jitter\<close> and the sample drawn; no theorem depends on
  what it is, because the code caps its result.
\<close>

subsection \<open>Types\<close>

datatype http_method = GET | HEAD | POST | PUT | PATCH | DELETE | OPTIONS | TRACE | CONNECT | Extension str

record retry_policy =
  rp_max :: nat
  rp_base :: duration
  rp_max_backoff :: duration
  rp_max_retry_after :: duration

definition millis :: "nat \<Rightarrow> duration" where
  "millis n = n * 1000000"

definition secs :: "nat \<Rightarrow> duration" where
  "secs n = n * 1000000000"

text \<open>\<open>Duration::MAX\<close>: \<open>u64::MAX\<close> seconds and 999999999 nanoseconds.\<close>

definition duration_max :: duration where
  "duration_max = (2 ^ 64 - 1) * 1000000000 + 999999999"

definition saturating_mul :: "duration \<Rightarrow> nat \<Rightarrow> duration" where
  "saturating_mul d n = min (d * n) duration_max"

definition default_policy :: retry_policy where
  "default_policy =
     \<lparr>rp_max = 3, rp_base = millis 400, rp_max_backoff = secs 30, rp_max_retry_after = secs 120\<rparr>"

definition no_retry_policy :: retry_policy where
  "no_retry_policy = default_policy\<lparr>rp_max := 1\<rparr>"

datatype retry_reason = RateLimitedReason | ServerErrorReason nat | TransportReason

datatype decision = Fail | Retry duration retry_reason

definition is_retry :: "decision \<Rightarrow> bool" where
  "is_retry d = (case d of Retry _ _ \<Rightarrow> True | Fail \<Rightarrow> False)"

definition decision_after :: "decision \<Rightarrow> duration option" where
  "decision_after d = (case d of Retry after _ \<Rightarrow> Some after | Fail \<Rightarrow> None)"

definition is_idempotent :: "http_method \<Rightarrow> bool" where
  "is_idempotent m \<longleftrightarrow> List.member [GET, HEAD, PUT, DELETE, OPTIONS] m"

subsection \<open>Decisions\<close>

definition backoff :: "retry_policy \<Rightarrow> nat \<Rightarrow> (duration \<Rightarrow> duration) \<Rightarrow> duration" where
  "backoff p attempt spread =
     (let ex = min (attempt - 1) 16;
          base = min (saturating_mul (rp_base p) (2 ^ ex)) (rp_max_backoff p)
      in min (spread base) (rp_max_backoff p))"

definition on_status ::
  "retry_policy \<Rightarrow> http_method \<Rightarrow> nat \<Rightarrow> duration option \<Rightarrow> nat \<Rightarrow> bool \<Rightarrow> (duration \<Rightarrow> duration) \<Rightarrow> decision" where
  "on_status p m status retry_after attempt replayable spread =
     (let after = (case retry_after of Some d \<Rightarrow> min d (rp_max_retry_after p)
                   | None \<Rightarrow> backoff p attempt spread)
      in if rp_max p \<le> attempt \<or> \<not> replayable then Fail
         else if status = 429 then Retry after RateLimitedReason
         else if 500 \<le> status \<and> status \<le> 599 \<and> is_idempotent m then Retry after (ServerErrorReason status)
         else Fail)"

definition on_transport ::
  "retry_policy \<Rightarrow> http_method \<Rightarrow> error_kind \<Rightarrow> nat \<Rightarrow> bool \<Rightarrow> (duration \<Rightarrow> duration) \<Rightarrow> decision" where
  "on_transport p m k attempt replayable spread =
     (if rp_max p \<le> attempt \<or> \<not> replayable \<or> \<not> is_idempotent m then Fail
      else (let retryable = (case k of
                 Dns _ \<Rightarrow> True | Connect _ _ _ _ _ \<Rightarrow> True | Tls _ _ _ \<Rightarrow> True
               | Timeout _ _ ph \<Rightarrow> ph = PConnect \<or> ph = PHeaders
               | _ \<Rightarrow> False)
            in if retryable then Retry (backoff p attempt spread) TransportReason else Fail))"

subsection \<open>The \<open>Retry-After\<close> header\<close>

text \<open>
  Parameters: \<open>parse_f64\<close> parses a float, \<open>usable\<close> tells that it is finite and not negative,
  \<open>from_secs_f64\<close> is \<open>Duration::from_secs_f64\<close>, \<open>None\<close> where it panics; \<open>rfc2822\<close> parses
  a date to milliseconds.  The outer option of the result is \<open>None\<close> when the call panics.
\<close>

definition http_date_delay :: "(str \<Rightarrow> int option) \<Rightarrow> str \<Rightarrow> int \<Rightarrow> duration option" where
  "http_date_delay rfc2822 v now =
     (case (case rfc2822 v of Some t \<Rightarrow> Some t | None \<Rightarrow> rfc2822 (replace_all v '' GMT'' '' +0000'')) of
        None \<Rightarrow> None
      | Some t \<Rightarrow> Some (millis (nat (max (t - now) 0))))"

definition retry_after ::
  "(str \<Rightarrow> 'f option) \<Rightarrow> ('f \<Rightarrow> bool) \<Rightarrow> ('f \<Rightarrow> duration option) \<Rightarrow> (str \<Rightarrow> int option) \<Rightarrow> int
   \<Rightarrow> str \<Rightarrow> duration option option" where
  "retry_after parse_f64 usable from_secs_f64 rfc2822 now v0 =
     (let v = trim v0 in
      if v = [] then Some None
      else (case parse_u64 v of
              Some n \<Rightarrow> Some (Some (secs n))
            | None \<Rightarrow>
                (case parse_f64 v of
                   Some f \<Rightarrow>
                     (if usable f then map_option Some (from_secs_f64 f)
                      else Some (http_date_delay rfc2822 v now))
                 | None \<Rightarrow> Some (http_date_delay rfc2822 v now))))"

subsection \<open>Jitter\<close>

text \<open>One step of xorshift64*: the new state and the value returned.\<close>

definition xorshift :: "64 word \<Rightarrow> 64 word" where
  "xorshift x0 =
     (let x1 = x0 XOR drop_bit 12 x0;
          x2 = x1 XOR push_bit 25 x1
      in x2 XOR drop_bit 27 x2)"

definition next_u64 :: "64 word \<Rightarrow> 64 word \<times> 64 word" where
  "next_u64 state = (let x = xorshift state in (x, x * 0x2545F4914F6CDD1D))"

text \<open>The seed: the clock's nanoseconds, forced odd; the constant when the clock is before 1970.\<close>

definition jitter_seed :: "nat option \<Rightarrow> 64 word" where
  "jitter_seed nanos = (case nanos of None \<Rightarrow> 0x9E3779B97F4A7C15 | Some n \<Rightarrow> of_nat n) OR 1"

text \<open>The sample as the numerator of a fraction over \<open>2 ^ 53\<close>, and the new state.\<close>

definition jitter_sample :: "64 word \<Rightarrow> nat \<times> 64 word" where
  "jitter_sample state = (let (s, v) = next_u64 state in (unat (drop_bit 11 v), s))"

subsection \<open>The contract a retrying caller relies on\<close>

text \<open>
  A run of retries: the events that ended attempts \<open>n, n + 1, \<dots>\<close>, each answered by a retry;
  and the time slept in it.
\<close>

fun retried :: "(nat \<Rightarrow> 'ev \<Rightarrow> decision) \<Rightarrow> nat \<Rightarrow> 'ev list \<Rightarrow> bool" where
  "retried dec n [] = True"
| "retried dec n (ev # evs) \<longleftrightarrow> is_retry (dec n ev) \<and> retried dec (Suc n) evs"

fun waited :: "(nat \<Rightarrow> 'ev \<Rightarrow> decision) \<Rightarrow> nat \<Rightarrow> 'ev list \<Rightarrow> duration" where
  "waited dec n [] = 0"
| "waited dec n (ev # evs) =
     (case decision_after (dec n ev) of None \<Rightarrow> 0 | Some d \<Rightarrow> d) + waited dec (Suc n) evs"

text \<open>
  \<open>dec n ev\<close> is the decision after attempt \<open>n\<close> ended with \<open>ev\<close>; \<open>repeatable ev\<close> says that
  repeating the request after \<open>ev\<close> cannot repeat its effect.
\<close>

locale retry_decider =
  fixes dec :: "nat \<Rightarrow> 'ev \<Rightarrow> decision"
    and limit :: nat
    and repeatable :: "'ev \<Rightarrow> bool"
    and cap :: duration
  assumes at_limit: "limit \<le> n \<Longrightarrow> dec n ev = Fail"
    and only_repeatable: "dec n ev = Retry d r \<Longrightarrow> repeatable ev"
    and capped: "dec n ev = Retry d r \<Longrightarrow> d \<le> cap"
begin

lemma retried_length: "retried dec n evs \<Longrightarrow> evs \<noteq> [] \<Longrightarrow> n + length evs \<le> limit"
proof (induction evs arbitrary: n)
  case (Cons ev evs)
  from Cons.prems(1) have "n < limit"
    using at_limit [of n ev] by (cases "limit \<le> n") (auto simp: is_retry_def)
  with Cons show ?case by (cases evs) fastforce+
qed simp

lemma retried_repeatable: "retried dec n evs \<Longrightarrow> ev \<in> set evs \<Longrightarrow> repeatable ev"
proof (induction evs arbitrary: n)
  case (Cons e evs)
  then show ?case using only_repeatable [of n e] by (auto simp: is_retry_def split: decision.splits)
qed simp

lemma waited_bound: "retried dec n evs \<Longrightarrow> waited dec n evs \<le> length evs * cap"
proof (induction evs arbitrary: n)
  case (Cons e evs)
  then obtain d r where d: "dec n e = Retry d r" by (auto simp: is_retry_def split: decision.splits)
  then have "d \<le> cap" by (rule capped)
  moreover have "waited dec (Suc n) evs \<le> length evs * cap" using Cons by simp
  ultimately show ?case using d by (simp add: decision_after_def)
qed simp

end

text \<open>How an attempt ends: with a response's status and \<open>Retry-After\<close>, or in the transport.\<close>

datatype attempt_end = Answered nat "duration option" | Broke error_kind

definition decide ::
  "retry_policy \<Rightarrow> http_method \<Rightarrow> bool \<Rightarrow> (duration \<Rightarrow> duration) \<Rightarrow> nat \<Rightarrow> attempt_end \<Rightarrow> decision" where
  "decide p m replayable spread n ev =
     (case ev of Answered status ra \<Rightarrow> on_status p m status ra n replayable spread
      | Broke k \<Rightarrow> on_transport p m k n replayable spread)"

definition repeatable_after :: "http_method \<Rightarrow> attempt_end \<Rightarrow> bool" where
  "repeatable_after m ev \<longleftrightarrow> is_idempotent m \<or> (\<exists>ra. ev = Answered 429 ra)"

definition wait_cap :: "retry_policy \<Rightarrow> duration" where
  "wait_cap p = max (rp_max_retry_after p) (rp_max_backoff p)"

lemmas policy_defs = default_policy_def millis_def secs_def backoff_def saturating_mul_def
  duration_max_def is_idempotent_def

lemma backoff_le: "backoff p n spread \<le> rp_max_backoff p"
  by (simp add: backoff_def Let_def)

lemma on_status_Retry:
  "on_status p m status ra n replayable spread = Retry d r \<Longrightarrow>
   n < rp_max p \<and> replayable \<and> (status = 429 \<or> (500 \<le> status \<and> status \<le> 599 \<and> is_idempotent m))
   \<and> d \<le> wait_cap p"
  using backoff_le [of p n spread]
  by (auto simp: on_status_def Let_def wait_cap_def split: if_splits option.splits)

lemma on_transport_Retry:
  "on_transport p m k n replayable spread = Retry d r \<Longrightarrow>
   n < rp_max p \<and> replayable \<and> is_idempotent m \<and> (\<forall>h a. k \<noteq> Timeout h a PBody)
   \<and> exit_code k = 6 \<and> d \<le> rp_max_backoff p"
proof -
  assume a: "on_transport p m k n replayable spread = Retry d r"
  then have "n < rp_max p \<and> replayable \<and> is_idempotent m \<and> d \<le> rp_max_backoff p"
    using backoff_le [of p n spread] by (auto simp: on_transport_def Let_def split: if_splits)
  moreover have "(\<forall>h a. k \<noteq> Timeout h a PBody) \<and> exit_code k = 6"
    using a by (cases k) (auto simp: on_transport_def exit_code_def split: if_splits)
  ultimately show ?thesis by blast
qed

interpretation policy: retry_decider "decide p m replayable spread" "rp_max p" "repeatable_after m" "wait_cap p"
  for p m replayable spread
proof unfold_locales
  fix n ev d r
  show "decide p m replayable spread n ev = Fail" if "rp_max p \<le> n"
    using that by (simp add: decide_def on_status_def on_transport_def Let_def split: attempt_end.splits)
  assume a: "decide p m replayable spread n ev = Retry d r"
  show "repeatable_after m ev"
    using a by (auto simp: decide_def repeatable_after_def dest!: on_status_Retry on_transport_Retry
        split: attempt_end.splits)
  show "d \<le> wait_cap p"
    using a by (auto simp: decide_def wait_cap_def dest!: on_status_Retry on_transport_Retry
        split: attempt_end.splits)
qed

subsection \<open>The jitter generator\<close>

lemma xor_drop_bit_0: "x XOR drop_bit k x = 0 \<longleftrightarrow> x = 0" if "0 < k" for x :: "64 word"
proof
  assume a: "x XOR drop_bit k x = 0"
  have eq: "bit x n = bit x (n + k)" for n
  proof -
    have "bit (x XOR drop_bit k x) n = False" using a by simp
    then show ?thesis by (simp add: bit_xor_iff bit_drop_bit_eq add.commute [of k])
  qed
  have "\<not> bit x n" for n
  proof (induction "64 - n" arbitrary: n rule: less_induct)
    case less
    show ?case
    proof (cases "n < 64")
      case True
      then have "64 - (n + k) < 64 - n" using that by linarith
      then show ?thesis using less eq by blast
    next
      case False
      then show ?thesis using bit_imp_le_length [of x n] by auto
    qed
  qed
  then show "x = 0" by (intro bit_word_eqI) simp
qed simp

lemma xor_push_bit_0: "x XOR push_bit k x = 0 \<longleftrightarrow> x = 0" if "0 < k" for x :: "64 word"
proof
  assume a: "x XOR push_bit k x = 0"
  have eq: "bit x n = (k \<le> n \<and> n < 64 \<and> bit x (n - k))" for n
  proof -
    have "bit (x XOR push_bit k x) n = False" using a by simp
    then have "bit x n = bit (push_bit k x) n" by (simp only: bit_xor_iff) blast
    also have "\<dots> = (k \<le> n \<and> n < 64 \<and> bit x (n - k))"
      by (simp add: bit_push_bit_iff conj_ac)
    finally show ?thesis .
  qed
  have "\<not> bit x n" for n
  proof (induction n rule: less_induct)
    case (less n)
    show ?case
    proof (cases "k \<le> n")
      case True
      then have "n - k < n" using that by linarith
      then show ?thesis using eq [of n] less by blast
    next
      case False
      then show ?thesis using eq [of n] by blast
    qed
  qed
  then show "x = 0" by (intro bit_word_eqI) simp
qed simp

lemma xorshift_0: "xorshift x = 0 \<longleftrightarrow> x = 0"
  unfolding xorshift_def Let_def
  by (simp only: xor_drop_bit_0 [OF zero_less_numeral] xor_push_bit_0 [OF zero_less_numeral])

lemma jitter_seed_nonzero: "jitter_seed nanos \<noteq> 0"
proof
  assume "jitter_seed nanos = 0"
  then have "\<not> bit (jitter_seed nanos) 0" by simp
  then show False by (simp add: jitter_seed_def bit_or_iff)
qed

lemma jitter_sample_less: "fst (jitter_sample s) < 2 ^ 53"
proof -
  have "unat (drop_bit 11 v) < 2 ^ 53" for v :: "64 word"
  proof -
    have "unat (drop_bit 11 v) = unat v div 2 ^ 11" by (simp only: unat_drop_bit_eq) (simp only: drop_bit_eq_div)
    moreover have "unat v < 2 ^ 53 * 2 ^ 11" using unsigned_less [where ?'a = nat, of v] by simp
    ultimately show ?thesis by (simp add: less_mult_imp_div_less)
  qed
  then show ?thesis by (simp add: jitter_sample_def next_u64_def Let_def)
qed

subsection \<open>Properties\<close>

text \<open>A request that is not idempotent (POST, PATCH) is never sent again after a transport
  failure or any status other than 429, whatever the policy; and no request is ever sent again when
  its body cannot be replayed or its attempts are used up.\<close>

theorem post_patch_retried_on_429_only:
  "(on_status p m status ra n replayable spread = Retry d r \<longrightarrow>
      n < rp_max p \<and> replayable \<and> (is_idempotent m \<or> status = 429))
   \<and> (on_transport p m k n replayable spread = Retry d r \<longrightarrow>
      n < rp_max p \<and> replayable \<and> is_idempotent m \<and> (\<forall>h a. k \<noteq> Timeout h a PBody))
   \<and> \<not> is_idempotent POST \<and> \<not> is_idempotent PATCH"
proof -
  have "\<not> is_idempotent POST \<and> \<not> is_idempotent PATCH" by (simp add: is_idempotent_def)
  then show ?thesis by (auto dest: on_status_Retry on_transport_Retry)
qed

theorem post_patch_retried_on_429_only_witness:
  "on_status default_policy POST 429 None 1 True id = Retry (millis 400) RateLimitedReason
   \<and> 1 < rp_max default_policy"
proof -
  have "on_status default_policy POST 429 None 1 True id = Retry (millis 400) RateLimitedReason"
    by (simp add: on_status_def Let_def policy_defs)
  with post_patch_retried_on_429_only [of default_policy POST 429 None 1 True id "millis 400" RateLimitedReason]
  show ?thesis by simp
qed

text \<open>Retrying ends: a request is sent at most \<open>max\<close> times, each retried attempt could be
  repeated without repeating its effect, and all its waits together last at most one cap per retry,
  even where the server names the delay.\<close>

theorem retries_bounded:
  assumes "retried (decide p m replayable spread) 1 evs" "evs \<noteq> []"
  shows "length evs < rp_max p \<and> (\<forall>ev\<in>set evs. repeatable_after m ev)
         \<and> waited (decide p m replayable spread) 1 evs \<le> length evs * wait_cap p"
  using policy.retried_length [OF assms] policy.retried_repeatable [OF assms(1)]
    policy.waited_bound [OF assms(1)] by auto

theorem retries_bounded_witness:
  "waited (decide default_policy GET True id) 1 [Answered 503 None, Answered 429 (Some (secs 3600))]
   \<le> 2 * wait_cap default_policy"
proof -
  have "retried (decide default_policy GET True id) 1
          [Answered 503 None, Answered 429 (Some (secs 3600))]"
    by (simp add: decide_def on_status_def Let_def is_retry_def policy_defs)
  from retries_bounded [OF this] show ?thesis by (simp del: waited.simps)
qed

text \<open>The jitter generator never sticks at zero: from its seed on every state is non-zero, and
  every sample is a fraction of \<open>2 ^ 53\<close> below one.\<close>

theorem jitter_never_stuck:
  "((fst \<circ> next_u64) ^^ n) (jitter_seed nanos) \<noteq> 0 \<and> fst (jitter_sample s) < 2 ^ 53"
proof -
  have "((fst \<circ> next_u64) ^^ n) (jitter_seed nanos) \<noteq> 0"
    by (induction n) (simp_all add: jitter_seed_nonzero next_u64_def Let_def xorshift_0)
  then show ?thesis using jitter_sample_less by blast
qed

end
