(* ===== verification/Request.thy ===== *)
theory Request
  imports Encode Retry
begin

text \<open>
  A request before it is sent and a response as it arrives: the types and builders at the head of
  \<open>crates/forgejo-core/src/http/mod.rs\<close>, with the bodies of \<open>http/transport.rs\<close> and the parts
  of \<open>http/multipart.rs\<close>.

  A \<open>HeaderMap\<close> (crate http) is the list of its entries in order, names in lower case as the
  crate keeps them; a value is given by what \<open>HeaderValue::to_str\<close> returns for it, \<open>None\<close>
  when it is not visible ASCII.  The upload byte counter (\<open>Progress\<close>) is left out: nothing the
  client decides reads it.
\<close>

subsection \<open>Header maps\<close>

type_synonym header_map = "(str \<times> str option) list"

definition header_get_all :: "header_map \<Rightarrow> str \<Rightarrow> str option list" where
  "header_get_all h n = map snd (filter (\<lambda>p. fst p = n) h)"

definition header_get :: "header_map \<Rightarrow> str \<Rightarrow> str option option" where
  "header_get h n = (case header_get_all h n of [] \<Rightarrow> None | v # _ \<Rightarrow> Some v)"

text \<open>The text of the first value, \<open>headers.get(n).and_then(|v| v.to_str().ok())\<close>.\<close>

definition header_text :: "header_map \<Rightarrow> str \<Rightarrow> str option" where
  "header_text h n = (case header_get h n of Some (Some v) \<Rightarrow> Some v | _ \<Rightarrow> None)"

text \<open>\<open>HeaderMap::insert\<close> replaces every value of the name.\<close>

definition header_insert :: "header_map \<Rightarrow> str \<Rightarrow> str option \<Rightarrow> header_map" where
  "header_insert h n v = filter (\<lambda>p. fst p \<noteq> n) h @ [(n, v)]"

lemma header_insert_get_all [simp]:
  "header_get_all (header_insert h n v) m = (if m = n then [v] else header_get_all h m)"
  by (induction h) (auto simp: header_get_all_def header_insert_def filter_empty_conv)

lemma header_insert_text [simp]:
  "header_text (header_insert h n v) m = (if m = n then v else header_text h m)"
  by (simp add: header_text_def header_get_def split: option.splits)

lemma header_text_Nil [simp]: "header_text [] n = None"
  by (simp add: header_text_def header_get_def header_get_all_def)

subsection \<open>Media types\<close>

type_synonym mime = str

definition essence :: "mime \<Rightarrow> str" where
  "essence m = to_ascii_lowercase (trim (hd (split_c m CHR '';'')))"

definition is_json :: "mime \<Rightarrow> bool" where
  "is_json m = (let e = essence m in e = ''application/json'' \<or> ends_with e ''+json'')"

definition is_text :: "mime \<Rightarrow> bool" where
  "is_text m = starts_with (essence m) ''text/''"

datatype accept = AcceptJson | AcceptText | AcceptHtml | AcceptOctets | AcceptAny | AcceptOther str

fun accept_header :: "accept \<Rightarrow> str" where
  "accept_header AcceptJson = ''application/json''"
| "accept_header AcceptText = ''text/plain''"
| "accept_header AcceptHtml = ''text/html''"
| "accept_header AcceptOctets = ''application/octet-stream''"
| "accept_header AcceptAny = ''*/*''"
| "accept_header (AcceptOther s) = s"

subsection \<open>Bodies\<close>

datatype source = Path str | Bytes str | Stdin

definition source_is_replayable :: "source \<Rightarrow> bool" where
  "source_is_replayable s \<longleftrightarrow> s \<noteq> Stdin"

record part =
  part_name :: str
  part_filename :: "str option"
  part_mime :: "str option"
  part_src :: source

datatype body = BodyNone | BodyJson str | BodyMultipart "part list" | BodyOctets str source
  | BodyForm "(str \<times> str) list"

datatype out_body = OutEmpty | OutBytes str str | OutStream str source | OutMultipart "part list"

fun is_replayable :: "out_body \<Rightarrow> bool" where
  "is_replayable OutEmpty = True"
| "is_replayable (OutBytes _ _) = True"
| "is_replayable (OutStream _ src) = source_is_replayable src"
| "is_replayable (OutMultipart parts) = list_all (\<lambda>p. source_is_replayable (part_src p)) parts"

fun out_content_type :: "out_body \<Rightarrow> str option" where
  "out_content_type OutEmpty = None"
| "out_content_type (OutMultipart _) = None"
| "out_content_type (OutBytes m _) = Some m"
| "out_content_type (OutStream m _) = Some m"

subsection \<open>Requests\<close>

record request =
  req_method :: http_method
  req_path :: str
  req_query :: "(str \<times> str) list"
  req_body :: body
  req_accept :: accept
  req_extra_headers :: "(str \<times> str) list"
  req_timeout :: "duration option"
  req_scope :: "str option"

definition request_new :: "http_method \<Rightarrow> str \<Rightarrow> request" where
  "request_new m path =
     \<lparr>req_method = m,
      req_path = (if \<not> starts_with path ''/'' then CHR ''/'' # path else path),
      req_query = [], req_body = BodyNone, req_accept = AcceptJson, req_extra_headers = [],
      req_timeout = None, req_scope = None\<rparr>"

definition request_get :: "str \<Rightarrow> request" where
  "request_get path = request_new GET path"

definition request_query :: "request \<Rightarrow> str \<Rightarrow> str \<Rightarrow> request" where
  "request_query r key v = r\<lparr>req_query := req_query r @ [(key, v)]\<rparr>"

definition request_query_opt :: "request \<Rightarrow> str \<Rightarrow> str option \<Rightarrow> request" where
  "request_query_opt r key v = (case v of Some v \<Rightarrow> request_query r key v | None \<Rightarrow> r)"

definition set_query :: "request \<Rightarrow> str \<Rightarrow> str \<Rightarrow> request" where
  "set_query r key v = r\<lparr>req_query := filter (\<lambda>(k, _). k \<noteq> key) (req_query r) @ [(key, v)]\<rparr>"

definition has_query :: "request \<Rightarrow> str \<Rightarrow> bool" where
  "has_query r key = list_ex (\<lambda>(k, _). k = key) (req_query r)"

definition with_body :: "request \<Rightarrow> body \<Rightarrow> request" where
  "with_body r b = r\<lparr>req_body := b\<rparr>"

definition with_accept :: "request \<Rightarrow> accept \<Rightarrow> request" where
  "with_accept r a = r\<lparr>req_accept := a\<rparr>"

definition with_header :: "request \<Rightarrow> str \<Rightarrow> str \<Rightarrow> request" where
  "with_header r n v = r\<lparr>req_extra_headers := req_extra_headers r @ [(n, v)]\<rparr>"

definition with_timeout :: "request \<Rightarrow> duration \<Rightarrow> request" where
  "with_timeout r d = r\<lparr>req_timeout := Some d\<rparr>"

definition with_scope :: "request \<Rightarrow> str \<Rightarrow> request" where
  "with_scope r s = r\<lparr>req_scope := Some s\<rparr>"

fun method_name :: "http_method \<Rightarrow> str" where
  "method_name GET = ''GET''"
| "method_name HEAD = ''HEAD''"
| "method_name POST = ''POST''"
| "method_name PUT = ''PUT''"
| "method_name PATCH = ''PATCH''"
| "method_name DELETE = ''DELETE''"
| "method_name OPTIONS = ''OPTIONS''"
| "method_name TRACE = ''TRACE''"
| "method_name CONNECT = ''CONNECT''"
| "method_name (Extension s) = s"

record raw_response =
  raw_status :: nat
  raw_headers :: "(str \<times> str) list"
  raw_body :: str

definition raw_header :: "raw_response \<Rightarrow> str \<Rightarrow> str option" where
  "raw_header r n = map_option snd (List.find (\<lambda>(k, _). eq_ignore_ascii_case k n) (raw_headers r))"

definition is_success :: "nat \<Rightarrow> bool" where
  "is_success status \<longleftrightarrow> 200 \<le> status \<and> status < 300"

text \<open>A response whose body has been read.\<close>

record response =
  resp_status :: nat
  resp_headers :: header_map
  resp_body :: str

subsection \<open>The wire request\<close>

record http_request =
  hr_method :: http_method
  hr_url :: str
  hr_headers :: header_map
  hr_body :: out_body
  hr_timeout :: "duration option"

lemma set_query_lookup:
  "filter (\<lambda>(k, _). k = key) (req_query (set_query r key v)) = [(key, v)]"
  by (auto simp: set_query_def filter_empty_conv split_def)

lemma set_query_other:
  "key' \<noteq> key \<Longrightarrow> filter (\<lambda>(k, _). k = key') (req_query (set_query r key v))
     = filter (\<lambda>(k, _). k = key') (req_query r)"
proof -
  assume "key' \<noteq> key"
  then have "(\<lambda>p. fst p \<noteq> key \<and> fst p = key') = (\<lambda>p :: str \<times> str. fst p = key')" by auto
  then show ?thesis using \<open>key' \<noteq> key\<close> by (simp add: set_query_def split_def)
qed

end
