(* ===== verification/Capabilities.thy ===== *)
theory Capabilities
  imports Errors
begin

text \<open>
  What an instance says about itself: \<open>crates/forgejo-core/src/capabilities.rs\<close>.  The two probe
  requests are independent, so \<open>probe\<close> takes what each came back with, decoded.
\<close>

definition CAPS_TTL :: duration where
  "CAPS_TTL = 60 * 60 * 24 * 1000000000"

definition DEFAULT_MAX_RESPONSE_ITEMS :: nat where
  "DEFAULT_MAX_RESPONSE_ITEMS = 50"

definition DEFAULT_PAGING_NUM :: nat where
  "DEFAULT_PAGING_NUM = 30"

definition DEFAULT_GIT_TREES_PER_PAGE :: nat where
  "DEFAULT_GIT_TREES_PER_PAGE = 1000"

definition DEFAULT_MAX_BLOB_SIZE :: nat where
  "DEFAULT_MAX_BLOB_SIZE = 10485760"

record instance_info =
  inst_software :: str
  inst_version :: str
  inst_open_registrations :: "bool option"
  inst_users_total :: "nat option"

definition instance_info_label :: "instance_info \<Rightarrow> str" where
  "instance_info_label i =
     (if inst_version i = [] then inst_software i else inst_software i @ '' '' @ inst_version i)"

record capabilities =
  caps_max_response_items :: nat
  caps_default_paging_num :: nat
  caps_default_git_trees_per_page :: nat
  caps_default_max_blob_size :: nat
  caps_settings_known :: bool
  caps_instance :: "instance_info option"

definition conservative :: capabilities where
  "conservative =
     \<lparr>caps_max_response_items = DEFAULT_MAX_RESPONSE_ITEMS,
      caps_default_paging_num = DEFAULT_PAGING_NUM,
      caps_default_git_trees_per_page = DEFAULT_GIT_TREES_PER_PAGE,
      caps_default_max_blob_size = DEFAULT_MAX_BLOB_SIZE,
      caps_settings_known = False, caps_instance = None\<rparr>"

definition instance_label :: "capabilities \<Rightarrow> str option" where
  "instance_label c = map_option instance_info_label (caps_instance c)"

record api_settings =
  set_max_response_items :: nat
  set_default_paging_num :: nat
  set_default_git_trees_per_page :: nat
  set_default_max_blob_size :: nat

record node_info =
  ni_name :: str
  ni_version :: str
  ni_open_registrations :: "bool option"
  ni_users_total :: "nat option"

definition probe :: "(error, api_settings) res \<Rightarrow> (error, node_info) res \<Rightarrow> capabilities" where
  "probe settings nodeinfo =
     (let caps = conservative;
          caps = (case settings of Inl _ \<Rightarrow> caps
            | Inr s \<Rightarrow>
                (let caps = (if 0 < set_max_response_items s
                             then caps\<lparr>caps_max_response_items := set_max_response_items s\<rparr> else caps);
                     caps = (if 0 < set_default_paging_num s
                             then caps\<lparr>caps_default_paging_num := set_default_paging_num s\<rparr> else caps);
                     caps = (if 0 < set_default_git_trees_per_page s
                             then caps\<lparr>caps_default_git_trees_per_page := set_default_git_trees_per_page s\<rparr>
                             else caps);
                     caps = (if 0 < set_default_max_blob_size s
                             then caps\<lparr>caps_default_max_blob_size := set_default_max_blob_size s\<rparr> else caps)
                 in caps\<lparr>caps_settings_known := True\<rparr>))
      in case nodeinfo of Inl _ \<Rightarrow> caps
         | Inr n \<Rightarrow>
             if ni_name n \<noteq> [] then
               caps\<lparr>caps_instance := Some \<lparr>inst_software = ni_name n, inst_version = ni_version n,
                      inst_open_registrations = ni_open_registrations n,
                      inst_users_total = ni_users_total n\<rparr>\<rparr>
             else caps)"

text \<open>
  The client's cache: the value and when it was stored.  \<open>Client::capabilities\<close> returns the
  cached value while it is fresh, and otherwise probes and stores; the gate around the probe only
  keeps two tasks from probing at once.
\<close>

type_synonym caps_cache = "(capabilities \<times> duration) option"

definition cached_caps :: "duration \<Rightarrow> caps_cache \<Rightarrow> capabilities option" where
  "cached_caps now slot =
     (case slot of None \<Rightarrow> None
      | Some (caps, at) \<Rightarrow> if now - at < CAPS_TTL then Some caps else None)"

lemma probe_positive:
  "0 < caps_max_response_items (probe s n) \<and> 0 < caps_default_paging_num (probe s n)
   \<and> 0 < caps_default_git_trees_per_page (probe s n) \<and> 0 < caps_default_max_blob_size (probe s n)"
  by (auto simp: probe_def conservative_def DEFAULT_MAX_RESPONSE_ITEMS_def DEFAULT_PAGING_NUM_def
      DEFAULT_GIT_TREES_PER_PAGE_def DEFAULT_MAX_BLOB_SIZE_def Let_def split: sum.splits)

lemma probe_settings_known: "caps_settings_known (probe s n) \<longleftrightarrow> (\<exists>x. s = Inr x)"
  by (auto simp: probe_def conservative_def Let_def split: sum.splits)

lemma probe_failed: "probe (Inl e) (Inl e') = conservative"
  by (simp add: probe_def)

end
