(* ===== verification/Paginate.thy ===== *)
theory Paginate
  imports Request Capabilities
begin

text \<open>
  Pagination: \<open>crates/forgejo-core/src/http/paginate.rs\<close> (the \<open>Link\<close> header, the six
  termination rules, the page size to ask for) and the page walk behind \<open>ItemStream\<close> in
  \<open>http/mod.rs\<close>.
\<close>

subsection \<open>The \<open>Link\<close> header\<close>

record links =
  links_present :: bool
  links_next :: "str option"
  links_prev :: "str option"
  links_first :: "str option"
  links_last :: "str option"

definition default_links :: links where
  "default_links =
     \<lparr>links_present = False, links_next = None, links_prev = None, links_first = None, links_last = None\<rparr>"

text \<open>The slot of one relation type; the first URL given for it wins.\<close>

definition set_rel :: "str \<Rightarrow> links \<Rightarrow> str \<Rightarrow> links" where
  "set_rel url l rel =
     (let r = to_ascii_lowercase rel;
          fill = (\<lambda>slot. if slot = None then Some url else slot)
      in if r = ''next'' then l\<lparr>links_next := fill (links_next l)\<rparr>
         else if r = ''prev'' \<or> r = ''previous'' then l\<lparr>links_prev := fill (links_prev l)\<rparr>
         else if r = ''first'' then l\<lparr>links_first := fill (links_first l)\<rparr>
         else if r = ''last'' then l\<lparr>links_last := fill (links_last l)\<rparr>
         else l)"

definition link_param :: "str \<Rightarrow> links \<Rightarrow> str \<Rightarrow> links" where
  "link_param url l param =
     (case split_once_c param CHR ''='' of None \<Rightarrow> l
      | Some (k, v) \<Rightarrow>
          if \<not> eq_ignore_ascii_case (trim k) ''rel'' then l
          else foldl (set_rel url) l (split_ascii_whitespace (trim_c (trim v) CHR 0x22)))"

text \<open>The scanner, on the bytes not yet read.\<close>

function link_loop :: "links \<Rightarrow> str \<Rightarrow> links" where
  "link_loop l s =
     (case dropWhile (\<lambda>c. c = CHR '','' \<or> is_ascii_ws c) s of
        [] \<Rightarrow> l
      | c # t \<Rightarrow>
          if c \<noteq> CHR ''<'' then link_loop l (dropWhile (\<lambda>c. c \<noteq> CHR '','') t)
          else (case dropWhile (\<lambda>c. c \<noteq> CHR ''>'') t of
                  [] \<Rightarrow> l
                | _ # r \<Rightarrow>
                    (let url = trim (takeWhile (\<lambda>c. c \<noteq> CHR ''>'') t);
                         params = takeWhile (\<lambda>c. c \<noteq> CHR '','') r
                     in link_loop (foldl (link_param url) l (split_c params CHR '';''))
                                  (dropWhile (\<lambda>c. c \<noteq> CHR '','') r))))"
  by pat_completeness auto
termination
proof (relation "measure (\<lambda>(l, s). length s)")
  fix l :: links and s c t
  assume "dropWhile (\<lambda>c. c = CHR '','' \<or> is_ascii_ws c) s = c # t"
  then have t: "length t < length s"
    by (metis Suc_le_eq length_Cons length_dropWhile_le)
  show "((l, dropWhile (\<lambda>c. c \<noteq> CHR '','') t), l, s) \<in> measure (\<lambda>(l, s). length s)"
    using t by (simp add: le_less_trans [OF length_dropWhile_le])
  fix b r l' p
  assume "dropWhile (\<lambda>c. c \<noteq> CHR ''>'') t = b # r"
  then have "length r < length t"
    by (metis Suc_le_eq length_Cons length_dropWhile_le)
  then show "((l', dropWhile (\<lambda>c. c \<noteq> CHR '','') r), l, s) \<in> measure (\<lambda>(l, s). length s)"
    using t by (simp add: le_less_trans [OF length_dropWhile_le])
qed simp

declare link_loop.simps [simp del]

definition parse_link :: "str \<Rightarrow> links" where
  "parse_link v = link_loop (default_links\<lparr>links_present := True\<rparr>) v"

definition links_of :: "header_map \<Rightarrow> links" where
  "links_of h =
     (let joined = List.map_filter id (header_get_all h ''link'')
      in if joined = [] then default_links else parse_link (join '', '' joined))"

definition total_count :: "header_map \<Rightarrow> nat option" where
  "total_count h = (case header_text h ''x-total-count'' of None \<Rightarrow> None
     | Some v \<Rightarrow> parse_u64 (trim v))"

subsection \<open>Termination\<close>

record page_info =
  pi_links :: links
  pi_total_count :: "nat option"
  pi_returned :: nat

definition page_info_from_headers :: "header_map \<Rightarrow> nat \<Rightarrow> page_info" where
  "page_info_from_headers h returned =
     \<lparr>pi_links = links_of h, pi_total_count = total_count h, pi_returned = returned\<rparr>"

datatype stop_reason = LinkExhausted | EmptyPage | ShortPageWithoutLink | TotalReached | UserLimit

fun stop_reason_text :: "stop_reason \<Rightarrow> str" where
  "stop_reason_text LinkExhausted = ''the Link header offered no next page''"
| "stop_reason_text EmptyPage = ''the page was empty''"
| "stop_reason_text ShortPageWithoutLink = ''no Link header, and the page was shorter than the first page''"
| "stop_reason_text TotalReached = ''x-total-count was reached''"
| "stop_reason_text UserLimit = ''the requested limit was reached''"

datatype next_page = Stop stop_reason | Url str | Page nat

definition MAX_PAGES :: nat where
  "MAX_PAGES = 10000"

definition runaway :: "nat \<Rightarrow> nat \<Rightarrow> error" where
  "runaway pages cumulative = error_new (PaginationDidNotTerminate pages cumulative)"

record paginator =
  pg_user_limit :: "nat option"
  pg_cumulative :: nat
  pg_first_page_size :: "nat option"
  pg_total_count :: "nat option"
  pg_pages_seen :: nat

definition paginator_new :: "nat option \<Rightarrow> paginator" where
  "paginator_new limit =
     \<lparr>pg_user_limit = limit, pg_cumulative = 0, pg_first_page_size = None, pg_total_count = None,
      pg_pages_seen = 0\<rparr>"

definition keep :: "paginator \<Rightarrow> nat \<Rightarrow> nat" where
  "keep p returned = (case pg_user_limit p of Some limit \<Rightarrow> min returned (limit - pg_cumulative p)
     | None \<Rightarrow> returned)"

text \<open>The paginator after a page is counted, before the rules are asked.\<close>

definition record_page :: "paginator \<Rightarrow> page_info \<Rightarrow> paginator" where
  "record_page p info =
     p\<lparr>pg_pages_seen := pg_pages_seen p + 1,
       pg_cumulative := pg_cumulative p + pi_returned info,
       pg_first_page_size := (case pg_first_page_size p of None \<Rightarrow> Some (pi_returned info) | Some n \<Rightarrow> Some n),
       pg_total_count := (case pi_total_count info of Some t \<Rightarrow> Some t | None \<Rightarrow> pg_total_count p)\<rparr>"

definition advance :: "paginator \<Rightarrow> page_info \<Rightarrow> paginator \<times> (error, next_page) res" where
  "advance p0 info =
     (let observed_first = pg_first_page_size p0;
          p = record_page p0 info;
          l = pi_links info
      in (p,
          if links_present l \<and> links_next l = None then Inr (Stop LinkExhausted)
          else if pi_returned info = 0 then Inr (Stop EmptyPage)
          else if (case pg_user_limit p of Some n \<Rightarrow> n \<le> pg_cumulative p | None \<Rightarrow> False)
            then Inr (Stop UserLimit)
          else if (case pg_total_count p of Some t \<Rightarrow> t \<le> pg_cumulative p | None \<Rightarrow> False)
            then Inr (Stop TotalReached)
          else if \<not> links_present l \<and> (case observed_first of Some n \<Rightarrow> pi_returned info < n | None \<Rightarrow> False)
            then Inr (Stop ShortPageWithoutLink)
          else if MAX_PAGES \<le> pg_pages_seen p then Inl (runaway (pg_pages_seen p) (pg_cumulative p))
          else (case links_next l of Some url \<Rightarrow> Inr (Url url) | None \<Rightarrow> Inr (Page (pg_pages_seen p + 1)))))"

definition effective_limit :: "nat option \<Rightarrow> capabilities option \<Rightarrow> nat option" where
  "effective_limit requested caps =
     (case caps of None \<Rightarrow> None
      | Some caps \<Rightarrow>
          if \<not> caps_settings_known caps then None
          else (let m = caps_max_response_items caps
                in Some (max (case requested of None \<Rightarrow> m | Some r \<Rightarrow> min r m) 1)))"

subsection \<open>The page walk\<close>

record paging =
  paging_limit :: "nat option"
  paging_per_page :: "nat option"

record 'a page_walk =
  pw_req :: request
  pw_paging :: paging
  pw_paginator :: paginator
  pw_next :: "next_page option"
  pw_buf :: "'a list"
  pw_done :: bool
  pw_per_page :: "nat option"
  pw_per_page_resolved :: bool
  pw_stopped :: "stop_reason option"

text \<open>
  The client as the walk uses it, on a state \<open>'s\<close> of its own: sending, the capabilities, decoding
  the items of a page, the context of an error.
\<close>

record ('s, 'a) pager =
  pager_send :: "'s \<Rightarrow> request \<Rightarrow> str option \<Rightarrow> 's \<times> (error, response) res"
  pager_caps :: "'s \<Rightarrow> 's \<times> capabilities option"
  pager_items :: "request \<Rightarrow> str \<Rightarrow> (error, 'a list) res"
  pager_ctx :: "request \<Rightarrow> request_ctx"

definition page_walk_new :: "request \<Rightarrow> paging \<Rightarrow> 'a page_walk" where
  "page_walk_new req paging =
     \<lparr>pw_req = req, pw_paging = paging, pw_paginator = paginator_new (paging_limit paging),
      pw_next = None, pw_buf = [], pw_done = False, pw_per_page = None,
      pw_per_page_resolved = False, pw_stopped = None\<rparr>"

text \<open>The request of the next page, and the URL that overrides it.\<close>

definition page_request ::
  "('s, 'a) pager \<Rightarrow> 's \<Rightarrow> 'a page_walk \<Rightarrow> 's \<times> 'a page_walk \<times> request \<times> str option" where
  "page_request cl s w =
     (case pw_next w of
        Some (Url u) \<Rightarrow> (s, w, pw_req w, Some u)
      | nx \<Rightarrow>
          (let (s, w) = (if \<not> pw_per_page_resolved w then
                           (let (s, caps) = pager_caps cl s
                            in (s, w\<lparr>pw_per_page := effective_limit (paging_per_page (pw_paging w)) caps,
                                     pw_per_page_resolved := True\<rparr>))
                         else (s, w));
               req = (case pw_per_page w of Some n \<Rightarrow> set_query (pw_req w) ''limit'' (show_nat n)
                      | None \<Rightarrow> pw_req w);
               req = (case nx of Some (Page p) \<Rightarrow> set_query req ''page'' (show_nat p) | _ \<Rightarrow> req)
           in (s, w, req, None)))"

definition fetch ::
  "('s, 'a) pager \<Rightarrow> 's \<Rightarrow> 'a page_walk \<Rightarrow> 's \<times> 'a page_walk \<times> (error, unit) res" where
  "fetch cl s w =
     (if (case paging_limit (pw_paging w) of Some l \<Rightarrow> l \<le> pg_cumulative (pw_paginator w) | None \<Rightarrow> False)
      then (s, w\<lparr>pw_done := True, pw_stopped := Some UserLimit\<rparr>, Inr ())
      else
        (let (s, w, req, url) = page_request cl s w in
         case pager_send cl s req url of
           (s, Inl e) \<Rightarrow> (s, w, Inl e)
         | (s, Inr resp) \<Rightarrow>
             (case pager_items cl req (resp_body resp) of
                Inl e \<Rightarrow> (s, w, Inl e)
              | Inr items \<Rightarrow>
                  (let info = page_info_from_headers (resp_headers resp) (length items);
                       w = w\<lparr>pw_buf := pw_buf w @ take (keep (pw_paginator w) (length items)) items\<rparr>;
                       (p, r) = advance (pw_paginator w) info;
                       w = w\<lparr>pw_paginator := p\<rparr>
                   in case r of
                        Inl e \<Rightarrow> (s, w, Inl (e\<lparr>err_ctx := pager_ctx cl req\<rparr>))
                      | Inr (Stop reason) \<Rightarrow> (s, w\<lparr>pw_done := True, pw_stopped := Some reason\<rparr>, Inr ())
                      | Inr nx \<Rightarrow> (s, w\<lparr>pw_next := Some nx\<rparr>, Inr ())))))"

lemma record_page_simps [simp]:
  "pg_pages_seen (record_page p i) = Suc (pg_pages_seen p)"
  "pg_cumulative (record_page p i) = pg_cumulative p + pi_returned i"
  "pg_user_limit (record_page p i) = pg_user_limit p"
  by (simp_all add: record_page_def)

lemma advance_fst [simp]: "fst (advance p i) = record_page p i"
  by (simp add: advance_def Let_def)

text \<open>An answer to go on comes with a page counted and the ceiling not reached.\<close>

lemma advance_continues:
  "advance p i = (p', Inr nx) \<Longrightarrow> (\<forall>r. nx \<noteq> Stop r) \<Longrightarrow>
   pg_pages_seen p' = Suc (pg_pages_seen p) \<and> pg_pages_seen p' < MAX_PAGES"
  by (auto simp: advance_def Let_def split: if_splits option.splits)

lemma advance_error:
  "advance p i = (p', Inl e) \<Longrightarrow> MAX_PAGES \<le> pg_pages_seen p' \<and> exit_code (err_kind e) = 7"
  by (auto simp: advance_def Let_def runaway_def error_new_def exit_code_def split: if_splits option.splits)

lemma page_request_fields:
  "page_request cl s w = (s', w', req, url) \<Longrightarrow>
   pw_paginator w' = pw_paginator w \<and> pw_buf w' = pw_buf w \<and> pw_done w' = pw_done w
   \<and> pw_paging w' = pw_paging w \<and> pw_req w' = pw_req w \<and> pw_next w' = pw_next w"
  by (auto simp: page_request_def Let_def split: option.splits next_page.splits if_splits prod.splits)

lemma fetch_progress:
  assumes "fetch cl s w = (s', w', Inr u)"
  shows "pw_done w' \<or> (pg_pages_seen (pw_paginator w') = Suc (pg_pages_seen (pw_paginator w))
           \<and> pg_pages_seen (pw_paginator w') < MAX_PAGES)"
proof (cases "case paging_limit (pw_paging w) of Some l \<Rightarrow> l \<le> pg_cumulative (pw_paginator w) | None \<Rightarrow> False")
  case True
  with assms show ?thesis by (auto simp: fetch_def)
next
  case False
  obtain s1 w1 req url where q: "page_request cl s w = (s1, w1, req, url)"
    by (metis prod_cases4)
  have w1: "pw_paginator w1 = pw_paginator w" using page_request_fields [OF q] by simp
  from assms False q obtain resp items where
    r: "pager_items cl req (resp_body resp) = Inr items"
       "pager_send cl s1 req url = (s', Inr resp)"
    by (auto simp: fetch_def Let_def split: prod.splits sum.splits next_page.splits)
  let ?i = "page_info_from_headers (resp_headers resp) (length items)"
  obtain p res where a: "advance (pw_paginator w) ?i = (p, res)" by force
  show ?thesis
  proof (cases res)
    case (Inl e)
    then show ?thesis using assms False q r a w1 by (simp add: fetch_def)
  next
    case (Inr nx)
    then show ?thesis
      using assms False q r a w1 advance_continues [of "pw_paginator w" ?i p nx]
      by (cases nx) (auto simp: fetch_def Let_def)
  qed
qed

text \<open>
  What the stream yields, to its end: the buffered items, then page after page; an error is
  yielded where it happened, and the items of its page after it.
\<close>

function stream :: "('s, 'a) pager \<Rightarrow> 's \<Rightarrow> 'a page_walk \<Rightarrow> (error, 'a) res list" where
  "stream cl s w =
     map Inr (pw_buf w)
     @ (if pw_done w then []
        else (case fetch cl s (w\<lparr>pw_buf := []\<rparr>) of
                (s', w', Inr _) \<Rightarrow> stream cl s' w'
              | (s', w', Inl e) \<Rightarrow> Inl e # map Inr (pw_buf w')))"
  by pat_completeness auto
termination
  apply (relation "measure (\<lambda>(cl, s, w). if pw_done w then 0 else Suc (MAX_PAGES - pg_pages_seen (pw_paginator w)))")
  subgoal by simp
  subgoal premises prems for cl s w x y xa ya b
  proof -
    have "fetch cl s (w\<lparr>pw_buf := []\<rparr>) = (x, xa, Inr b)" using prems by simp
    from fetch_progress [OF this] show ?thesis using prems(1) by auto
  qed
  done

declare stream.simps [simp del]

definition item_stream :: "('s, 'a) pager \<Rightarrow> 's \<Rightarrow> request \<Rightarrow> paging \<Rightarrow> (error, 'a) res list" where
  "item_stream cl s req paging = stream cl s (page_walk_new req paging)"

text \<open>The states a walk reaches, with the number of pages fetched.\<close>

inductive walk_reach :: "('s, 'a) pager \<Rightarrow> 's \<times> 'a page_walk \<Rightarrow> nat \<Rightarrow> 's \<times> 'a page_walk \<Rightarrow> bool"
  for cl :: "('s, 'a) pager" and start :: "'s \<times> 'a page_walk" where
  start: "walk_reach cl start 0 start"
| fetched: "walk_reach cl start n (s, w) \<Longrightarrow> \<not> pw_done w \<Longrightarrow>
    fetch cl s (w\<lparr>pw_buf := []\<rparr>) = (s', w', Inr u) \<Longrightarrow> walk_reach cl start (Suc n) (s', w')"

lemma walk_reach_pages:
  assumes "walk_reach cl start n sw" "start = (s0, page_walk_new req paging)"
  shows "(pw_done (snd sw) \<and> n \<le> MAX_PAGES) \<or> (pg_pages_seen (pw_paginator (snd sw)) = n \<and> n < MAX_PAGES)"
  using assms
proof (induction rule: walk_reach.induct)
  case start
  then show ?case by (simp add: page_walk_new_def paginator_new_def MAX_PAGES_def)
next
  case (fetched n s w s' w' u)
  then have "pg_pages_seen (pw_paginator w) = n \<and> n < MAX_PAGES" by auto
  then show ?case using fetch_progress [OF fetched.hyps(3)] by auto
qed

subsection \<open>A server that honours \<open>page\<close>\<close>

text \<open>
  The page a request asks for, and a server of \<open>xs\<close> in pages of \<open>m\<close> items, whatever limit it
  was asked for; it sends no \<open>Link\<close> header, and a total only if \<open>counts\<close>.
\<close>

definition page_no :: "request \<Rightarrow> nat" where
  "page_no req = (case map_of (req_query req) ''page'' of None \<Rightarrow> 1
     | Some v \<Rightarrow> (case parse_u64 v of None \<Rightarrow> 1 | Some p \<Rightarrow> p))"

definition page_of :: "nat \<Rightarrow> 'a list \<Rightarrow> nat \<Rightarrow> 'a list" where
  "page_of m xs k = take m (drop (k * m) xs)"

definition serves_pages :: "('s, 'a) pager \<Rightarrow> nat \<Rightarrow> 'a list \<Rightarrow> bool \<Rightarrow> bool" where
  "serves_pages cl m xs counts \<longleftrightarrow>
     (\<forall>s req. \<exists>s' resp. pager_send cl s req None = (s', Inr resp)
        \<and> links_of (resp_headers resp) = default_links
        \<and> total_count (resp_headers resp) = (if counts then Some (length xs) else None)
        \<and> pager_items cl req (resp_body resp) = Inr (page_of m xs (page_no req - 1)))"

definition limited :: "nat option \<Rightarrow> 'a list \<Rightarrow> 'a list" where
  "limited limit xs = (case limit of None \<Rightarrow> xs | Some n \<Rightarrow> take n xs)"

text \<open>The walk after \<open>k\<close> pages.\<close>

definition at_page :: "nat option \<Rightarrow> nat \<Rightarrow> 'a list \<Rightarrow> bool \<Rightarrow> nat \<Rightarrow> 'a page_walk \<Rightarrow> bool" where
  "at_page limit m xs counts k w \<longleftrightarrow>
     \<not> pw_done w \<and> paging_limit (pw_paging w) = limit
     \<and> pw_paginator w =
         \<lparr>pg_user_limit = limit, pg_cumulative = min (k * m) (length xs),
          pg_first_page_size = (if k = 0 then None else Some (min m (length xs))),
          pg_total_count = (if k = 0 \<or> \<not> counts then None else Some (length xs)),
          pg_pages_seen = k\<rparr>
     \<and> pw_next w = (if k = 0 then None else Some (Page (k + 1)))
     \<and> map_of (req_query (pw_req w)) ''page'' = None"

lemma map_of_set_query:
  "map_of (req_query (set_query r k v)) key = (if key = k then Some v else map_of (req_query r) key)"
proof -
  have "map_of (filter (\<lambda>(k', _). k' \<noteq> k) q) x = (if x = k then None else map_of q x)" for x and q :: "(str \<times> str) list"
    by (induction q) auto
  then show ?thesis by (auto simp: set_query_def map_add_def split: option.splits)
qed

lemma page_request_at_page:
  assumes w: "at_page limit m xs counts k w" and k: "k < MAX_PAGES"
    and q: "page_request cl s (w\<lparr>pw_buf := []\<rparr>) = (s1, w1, req, url)"
  shows "url = None \<and> page_no req = k + 1 \<and> pw_buf w1 = [] \<and> pw_paginator w1 = pw_paginator w
    \<and> pw_paging w1 = pw_paging w \<and> pw_done w1 = pw_done w \<and> pw_req w1 = pw_req w"
proof -
  have "k + 1 < 2 ^ 64" using k by (simp add: MAX_PAGES_def)
  then have p: "parse_u64 (show_nat (k + 1)) = Some (k + 1)" by (rule parse_unsigned_show_nat)
  have nx: "pw_next w = (if k = 0 then None else Some (Page (k + 1)))"
    and mp: "map_of (req_query (pw_req w)) ''page'' = None"
    using w by (auto simp: at_page_def)
  have url: "url = None \<and> page_no req = k + 1"
  proof (cases "k = 0")
    case True
    then show ?thesis
      using q nx mp by (auto simp: page_request_def Let_def page_no_def map_of_set_query split: prod.splits option.splits if_splits)
  next
    case False
    then show ?thesis
      using q nx p by (auto simp: page_request_def Let_def page_no_def map_of_set_query split: prod.splits option.splits if_splits)
  qed
  then show ?thesis using page_request_fields [OF q] by simp
qed

lemma length_page_of: "length (page_of m xs k) = min m (length xs - k * m)"
  by (simp add: page_of_def)

lemma cumulative_page: "min (k * m) n + min m (n - k * m) = min (Suc k * m) (n :: nat)"
  unfolding mult_Suc by linarith

lemma drop_limited: "drop j (limited limit xs) = limited (map_option (\<lambda>n. n - j) limit) (drop j xs)"
  by (cases limit) (simp_all add: limited_def drop_take)

text \<open>The items of a page that are kept, and what is left after a page that is not the last.\<close>

lemma page_kept:
  "take (case limit of Some l \<Rightarrow> min (length (page_of m xs k)) (l - min (k * m) (length xs))
         | None \<Rightarrow> length (page_of m xs k)) (page_of m xs k)
   = limited (map_option (\<lambda>n. n - min (k * m) (length xs)) limit) (page_of m xs k)"
  by (cases limit) (simp_all add: limited_def min_def)

lemma limited_page_all:
  assumes "length xs - k * m \<le> m \<or> (case limit of None \<Rightarrow> False | Some n \<Rightarrow> n \<le> min (Suc k * m) (length xs))"
  shows "limited (map_option (\<lambda>n. n - min (k * m) (length xs)) limit) (page_of m xs k) = drop (k * m) (limited limit xs)"
proof (cases "k * m \<le> length xs")
  case True
  then have mn: "min (k * m) (length xs) = k * m" by simp
  show ?thesis
  proof (cases limit)
    case None
    with assms show ?thesis by (simp add: limited_def page_of_def)
  next
    case (Some n)
    from assms Some True have "n - k * m \<le> m \<or> length (drop (k * m) xs) \<le> m" by auto
    then have "take (n - k * m) (take m (drop (k * m) xs)) = take (n - k * m) (drop (k * m) xs)"
      by (cases "n - k * m \<le> m") (auto simp: min_def)
    then show ?thesis using Some mn by (simp add: limited_def page_of_def drop_take)
  qed
next
  case False
  then show ?thesis by (cases limit) (simp_all add: limited_def page_of_def)
qed

lemma limited_page_more:
  assumes "k * m < length xs" "case limit of None \<Rightarrow> True | Some n \<Rightarrow> min (Suc k * m) (length xs) < n"
  shows "limited (map_option (\<lambda>n. n - min (k * m) (length xs)) limit) (page_of m xs k) @ drop (Suc k * m) (limited limit xs)
         = drop (k * m) (limited limit xs)"
proof -
  have sp: "take m (drop (k * m) ys) @ drop (Suc k * m) ys = drop (k * m) ys" for ys :: "'a list"
    by (metis add.commute append_take_drop_id drop_drop mult_Suc)
  show ?thesis
  proof (cases limit)
    case None
    then show ?thesis using sp by (simp add: limited_def page_of_def)
  next
    case (Some n)
    have "take (n - k * m) (take m (drop (k * m) xs)) = take m (drop (k * m) (take n xs))"
    proof (cases "Suc k * m \<le> length xs")
      case True
      then have "m \<le> n - k * m" using assms Some by simp
      then show ?thesis by (simp add: drop_take min_def)
    next
      case False
      then have "length xs \<le> n" using assms Some by simp
      then show ?thesis by (simp add: min_def)
    qed
    then show ?thesis using Some sp [of "take n xs"] assms(1)
      by (simp add: limited_def page_of_def)
  qed
qed

text \<open>One fetch of an honest server: what the page adds to the buffer, and where the walk goes.\<close>

lemma fetch_at_page:
  assumes srv: "serves_pages cl m xs counts" and w: "at_page limit m xs counts k w" and k: "k < MAX_PAGES"
    and small: "length xs \<le> (MAX_PAGES - 1) * m" and m: "0 < m"
    and more: "\<not> (case limit of Some l \<Rightarrow> l \<le> min (k * m) (length xs) | None \<Rightarrow> False)"
  obtains s' w' where "fetch cl s (w\<lparr>pw_buf := []\<rparr>) = (s', w', Inr ())"
    "pw_buf w' = limited (map_option (\<lambda>n. n - min (k * m) (length xs)) limit) (page_of m xs k)"
    "pw_done w' \<longrightarrow> length xs - k * m \<le> m \<or> (case limit of None \<Rightarrow> False | Some n \<Rightarrow> n \<le> min (Suc k * m) (length xs))"
    "\<not> pw_done w' \<longrightarrow> at_page limit m xs counts (Suc k) w' \<and> k * m < length xs \<and> Suc k < MAX_PAGES
       \<and> (case limit of None \<Rightarrow> True | Some n \<Rightarrow> min (Suc k * m) (length xs) < n)"
proof -
  obtain s1 w1 req url where q: "page_request cl s (w\<lparr>pw_buf := []\<rparr>) = (s1, w1, req, url)"
    by (metis prod_cases4)
  note pq = page_request_at_page [OF w k q]
  from srv pq obtain s2 resp where r: "pager_send cl s1 req None = (s2, Inr resp)"
    "links_of (resp_headers resp) = default_links"
    "total_count (resp_headers resp) = (if counts then Some (length xs) else None)"
    "pager_items cl req (resp_body resp) = Inr (page_of m xs k)"
    unfolding serves_pages_def by (metis add_diff_cancel_right')
  let ?ys = "page_of m xs k" and ?c = "min (k * m) (length xs)"
  let ?i = "page_info_from_headers (resp_headers resp) (length ?ys)"
  let ?p = "record_page (pw_paginator w) ?i"
  have lim: "paging_limit (pw_paging w) = limit" and pg: "pw_paginator w =
         \<lparr>pg_user_limit = limit, pg_cumulative = ?c,
          pg_first_page_size = (if k = 0 then None else Some (min m (length xs))),
          pg_total_count = (if k = 0 \<or> \<not> counts then None else Some (length xs)),
          pg_pages_seen = k\<rparr>" and nd: "\<not> pw_done w"
    and mp: "map_of (req_query (pw_req w)) ''page'' = None"
    using w by (auto simp: at_page_def)
  have len: "length ?ys = min m (length xs - k * m)" by (rule length_page_of)
  have cum: "pg_cumulative ?p = min (Suc k * m) (length xs)"
    using cumulative_page [of k m "length xs"] by (simp add: pg page_info_from_headers_def len)
  have p': "?p = \<lparr>pg_user_limit = limit, pg_cumulative = min (Suc k * m) (length xs),
      pg_first_page_size = Some (min m (length xs)),
      pg_total_count = (if counts then Some (length xs) else None), pg_pages_seen = Suc k\<rparr>"
    using cum by (auto simp: record_page_def pg page_info_from_headers_def len r(3))
  have kp: "take (keep (pw_paginator w) (length ?ys)) ?ys = limited (map_option (\<lambda>n. n - ?c) limit) ?ys"
  proof -
    have c: "pg_cumulative (pw_paginator w) = ?c" "pg_user_limit (pw_paginator w) = limit" by (simp_all add: pg)
    show ?thesis unfolding keep_def c by (rule page_kept)
  qed
  let ?w2 = "w1\<lparr>pw_buf := limited (map_option (\<lambda>n. n - ?c) limit) ?ys, pw_paginator := ?p\<rparr>"
  have fetch: "fetch cl s (w\<lparr>pw_buf := []\<rparr>) =
      (case snd (advance (pw_paginator w) ?i) of
         Inl e \<Rightarrow> (s2, ?w2, Inl (e\<lparr>err_ctx := pager_ctx cl req\<rparr>))
       | Inr (Stop reason) \<Rightarrow> (s2, ?w2\<lparr>pw_done := True, pw_stopped := Some reason\<rparr>, Inr ())
       | Inr nx \<Rightarrow> (s2, ?w2\<lparr>pw_next := Some nx\<rparr>, Inr ()))"
  proof -
    have "\<not> (case paging_limit (pw_paging (w\<lparr>pw_buf := []\<rparr>)) of
        Some l \<Rightarrow> l \<le> pg_cumulative (pw_paginator (w\<lparr>pw_buf := []\<rparr>)) | None \<Rightarrow> False)"
    proof -
      have c: "pg_cumulative (pw_paginator (w\<lparr>pw_buf := []\<rparr>)) = ?c"
        "paging_limit (pw_paging (w\<lparr>pw_buf := []\<rparr>)) = limit" by (simp_all add: lim pg)
      show ?thesis unfolding c by (rule more)
    qed
    moreover obtain pa ra where a: "advance (pw_paginator w) ?i = (pa, ra)" by force
    moreover have "pa = ?p" using advance_fst [of "pw_paginator w" ?i] a by simp
    ultimately show ?thesis
      using q pq r kp by (simp add: fetch_def Let_def split: sum.splits next_page.splits)
  qed
  have adv: "snd (advance (pw_paginator w) ?i) =
      (if length ?ys = 0 then Inr (Stop EmptyPage)
       else if (case limit of Some n \<Rightarrow> n \<le> min (Suc k * m) (length xs) | None \<Rightarrow> False) then Inr (Stop UserLimit)
       else if counts \<and> length xs \<le> min (Suc k * m) (length xs) then Inr (Stop TotalReached)
       else if k \<noteq> 0 \<and> length ?ys < min m (length xs) then Inr (Stop ShortPageWithoutLink)
       else if MAX_PAGES \<le> Suc k then Inl (runaway (Suc k) (min (Suc k * m) (length xs)))
       else Inr (Page (Suc k + 1)))"
    unfolding advance_def Let_def snd_conv p' paginator.select_convs
    by (simp add: page_info_from_headers_def r(2) default_links_def pg)
  show thesis
  proof (cases "snd (advance (pw_paginator w) ?i)")
    case (Inl e)
    then have e: "0 < length ?ys" "MAX_PAGES \<le> Suc k" using adv by (auto split: if_splits)
    then have "k * m < length xs" using len by simp
    moreover have "(MAX_PAGES - 1) * m \<le> k * m" using e(2) by (intro mult_right_mono) auto
    ultimately show thesis using small by linarith
  next
    case (Inr nx)
    show thesis
    proof (cases nx)
      case (Stop reason)
      have "length xs - k * m \<le> m \<or> (case limit of None \<Rightarrow> False | Some n \<Rightarrow> n \<le> min (Suc k * m) (length xs))"
        using adv Inr Stop len m by (auto split: if_splits)
      note last = this
      let ?w3 = "?w2\<lparr>pw_done := True, pw_stopped := Some reason\<rparr>"
      have f: "fetch cl s (w\<lparr>pw_buf := []\<rparr>) = (s2, ?w3, Inr ())" unfolding fetch Inr Stop by simp
      have "pw_done ?w3" by simp
      then show thesis using last by (intro that [OF f]) simp_all
    next
      case (Url u)
      then show thesis using adv Inr by (auto split: if_splits)
    next
      case (Page n)
      have c: "length ?ys \<noteq> 0" "\<not> (case limit of Some n \<Rightarrow> n \<le> min (Suc k * m) (length xs) | None \<Rightarrow> False)"
        "Suc k < MAX_PAGES" "n = Suc k + 1"
        using adv Inr Page by (auto split: if_splits)
      then have "k * m < length xs" using len by simp
      moreover have "case limit of None \<Rightarrow> True | Some n \<Rightarrow> min (Suc k * m) (length xs) < n"
        using c(2) by (cases limit) auto
      moreover have "at_page limit m xs counts (Suc k) (?w2\<lparr>pw_next := Some (Page n)\<rparr>)"
        unfolding at_page_def p' using pq nd lim mp c(4) by simp
      moreover have f: "fetch cl s (w\<lparr>pw_buf := []\<rparr>) = (s2, ?w2\<lparr>pw_next := Some (Page n)\<rparr>, Inr ())"
        unfolding fetch Inr Page by simp
      moreover have "\<not> pw_done (?w2\<lparr>pw_next := Some (Page n)\<rparr>)" using nd pq by simp
      ultimately show thesis using c(3) by (intro that [OF f]) simp_all
    qed
  qed
qed

lemma stream_at_page:
  assumes srv: "serves_pages cl m xs counts" and small: "length xs \<le> (MAX_PAGES - 1) * m" and m: "0 < m"
  shows "at_page limit m xs counts k w \<Longrightarrow> k < MAX_PAGES \<Longrightarrow>
         stream cl s w = map Inr (pw_buf w) @ map Inr (drop (k * m) (limited limit xs))"
proof (induction "MAX_PAGES - k" arbitrary: k s w rule: less_induct)
  case less
  note w = less.prems(1) and k = less.prems(2)
  have nd: "\<not> pw_done w" using w by (simp add: at_page_def)
  show ?case
  proof (cases "case limit of Some l \<Rightarrow> l \<le> min (k * m) (length xs) | None \<Rightarrow> False")
    case True
    then obtain l where l: "limit = Some l" "l \<le> min (k * m) (length xs)" by (cases limit) auto
    have "fetch cl s (w\<lparr>pw_buf := []\<rparr>) = (s, w\<lparr>pw_buf := [], pw_done := True, pw_stopped := Some UserLimit\<rparr>, Inr ())"
      using w l by (simp add: fetch_def at_page_def)
    moreover have "drop (k * m) (limited limit xs) = []"
      using True by (cases limit) (auto simp: limited_def)
    ultimately show ?thesis using nd by (subst stream.simps) (simp add: stream.simps)
  next
    case False
    obtain s' w' where f: "fetch cl s (w\<lparr>pw_buf := []\<rparr>) = (s', w', Inr ())"
      "pw_buf w' = limited (map_option (\<lambda>n. n - min (k * m) (length xs)) limit) (page_of m xs k)"
      "pw_done w' \<longrightarrow> length xs - k * m \<le> m \<or> (case limit of None \<Rightarrow> False | Some n \<Rightarrow> n \<le> min (Suc k * m) (length xs))"
      "\<not> pw_done w' \<longrightarrow> at_page limit m xs counts (Suc k) w' \<and> k * m < length xs \<and> Suc k < MAX_PAGES
         \<and> (case limit of None \<Rightarrow> True | Some n \<Rightarrow> min (Suc k * m) (length xs) < n)"
      by (rule fetch_at_page [OF srv w k small m False])
    have st: "stream cl s w = map Inr (pw_buf w) @ stream cl s' w'"
      using nd f(1) by (subst stream.simps) simp
    show ?thesis
    proof (cases "pw_done w'")
      case True
      then show ?thesis
        using st f(2,3) limited_page_all by (simp add: stream.simps [of cl s'])
    next
      case False
      with f(4) have n: "at_page limit m xs counts (Suc k) w'" "k * m < length xs" "Suc k < MAX_PAGES"
        "case limit of None \<Rightarrow> True | Some n \<Rightarrow> min (Suc k * m) (length xs) < n" by auto
      have "stream cl s' w' = map Inr (pw_buf w') @ map Inr (drop (Suc k * m) (limited limit xs))"
        using n(1,3) by (intro less.hyps) auto
      then have "stream cl s' w' = map Inr (pw_buf w' @ drop (Suc k * m) (limited limit xs))" by simp
      also have "\<dots> = map Inr (drop (k * m) (limited limit xs))"
        unfolding f(2) limited_page_more [OF n(2,4)] ..
      finally show ?thesis using st by simp
    qed
  qed
qed

subsection \<open>A \<open>Link\<close> header as Forgejo writes it\<close>

definition link_value :: "str \<times> str \<Rightarrow> str" where
  "link_value p = CHR ''<'' # fst p @ ''>; rel='' @ [CHR 0x22] @ snd p @ [CHR 0x22]"

definition RELS :: "str list" where
  "RELS = [''next'', ''prev'', ''first'', ''last'']"

lemma link_param_rel:
  assumes "r \<in> set RELS"
  shows "link_param u l ('' rel='' @ [CHR 0x22] @ r @ [CHR 0x22]) = set_rel u l r"
proof -
  have "list_all (\<lambda>r. split_once_c ('' rel='' @ [CHR 0x22] @ r @ [CHR 0x22]) CHR ''=''
      = Some ('' rel'', [CHR 0x22] @ r @ [CHR 0x22])
      \<and> eq_ignore_ascii_case (trim '' rel'') ''rel''
      \<and> split_ascii_whitespace (trim_c (trim ([CHR 0x22] @ r @ [CHR 0x22])) CHR 0x22) = [r]) RELS"
    by code_simp
  with assms show ?thesis by (simp add: list_all_iff link_param_def)
qed

lemma RELS_chars: "r \<in> set RELS \<Longrightarrow> CHR '','' \<notin> set r \<and> CHR '';'' \<notin> set r"
  by (auto simp: RELS_def)

lemma link_loop_value:
  assumes "CHR ''>'' \<notin> set u" "trim u = u" "r \<in> set RELS" "rest = [] \<or> hd rest = CHR '',''"
  shows "link_loop l (link_value (u, r) @ rest) = link_loop (set_rel u l r) rest"
proof -
  let ?par = "''; rel='' @ [CHR 0x22] @ r @ [CHR 0x22]"
  let ?t = "u @ CHR ''>'' # ?par @ rest"
  have v: "link_value (u, r) @ rest = CHR ''<'' # ?t" by (simp add: link_value_def)
  have d: "dropWhile (\<lambda>c. c = CHR '','' \<or> is_ascii_ws c) (CHR ''<'' # ?t) = CHR ''<'' # ?t"
    by (simp add: is_ascii_ws_def byte_def)
  have u: "\<forall>x\<in>set u. x \<noteq> CHR ''>''" using assms(1) by auto
  have tk: "takeWhile (\<lambda>c. c \<noteq> CHR ''>'') ?t = u" and dr: "dropWhile (\<lambda>c. c \<noteq> CHR ''>'') ?t = CHR ''>'' # ?par @ rest"
    using takeWhile_no_match [OF u] dropWhile_no_match [OF u] by simp_all
  have c: "\<forall>x\<in>set ?par. x \<noteq> CHR '',''" using RELS_chars [OF assms(3)] by auto
  have pt: "takeWhile (\<lambda>c. c \<noteq> CHR '','') (?par @ rest) = ?par"
    and pd: "dropWhile (\<lambda>c. c \<noteq> CHR '','') (?par @ rest) = rest"
    using takeWhile_no_match [OF c, of rest] dropWhile_no_match [OF c, of rest] assms(4)
    by (cases rest; simp)+
  have sp: "split_c ?par CHR '';'' = [[], '' rel='' @ [CHR 0x22] @ r @ [CHR 0x22]]"
  proof -
    have "CHR '';'' \<notin> set ('' rel='' @ [CHR 0x22] @ r @ [CHR 0x22])" using RELS_chars [OF assms(3)] by auto
    from split_c_noop [OF this] show ?thesis by simp
  qed
  have "link_param u l [] = l" by (simp add: link_param_def)
  then have f: "foldl (link_param u) l (split_c ?par CHR '';'') = set_rel u l r"
    unfolding sp using link_param_rel [OF assms(3)] by simp
  have "link_loop l (CHR ''<'' # ?t) = link_loop (foldl (link_param u) l (split_c ?par CHR '';'')) rest"
    by (subst link_loop.simps) (simp only: d list.case tk dr pt pd Let_def assms(2) if_False simp_thms not_True_eq_False)
  then show ?thesis unfolding v f .
qed

definition good_link :: "str \<times> str \<Rightarrow> bool" where
  "good_link p \<longleftrightarrow> CHR ''>'' \<notin> set (fst p) \<and> trim (fst p) = fst p \<and> snd p \<in> set RELS"

lemma link_loop_skip: "link_loop l ('', '' @ s) = link_loop l s"
  by (simp add: link_loop.simps [of l "CHR '','' # CHR '' '' # s"] link_loop.simps [of l s] is_ascii_ws_def byte_def)

lemma link_loop_values:
  "\<forall>p\<in>set ps. good_link p \<Longrightarrow>
   link_loop l (join '', '' (map link_value ps)) = foldl (\<lambda>l p. set_rel (fst p) l (snd p)) l ps"
proof (induction ps arbitrary: l rule: induct_list012)
  case 1
  then show ?case by (simp add: link_loop.simps)
next
  case (2 p)
  then show ?case
    using link_loop_value [of "fst p" "snd p" "[]" l] by (simp add: good_link_def link_loop.simps)
next
  case (3 p q ps)
  have "link_loop l (join '', '' (map link_value (p # q # ps)))
      = link_loop l (link_value (fst p, snd p) @ '', '' @ join '', '' (map link_value (q # ps)))" by simp
  also have "\<dots> = link_loop (set_rel (fst p) l (snd p)) ('', '' @ join '', '' (map link_value (q # ps)))"
    using "3.prems" by (intro link_loop_value) (auto simp: good_link_def)
  also have "\<dots> = link_loop (set_rel (fst p) l (snd p)) (join '', '' (map link_value (q # ps)))"
    by (rule link_loop_skip)
  finally show ?case using 3 by simp
qed

lemma foldl_set_rel_next:
  "\<forall>p\<in>set ps. snd p \<in> set RELS \<Longrightarrow>
   links_next (foldl (\<lambda>l p. set_rel (fst p) l (snd p)) l ps)
   = (case links_next l of Some u \<Rightarrow> Some u | None \<Rightarrow> map_of (map prod.swap ps) ''next'')
   \<and> links_present (foldl (\<lambda>l p. set_rel (fst p) l (snd p)) l ps) = links_present l"
proof (induction ps arbitrary: l)
  case (Cons p ps)
  obtain u r where p: "p = (u, r)" by force
  have "to_ascii_lowercase r = r" "r \<in> set RELS"
    using Cons.prems p by (auto simp: RELS_def to_ascii_lowercase_def ascii_lower_def byte_def)
  then have "links_next (set_rel u l r) = (if r = ''next'' \<and> links_next l = None then Some u else links_next l)
      \<and> links_present (set_rel u l r) = links_present l"
    by (auto simp: set_rel_def Let_def RELS_def)
  then show ?case using Cons p by (auto split: option.splits)
qed (simp split: option.splits)

subsection \<open>The limit\<close>

lemma fetch_limit:
  assumes f: "fetch cl s (w\<lparr>pw_buf := []\<rparr>) = (s', w', r)"
    and l: "paging_limit (pw_paging w) = Some n" "pg_user_limit (pw_paginator w) = Some n"
  shows "paging_limit (pw_paging w') = Some n \<and> pg_user_limit (pw_paginator w') = Some n
    \<and> length (pw_buf w') + (n - pg_cumulative (pw_paginator w')) \<le> n - pg_cumulative (pw_paginator w)"
proof (cases "n \<le> pg_cumulative (pw_paginator w)")
  case True
  then show ?thesis using f l by (auto simp: fetch_def)
next
  case False
  obtain s1 w1 req url where q: "page_request cl s (w\<lparr>pw_buf := []\<rparr>) = (s1, w1, req, url)"
    by (metis prod_cases4)
  have w1: "pw_paginator w1 = pw_paginator w" "pw_buf w1 = []" "pw_paging w1 = pw_paging w"
    using page_request_fields [OF q] by simp_all
  show ?thesis
  proof (cases "snd (pager_send cl s1 req url)")
    case (Inl e)
    then show ?thesis using f False l q w1 by (auto simp: fetch_def split: prod.splits sum.splits)
  next
    case (Inr resp)
    show ?thesis
    proof (cases "pager_items cl req (resp_body resp)")
      case (Inl e)
      then show ?thesis using \<open>snd _ = Inr resp\<close> f False l q w1
        by (auto simp: fetch_def split: prod.splits sum.splits)
    next
      case (Inr items)
      let ?i = "page_info_from_headers (resp_headers resp) (length items)"
      obtain pa ra where a: "advance (pw_paginator w) ?i = (pa, ra)" by force
      have pa: "pa = record_page (pw_paginator w) ?i" using advance_fst [of "pw_paginator w" ?i] a by simp
      have "pw_paginator w' = pa \<and> pw_buf w' = take (keep (pw_paginator w) (length items)) items
            \<and> pw_paging w' = pw_paging w"
        using Inr \<open>snd _ = Inr resp\<close> f False l q w1 a
        by (auto simp: fetch_def Let_def split: prod.splits sum.splits next_page.splits)
      then show ?thesis using l pa by (simp add: keep_def page_info_from_headers_def)
    qed
  qed
qed

lemma stream_limit:
  "paging_limit (pw_paging w) = Some n \<Longrightarrow> pg_user_limit (pw_paginator w) = Some n \<Longrightarrow>
   length (filter (\<lambda>r. res_ok r \<noteq> None) (stream cl s w))
     \<le> length (pw_buf w) + (n - pg_cumulative (pw_paginator w))"
proof (induction cl s w rule: stream.induct)
  case (1 cl s w)
  have inr: "filter (\<lambda>r. res_ok r \<noteq> None) (map Inr xs) = map Inr xs" for xs :: "'b list"
    by (induction xs) auto
  obtain s' w' r where f: "fetch cl s (w\<lparr>pw_buf := []\<rparr>) = (s', w', r)" by (metis prod_cases3)
  note l = fetch_limit [OF f "1.prems"]
  show ?case
  proof (cases "pw_done w")
    case True
    then show ?thesis by (simp add: stream.simps [of cl s w] inr)
  next
    case False
    show ?thesis
    proof (cases r)
      case (Inl e)
      then show ?thesis using False f l by (simp add: stream.simps [of cl s w] inr)
    next
      case (Inr u)
      have "length (filter (\<lambda>r. res_ok r \<noteq> None) (stream cl s' w'))
          \<le> length (pw_buf w') + (n - pg_cumulative (pw_paginator w'))"
        using "1.IH" [OF False f [symmetric] refl Inr] l by simp
      then show ?thesis using False f l Inr by (simp add: stream.simps [of cl s w] inr)
    qed
  qed
qed

subsection \<open>Properties\<close>

text \<open>C17. A page walk ends by itself against any server: no walk fetches more than the ceiling of
  10000 pages, whatever the responses, and the error it ends with there is a server error.\<close>

theorem page_walk_terminates:
  assumes "walk_reach cl (s0, page_walk_new req paging) n sw"
  shows "n \<le> MAX_PAGES
    \<and> (\<forall>info p e. advance (pw_paginator (snd sw)) info = (p, Inl e) \<longrightarrow> exit_code (err_kind e) = 7)"
proof -
  have "n \<le> MAX_PAGES" using walk_reach_pages [OF assms refl] by auto
  then show ?thesis using advance_error by blast
qed

definition tiny_pager :: "(unit, nat) pager" where
  "tiny_pager =
     \<lparr>pager_send = (\<lambda>s req url. (s, Inr \<lparr>resp_status = 200, resp_headers = [], resp_body = []\<rparr>)),
      pager_caps = (\<lambda>s. (s, None)),
      pager_items = (\<lambda>req b. Inr (page_of 2 [10, 20, 30] (page_no req - 1))),
      pager_ctx = (\<lambda>req. empty_ctx)\<rparr>"

lemma tiny_pager_serves: "serves_pages tiny_pager 2 [10, 20, 30] False"
  by (auto simp: serves_pages_def tiny_pager_def links_of_def header_get_all_def total_count_def List.map_filter_def)

theorem page_walk_terminates_witness:
  "\<exists>w'. walk_reach tiny_pager ((), page_walk_new (request_get ''x'') \<lparr>paging_limit = None, paging_per_page = None\<rparr>) 1 ((), w')
   \<and> 1 \<le> MAX_PAGES"
proof -
  let ?w = "page_walk_new (request_get ''x'') \<lparr>paging_limit = None, paging_per_page = None\<rparr> :: nat page_walk"
  have at: "at_page None 2 [10, 20, 30 :: nat] False 0 ?w"
    by (simp add: at_page_def page_walk_new_def paginator_new_def request_get_def request_new_def)
  obtain s' w' where f: "fetch tiny_pager () (?w\<lparr>pw_buf := []\<rparr>) = (s', w', Inr ())"
    using fetch_at_page [OF tiny_pager_serves at, of "()"] by (auto simp: MAX_PAGES_def)
  have "\<not> pw_done ?w" using at by (simp add: at_page_def)
  then have "walk_reach tiny_pager ((), ?w) (Suc 0) ((), w')"
    using walk_reach.fetched [OF walk_reach.start _ f] by simp
  with page_walk_terminates [OF this] show ?thesis by auto
qed

text \<open>C15. No item is lost to a silently clamped page size: against a server that hands out its
  items page by page, \<open>m\<close> at a time whatever limit was asked for, without a Link header and with
  or without a total, the stream yields exactly the server's items in order, cut to the user's
  limit, without an error (up to the page ceiling).\<close>

theorem clamped_pages_lose_nothing:
  assumes "serves_pages cl m xs counts" "0 < m" "length xs \<le> (MAX_PAGES - 1) * m"
    "\<not> has_query req ''page''"
  shows "item_stream cl s req \<lparr>paging_limit = limit, paging_per_page = per_page\<rparr>
         = map Inr (case limit of None \<Rightarrow> xs | Some n \<Rightarrow> take n xs)"
proof -
  let ?w = "page_walk_new req \<lparr>paging_limit = limit, paging_per_page = per_page\<rparr>"
  have "map_of (req_query req) ''page'' = None"
    using assms(4) by (auto simp: has_query_def list_ex_iff map_of_eq_None_iff)
  then have "at_page limit m xs counts 0 ?w"
    by (simp add: at_page_def page_walk_new_def paginator_new_def)
  from stream_at_page [OF assms(1,3,2) this, of s]
  show ?thesis by (simp add: item_stream_def page_walk_new_def MAX_PAGES_def limited_def)
qed

theorem clamped_pages_lose_nothing_witness:
  "item_stream tiny_pager () (request_get ''x'') \<lparr>paging_limit = None, paging_per_page = Some 100\<rparr>
   = map Inr [10, 20, 30]"
  using clamped_pages_lose_nothing [OF tiny_pager_serves, of "request_get ''x''" "()" None "Some 100"]
  by (simp add: MAX_PAGES_def has_query_def request_get_def request_new_def)

text \<open>C16. Whatever a server sends, a stream with a limit yields at most that many items.\<close>

theorem limit_never_exceeded:
  assumes "paging_limit paging = Some n"
  shows "length (filter (\<lambda>r. res_ok r \<noteq> None) (item_stream cl s req paging)) \<le> n"
  using stream_limit [of "page_walk_new req paging" n cl s] assms
  by (simp add: item_stream_def page_walk_new_def paginator_new_def)

theorem limit_never_exceeded_witness:
  "length (filter (\<lambda>r. res_ok r \<noteq> None)
     (item_stream tiny_pager () (request_get ''x'') \<lparr>paging_limit = Some 2, paging_per_page = None\<rparr>)) \<le> 2"
  by (rule limit_never_exceeded) simp

text \<open>The Link header is read as it is written: of any list of link values, whose URLs may
  hold commas, the URL followed is the first one whose relation is next, and none when there is
  no such value, the header still counting as present.\<close>

theorem link_header_next:
  assumes "\<forall>p\<in>set ps. good_link p"
  shows "links_next (parse_link (join '', '' (map link_value ps))) = map_of (map prod.swap ps) ''next''
    \<and> links_present (parse_link (join '', '' (map link_value ps)))"
proof -
  have "\<forall>p\<in>set ps. snd p \<in> set RELS" using assms by (auto simp: good_link_def)
  from foldl_set_rel_next [OF this, of "default_links\<lparr>links_present := True\<rparr>"]
  show ?thesis
    unfolding parse_link_def link_loop_values [OF assms] by (simp add: default_links_def)
qed

theorem link_header_next_witness:
  "links_next (parse_link (join '', '' (map link_value
     [(''https://h/i?labels=bug,ci&page=2'', ''next''), (''https://h/i?page=7'', ''last'')])))
   = Some ''https://h/i?labels=bug,ci&page=2''"
proof -
  have "list_all good_link [(''https://h/i?labels=bug,ci&page=2'', ''next''), (''https://h/i?page=7'', ''last'')]"
    by code_simp
  then have "\<forall>p\<in>set [(''https://h/i?labels=bug,ci&page=2'', ''next''), (''https://h/i?page=7'', ''last'')]. good_link p"
    by (simp only: list_all_iff)
  from link_header_next [OF this] show ?thesis by simp
qed

text \<open>A page size is asked for only when the instance reported its own, it is never zero, and
  never above what the instance serves.\<close>

theorem page_size_never_guessed:
  assumes "effective_limit requested (Some (probe settings nodeinfo)) = Some n"
  shows "(\<exists>x. settings = Inr x) \<and> 1 \<le> n \<and> n \<le> caps_max_response_items (probe settings nodeinfo)
    \<and> (case requested of Some r \<Rightarrow> n \<le> max r 1 | None \<Rightarrow> n = caps_max_response_items (probe settings nodeinfo))"
  using assms probe_positive [of settings nodeinfo] probe_settings_known [of settings nodeinfo]
  by (auto simp: effective_limit_def Let_def split: option.splits if_splits)

theorem page_size_never_guessed_witness:
  "effective_limit (Some 100) (Some (probe (Inr \<lparr>set_max_response_items = 50, set_default_paging_num = 0,
      set_default_git_trees_per_page = 0, set_default_max_blob_size = 0\<rparr>) (Inl (error_new NotAGitRepo)))) = Some 50
   \<and> (50 :: nat) \<le> max 100 1"
proof -
  let ?p = "probe (Inr \<lparr>set_max_response_items = 50, set_default_paging_num = 0,
      set_default_git_trees_per_page = 0, set_default_max_blob_size = 0\<rparr>) (Inl (error_new NotAGitRepo))"
  have "effective_limit (Some 100) (Some ?p) = Some 50"
    by (simp add: effective_limit_def probe_def conservative_def Let_def)
  with page_size_never_guessed [OF this] show ?thesis by simp
qed

end
