(* ===== verification/Host_Key.thy ===== *)
theory Host_Key
  imports Errors
begin

text \<open>
  The identity of a host, \<open>host[:port][/subpath]\<close>: \<open>HostKey\<close>, \<open>split_port\<close>,
  \<open>split_segments\<close> and \<open>longest_subpath_prefix\<close> of
  \<open>crates/forgejo-core/src/config/hosts.rs\<close>, and the process environment of
  \<open>config/mod.rs\<close>.
\<close>

subsection \<open>The environment\<close>

text \<open>The variables as the process has them; \<open>env_get\<close> reads an empty one as unset.\<close>

type_synonym env = "str \<Rightarrow> str option"

definition env_get :: "env \<Rightarrow> str \<Rightarrow> str option" where
  "env_get env key = (case env key of None \<Rightarrow> None | Some v \<Rightarrow> if v = [] then None else Some v)"

subsection \<open>Host keys\<close>

datatype host_key = HostKey (key_str: str)

instantiation host_key :: linorder
begin

definition less_eq_host_key :: "host_key \<Rightarrow> host_key \<Rightarrow> bool" where
  "less_eq_host_key a b \<longleftrightarrow> key_str a \<le> key_str b"

definition less_host_key :: "host_key \<Rightarrow> host_key \<Rightarrow> bool" where
  "less_host_key a b \<longleftrightarrow> key_str a < key_str b"

instance
  by standard (auto simp: less_eq_host_key_def less_host_key_def intro: host_key.expand)

end

definition split_port :: "str \<Rightarrow> (str, str \<times> nat option) res" where
  "split_port authority =
     (let hp = (case strip_prefix authority ''['' of
            Some rest \<Rightarrow>
              (case find_c CHR '']'' rest of
                 None \<Rightarrow> Inl ''unterminated IPv6 literal''
               | Some e \<Rightarrow>
                   (let after = drop (e + 1) rest
                    in case strip_prefix after '':'' of
                         Some p \<Rightarrow> Inr (take (e + 2) authority, Some p)
                       | None \<Rightarrow> if after = [] then Inr (take (e + 2) authority, None)
                                 else Inl ''junk after IPv6 literal''))
          | None \<Rightarrow>
              (case split_once_c authority CHR '':'' of
                 Some (h, p) \<Rightarrow> Inr (h, Some p)
               | None \<Rightarrow> Inr (authority, None)))
      in case hp of Inl e \<Rightarrow> Inl e
         | Inr (host, None) \<Rightarrow> Inr (host, None)
         | Inr (host, Some p) \<Rightarrow>
             if p = [] then Inl ''empty port''
             else (case parse_u16 p of None \<Rightarrow> Inl ''port is not a number''
                   | Some n \<Rightarrow> Inr (host, Some n)))"

definition split_segments :: "str \<Rightarrow> str list" where
  "split_segments path = filter (\<lambda>s. s \<noteq> []) (split_c path CHR ''/'')"

definition bad_host :: "str \<Rightarrow> str \<Rightarrow> error" where
  "bad_host input why = error_new (Usage (Fmt ''{input:?} is not a usable host: {why}'' [input, why]))"

text \<open>The port as it is written: the default ports are dropped.\<close>

definition port_part :: "nat option \<Rightarrow> str" where
  "port_part port = (case port of None \<Rightarrow> []
     | Some p \<Rightarrow> if p \<noteq> 80 \<and> p \<noteq> 443 then CHR '':'' # show_nat p else [])"

text \<open>A trailing \<open>api/v1\<close> is dropped.\<close>

definition drop_api :: "str list \<Rightarrow> str list" where
  "drop_api segments =
     (if 2 \<le> length segments \<and> drop (length segments - 2) segments = [''api'', ''v1'']
      then take (length segments - 2) segments else segments)"

definition key_text :: "str \<Rightarrow> nat option \<Rightarrow> str list \<Rightarrow> str" where
  "key_text host port segments = host @ port_part port @ concat (map (\<lambda>s. CHR ''/'' # s) segments)"

definition host_key_parse :: "str \<Rightarrow> (error, host_key) res" where
  "host_key_parse input =
     (let t = trim input;
          rest = (case split_once t ''://'' of None \<Rightarrow> t | Some (_, r) \<Rightarrow> r);
          (authority, path) = (case split_once_c rest CHR ''/'' of None \<Rightarrow> (rest, []) | Some p \<Rightarrow> p);
          authority = (case rsplit_once_c authority CHR ''@'' of None \<Rightarrow> authority | Some (_, a) \<Rightarrow> a);
          authority = to_ascii_lowercase authority
      in case split_port authority of
           Inl why \<Rightarrow> Inl (bad_host input why)
         | Inr (host, port) \<Rightarrow>
             if host = [] then Inl (bad_host input ''no host part'')
             else if contains host '' '' then Inl (bad_host input ''contains a space'')
             else Inr (HostKey (key_text host port (drop_api (split_segments path)))))"

definition key_authority :: "host_key \<Rightarrow> str" where
  "key_authority k = hd (split_c (key_str k) CHR ''/'')"

definition key_host :: "host_key \<Rightarrow> str" where
  "key_host k =
     (let a = key_authority k
      in case strip_prefix a ''['' of
           Some _ \<Rightarrow> (case split_once a '']:'' of None \<Rightarrow> a | Some (h, _) \<Rightarrow> take (length h + 1) a)
         | None \<Rightarrow> (case split_once_c a CHR '':'' of None \<Rightarrow> a | Some (h, _) \<Rightarrow> h))"

definition key_port :: "host_key \<Rightarrow> nat option" where
  "key_port k = (case split_port (key_authority k) of Inl _ \<Rightarrow> None | Inr (_, p) \<Rightarrow> p)"

definition key_subpath :: "host_key \<Rightarrow> str" where
  "key_subpath k = (case split_once_c (key_str k) CHR ''/'' of None \<Rightarrow> [] | Some (_, p) \<Rightarrow> p)"

subsection \<open>The longest prefix\<close>

text \<open>
  The loop over the candidates; \<open>best\<close> is the key kept so far and the length of its subpath.
\<close>

fun longest_loop :: "str list \<Rightarrow> (host_key \<times> nat) option \<Rightarrow> host_key list \<Rightarrow> (host_key \<times> nat) option" where
  "longest_loop segments best [] = best"
| "longest_loop segments best (key # keys) =
     (let prefix = split_segments (key_subpath key)
      in if length segments < length prefix \<or> take (length prefix) segments \<noteq> prefix
         then longest_loop segments best keys
         else if (case best of None \<Rightarrow> True | Some (_, n) \<Rightarrow> n < length prefix)
         then longest_loop segments (Some (key, length prefix)) keys
         else longest_loop segments best keys)"

definition longest_subpath_prefix :: "host_key list \<Rightarrow> str list \<Rightarrow> (host_key \<times> nat) option" where
  "longest_subpath_prefix candidates segments = longest_loop segments None candidates"

definition covers :: "host_key \<Rightarrow> str list \<Rightarrow> bool" where
  "covers key segments \<longleftrightarrow> prefix (split_segments (key_subpath key)) segments"

lemma covers_take: "covers key segs \<longleftrightarrow>
  \<not> (length segs < length (split_segments (key_subpath key))
     \<or> take (length (split_segments (key_subpath key))) segs \<noteq> split_segments (key_subpath key))"
  unfolding covers_def by (metis not_less prefix_def prefix_length_le take_is_prefix append_eq_conv_conj)

lemma longest_loop_step:
  "longest_loop segs best (key # keys) =
     (if covers key segs \<and> (case best of None \<Rightarrow> True | Some (_, n) \<Rightarrow> n < length (split_segments (key_subpath key)))
      then longest_loop segs (Some (key, length (split_segments (key_subpath key)))) keys
      else longest_loop segs best keys)"
  unfolding covers_take by (simp add: Let_def)

lemma longest_loop_sound:
  "longest_loop segs best keys = Some (k, n) \<Longrightarrow>
   best = Some (k, n) \<or> (k \<in> set keys \<and> covers k segs \<and> n = length (split_segments (key_subpath k)))"
proof (induction keys arbitrary: best)
  case (Cons key keys)
  then show ?case by (fastforce simp: longest_loop_step simp del: longest_loop.simps split: if_splits)
qed simp

lemma longest_loop_max:
  "longest_loop segs best keys = Some (k, n) \<Longrightarrow>
   (\<forall>key\<in>set keys. covers key segs \<longrightarrow> length (split_segments (key_subpath key)) \<le> n)
   \<and> (\<forall>k' n'. best = Some (k', n') \<longrightarrow> n' \<le> n)"
proof (induction keys arbitrary: best)
  case (Cons key keys)
  show ?case
  proof (cases "covers key segs \<and> (case best of None \<Rightarrow> True | Some (_, n) \<Rightarrow> n < length (split_segments (key_subpath key)))")
    case True
    then have "longest_loop segs (Some (key, length (split_segments (key_subpath key)))) keys = Some (k, n)"
      using Cons.prems by (simp add: longest_loop_step del: longest_loop.simps)
    from Cons.IH [OF this] show ?thesis using True by (auto split: option.splits)
  next
    case False
    have "longest_loop segs best keys = Some (k, n)"
      using Cons.prems unfolding longest_loop_step if_not_P [OF False] .
    from Cons.IH [OF this] show ?thesis using False by (auto split: option.splits)
  qed
qed simp

lemma longest_loop_none:
  "longest_loop segs best keys = None \<longleftrightarrow> best = None \<and> (\<forall>key\<in>set keys. \<not> covers key segs)"
proof (induction keys arbitrary: best)
  case (Cons key keys)
  then show ?case by (auto simp: longest_loop_step simp del: longest_loop.simps)
qed simp

lemma longest_subpath_prefix_Some:
  assumes "longest_subpath_prefix keys segs = Some (k, n)"
  shows "k \<in> set keys \<and> covers k segs \<and> n = length (split_segments (key_subpath k))
    \<and> (\<forall>key\<in>set keys. covers key segs \<longrightarrow> length (split_segments (key_subpath key)) \<le> n)"
  using longest_loop_sound [of segs None keys k n] longest_loop_max [of segs None keys k n] assms
  by (simp add: longest_subpath_prefix_def)

lemma longest_subpath_prefix_None:
  "longest_subpath_prefix keys segs = None \<longleftrightarrow> (\<forall>key\<in>set keys. \<not> covers key segs)"
  by (simp add: longest_subpath_prefix_def longest_loop_none)

subsection \<open>What parsing yields\<close>

lemma split_c_segments:
  "\<forall>s\<in>set segs. CHR ''/'' \<notin> set s \<Longrightarrow> CHR ''/'' \<notin> set a \<Longrightarrow>
   split_c (a @ concat (map (\<lambda>s. CHR ''/'' # s) segs)) CHR ''/'' = a # segs"
proof (induction segs arbitrary: a)
  case Nil
  then show ?case by (simp add: split_c_noop)
next
  case (Cons s segs)
  then show ?case using split_c_append [of "CHR ''/''" a] by simp
qed

lemma split_segments_member: "s \<in> set (split_segments p) \<Longrightarrow> s \<noteq> [] \<and> CHR ''/'' \<notin> set s"
  by (auto simp: split_segments_def dest: split_c_no_sep)

lemma set_drop_api: "set (drop_api segs) \<subseteq> set segs"
  by (auto simp: drop_api_def dest: in_set_takeD)

text \<open>A host and port as \<open>split_port\<close> returns them, joined again, split to themselves.\<close>

lemma split_port_join:
  assumes "split_port a = Inr (host, port)" "host \<noteq> []"
  shows "split_port (host @ port_part port) = Inr (host, if port_part port = [] then None else port)
    \<and> set host \<subseteq> set a"
proof -
  have show_port: "parse_u16 (show_nat p) = Some p" if "port = Some p" for p
  proof -
    from assms(1) that have "p < 2 ^ 16"
      by (auto simp: split_port_def Let_def dest!: parse_unsigned_bound split: option.splits if_splits sum.splits)
    then show ?thesis by (rule parse_unsigned_show_nat)
  qed
  show ?thesis
  proof (cases "strip_prefix a ''[''")
    case None
    have h: "CHR '':'' \<notin> set host \<and> prefix host a"
    proof (cases "CHR '':'' \<in> set a")
      case True
      then obtain x y where xy: "a = x @ CHR '':'' # y" "CHR '':'' \<notin> set x" by (metis split_list_first)
      then have "split_once_c a CHR '':'' = Some (x, y)" by simp
      then have "host = x" using assms(1) None
        by (auto simp: split_port_def split: option.splits if_splits)
      then show ?thesis using xy by simp
    next
      case False
      then have "host = a" using assms(1) None by (auto simp: split_port_def)
      then show ?thesis using False by simp
    qed
    then have np: "strip_prefix (host @ x) ''['' = None" for x
      using None assms(2) by (cases host) (auto simp: strip_prefix_def prefix_def)
    from h have "set host \<subseteq> set a" by (auto dest: set_mono_prefix)
    moreover have "split_port (host @ port_part port) = Inr (host, if port_part port = [] then None else port)"
    proof (cases "port_part port = []")
      case True
      then show ?thesis using np [of "[]"] h by (simp add: split_port_def)
    next
      case False
      then obtain p where p: "port = Some p" "port_part port = CHR '':'' # show_nat p"
        by (auto simp: port_part_def split: option.splits if_splits)
      then show ?thesis using np [of "CHR '':'' # show_nat p"] h show_port [of p]
        by (simp add: split_port_def)
    qed
    ultimately show ?thesis by simp
  next
    case (Some rest)
    then have a: "a = CHR ''['' # rest" by (simp add: strip_prefix_Some)
    from assms(1) Some obtain e where e: "find_c CHR '']'' rest = Some e" "host = take (e + 2) a"
      by (auto simp: split_port_def Let_def split: option.splits if_splits sum.splits)
    obtain inner tail where rest: "rest = inner @ CHR '']'' # tail" "CHR '']'' \<notin> set inner" "e = length inner"
      using find_c_take [OF e(1)] id_take_nth_drop [of e rest] by auto
    then have host: "host = CHR ''['' # inner @ '']''" using e(2) a by simp
    have sp: "strip_prefix (host @ x) ''['' = Some (inner @ CHR '']'' # x)" for x
      by (simp add: host strip_prefix_def)
    have fc: "find_c CHR '']'' (inner @ CHR '']'' # x) = Some (length inner)" for x
      by (rule find_c_append [OF rest(2)])
    have hd: "take (length inner + 2) (host @ x) = host" "drop (length inner + 1) (inner @ CHR '']'' # x) = x" for x
      by (simp_all add: host)
    have "set host \<subseteq> set a" using e(2) by (simp add: set_take_subset)
    moreover have "split_port (host @ port_part port) = Inr (host, if port_part port = [] then None else port)"
    proof (cases "port_part port = []")
      case True
      then show ?thesis using sp [of "[]"] fc [of "[]"] hd [of "[]"] by (simp add: split_port_def strip_prefix_def)
    next
      case False
      then obtain p where p: "port = Some p" "port_part port = CHR '':'' # show_nat p"
        by (auto simp: port_part_def split: option.splits if_splits)
      have "strip_prefix (CHR '':'' # show_nat p) '':'' = Some (show_nat p)" by (simp add: strip_prefix_def)
      then show ?thesis
        using sp [of "port_part port"] fc [of "port_part port"] hd [of "port_part port"] p show_port [of p]
        by (simp add: split_port_def Let_def)
    qed
    ultimately show ?thesis by simp
  qed
qed

text \<open>The parts a parsed key is made of.\<close>

definition key_parts :: "host_key \<Rightarrow> str \<Rightarrow> nat option \<Rightarrow> str list \<Rightarrow> bool" where
  "key_parts k host port segs \<longleftrightarrow>
     k = HostKey (key_text host port segs) \<and> host \<noteq> [] \<and> \<not> contains host '' ''
     \<and> (\<forall>c \<in> set (host @ port_part port). c \<noteq> CHR ''/'' \<and> c \<noteq> CHR ''@'' \<and> ascii_lower c = c)
     \<and> split_port (host @ port_part port) = Inr (host, if port_part port = [] then None else port)
     \<and> (\<forall>s\<in>set segs. s \<noteq> [] \<and> CHR ''/'' \<notin> set s)"

lemma port_part_chars: "c \<in> set (port_part port) \<Longrightarrow> c = CHR '':'' \<or> is_ascii_digit c"
  using show_nat_digits by (auto simp: port_part_def list_all_iff split: option.splits if_splits)

lemma digit_plain: "is_ascii_digit c \<Longrightarrow> c \<noteq> CHR ''/'' \<and> c \<noteq> CHR ''@'' \<and> ascii_lower c = c"
  by (auto simp: is_ascii_digit_def ascii_lower_def byte_def)

lemma lowercase_fixed: "to_ascii_lowercase a = a \<longleftrightarrow> (\<forall>c\<in>set a. ascii_lower c = c)"
  unfolding to_ascii_lowercase_def by (induction a) auto

lemma host_key_parse_parts:
  assumes "host_key_parse input = Inr k"
  obtains host port segs where "key_parts k host port segs"
proof -
  obtain auth0 path where split: "(case split_once_c (case split_once (trim input) ''://'' of None \<Rightarrow> trim input | Some (_, r) \<Rightarrow> r) CHR ''/''
      of None \<Rightarrow> ((case split_once (trim input) ''://'' of None \<Rightarrow> trim input | Some (_, r) \<Rightarrow> r), []) | Some p \<Rightarrow> p) = (auth0, path)"
    by force
  define auth1 where "auth1 = (case rsplit_once_c auth0 CHR ''@'' of None \<Rightarrow> auth0 | Some (_, a) \<Rightarrow> a)"
  define auth where "auth = to_ascii_lowercase auth1"
  from assms obtain host port where sp: "split_port auth = Inr (host, port)" and h: "host \<noteq> []" "\<not> contains host '' ''"
    and k: "k = HostKey (key_text host port (drop_api (split_segments path)))"
    unfolding host_key_parse_def Let_def split auth_def auth1_def
    by (auto split: sum.splits if_splits)
  have s0: "CHR ''/'' \<notin> set auth0"
    using split by (auto simp: split_once_c_Some simp del: split_once_c_None split: option.splits)
      (metis split_once_c_None)+
  have "set auth1 \<subseteq> set auth0 \<and> CHR ''@'' \<notin> set auth1"
  proof (cases "CHR ''@'' \<in> set auth0")
    case True
    then obtain x y where xy: "auth0 = x @ CHR ''@'' # y" "CHR ''@'' \<notin> set y" by (metis split_list_last)
    then have "auth1 = y" by (simp add: auth1_def)
    then show ?thesis using xy by auto
  qed (simp add: auth1_def)
  then have a: "CHR ''/'' \<notin> set auth \<and> CHR ''@'' \<notin> set auth"
    using s0 to_ascii_lowercase_mem [of "CHR ''/''" auth1] to_ascii_lowercase_mem [of "CHR ''@''" auth1]
    by (auto simp: auth_def is_ascii_upper_def is_ascii_lower_def byte_def)
  have low: "\<forall>c\<in>set auth. ascii_lower c = c" by (auto simp: auth_def to_ascii_lowercase_def)
  note j = split_port_join [OF sp h(1)]
  have "\<forall>c \<in> set (host @ port_part port). c \<noteq> CHR ''/'' \<and> c \<noteq> CHR ''@'' \<and> ascii_lower c = c"
  proof
    fix c assume "c \<in> set (host @ port_part port)"
    then consider "c \<in> set auth" | "c = CHR '':''" | "is_ascii_digit c"
      using j port_part_chars [of c port] by auto
    then show "c \<noteq> CHR ''/'' \<and> c \<noteq> CHR ''@'' \<and> ascii_lower c = c"
    proof cases
      case 1
      then show ?thesis using a low by auto
    next
      case 2
      then show ?thesis by (simp add: ascii_lower_def is_ascii_upper_def byte_def)
    next
      case 3
      then show ?thesis by (rule digit_plain)
    qed
  qed
  then have "key_parts k host port (drop_api (split_segments path))"
    unfolding key_parts_def using k h j set_drop_api [of "split_segments path"] split_segments_member [of _ path]
    by blast
  then show thesis by (rule that)
qed

lemma key_parts_split:
  assumes "key_parts k host port segs"
  shows "split_c (key_str k) CHR ''/'' = (host @ port_part port) # segs"
  using assms split_c_segments [of segs "host @ port_part port"]
  by (auto simp: key_parts_def key_text_def)

lemma key_parts_access:
  assumes "key_parts k host port segs"
  shows "key_authority k = host @ port_part port" "split_segments (key_subpath k) = segs"
    "key_port k = (if port_part port = [] then None else port)"
proof -
  show a: "key_authority k = host @ port_part port"
    by (simp add: key_authority_def key_parts_split [OF assms])
  show "key_port k = (if port_part port = [] then None else port)"
    using assms unfolding key_port_def a key_parts_def by simp
  show "split_segments (key_subpath k) = segs"
  proof (cases segs)
    case Nil
    then have "CHR ''/'' \<notin> set (key_str k)" using assms by (auto simp: key_parts_def key_text_def)
    then show ?thesis using Nil by (simp add: key_subpath_def split_segments_def)
  next
    case (Cons s rest)
    have "key_str k = (host @ port_part port) @ CHR ''/'' # (s @ concat (map (\<lambda>s. CHR ''/'' # s) rest))"
      using assms Cons by (simp add: key_parts_def key_text_def)
    moreover have "CHR ''/'' \<notin> set (host @ port_part port)" using assms by (auto simp: key_parts_def)
    ultimately have "key_subpath k = s @ concat (map (\<lambda>s. CHR ''/'' # s) rest)"
      by (simp add: key_subpath_def del: append_assoc)
    then show ?thesis
      using assms Cons split_c_segments [of rest s]
      by (auto simp: split_segments_def key_parts_def filter_id_conv)
  qed
qed

lemma host_key_reparse:
  assumes p: "key_parts k host port segs" and t: "trim (key_str k) = key_str k" and d: "drop_api segs = segs"
  shows "host_key_parse (key_str k) = Inr k"
proof -
  let ?a = "host @ port_part port"
  have k: "key_str k = key_text host port segs" using p by (simp add: key_parts_def)
  have "\<not> contains (key_str k) ''://''"
  proof
    assume "contains (key_str k) ''://''"
    then obtain x y where "key_str k = x @ ''://'' @ y" by (auto simp: contains_sublist sublist_def)
    then have "split_c (key_str k) CHR ''/'' = split_c (x @ '':'') CHR ''/'' @ [] # split_c y CHR ''/''"
      using split_c_mid [of "x @ '':''" "CHR ''/''" "CHR ''/'' # y"] by simp
    then have "[] \<in> set (?a # segs)" unfolding key_parts_split [OF p] by simp
    moreover have "[] \<notin> set (?a # segs)" using p unfolding key_parts_def by auto
    ultimately show False by blast
  qed
  then have s: "split_once (key_str k) ''://'' = None"
    by (auto simp: contains_def split_once_def)
  have a: "CHR ''/'' \<notin> set ?a" "CHR ''@'' \<notin> set ?a" "to_ascii_lowercase ?a = ?a"
    using p unfolding key_parts_def lowercase_fixed by blast+
  obtain path where sp: "(case split_once_c (key_str k) CHR ''/'' of None \<Rightarrow> (key_str k, []) | Some q \<Rightarrow> q) = (?a, path)"
    and seg: "split_segments path = segs"
  proof (cases segs)
    case Nil
    then have "key_str k = ?a" by (simp add: k key_text_def)
    then show thesis using a(1) Nil by (intro that [of "[]"]) (simp_all add: split_segments_def)
  next
    case (Cons x rest)
    have "key_str k = ?a @ CHR ''/'' # (x @ concat (map (\<lambda>s. CHR ''/'' # s) rest))"
      using Cons by (simp add: k key_text_def)
    then have sp: "split_once_c (key_str k) CHR ''/'' = Some (?a, x @ concat (map (\<lambda>s. CHR ''/'' # s) rest))"
      using a(1) by (simp del: append_assoc)
    then have "key_subpath k = x @ concat (map (\<lambda>s. CHR ''/'' # s) rest)" by (simp add: key_subpath_def)
    then show thesis using sp key_parts_access(2) [OF p] by (intro that) simp_all
  qed
  have r: "rsplit_once_c ?a CHR ''@'' = None" using a(2) by simp
  have port: "split_port ?a = Inr (host, if port_part port = [] then None else port)"
    using p by (simp add: key_parts_def)
  have same: "port_part (if port_part port = [] then None else port) = port_part port"
    by (simp add: port_part_def)
  show ?thesis
    unfolding host_key_parse_def Let_def t s option.case sp prod.case r a(3) port sum.case seg d
    using p same by (simp add: key_parts_def key_text_def)
qed

subsection \<open>Properties\<close>

text \<open>A parsed host is normal: its authority is not empty, in lower case and without
  credentials, its port is not a default one, and parsing the stored form again (as loading the
  file does) gives the same key, unless the form is padded with white space or its path still
  ends in api/v1.\<close>

theorem host_key_normal:
  assumes "host_key_parse s = Inr k"
  shows "key_authority k \<noteq> [] \<and> to_ascii_lowercase (key_authority k) = key_authority k
    \<and> CHR ''@'' \<notin> set (key_authority k) \<and> key_port k \<noteq> Some 80 \<and> key_port k \<noteq> Some 443
    \<and> (trim (key_str k) = key_str k
       \<and> drop_api (split_segments (key_subpath k)) = split_segments (key_subpath k)
       \<longrightarrow> host_key_parse (key_str k) = Inr k)"
proof -
  from assms obtain host port segs where p: "key_parts k host port segs" by (rule host_key_parse_parts)
  have "port_part (Some 80) = []" "port_part (Some 443) = []" by (simp_all add: port_part_def)
  then have port: "(if port_part port = [] then None else port) \<noteq> Some 80"
    "(if port_part port = [] then None else port) \<noteq> Some 443" by auto
  have chars: "host \<noteq> []" "\<forall>c\<in>set (host @ port_part port). c \<noteq> CHR ''/'' \<and> c \<noteq> CHR ''@'' \<and> ascii_lower c = c"
    using p unfolding key_parts_def by blast+
  show ?thesis
    unfolding key_parts_access [OF p] lowercase_fixed
    using chars port host_key_reparse [OF p] by blast
qed

theorem host_key_normal_witness:
  "host_key_parse ''example.org/forgejo'' = Inr (HostKey ''example.org/forgejo'')"
proof -
  let ?k = "HostKey ''example.org/forgejo''"
  have p: "host_key_parse ''https://me:pw@Example.ORG/forgejo/api/v1'' = Inr ?k" by code_simp
  moreover have "trim (key_str ?k) = key_str ?k
    \<and> drop_api (split_segments (key_subpath ?k)) = split_segments (key_subpath ?k)" by code_simp
  ultimately show ?thesis using host_key_normal [OF p] by simp
qed

end
