(* ===== verification/Keyed.thy ===== *)
theory Keyed
  imports Prelude "HOL-Library.Multiset"
begin

text \<open>
  Lists of records looked up by a key, as \<open>hosts.toml\<close> keeps its hosts (by name) and each host
  its logins (by user).  The code searches with \<open>iter().find\<close>, adds with \<open>push\<close> and
  \<open>sort_by\<close>, and removes with \<open>retain\<close>; \<open>keyed_list\<close> states what its callers rely
  on, and \<open>Hosts\<close> interprets it for both lists.
\<close>

subsection \<open>The operations\<close>

definition find_by :: "('e \<Rightarrow> 'k) \<Rightarrow> 'k \<Rightarrow> 'e list \<Rightarrow> 'e option" where
  "find_by key k xs = List.find (\<lambda>x. key x = k) xs"

definition insert_by :: "('e \<Rightarrow> 'k::linorder) \<Rightarrow> 'e \<Rightarrow> 'e list \<Rightarrow> 'e list" where
  "insert_by key x xs = sort_key key (xs @ [x])"

definition remove_by :: "('e \<Rightarrow> 'k) \<Rightarrow> 'k \<Rightarrow> 'e list \<Rightarrow> 'e list" where
  "remove_by key k xs = filter (\<lambda>x. key x \<noteq> k) xs"

text \<open>\<open>iter_mut().find\<close> followed by an assignment: the first match is changed.\<close>

fun update_by :: "('e \<Rightarrow> 'k) \<Rightarrow> 'k \<Rightarrow> ('e \<Rightarrow> 'e) \<Rightarrow> 'e list \<Rightarrow> 'e list" where
  "update_by key k f [] = []"
| "update_by key k f (x # xs) = (if key x = k then f x # xs else x # update_by key k f xs)"

subsection \<open>The contract\<close>

locale keyed_list =
  fixes key :: "'e \<Rightarrow> 'k::linorder"
    and lookup :: "'k \<Rightarrow> 'e list \<Rightarrow> 'e option"
    and insrt :: "'e \<Rightarrow> 'e list \<Rightarrow> 'e list"
    and remov :: "'k \<Rightarrow> 'e list \<Rightarrow> 'e list"
    and updat :: "'k \<Rightarrow> ('e \<Rightarrow> 'e) \<Rightarrow> 'e list \<Rightarrow> 'e list"
  assumes lookup_Some: "lookup k xs = Some x \<Longrightarrow> x \<in> set xs \<and> key x = k"
    and lookup_None: "lookup k xs = None \<longleftrightarrow> k \<notin> key ` set xs"
    and insrt_mset: "mset (insrt x xs) = add_mset x (mset xs)"
    and insrt_sorted: "sorted (map key (insrt x xs))"
    and remov_mset: "mset (remov k xs) = filter_mset (\<lambda>x. key x \<noteq> k) (mset xs)"
    and updat_member: "lookup k xs = Some x \<Longrightarrow> \<exists>a b. xs = a @ x # b \<and> updat k f xs = a @ f x # b"
begin

lemma insrt_set: "set (insrt x xs) = insert x (set xs)"
  by (metis insrt_mset set_mset_add_mset_insert set_mset_mset)

lemma remov_set: "set (remov k xs) = {x \<in> set xs. key x \<noteq> k}"
  by (metis remov_mset set_mset_filter set_mset_mset)

lemma distinct_keys_mset: "distinct (map key xs) \<longleftrightarrow> (\<forall>k. count (image_mset key (mset xs)) k \<le> 1)"
proof -
  have "distinct (map key xs) \<longleftrightarrow> (\<forall>k. count (mset (map key xs)) k = (if k \<in> set (map key xs) then 1 else 0))"
    by (rule distinct_count_atmost_1)
  also have "\<dots> \<longleftrightarrow> (\<forall>k. count (mset (map key xs)) k \<le> 1)"
    by (metis count_mset_0_iff le_numeral_extra(3) le_numeral_extra(4) less_one linorder_not_less nle_le)
  finally show ?thesis by simp
qed

lemma insrt_distinct: "distinct (map key xs) \<Longrightarrow> key x \<notin> key ` set xs \<Longrightarrow> distinct (map key (insrt x xs))"
proof -
  assume "distinct (map key xs)" "key x \<notin> key ` set xs"
  then have "distinct (map key (x # xs))" by simp
  moreover have "mset (insrt x xs) = mset (x # xs)" by (simp add: insrt_mset)
  ultimately show ?thesis by (metis mset_eq_imp_distinct_iff mset_map)
qed

lemma remov_distinct: "distinct (map key xs) \<Longrightarrow> distinct (map key (remov k xs))"
proof -
  assume "distinct (map key xs)"
  then have "distinct (map key (filter (\<lambda>x. key x \<noteq> k) xs))" by (rule distinct_map_filter)
  moreover have "mset (remov k xs) = mset (filter (\<lambda>x. key x \<noteq> k) xs)" by (simp add: remov_mset)
  ultimately show ?thesis by (metis mset_eq_imp_distinct_iff mset_map)
qed

lemma remov_lookup: "lookup k (remov k xs) = None"
  by (auto simp: lookup_None remov_set)

lemma remov_length: "length (remov k xs) \<noteq> length xs \<longleftrightarrow> k \<in> key ` set xs"
proof -
  have "mset (remov k xs) = mset (filter (\<lambda>x. key x \<noteq> k) xs)" by (simp add: remov_mset)
  then have len: "length (remov k xs) = length (filter (\<lambda>x. key x \<noteq> k) xs)" by (rule mset_eq_length)
  show ?thesis
  proof (cases "k \<in> key ` set xs")
    case True
    then obtain x where "x \<in> set xs" "\<not> key x \<noteq> k" by blast
    then have "length (filter (\<lambda>x. key x \<noteq> k) xs) < length xs" by (rule length_filter_less)
    then show ?thesis using True len by simp
  next
    case False
    then have "\<forall>x\<in>set xs. key x \<noteq> k" by blast
    then have "filter (\<lambda>x. key x \<noteq> k) xs = xs" by (simp only: filter_id_conv) 
    then show ?thesis using False len by (simp only: simp_thms)
  qed
qed

lemma updat_keys:
  assumes "\<And>x. key (f x) = key x"
  shows "map key (updat k f xs) = map key xs \<or> lookup k xs = None"
proof (cases "lookup k xs")
  case (Some x)
  then obtain a b where "xs = a @ x # b" "updat k f xs = a @ f x # b" using updat_member by blast
  then show ?thesis using assms by simp
qed simp

lemma updat_set: "lookup k xs = Some x \<Longrightarrow> set (updat k f xs) \<subseteq> insert (f x) (set xs)"
  using updat_member [of k xs x f] by auto

lemma lookup_in: "distinct (map key xs) \<Longrightarrow> x \<in> set xs \<Longrightarrow> lookup (key x) xs = Some x"
proof (cases "lookup (key x) xs")
  case None
  assume "x \<in> set xs"
  then show ?thesis using None by (simp add: lookup_None)
next
  case (Some y)
  assume "distinct (map key xs)" "x \<in> set xs"
  then have "y = x" using lookup_Some [OF Some] by (auto simp: distinct_map dest: inj_onD)
  then show ?thesis using Some by simp
qed

text \<open>Looking up after a change.\<close>

lemma lookup_insrt:
  assumes "distinct (map key xs)" "key x \<notin> key ` set xs"
  shows "lookup k (insrt x xs) = (if k = key x then Some x else lookup k xs)"
proof -
  note d = insrt_distinct [OF assms]
  show ?thesis
  proof (cases "k = key x")
    case True
    then show ?thesis using lookup_in [OF d, of x] by (simp add: insrt_set)
  next
    case False
    show ?thesis
    proof (cases "lookup k xs")
      case None
      then have "lookup k (insrt x xs) = None" using False by (auto simp: lookup_None insrt_set)
      then show ?thesis using None False by simp
    next
      case (Some y)
      then have y: "y \<in> set xs" "key y = k" using lookup_Some by blast+
      then have "lookup (key y) (insrt x xs) = Some y" by (intro lookup_in [OF d]) (simp add: insrt_set)
      then show ?thesis using y Some False by simp
    qed
  qed
qed

lemma lookup_updat:
  assumes "lookup k xs = Some x" "key (f x) = k" "distinct (map key xs)"
  shows "lookup j (updat k f xs) = (if j = k then Some (f x) else lookup j xs)"
    and "distinct (map key (updat k f xs))"
proof -
  from updat_member [OF assms(1)] obtain a b where ab: "xs = a @ x # b" "updat k f xs = a @ f x # b" by blast
  have kx: "key x = k" using lookup_Some [OF assms(1)] by simp
  show d: "distinct (map key (updat k f xs))" using assms(2,3) ab kx by simp
  show "lookup j (updat k f xs) = (if j = k then Some (f x) else lookup j xs)"
  proof (cases "j = k")
    case True
    then show ?thesis using lookup_in [OF d, of "f x"] ab assms(2) by simp
  next
    case False
    show ?thesis
    proof (cases "lookup j xs")
      case None
      then have "j \<notin> key ` set (updat k f xs)" using ab assms(2) False by (auto simp: lookup_None)
      then have "lookup j (updat k f xs) = None" by (simp add: lookup_None)
      then show ?thesis using None False by simp
    next
      case (Some y)
      then have y: "y \<in> set xs" "key y = j" using lookup_Some by blast+
      then have "lookup (key y) (updat k f xs) = Some y"
        using ab kx False by (intro lookup_in [OF d]) auto
      then show ?thesis using y Some False by simp
    qed
  qed
qed

end

text \<open>The operations of the code meet it, for any key.\<close>

lemma update_by_member:
  "find_by key k xs = Some x \<Longrightarrow> \<exists>a b. xs = a @ x # b \<and> update_by key k f xs = a @ f x # b"
proof (induction xs)
  case (Cons y xs)
  show ?case
  proof (cases "key y = k")
    case True
    then have "y # xs = [] @ x # xs \<and> update_by key k f (y # xs) = [] @ f x # xs"
      using Cons.prems by (simp add: find_by_def)
    then show ?thesis by blast
  next
    case False
    then have "find_by key k xs = Some x" using Cons.prems by (simp add: find_by_def)
    from Cons.IH [OF this] obtain a b where "xs = a @ x # b \<and> update_by key k f xs = a @ f x # b" by blast
    then have "y # xs = (y # a) @ x # b \<and> update_by key k f (y # xs) = (y # a) @ f x # b"
      using False by (metis append_Cons update_by.simps(2))
    then show ?thesis by blast
  qed
qed (simp add: find_by_def)

lemma update_by_None: "find_by key k xs = None \<Longrightarrow> update_by key k f xs = xs"
  by (induction xs) (auto simp: find_by_def split: if_splits)

lemma keyed_list_by: "keyed_list key (find_by key) (insert_by key) (remove_by key) (update_by key)"
proof
  show "find_by key k xs = Some x \<Longrightarrow> x \<in> set xs \<and> key x = k" for k xs x
    by (auto simp: find_by_def dest: find_Some_set)
  show "find_by key k xs = None \<longleftrightarrow> k \<notin> key ` set xs" for k xs
    by (auto simp: find_by_def find_None_set)
qed (auto simp: insert_by_def remove_by_def intro: update_by_member)

subsection \<open>Maps from strings\<close>

text \<open>A \<open>BTreeMap\<close> from strings is a list of pairs in key order.\<close>

type_synonym 'v str_map = "(str \<times> 'v) list"

definition map_put :: "str \<Rightarrow> 'v \<Rightarrow> 'v str_map \<Rightarrow> 'v str_map" where
  "map_put k v m = insert_by fst (k, v) (remove_by fst k m)"

definition map_get :: "str \<Rightarrow> 'v str_map \<Rightarrow> 'v option" where
  "map_get k m = map_option snd (find_by fst k m)"

interpretation cl: keyed_list "fst :: str \<times> 'v \<Rightarrow> str" "find_by fst" "insert_by fst" "remove_by fst" "update_by fst"
  by (rule keyed_list_by)

lemma map_put_distinct: "distinct (map fst (m :: 'v str_map)) \<Longrightarrow> distinct (map fst (map_put k v m))"
  unfolding map_put_def by (rule cl.insrt_distinct) (auto simp: cl.remov_set intro: cl.remov_distinct)

lemma remove_lookup_other:
  "distinct (map fst (m :: 'v str_map)) \<Longrightarrow> find_by fst j (remove_by fst k m) = (if j = k then None else find_by fst j m)"
proof (cases "j = k")
  case False
  assume d: "distinct (map fst m)"
  show ?thesis
  proof (cases "find_by fst j m")
    case None
    then have "find_by fst j (remove_by fst k m) = None" by (auto simp: cl.lookup_None cl.remov_set)
    then show ?thesis using None False by simp
  next
    case (Some p)
    then have "p \<in> set (remove_by fst k m)" "fst p = j" using cl.lookup_Some [OF Some] False by (auto simp: cl.remov_set)
    then have "find_by fst (fst p) (remove_by fst k m) = Some p"
      by (intro cl.lookup_in [OF cl.remov_distinct [OF d]])
    then show ?thesis using Some False \<open>fst p = j\<close> by simp
  qed
qed (simp add: cl.remov_lookup)

lemma map_get_put: "distinct (map fst m) \<Longrightarrow> map_get j (map_put k v m) = (if j = k then Some v else map_get j m)"
proof -
  assume d: "distinct (map fst m)"
  have "fst (k, v) \<notin> fst ` set (remove_by fst k m)" by (auto simp: cl.remov_set)
  from cl.lookup_insrt [OF cl.remov_distinct [OF d] this, of j]
  have "find_by fst j (map_put k v m) = (if j = k then Some (k, v) else find_by fst j (remove_by fst k m))"
    by (simp add: map_put_def)
  then show ?thesis by (simp add: map_get_def remove_lookup_other [OF d])
qed

end
