(* ===== verification/Hosts.thy ===== *)
theory Hosts
  imports Host_Key Keyed Slug "HOL-Library.Word"
begin

unbundle bit_operations_syntax

text \<open>
  The known hosts and their logins: \<open>Hosts\<close>, \<open>HostEntry\<close> and \<open>Login\<close> of
  \<open>crates/forgejo-core/src/config/hosts.rs\<close>, with the credential store kinds of
  \<open>config/secrets.rs\<close> and the file replacement \<open>write_atomic\<close> of \<open>config/mod.rs\<close>.

  The file system is a map from paths to a text and a mode; what can fail is given by a fault
  table.  The \<open>toml\<close> crate is a parameter: it turns a text into the raw record of its fields
  (\<open>raw_hosts\<close>) and back; what the program's own \<open>Deserialize\<close> code does with the raw
  fields is modelled.  A secret is its text.
\<close>

subsection \<open>Credential store kinds\<close>

datatype credential_store = StoreKeyring | StoreFile | StoreEnv

fun store_as_str :: "credential_store \<Rightarrow> str" where
  "store_as_str StoreKeyring = ''keyring''"
| "store_as_str StoreFile = ''file''"
| "store_as_str StoreEnv = ''env''"

definition STORE_VALUES :: "str list" where
  "STORE_VALUES = [''keyring'', ''file'', ''env'']"

definition store_default :: credential_store where
  "store_default = StoreKeyring"

definition store_from_str :: "str \<Rightarrow> credential_store option" where
  "store_from_str s =
     (let t = to_ascii_lowercase (trim s)
      in if t = ''keyring'' then Some StoreKeyring
         else if t = ''file'' \<or> t = ''plaintext'' \<or> t = ''insecure'' then Some StoreFile
         else if t = ''env'' \<or> t = ''environment'' then Some StoreEnv
         else None)"

text \<open>An unrecognised value in the file reads as the default.\<close>

definition store_deserialize :: "str \<Rightarrow> credential_store" where
  "store_deserialize s = (case store_from_str s of Some k \<Rightarrow> k | None \<Rightarrow> store_default)"

definition TOKEN_VARS :: "str list" where
  "TOKEN_VARS = [''FJO_TOKEN'', ''FORGEJO_TOKEN'']"

definition STORE_VAR :: str where
  "STORE_VAR = ''FJO_CREDENTIAL_STORE''"

subsection \<open>The file system\<close>

text \<open>A path is its parent directory and its file name.\<close>

type_synonym path = "str \<times> str"

definition path_text :: "path \<Rightarrow> str" where
  "path_text p = fst p @ ''/'' @ snd p"

record file_node =
  fn_text :: str
  fn_mode :: "32 word"

type_synonym file_system = "path \<Rightarrow> file_node option"

datatype io_step = ReadText | CreateDir | OpenFile | WriteAll | SyncAll | Rename

text \<open>
  What the process sees of the system: its id, its umask, and for each step the error it fails
  with and, for \<open>WriteAll\<close>, how many bytes were written before that.
\<close>

record io_env =
  io_pid :: nat
  io_umask :: "32 word"
  io_fault :: "io_step \<Rightarrow> (io_error \<times> nat) option"

definition io_error_new :: "io_error \<Rightarrow> error" where
  "io_error_new e = error_new (Io e)"

definition tmp_path :: "io_env \<Rightarrow> path \<Rightarrow> path" where
  "tmp_path io p = (fst p, CHR ''.'' # snd p @ ''.'' @ show_nat (io_pid io) @ ''.tmp'')"

text \<open>Opening creates the file with the mode less the umask; an existing file keeps its mode.\<close>

definition open_node :: "io_env \<Rightarrow> 32 word option \<Rightarrow> file_node option \<Rightarrow> file_node" where
  "open_node io mode old =
     \<lparr>fn_text = [],
      fn_mode = (case old of Some n \<Rightarrow> fn_mode n
                 | None \<Rightarrow> (case mode of Some m \<Rightarrow> m | None \<Rightarrow> 0x1B6) AND NOT (io_umask io))\<rparr>"

definition write_atomic ::
  "io_env \<Rightarrow> path \<Rightarrow> str \<Rightarrow> 32 word option \<Rightarrow> file_system \<Rightarrow> (error, unit) res \<times> file_system" where
  "write_atomic io path contents mode fs =
     (let tmp = tmp_path io path in
      case io_fault io CreateDir of Some (e, _) \<Rightarrow> (Inl (io_error_new e), fs) | None \<Rightarrow>
      case io_fault io OpenFile of Some (e, _) \<Rightarrow> (Inl (io_error_new e), fs) | None \<Rightarrow>
      let node = open_node io mode (fs tmp) in
      case io_fault io WriteAll of
        Some (e, n) \<Rightarrow> (Inl (io_error_new e), fs(tmp \<mapsto> node\<lparr>fn_text := take n contents\<rparr>)) | None \<Rightarrow>
      let node = node\<lparr>fn_text := contents\<rparr>; fs1 = fs(tmp \<mapsto> node) in
      case io_fault io SyncAll of Some (e, _) \<Rightarrow> (Inl (io_error_new e), fs1) | None \<Rightarrow>
      case io_fault io Rename of Some (e, _) \<Rightarrow> (Inl (io_error_new e), fs1) | None \<Rightarrow>
      (Inr (), (fs1(tmp := None))(path \<mapsto> node)))"

subsection \<open>Logins and hosts\<close>

record login =
  lg_user :: str
  lg_token :: "str option"
  lg_scopes :: "scope list"
  lg_kind :: "str option"

definition login_new :: "str \<Rightarrow> login" where
  "login_new user = \<lparr>lg_user = user, lg_token = None, lg_scopes = [], lg_kind = None\<rparr>"

record host_entry =
  he_name :: host_key
  he_url :: str
  he_active_login :: "str option"
  he_store :: "credential_store option"
  he_logins :: "login list"

definition scheme_for :: "str \<Rightarrow> host_key \<Rightarrow> str" where
  "scheme_for input key =
     (case split_once (trim input) ''://'' of
        Some (scheme, _) \<Rightarrow>
          if eq_ignore_ascii_case scheme ''http'' then ''http''
          else if eq_ignore_ascii_case scheme ''https'' then ''https''
          else if List.member [''localhost'', ''127.0.0.1'', ''[::1]''] (key_host key) then ''http''
          else ''https''
      | None \<Rightarrow>
          if List.member [''localhost'', ''127.0.0.1'', ''[::1]''] (key_host key) then ''http''
          else ''https'')"

definition from_input :: "str \<Rightarrow> (error, host_entry) res" where
  "from_input input =
     res_map (\<lambda>name. \<lparr>he_name = name, he_url = scheme_for input name @ ''://'' @ key_str name,
                 he_active_login = None, he_store = None, he_logins = []\<rparr>) (host_key_parse input)"

definition api_base :: "host_entry \<Rightarrow> str" where
  "api_base e = trim_end_c (he_url e) CHR ''/'' @ ''/api/v1''"

definition token_settings_url :: "host_entry \<Rightarrow> str" where
  "token_settings_url e = trim_end_c (he_url e) CHR ''/'' @ ''/user/settings/applications''"

definition he_login :: "host_entry \<Rightarrow> str \<Rightarrow> login option" where
  "he_login e user = find_by lg_user user (he_logins e)"

subsection \<open>The file\<close>

record hosts_file =
  hf_active :: "host_key option"
  hf_hosts :: "host_entry list"

definition hosts_file_default :: hosts_file where
  "hosts_file_default = \<lparr>hf_active = None, hf_hosts = []\<rparr>"

record hosts =
  hs_path :: path
  hs_data :: hosts_file
  hs_warnings :: "error_kind list"
  hs_dirty :: bool

text \<open>The fields as the \<open>toml\<close> crate reads and prints them.\<close>

record raw_login =
  rl_user :: str
  rl_token :: "str option"
  rl_scopes :: "str list"
  rl_kind :: "str option"

record raw_host =
  rh_name :: str
  rh_url :: str
  rh_active_login :: "str option"
  rh_store :: "str option"
  rh_logins :: "raw_login list"

record raw_hosts =
  rw_active :: "str option"
  rw_hosts :: "raw_host list"

record toml_lib =
  toml_parse :: "str \<Rightarrow> (str, raw_hosts) res"
  toml_print :: "raw_hosts \<Rightarrow> (str, str) res"
  toml_custom :: "error \<Rightarrow> str"

text \<open>\<open>opt_secret::deserialize\<close> reads an empty token as none.\<close>

definition secret_deserialize :: "str option \<Rightarrow> str option" where
  "secret_deserialize v = (case v of Some s \<Rightarrow> if s = [] then None else Some s | None \<Rightarrow> None)"

definition login_deserialize :: "raw_login \<Rightarrow> login" where
  "login_deserialize r = \<lparr>lg_user = rl_user r, lg_token = secret_deserialize (rl_token r),
     lg_scopes = rl_scopes r, lg_kind = rl_kind r\<rparr>"

definition login_serialize :: "login \<Rightarrow> raw_login" where
  "login_serialize l = \<lparr>rl_user = lg_user l, rl_token = lg_token l, rl_scopes = lg_scopes l, rl_kind = lg_kind l\<rparr>"

definition host_deserialize :: "raw_host \<Rightarrow> (error, host_entry) res" where
  "host_deserialize r =
     res_map (\<lambda>name. \<lparr>he_name = name, he_url = rh_url r, he_active_login = rh_active_login r,
                 he_store = map_option store_deserialize (rh_store r),
                 he_logins = map login_deserialize (rh_logins r)\<rparr>) (host_key_parse (rh_name r))"

definition host_serialize :: "host_entry \<Rightarrow> raw_host" where
  "host_serialize e = \<lparr>rh_name = key_str (he_name e), rh_url = he_url e, rh_active_login = he_active_login e,
     rh_store = map_option store_as_str (he_store e), rh_logins = map login_serialize (he_logins e)\<rparr>"

definition active_deserialize :: "str option \<Rightarrow> (error, host_key option) res" where
  "active_deserialize v = (case v of None \<Rightarrow> Inr None | Some s \<Rightarrow> res_map Some (host_key_parse s))"

definition file_deserialize :: "raw_hosts \<Rightarrow> (error, hosts_file) res" where
  "file_deserialize r =
     res_bind (active_deserialize (rw_active r)) (\<lambda>a.
     res_bind (res_list host_deserialize (rw_hosts r)) (\<lambda>hs.
     Inr \<lparr>hf_active = a, hf_hosts = hs\<rparr>))"

definition file_serialize :: "hosts_file \<Rightarrow> raw_hosts" where
  "file_serialize d = \<lparr>rw_active = map_option key_str (hf_active d), rw_hosts = map host_serialize (hf_hosts d)\<rparr>"

definition toml_from_str :: "toml_lib \<Rightarrow> str \<Rightarrow> (str, hosts_file) res" where
  "toml_from_str lib text =
     (case toml_parse lib text of Inl e \<Rightarrow> Inl e
      | Inr raw \<Rightarrow> (case file_deserialize raw of Inl e \<Rightarrow> Inl (toml_custom lib e) | Inr d \<Rightarrow> Inr d))"

definition permission_warning :: "file_system \<Rightarrow> path \<Rightarrow> error_kind option" where
  "permission_warning fs path =
     (case fs path of None \<Rightarrow> None
      | Some n \<Rightarrow>
          let mode = fn_mode n AND 0xFFF
          in if mode AND 0x3F \<noteq> 0 then Some (CredFilePermissions (path_text path) (unat mode)) else None)"

definition load_at :: "toml_lib \<Rightarrow> io_env \<Rightarrow> file_system \<Rightarrow> path \<Rightarrow> (error, hosts) res" where
  "load_at lib io fs path =
     (case (io_fault io ReadText, fs path) of
        (Some (e, _), _) \<Rightarrow> Inl (io_error_new e)
      | (None, None) \<Rightarrow> Inr \<lparr>hs_path = path, hs_data = hosts_file_default, hs_warnings = [], hs_dirty = False\<rparr>
      | (None, Some node) \<Rightarrow>
          let warnings = (case permission_warning fs path of Some w \<Rightarrow> [w] | None \<Rightarrow> [])
          in case toml_from_str lib (fn_text node) of
               Inl e \<Rightarrow> Inl (error_new (Usage (Fmt ''{} is not valid TOML: {e}'' [path_text path, e])))
             | Inr d \<Rightarrow> Inr \<lparr>hs_path = path, hs_data = d, hs_warnings = warnings, hs_dirty = False\<rparr>)"

definition empty_at :: "path \<Rightarrow> hosts" where
  "empty_at path = \<lparr>hs_path = path, hs_data = hosts_file_default, hs_warnings = [], hs_dirty = False\<rparr>"

definition take_warnings :: "hosts \<Rightarrow> error_kind list \<times> hosts" where
  "take_warnings h = (hs_warnings h, h\<lparr>hs_warnings := []\<rparr>)"

definition save :: "toml_lib \<Rightarrow> io_env \<Rightarrow> file_system \<Rightarrow> hosts \<Rightarrow> (error, unit) res \<times> hosts \<times> file_system" where
  "save lib io fs h =
     (case toml_print lib (file_serialize (hs_data h)) of
        Inl e \<Rightarrow> (Inl (error_new (Usage (Fmt ''cannot serialize hosts: {e}'' [e]))), h, fs)
      | Inr text \<Rightarrow>
          (case write_atomic io (hs_path h) text (Some 0x180) fs of
             (Inl e, fs') \<Rightarrow> (Inl e, h, fs')
           | (Inr _, fs') \<Rightarrow> (Inr (), h\<lparr>hs_dirty := False\<rparr>, fs')))"

definition save_if_dirty :: "toml_lib \<Rightarrow> io_env \<Rightarrow> file_system \<Rightarrow> hosts \<Rightarrow> (error, unit) res \<times> hosts \<times> file_system" where
  "save_if_dirty lib io fs h =
     (if hs_dirty h
      then (case save lib io fs h of
              (Inl e, h', fs') \<Rightarrow> (Inl e, h', fs')
            | (Inr _, h', fs') \<Rightarrow> (Inr (), h'\<lparr>hs_dirty := False\<rparr>, fs'))
      else (Inr (), h, fs))"

subsection \<open>Hosts\<close>

definition host_list :: "hosts \<Rightarrow> host_entry list" where
  "host_list h = hf_hosts (hs_data h)"

definition active :: "hosts \<Rightarrow> host_key option" where
  "active h = hf_active (hs_data h)"

definition with_hosts :: "hosts \<Rightarrow> host_entry list \<Rightarrow> hosts" where
  "with_hosts h es = h\<lparr>hs_data := (hs_data h)\<lparr>hf_hosts := es\<rparr>\<rparr>"

definition with_active :: "hosts \<Rightarrow> host_key option \<Rightarrow> hosts" where
  "with_active h a = h\<lparr>hs_data := (hs_data h)\<lparr>hf_active := a\<rparr>\<rparr>"

definition mark_dirty :: "hosts \<Rightarrow> hosts" where
  "mark_dirty h = h\<lparr>hs_dirty := True\<rparr>"

definition host_keys :: "hosts \<Rightarrow> host_key list" where
  "host_keys h = map he_name (host_list h)"

definition known :: "hosts \<Rightarrow> str list" where
  "known h = map (\<lambda>e. key_str (he_name e)) (host_list h)"

definition host_get :: "hosts \<Rightarrow> host_key \<Rightarrow> host_entry option" where
  "host_get h key = find_by he_name key (host_list h)"

definition host_contains :: "hosts \<Rightarrow> host_key \<Rightarrow> bool" where
  "host_contains h key = (host_get h key \<noteq> None)"

definition unknown_host :: "hosts \<Rightarrow> str \<Rightarrow> error" where
  "unknown_host h given = error_new (UnknownHost given (known h))"

text \<open>\<open>get_mut\<close> with what its caller then does to the entry: the state is dirty either way.\<close>

definition get_mut :: "hosts \<Rightarrow> host_key \<Rightarrow> (host_entry \<Rightarrow> host_entry) \<Rightarrow> hosts" where
  "get_mut h key f = mark_dirty (with_hosts h (update_by he_name key f (host_list h)))"

definition add_host :: "hosts \<Rightarrow> str \<Rightarrow> (error, host_entry option \<times> hosts) res" where
  "add_host h input =
     res_map (\<lambda>entry.
        let name = he_name entry;
            h1 = mark_dirty h;
            h2 = (if list_ex (\<lambda>e. he_name e = name) (host_list h1) then h1
                  else with_hosts h1 (insert_by he_name entry (host_list h1)));
            h3 = (if active h2 = None then with_active h2 (Some name) else h2)
        in (host_get h3 name, h3)) (from_input input)"

definition remove_host :: "hosts \<Rightarrow> host_key \<Rightarrow> bool \<times> hosts" where
  "remove_host h key =
     (let kept = remove_by he_name key (host_list h);
          removed = (length kept \<noteq> length (host_list h));
          h1 = with_hosts h kept
      in if removed
         then (let h2 = mark_dirty h1
               in (True, if active h2 = Some key
                         then with_active h2 (case kept of [] \<Rightarrow> None | e # _ \<Rightarrow> Some (he_name e)) else h2))
         else (False, h1))"

definition set_active :: "hosts \<Rightarrow> host_key \<Rightarrow> (error, hosts) res" where
  "set_active h key =
     (if \<not> host_contains h key then Inl (unknown_host h (key_str key))
      else Inr (mark_dirty (with_active h (Some key))))"

definition set_cached_store :: "hosts \<Rightarrow> host_key \<Rightarrow> credential_store \<Rightarrow> hosts" where
  "set_cached_store h key store =
     (case host_get h key of None \<Rightarrow> h
      | Some e \<Rightarrow>
          if he_store e \<noteq> Some store
          then mark_dirty (with_hosts h (update_by he_name key (\<lambda>e. e\<lparr>he_store := Some store\<rparr>) (host_list h)))
          else h)"

definition cached_store :: "hosts \<Rightarrow> host_key \<Rightarrow> credential_store option" where
  "cached_store h key = (case host_get h key of None \<Rightarrow> None | Some e \<Rightarrow> he_store e)"

subsection \<open>Logins\<close>

text \<open>What \<open>add_login\<close> does to the entry of its host, and the three other changes of an entry.\<close>

definition merge_login :: "str option \<Rightarrow> scope list \<Rightarrow> str option \<Rightarrow> login \<Rightarrow> login" where
  "merge_login token scopes kind l =
     l\<lparr>lg_token := (if token \<noteq> None then token else lg_token l),
       lg_scopes := (if scopes \<noteq> [] then scopes else lg_scopes l),
       lg_kind := (if kind \<noteq> None then kind else lg_kind l)\<rparr>"

definition entry_add_login :: "str \<Rightarrow> str option \<Rightarrow> scope list \<Rightarrow> str option \<Rightarrow> host_entry \<Rightarrow> host_entry" where
  "entry_add_login user token scopes kind e =
     (let logins = (case he_login e user of
            Some _ \<Rightarrow> update_by lg_user user (merge_login token scopes kind) (he_logins e)
          | None \<Rightarrow> insert_by lg_user
              \<lparr>lg_user = user, lg_token = token, lg_scopes = scopes, lg_kind = kind\<rparr> (he_logins e))
      in e\<lparr>he_logins := logins,
           he_active_login := (if he_active_login e = None then Some user else he_active_login e)\<rparr>)"

definition entry_remove_login :: "str \<Rightarrow> host_entry \<Rightarrow> host_entry" where
  "entry_remove_login user e =
     (let kept = remove_by lg_user user (he_logins e)
      in if length kept \<noteq> length (he_logins e) \<and> he_active_login e = Some user
         then e\<lparr>he_logins := kept,
                he_active_login := (case kept of [] \<Rightarrow> None | l # _ \<Rightarrow> Some (lg_user l))\<rparr>
         else e\<lparr>he_logins := kept\<rparr>)"

definition entry_clear_token :: "str \<Rightarrow> host_entry \<Rightarrow> host_entry" where
  "entry_clear_token user e = e\<lparr>he_logins := update_by lg_user user (\<lambda>l. l\<lparr>lg_token := None\<rparr>) (he_logins e)\<rparr>"

definition add_login :: "hosts \<Rightarrow> host_key \<Rightarrow> str \<Rightarrow> str option \<Rightarrow> scope list \<Rightarrow> str option \<Rightarrow> (error, hosts) res" where
  "add_login h key user token scopes kind =
     (case host_get h key of
        None \<Rightarrow> Inl (unknown_host h (key_str key))
      | Some _ \<Rightarrow> Inr (mark_dirty (with_hosts h
          (update_by he_name key (entry_add_login user token scopes kind) (host_list h)))))"

definition remove_login :: "hosts \<Rightarrow> host_key \<Rightarrow> str \<Rightarrow> (error, bool \<times> hosts) res" where
  "remove_login h key user =
     (case host_get h key of
        None \<Rightarrow> Inl (unknown_host h (key_str key))
      | Some e \<Rightarrow>
          let removed = (length (remove_by lg_user user (he_logins e)) \<noteq> length (he_logins e));
              h1 = with_hosts h (update_by he_name key (entry_remove_login user) (host_list h))
          in Inr (removed, if removed then mark_dirty h1 else h1))"

definition select_login :: "hosts \<Rightarrow> host_key \<Rightarrow> str \<Rightarrow> (error, hosts) res" where
  "select_login h key user =
     (case host_get h key of
        None \<Rightarrow> Inl (unknown_host h (key_str key))
      | Some e \<Rightarrow>
          if he_login e user = None
          then Inl (error_new (Usage (Fmt ''no login {user:?} on {key}; configured logins: {}''
                 [user, key_str key,
                  if he_logins e = [] then ''(none)'' else join '', '' (map lg_user (he_logins e))])))
          else Inr (mark_dirty (with_hosts h
                 (update_by he_name key (\<lambda>e. e\<lparr>he_active_login := Some user\<rparr>) (host_list h)))))"

definition resolve_login :: "hosts \<Rightarrow> host_key \<Rightarrow> str option \<Rightarrow> (error, str) res" where
  "resolve_login h key requested =
     (case host_get h key of
        None \<Rightarrow> Inl (unknown_host h (key_str key))
      | Some e \<Rightarrow>
          (case requested of
             Some u \<Rightarrow>
               (case he_login e u of
                  Some l \<Rightarrow> Inr (lg_user l)
                | None \<Rightarrow> Inl (error_new (Usage (Fmt
                    (''no login {u:?} on {key}; run '' @ [CHR 0x60] @ ''fjo auth login --host {key}'' @ [CHR 0x60])
                    [u, key_str key]))))
           | None \<Rightarrow>
               (case he_active_login e of
                  Some a \<Rightarrow> if he_login e a \<noteq> None then Inr a
                           else (case he_logins e of [only] \<Rightarrow> Inr (lg_user only)
                                 | _ \<Rightarrow> Inl (error_new (NotAuthenticated (key_str key))))
                | None \<Rightarrow> (case he_logins e of [only] \<Rightarrow> Inr (lg_user only)
                          | _ \<Rightarrow> Inl (error_new (NotAuthenticated (key_str key)))))))"

subsection \<open>Resolving the host\<close>

definition given_host :: "str option \<Rightarrow> env \<Rightarrow> str option" where
  "given_host flag env =
     (case flag of Some f \<Rightarrow> Some f
      | None \<Rightarrow> (case env_get env ''FJO_HOST'' of Some v \<Rightarrow> Some v
                | None \<Rightarrow> env_get env ''FORGEJO_HOST''))"

definition resolve_host :: "hosts \<Rightarrow> str option \<Rightarrow> env \<Rightarrow> (error, host_key) res" where
  "resolve_host h flag env =
     (case given_host flag env of
        Some given \<Rightarrow>
          res_bind (host_key_parse given) (\<lambda>key.
            if host_contains h key then Inr key else Inl (unknown_host h given))
      | None \<Rightarrow>
          (case active h of
             Some a \<Rightarrow> if host_contains h a then Inr a
                      else (case host_list h of [only] \<Rightarrow> Inr (he_name only)
                            | _ \<Rightarrow> Inl (error_new NoHostConfigured))
           | None \<Rightarrow> (case host_list h of [only] \<Rightarrow> Inr (he_name only)
                     | _ \<Rightarrow> Inl (error_new NoHostConfigured))))"

definition adopt_env_host :: "hosts \<Rightarrow> str option \<Rightarrow> env \<Rightarrow> (error, host_key option \<times> hosts) res" where
  "adopt_env_host h flag env =
     (case given_host flag env of
        None \<Rightarrow> Inr (None, h)
      | Some given \<Rightarrow>
          res_bind (host_key_parse given) (\<lambda>key.
            if host_contains h key then Inr (None, h)
            else if \<not> list_ex (\<lambda>v. case env_get env v of Some t \<Rightarrow> t \<noteq> [] | None \<Rightarrow> False) TOKEN_VARS
            then Inr (None, h)
            else res_map (\<lambda>entry.
                   (Some key, with_hosts h (host_list h @
                      [entry\<lparr>he_active_login := None, he_store := Some StoreEnv\<rparr>]))) (from_input given)))"

definition match_prefix :: "hosts \<Rightarrow> str \<Rightarrow> str \<Rightarrow> (host_entry \<times> str) option" where
  "match_prefix h authority path =
     (let authority = to_ascii_lowercase authority;
          segments = split_segments path;
          candidates = map he_name (filter (\<lambda>e. key_authority (he_name e) = authority) (host_list h))
      in case longest_subpath_prefix candidates segments of
           None \<Rightarrow> None
         | Some (key, skip) \<Rightarrow>
             (case host_get h key of None \<Rightarrow> None
              | Some e \<Rightarrow> Some (e, join ''/'' (drop skip segments))))"

subsection \<open>The contracts of the two lists\<close>

interpretation hl: keyed_list he_name "find_by he_name" "insert_by he_name" "remove_by he_name" "update_by he_name"
  by (rule keyed_list_by)

interpretation ll: keyed_list lg_user "find_by lg_user" "insert_by lg_user" "remove_by lg_user" "update_by lg_user"
  by (rule keyed_list_by)

subsection \<open>The state machine\<close>

text \<open>Every operation of \<open>Hosts\<close> that changes it, as one step.\<close>

inductive hosts_step :: "hosts \<Rightarrow> hosts \<Rightarrow> bool" where
  step_add_host: "add_host h input = Inr (e, h') \<Longrightarrow> hosts_step h h'"
| step_remove_host: "remove_host h key = (b, h') \<Longrightarrow> hosts_step h h'"
| step_set_active: "set_active h key = Inr h' \<Longrightarrow> hosts_step h h'"
| step_set_cached_store: "set_cached_store h key store = h' \<Longrightarrow> hosts_step h h'"
| step_add_login: "add_login h key user token scopes kind = Inr h' \<Longrightarrow> hosts_step h h'"
| step_remove_login: "remove_login h key user = Inr (b, h') \<Longrightarrow> hosts_step h h'"
| step_select_login: "select_login h key user = Inr h' \<Longrightarrow> hosts_step h h'"
| step_clear_token: "get_mut h key (entry_clear_token user) = h' \<Longrightarrow> hosts_step h h'"
| step_adopt: "adopt_env_host h flag env = Inr (k, h') \<Longrightarrow> hosts_step h h'"
| step_take_warnings: "take_warnings h = (w, h') \<Longrightarrow> hosts_step h h'"
| step_save: "save_if_dirty lib io fs h = (r, h', fs') \<Longrightarrow> hosts_step h h'"

inductive hosts_reachable :: "hosts \<Rightarrow> bool" where
  reach_empty: "hosts_reachable (empty_at path)"
| reach_step: "hosts_reachable h \<Longrightarrow> hosts_step h h' \<Longrightarrow> hosts_reachable h'"

definition entry_ok :: "host_entry \<Rightarrow> bool" where
  "entry_ok e \<longleftrightarrow> distinct (map lg_user (he_logins e))
     \<and> (\<forall>u. he_active_login e = Some u \<longrightarrow> u \<in> lg_user ` set (he_logins e))
     \<and> (he_logins e \<noteq> [] \<longrightarrow> he_active_login e \<noteq> None)"

definition data_ok :: "hosts_file \<Rightarrow> bool" where
  "data_ok d \<longleftrightarrow> distinct (map he_name (hf_hosts d))
     \<and> (\<forall>e\<in>set (hf_hosts d). entry_ok e)
     \<and> (\<forall>a. hf_active d = Some a \<longrightarrow> a \<in> he_name ` set (hf_hosts d))"

definition hosts_ok :: "hosts \<Rightarrow> bool" where
  "hosts_ok h \<longleftrightarrow> data_ok (hs_data h)"

named_theorems hosts_defs "projections of a changed state"

lemma hosts_proj [hosts_defs]:
  "host_list (with_hosts h es) = es" "active (with_hosts h es) = active h"
  "host_list (with_active h a) = host_list h" "active (with_active h a) = a"
  "host_list (mark_dirty h) = host_list h" "active (mark_dirty h) = active h"
  by (simp_all add: host_list_def with_hosts_def active_def with_active_def mark_dirty_def)

lemma hosts_ok_alt:
  "hosts_ok h \<longleftrightarrow> distinct (map he_name (host_list h)) \<and> (\<forall>e\<in>set (host_list h). entry_ok e)
     \<and> (\<forall>a. active h = Some a \<longrightarrow> a \<in> he_name ` set (host_list h))"
  by (simp add: hosts_ok_def data_ok_def host_list_def active_def)

text \<open>The changes of one entry keep it well formed and keep its name.\<close>

lemma merge_login_user [simp]: "lg_user (merge_login t sc kd l) = lg_user l"
  by (simp add: merge_login_def)

lemma entry_add_login_name [simp]: "he_name (entry_add_login u t sc kd e) = he_name e"
  by (simp add: entry_add_login_def Let_def)

lemma entry_remove_login_name [simp]: "he_name (entry_remove_login u e) = he_name e"
  by (simp add: entry_remove_login_def Let_def)

lemma entry_clear_token_name [simp]: "he_name (entry_clear_token u e) = he_name e"
  by (simp add: entry_clear_token_def)

lemma entry_add_login_users:
  "lg_user ` set (he_logins (entry_add_login u t sc kd e)) = insert u (lg_user ` set (he_logins e))"
proof (cases "find_by lg_user u (he_logins e)")
  case None
  then show ?thesis by (simp add: entry_add_login_def he_login_def ll.insrt_set)
next
  case (Some l)
  have "map lg_user (update_by lg_user u (merge_login t sc kd) (he_logins e)) = map lg_user (he_logins e)"
    using ll.updat_keys [of "merge_login t sc kd" u "he_logins e"] Some by simp
  then have "lg_user ` set (update_by lg_user u (merge_login t sc kd) (he_logins e)) = lg_user ` set (he_logins e)"
    by (metis set_map)
  moreover have "u \<in> lg_user ` set (he_logins e)" using ll.lookup_Some [OF Some] by auto
  ultimately show ?thesis using Some by (auto simp: entry_add_login_def he_login_def)
qed

lemma entry_add_login_distinct:
  assumes "distinct (map lg_user (he_logins e))"
  shows "distinct (map lg_user (he_logins (entry_add_login u t sc kd e)))"
proof (cases "find_by lg_user u (he_logins e)")
  case None
  let ?l = "\<lparr>lg_user = u, lg_token = t, lg_scopes = sc, lg_kind = kd\<rparr>"
  have "distinct (map lg_user (insert_by lg_user ?l (he_logins e)))"
    using None by (intro ll.insrt_distinct [OF assms]) (simp add: ll.lookup_None)
  then show ?thesis using None by (simp add: entry_add_login_def he_login_def)
next
  case (Some l)
  then have "map lg_user (update_by lg_user u (merge_login t sc kd) (he_logins e)) = map lg_user (he_logins e)"
    using ll.updat_keys [of "merge_login t sc kd" u "he_logins e"] by simp
  then show ?thesis using Some assms by (simp add: entry_add_login_def he_login_def)
qed

lemma entry_add_login_ok: "entry_ok e \<Longrightarrow> entry_ok (entry_add_login u t sc kd e)"
  unfolding entry_ok_def entry_add_login_users
  by (auto simp: entry_add_login_distinct) (auto simp: entry_add_login_def Let_def)

lemma entry_remove_login_ok: "entry_ok e \<Longrightarrow> entry_ok (entry_remove_login u e)"
proof -
  assume ok: "entry_ok e"
  let ?kept = "remove_by lg_user u (he_logins e)"
  have d: "distinct (map lg_user ?kept)" using ok by (auto simp: entry_ok_def intro: ll.remov_distinct)
  have len: "length ?kept \<noteq> length (he_logins e) \<longleftrightarrow> u \<in> lg_user ` set (he_logins e)" by (rule ll.remov_length)
  have s: "set ?kept = {x \<in> set (he_logins e). lg_user x \<noteq> u}" by (rule ll.remov_set)
  show ?thesis
  proof (cases "length ?kept \<noteq> length (he_logins e) \<and> he_active_login e = Some u")
    case True
    then have "entry_remove_login u e = e\<lparr>he_logins := ?kept,
        he_active_login := (case ?kept of [] \<Rightarrow> None | l # _ \<Rightarrow> Some (lg_user l))\<rparr>"
      by (simp add: entry_remove_login_def Let_def)
    then show ?thesis using d by (cases ?kept) (simp_all add: entry_ok_def)
  next
    case False
    then have e: "entry_remove_login u e = e\<lparr>he_logins := ?kept\<rparr>"
      by (auto simp add: entry_remove_login_def Let_def)
    have "v \<in> lg_user ` set ?kept" if "he_active_login e = Some v" for v
    proof -
      have "v \<in> lg_user ` set (he_logins e)" using ok that by (simp add: entry_ok_def)
      moreover have "v \<noteq> u" using calculation False len that by blast
      ultimately show ?thesis unfolding s by auto
    qed
    moreover have "he_active_login e \<noteq> None" if "?kept \<noteq> []"
      using that ok by (auto simp: entry_ok_def remove_by_def)
    ultimately show ?thesis using d unfolding e by (simp add: entry_ok_def)
  qed
qed

lemma entry_clear_token_ok: "entry_ok e \<Longrightarrow> entry_ok (entry_clear_token u e)"
proof -
  assume ok: "entry_ok e"
  show ?thesis
  proof (cases "find_by lg_user u (he_logins e)")
    case None
    then have "update_by lg_user u f (he_logins e) = he_logins e" for f by (rule update_by_None)
    then show ?thesis using ok by (simp add: entry_clear_token_def)
  next
    case (Some l)
    then have m: "map lg_user (update_by lg_user u (\<lambda>l. l\<lparr>lg_token := None\<rparr>) (he_logins e)) = map lg_user (he_logins e)"
      using ll.updat_keys [of "\<lambda>l. l\<lparr>lg_token := None\<rparr>" u "he_logins e"] by simp
    then have "lg_user ` set (update_by lg_user u (\<lambda>l. l\<lparr>lg_token := None\<rparr>) (he_logins e)) = lg_user ` set (he_logins e)"
      by (metis set_map)
    then show ?thesis using ok m by (auto simp: entry_ok_def entry_clear_token_def)
  qed
qed

text \<open>The state keeps its shape.\<close>

lemma hosts_ok_mark_dirty [simp]: "hosts_ok (mark_dirty h) \<longleftrightarrow> hosts_ok h"
  by (simp add: hosts_ok_def mark_dirty_def)

lemma hosts_ok_update:
  assumes ok: "hosts_ok h" and f: "\<And>e. host_get h k = Some e \<Longrightarrow> entry_ok (f e)"
    and name: "\<And>e. he_name (f e) = he_name e"
  shows "hosts_ok (with_hosts h (update_by he_name k f (host_list h)))"
proof (cases "find_by he_name k (host_list h)")
  case None
  then show ?thesis using ok by (simp add: update_by_None hosts_ok_alt hosts_defs)
next
  case (Some e)
  have m: "map he_name (update_by he_name k f (host_list h)) = map he_name (host_list h)"
    using hl.updat_keys [of f k "host_list h"] name Some by simp
  then have s: "he_name ` set (update_by he_name k f (host_list h)) = he_name ` set (host_list h)"
    by (metis set_map)
  have "entry_ok (f e)" using f Some by (simp add: host_get_def)
  then have "\<forall>x\<in>set (update_by he_name k f (host_list h)). entry_ok x"
    using hl.updat_set [OF Some, of f] ok by (auto simp: hosts_ok_alt)
  then show ?thesis using ok m s by (simp add: hosts_ok_alt hosts_defs)
qed

lemma host_get_ok: "hosts_ok h \<Longrightarrow> host_get h k = Some e \<Longrightarrow> entry_ok e \<and> he_name e = k \<and> e \<in> set (host_list h)"
  using hl.lookup_Some [of k "host_list h" e] by (auto simp: hosts_ok_alt host_get_def)

lemma host_contains_iff: "host_contains h k \<longleftrightarrow> k \<in> he_name ` set (host_list h)"
  using hl.lookup_None [of k "host_list h"] by (auto simp: host_contains_def host_get_def)

lemma from_input_entry:
  "from_input s = Inr e \<Longrightarrow> host_key_parse s = Inr (he_name e) \<and> entry_ok e \<and> he_logins e = []
    \<and> he_active_login e = None \<and> he_store e = None"
  by (cases "host_key_parse s") (auto simp: from_input_def entry_ok_def)

lemma add_host_Inr:
  assumes "add_host h s = Inr (r, h')"
  obtains e where "from_input s = Inr e"
    "host_list h' = (if he_name e \<in> he_name ` set (host_list h) then host_list h
                     else insert_by he_name e (host_list h))"
    "active h' = (if active h = None then Some (he_name e) else active h)"
    "r = host_get h' (he_name e)" "hs_dirty h'"
proof -
  from assms obtain e where e: "from_input s = Inr e" by (cases "from_input s") (auto simp: add_host_def)
  have lex: "list_ex (\<lambda>x. he_name x = he_name e) (host_list h) \<longleftrightarrow> he_name e \<in> he_name ` set (host_list h)"
    by (auto simp: list_ex_iff image_iff) metis
  let ?h1 = "if he_name e \<in> he_name ` set (host_list h) then mark_dirty h
             else with_hosts (mark_dirty h) (insert_by he_name e (host_list h))"
  let ?h2 = "if active h = None then with_active ?h1 (Some (he_name e)) else ?h1"
  have a1: "active ?h1 = active h" by (simp add: hosts_defs)
  have hr: "h' = ?h2 \<and> r = host_get ?h2 (he_name e)"
    using assms e by (simp add: add_host_def Let_def hosts_defs lex a1 cong: if_cong) (auto simp: hosts_defs)
  then have h': "h' = ?h2" and r: "r = host_get h' (he_name e)" by simp_all
  show thesis
  proof (rule that [OF e _ _ r])
    show "hs_dirty h'" unfolding h' by (simp add: with_active_def with_hosts_def mark_dirty_def)
    show "host_list h' = (if he_name e \<in> he_name ` set (host_list h) then host_list h
                     else insert_by he_name e (host_list h))" unfolding h' by (simp add: hosts_defs)
    show "active h' = (if active h = None then Some (he_name e) else active h)"
      unfolding h' by (simp add: hosts_defs)
  qed
qed

lemma add_host_ok: "hosts_ok h \<Longrightarrow> add_host h s = Inr (r, h') \<Longrightarrow> hosts_ok h' \<and> r \<noteq> None"
proof -
  assume ok: "hosts_ok h" and a: "add_host h s = Inr (r, h')"
  from a obtain e where e: "from_input s = Inr e"
    "host_list h' = (if he_name e \<in> he_name ` set (host_list h) then host_list h
                     else insert_by he_name e (host_list h))"
    "active h' = (if active h = None then Some (he_name e) else active h)"
    "r = host_get h' (he_name e)" by (rule add_host_Inr)
  have s: "set (host_list h') = (if he_name e \<in> he_name ` set (host_list h) then set (host_list h)
      else insert e (set (host_list h)))" by (simp add: e(2) hl.insrt_set)
  have "distinct (map he_name (host_list h'))"
    using ok hl.insrt_distinct [of "host_list h" e] by (simp add: e(2) hosts_ok_alt)
  moreover have "\<forall>x\<in>set (host_list h'). entry_ok x"
    using ok from_input_entry [OF e(1)] by (auto simp: s hosts_ok_alt split: if_splits)
  moreover have "he_name e \<in> he_name ` set (host_list h')" by (simp add: s)
  moreover have "a \<in> he_name ` set (host_list h')" if "active h' = Some a" for a
    using that ok calculation(3) by (auto simp: e(3) s hosts_ok_alt split: if_splits)
  ultimately show ?thesis using host_contains_iff [of h' "he_name e"] e(4)
    by (auto simp: hosts_ok_alt host_contains_def)
qed

lemma remove_host_ok: "hosts_ok h \<Longrightarrow> remove_host h k = (b, h') \<Longrightarrow> hosts_ok h'"
proof -
  assume ok: "hosts_ok h" and r: "remove_host h k = (b, h')"
  let ?kept = "remove_by he_name k (host_list h)"
  have s: "set ?kept = {x \<in> set (host_list h). he_name x \<noteq> k}" by (rule hl.remov_set)
  have len: "length ?kept \<noteq> length (host_list h) \<longleftrightarrow> k \<in> he_name ` set (host_list h)" by (rule hl.remov_length)
  have d: "distinct (map he_name ?kept)" "\<forall>x\<in>set ?kept. entry_ok x"
    using ok s by (auto simp: hosts_ok_alt intro: hl.remov_distinct)
  have other: "a \<in> he_name ` set ?kept" if "active h = Some a" "a \<noteq> k" for a
    using ok that unfolding hosts_ok_alt s by auto
  show ?thesis
  proof (cases "k \<in> he_name ` set (host_list h)")
    case False
    then have "h' = with_hosts h ?kept" using r len by (simp add: remove_host_def Let_def)
    moreover have "a \<noteq> k" if "active h = Some a" for a using ok that False by (auto simp: hosts_ok_alt)
    ultimately show ?thesis using d other by (auto simp: hosts_ok_alt hosts_defs)
  next
    case True
    then have h': "h' = (if active h = Some k
        then with_active (mark_dirty (with_hosts h ?kept)) (case ?kept of [] \<Rightarrow> None | e # _ \<Rightarrow> Some (he_name e))
        else mark_dirty (with_hosts h ?kept))"
      using r len by (simp add: remove_host_def Let_def hosts_defs)
    have l: "host_list h' = ?kept" by (simp add: h' hosts_defs)
    have "a \<in> he_name ` set ?kept" if "active h' = Some a" for a
      using that other by (cases ?kept) (auto simp: h' hosts_defs split: if_splits)
    then show ?thesis using d by (simp add: hosts_ok_alt l)
  qed
qed

lemma adopt_env_host_Inr:
  assumes "adopt_env_host h flag env = Inr (k, h')"
  shows "k = None \<and> h' = h \<or> (\<exists>key e. k = Some key \<and> given_host flag env \<noteq> None \<and> \<not> host_contains h key
    \<and> he_name e = key \<and> entry_ok e \<and> he_store e = Some StoreEnv \<and> h' = with_hosts h (host_list h @ [e]))"
proof (cases "given_host flag env")
  case (Some given)
  show ?thesis
  proof (cases "host_key_parse given")
    case (Inr key)
    then obtain e where e: "from_input given = Inr e" "he_name e = key" by (simp add: from_input_def)
    then have "entry_ok (e\<lparr>he_active_login := None, he_store := Some StoreEnv\<rparr>)"
      using from_input_entry [OF e(1)] by (simp add: entry_ok_def)
    moreover have "he_name (e\<lparr>he_active_login := None, he_store := Some StoreEnv\<rparr>) = key"
      "he_store (e\<lparr>he_active_login := None, he_store := Some StoreEnv\<rparr>) = Some StoreEnv" using e(2) by simp_all
    moreover have "k = None \<and> h' = h \<or> k = Some key \<and> \<not> host_contains h key
        \<and> h' = with_hosts h (host_list h @ [e\<lparr>he_active_login := None, he_store := Some StoreEnv\<rparr>])"
      using assms Some Inr e(1) by (auto simp: adopt_env_host_def split: if_splits)
    ultimately show ?thesis using Some by blast
  qed (use assms Some in \<open>simp add: adopt_env_host_def\<close>)
qed (use assms in \<open>simp add: adopt_env_host_def\<close>)

lemma hosts_step_ok: "hosts_step h h' \<Longrightarrow> hosts_ok h \<Longrightarrow> hosts_ok h'"
proof (induction rule: hosts_step.induct)
  case (step_add_host h input e h')
  then show ?case using add_host_ok by blast
next
  case (step_remove_host h key b h')
  then show ?case by (rule remove_host_ok [rotated])
next
  case (step_set_active h key h')
  then show ?case
    by (auto simp: set_active_def hosts_ok_alt hosts_defs host_contains_iff split: if_splits)
next
  case (step_set_cached_store h key store h')
  have "entry_ok (e\<lparr>he_store := Some store\<rparr>)" if "host_get h key = Some e" for e
    using host_get_ok [OF step_set_cached_store(2) that] by (simp add: entry_ok_def)
  then have "hosts_ok (with_hosts h (update_by he_name key (\<lambda>e. e\<lparr>he_store := Some store\<rparr>) (host_list h)))"
    by (intro hosts_ok_update [OF step_set_cached_store(2)]) auto
  then show ?case using step_set_cached_store by (auto simp: set_cached_store_def split: option.splits)
next
  case (step_add_login h key user token scopes kind h')
  have "hosts_ok (with_hosts h (update_by he_name key (entry_add_login user token scopes kind) (host_list h)))"
    by (rule hosts_ok_update [OF step_add_login(2)])
      (auto dest: host_get_ok [OF step_add_login(2)] intro: entry_add_login_ok)
  then show ?case using step_add_login(1) by (auto simp: add_login_def split: option.splits)
next
  case (step_remove_login h key user b h')
  have "hosts_ok (with_hosts h (update_by he_name key (entry_remove_login user) (host_list h)))"
    by (rule hosts_ok_update [OF step_remove_login(2)])
      (auto dest: host_get_ok [OF step_remove_login(2)] intro: entry_remove_login_ok)
  then show ?case using step_remove_login(1) by (auto simp: remove_login_def Let_def split: option.splits)
next
  case (step_select_login h key user h')
  then obtain e where e: "host_get h key = Some e" "he_login e user \<noteq> None"
    and h': "h' = mark_dirty (with_hosts h (update_by he_name key (\<lambda>e. e\<lparr>he_active_login := Some user\<rparr>) (host_list h)))"
    by (auto simp: select_login_def split: option.splits if_splits)
  have "user \<in> lg_user ` set (he_logins e)" using e(2) ll.lookup_None [of user "he_logins e"] by (simp add: he_login_def)
  then have "entry_ok (e\<lparr>he_active_login := Some user\<rparr>)"
    using host_get_ok [OF step_select_login(2) e(1)] by (simp add: entry_ok_def)
  then have "hosts_ok (with_hosts h (update_by he_name key (\<lambda>e. e\<lparr>he_active_login := Some user\<rparr>) (host_list h)))"
    using e(1) by (intro hosts_ok_update [OF step_select_login(2)]) auto
  then show ?case by (simp add: h')
next
  case (step_clear_token h key user h')
  have "hosts_ok (with_hosts h (update_by he_name key (entry_clear_token user) (host_list h)))"
    by (rule hosts_ok_update [OF step_clear_token(2)])
      (auto dest: host_get_ok [OF step_clear_token(2)] intro: entry_clear_token_ok)
  then show ?case using step_clear_token(1) by (auto simp: get_mut_def)
next
  case (step_adopt h flag env k h')
  then show ?case using adopt_env_host_Inr [OF step_adopt(1)] by (auto simp: hosts_ok_alt hosts_defs host_contains_iff)
next
  case (step_take_warnings h w h')
  then show ?case by (auto simp: take_warnings_def hosts_ok_def)
next
  case (step_save lib io fs h r h' fs')
  then show ?case by (auto simp: save_if_dirty_def save_def hosts_ok_def split: if_splits sum.splits prod.splits)
qed

lemma hosts_reachable_ok: "hosts_reachable h \<Longrightarrow> hosts_ok h"
proof (induction rule: hosts_reachable.induct)
  case (reach_empty path)
  then show ?case by (simp add: hosts_ok_def data_ok_def empty_at_def hosts_file_default_def)
next
  case (reach_step h h')
  then show ?case using hosts_step_ok by blast
qed

subsection \<open>Replacing a file\<close>

lemma tmp_path_other: "tmp_path io p \<noteq> p"
proof
  assume "tmp_path io p = p"
  then have "snd (tmp_path io p) = snd p" by simp
  then have "length (snd (tmp_path io p)) = length (snd p)" by (rule arg_cong)
  then show False by (simp add: tmp_path_def)
qed

lemma write_atomic_cases:
  "write_atomic io path contents mode fs =
    (let tmp = tmp_path io path; node = open_node io mode (fs tmp) in
     if io_fault io CreateDir \<noteq> None then (Inl (io_error_new (fst (the (io_fault io CreateDir)))), fs)
     else if io_fault io OpenFile \<noteq> None then (Inl (io_error_new (fst (the (io_fault io OpenFile)))), fs)
     else if io_fault io WriteAll \<noteq> None then (Inl (io_error_new (fst (the (io_fault io WriteAll)))),
       fs(tmp \<mapsto> node\<lparr>fn_text := take (snd (the (io_fault io WriteAll))) contents\<rparr>))
     else if io_fault io SyncAll \<noteq> None then (Inl (io_error_new (fst (the (io_fault io SyncAll)))),
       fs(tmp \<mapsto> node\<lparr>fn_text := contents\<rparr>))
     else if io_fault io Rename \<noteq> None then (Inl (io_error_new (fst (the (io_fault io Rename)))),
       fs(tmp \<mapsto> node\<lparr>fn_text := contents\<rparr>))
     else (Inr (), (fs(tmp := None))(path \<mapsto> node\<lparr>fn_text := contents\<rparr>)))"
  by (simp add: write_atomic_def Let_def split: option.splits prod.splits)

lemma save_Inr:
  assumes "save lib io fs h = (Inr u, h', fs')"
  obtains tx where "toml_print lib (file_serialize (hs_data h)) = Inr tx"
    "fs' (hs_path h) = Some ((open_node io (Some 0x180) (fs (tmp_path io (hs_path h))))\<lparr>fn_text := tx\<rparr>)"
    "h' = h\<lparr>hs_dirty := False\<rparr>"
proof -
  from assms obtain tx where t: "toml_print lib (file_serialize (hs_data h)) = Inr tx"
    by (cases "toml_print lib (file_serialize (hs_data h))") (auto simp: save_def)
  obtain r f where w: "write_atomic io (hs_path h) tx (Some 0x180) fs = (r, f)" by fastforce
  with assms t have "r = Inr () \<and> h' = h\<lparr>hs_dirty := False\<rparr> \<and> fs' = f"
    by (cases r) (auto simp: save_def)
  moreover have "f (hs_path h) = Some ((open_node io (Some 0x180) (fs (tmp_path io (hs_path h))))\<lparr>fn_text := tx\<rparr>)"
    if "r = Inr ()"
    using w that unfolding write_atomic_cases Let_def by (auto split: if_splits)
  ultimately show thesis using t by (intro that [of tx]) simp_all
qed

subsection \<open>What the file gives back\<close>

text \<open>Data the file can express: keys that parse to themselves, and no empty token.\<close>

definition key_stable :: "host_key \<Rightarrow> bool" where
  "key_stable k \<longleftrightarrow> host_key_parse (key_str k) = Inr k"

definition file_stable :: "hosts_file \<Rightarrow> bool" where
  "file_stable d \<longleftrightarrow> (\<forall>k. hf_active d = Some k \<longrightarrow> key_stable k)
     \<and> (\<forall>e\<in>set (hf_hosts d). key_stable (he_name e) \<and> (\<forall>l\<in>set (he_logins e). lg_token l \<noteq> Some []))"

lemma store_deserialize_str [simp]: "store_deserialize (store_as_str k) = k"
proof -
  have "store_deserialize (store_as_str StoreKeyring) = StoreKeyring" by code_simp
  moreover have "store_deserialize (store_as_str StoreFile) = StoreFile" by code_simp
  moreover have "store_deserialize (store_as_str StoreEnv) = StoreEnv" by code_simp
  ultimately show ?thesis by (cases k) simp_all
qed

lemma login_deserialize_serialize: "lg_token l \<noteq> Some [] \<Longrightarrow> login_deserialize (login_serialize l) = l"
  by (cases l) (auto simp: login_deserialize_def login_serialize_def secret_deserialize_def split: option.splits)

lemma host_deserialize_serialize:
  assumes "key_stable (he_name e)" "\<forall>l\<in>set (he_logins e). lg_token l \<noteq> Some []"
  shows "host_deserialize (host_serialize e) = Inr e"
proof -
  have "map (login_deserialize \<circ> login_serialize) (he_logins e) = he_logins e"
    using assms(2) by (intro map_idI) (simp add: login_deserialize_serialize)
  moreover have "map_option (store_deserialize \<circ> store_as_str) (he_store e) = he_store e"
    by (cases "he_store e") simp_all
  ultimately show ?thesis using assms(1)
    by (cases e) (simp add: host_deserialize_def host_serialize_def key_stable_def option.map_comp)
qed

lemma res_list_map_id: "\<forall>x\<in>set xs. f (g x) = Inr x \<Longrightarrow> res_list f (map g xs) = Inr xs"
  by (induction xs) auto

lemma file_deserialize_serialize: "file_stable d \<Longrightarrow> file_deserialize (file_serialize d) = Inr d"
proof -
  assume d: "file_stable d"
  then have "res_list host_deserialize (map host_serialize (hf_hosts d)) = Inr (hf_hosts d)"
    by (intro res_list_map_id) (auto simp: file_stable_def host_deserialize_serialize)
  moreover have "active_deserialize (map_option key_str (hf_active d)) = Inr (hf_active d)"
    using d by (cases "hf_active d") (simp_all add: active_deserialize_def file_stable_def key_stable_def)
  ultimately show ?thesis by (cases d) (simp add: file_deserialize_def file_serialize_def)
qed

lemma private_mode: "((0x180 AND NOT m) AND 0xFFF) AND 0x3F = (0 :: 32 word)"
proof -
  have "((0x180 AND NOT m) AND 0xFFF) AND 0x3F = NOT m AND (0x180 AND (0xFFF AND 0x3F)) "
    by (simp only: and.assoc and.commute and.left_commute)
  also have "(0x180 AND (0xFFF AND 0x3F)) = (0 :: 32 word)" by simp
  finally show ?thesis by simp
qed

subsection \<open>Properties\<close>

text \<open>C9. In every state the operations can reach, host names and the users of a host are
  distinct, the active host and every active login exist, and so resolving without a flag never
  fails on a host that has logins, nor when an active host is set.\<close>

theorem hosts_invariant:
  assumes "hosts_reachable h"
  shows "hosts_ok h
    \<and> (\<forall>k e. host_get h k = Some e \<and> he_logins e \<noteq> [] \<longrightarrow>
         (\<exists>u. resolve_login h k None = Inr u \<and> u \<in> lg_user ` set (he_logins e)))
    \<and> (\<forall>a. active h = Some a \<longrightarrow> resolve_host h None (\<lambda>_. None) = Inr a)"
proof (intro conjI allI impI)
  show ok: "hosts_ok h" using assms by (rule hosts_reachable_ok)
  show "\<exists>u. resolve_login h k None = Inr u \<and> u \<in> lg_user ` set (he_logins e)"
    if "host_get h k = Some e \<and> he_logins e \<noteq> []" for k e
  proof -
    have e: "host_get h k = Some e" "he_logins e \<noteq> []" using that by simp_all
    then obtain u where u: "he_active_login e = Some u" "u \<in> lg_user ` set (he_logins e)"
      using host_get_ok [OF ok e(1)] by (auto simp: entry_ok_def)
    then have "he_login e u \<noteq> None" using ll.lookup_None [of u "he_logins e"] by (simp add: he_login_def)
    then show ?thesis using u e by (simp add: resolve_login_def)
  qed
  show "resolve_host h None (\<lambda>_. None) = Inr a" if "active h = Some a" for a
  proof -
    have "host_contains h a" using ok that by (simp add: host_contains_iff hosts_ok_alt)
    then show ?thesis using that by (simp add: resolve_host_def given_host_def env_get_def)
  qed
qed

text \<open>A small state, for the witnesses.\<close>

definition sample_key :: host_key where
  "sample_key = HostKey ''h''"

definition sample_entry :: host_entry where
  "sample_entry = \<lparr>he_name = sample_key, he_url = ''https://h'', he_active_login = Some ''bob'',
     he_store = None, he_logins = [login_new ''bob'']\<rparr>"

definition sample_hosts :: hosts where
  "sample_hosts = \<lparr>hs_path = (''/etc'', ''hosts.toml''),
     hs_data = \<lparr>hf_active = Some sample_key, hf_hosts = [sample_entry]\<rparr>, hs_warnings = [], hs_dirty = True\<rparr>"

lemma sample_reachable: "hosts_reachable sample_hosts"
proof -
  let ?h0 = "empty_at (''/etc'', ''hosts.toml'')"
  let ?e1 = "\<lparr>he_name = sample_key, he_url = ''https://h'', he_active_login = None, he_store = None, he_logins = []\<rparr>"
  let ?h1 = "sample_hosts\<lparr>hs_data := \<lparr>hf_active = Some sample_key, hf_hosts = [?e1]\<rparr>\<rparr>"
  have k: "host_key_parse ''h'' = Inr sample_key" by code_simp
  have "scheme_for ''h'' sample_key = ''https''" by code_simp
  then have f: "from_input ''h'' = Inr ?e1" unfolding from_input_def k by (simp add: sample_key_def)
  have "add_host ?h0 ''h'' = Inr (Some ?e1, ?h1)"
    by (simp add: add_host_def f empty_at_def hosts_file_default_def hosts_defs Let_def host_list_def
        active_def with_hosts_def with_active_def mark_dirty_def sample_hosts_def insert_by_def host_get_def find_by_def)
  then have 1: "hosts_reachable ?h1" by (meson reach_empty reach_step step_add_host)
  have "add_login ?h1 sample_key ''bob'' None [] None = Inr sample_hosts"
    by (simp add: add_login_def host_get_def find_by_def host_list_def with_hosts_def mark_dirty_def
        sample_hosts_def sample_entry_def entry_add_login_def he_login_def insert_by_def login_new_def)
  then have "hosts_step ?h1 sample_hosts" by (rule step_add_login)
  with 1 show ?thesis by (rule reach_step)
qed

theorem hosts_invariant_witness: "resolve_login sample_hosts sample_key None = Inr ''bob''"
proof -
  have "\<exists>u. resolve_login sample_hosts sample_key None = Inr u \<and> u \<in> lg_user ` set (he_logins sample_entry)"
  proof -
    have "host_get sample_hosts sample_key = Some sample_entry \<and> he_logins sample_entry \<noteq> []"
      by (simp add: host_get_def find_by_def host_list_def sample_hosts_def sample_entry_def)
    then show ?thesis using hosts_invariant [OF sample_reachable] by blast
  qed
  then show ?thesis by (simp add: sample_entry_def login_new_def)
qed

text \<open>C10. Replacing a file is all or nothing: whatever step fails, the file keeps its old
  contents and mode or has exactly the new ones, the latter exactly when success is reported, and
  no other file but the temporary one is touched.\<close>

theorem write_atomic_all_or_nothing:
  assumes "write_atomic io path contents mode fs = (r, fs')"
  shows "(case r of Inr _ \<Rightarrow> map_option fn_text (fs' path) = Some contents
                    \<and> fs' (tmp_path io path) = None
                    \<and> (\<forall>m. mode = Some m \<and> fs (tmp_path io path) = None \<longrightarrow>
                         map_option fn_mode (fs' path) = Some (m AND NOT (io_umask io)))
          | Inl _ \<Rightarrow> fs' path = fs path)
    \<and> (\<forall>p. p \<noteq> path \<and> p \<noteq> tmp_path io path \<longrightarrow> fs' p = fs p)"
  using assms tmp_path_other [of io path] tmp_path_other [of io path, symmetric]
  unfolding write_atomic_cases Let_def
  by (auto simp: open_node_def split: if_splits)

theorem write_atomic_all_or_nothing_witness:
  "map_option fn_text (snd (write_atomic
       \<lparr>io_pid = 7, io_umask = 0x12, io_fault = (\<lambda>s. if s = WriteAll then Some (OtherIo ''disk full'', 1) else None)\<rparr>
       (''d'', ''f'') ''new'' None [(''d'', ''f'') \<mapsto> \<lparr>fn_text = ''old'', fn_mode = 0x180\<rparr>]) (''d'', ''f''))
   = Some ''old''"
proof -
  let ?io = "\<lparr>io_pid = 7, io_umask = 0x12, io_fault = (\<lambda>s. if s = WriteAll then Some (OtherIo ''disk full'', 1) else None)\<rparr>"
  let ?fs = "[(''d'', ''f'') \<mapsto> \<lparr>fn_text = ''old'', fn_mode = 0x180\<rparr>]"
  obtain r fs' where w: "write_atomic ?io (''d'', ''f'') ''new'' None ?fs = (r, fs')" by fastforce
  then have "\<exists>e. r = Inl e" by (auto simp: write_atomic_def Let_def)
  then show ?thesis using write_atomic_all_or_nothing [OF w] w by auto
qed

text \<open>C29. Saving and loading again gives back the same hosts, with no warning about the
  permissions of the file and nothing left to save.\<close>

theorem save_load_roundtrip:
  assumes "\<And>raw s. toml_print lib raw = Inr s \<Longrightarrow> toml_parse lib s = Inr raw"
    and "save lib io fs h = (Inr u, h', fs')" and "file_stable (hs_data h)"
    and "fs (tmp_path io (hs_path h)) = None" and "io_fault io' ReadText = None"
  shows "load_at lib io' fs' (hs_path h) =
           Inr \<lparr>hs_path = hs_path h, hs_data = hs_data h, hs_warnings = [], hs_dirty = False\<rparr>"
proof -
  from assms(2) obtain s where s: "toml_print lib (file_serialize (hs_data h)) = Inr s"
    "fs' (hs_path h) = Some ((open_node io (Some 0x180) (fs (tmp_path io (hs_path h))))\<lparr>fn_text := s\<rparr>)"
    by (rule save_Inr)
  then have "toml_from_str lib s = Inr (hs_data h)"
    using assms(1) assms(3) by (simp add: toml_from_str_def file_deserialize_serialize)
  moreover have "permission_warning fs' (hs_path h) = None"
    using assms(4) s(2) by (simp add: permission_warning_def open_node_def Let_def private_mode)
  ultimately show ?thesis using assms(5) s(2) by (simp add: load_at_def)
qed

definition sample_lib :: toml_lib where
  "sample_lib = \<lparr>toml_parse = (\<lambda>_. Inr (file_serialize (hs_data sample_hosts))),
     toml_print = (\<lambda>raw. if raw = file_serialize (hs_data sample_hosts) then Inr ''text'' else Inl ''no''),
     toml_custom = (\<lambda>_. [])\<rparr>"

theorem save_load_roundtrip_witness:
  "\<exists>fs'. save sample_lib \<lparr>io_pid = 7, io_umask = 0, io_fault = (\<lambda>_. None)\<rparr> Map.empty sample_hosts
       = (Inr (), sample_hosts\<lparr>hs_dirty := False\<rparr>, fs')
     \<and> load_at sample_lib \<lparr>io_pid = 8, io_umask = 0, io_fault = (\<lambda>_. None)\<rparr> fs' (''/etc'', ''hosts.toml'')
       = Inr (sample_hosts\<lparr>hs_dirty := False\<rparr>)"
proof -
  let ?io = "\<lparr>io_pid = 7, io_umask = 0, io_fault = (\<lambda>_. None)\<rparr>"
  have "\<exists>fs'. save sample_lib ?io Map.empty sample_hosts = (Inr (), sample_hosts\<lparr>hs_dirty := False\<rparr>, fs')"
    by (simp add: save_def sample_lib_def write_atomic_def Let_def)
  then obtain fs' where s: "save sample_lib ?io Map.empty sample_hosts = (Inr (), sample_hosts\<lparr>hs_dirty := False\<rparr>, fs')"
    by blast
  have "host_key_parse ''h'' = Inr sample_key" by code_simp
  then have "file_stable (hs_data sample_hosts)"
    by (simp add: file_stable_def key_stable_def sample_hosts_def sample_entry_def login_new_def sample_key_def)
  then have "load_at sample_lib \<lparr>io_pid = 8, io_umask = 0, io_fault = (\<lambda>_. None)\<rparr> fs' (hs_path sample_hosts) =
      Inr \<lparr>hs_path = hs_path sample_hosts, hs_data = hs_data sample_hosts, hs_warnings = [], hs_dirty = False\<rparr>"
    by (intro save_load_roundtrip [OF _ s]) (auto simp: sample_lib_def split: if_splits)
  then have "load_at sample_lib \<lparr>io_pid = 8, io_umask = 0, io_fault = (\<lambda>_. None)\<rparr> fs' (''/etc'', ''hosts.toml'') =
      Inr (sample_hosts\<lparr>hs_dirty := False\<rparr>)" by (simp add: sample_hosts_def)
  then show ?thesis using s by blast
qed

lemma split_segments_join: "\<forall>s\<in>set segs. s \<noteq> [] \<and> CHR ''/'' \<notin> set s \<Longrightarrow> split_segments (join ''/'' segs) = segs"
proof (cases "segs = []")
  case False
  assume "\<forall>s\<in>set segs. s \<noteq> [] \<and> CHR ''/'' \<notin> set s"
  then show ?thesis using split_c_join [of segs "CHR ''/''"] False
    by (simp add: split_segments_def filter_id_conv)
qed (simp add: split_segments_def)

text \<open>A path under an authority is matched to a host of that authority whose subpath is the
  longest that begins the path, and the rest is the path without that subpath; no match means that
  no host of the authority begins the path.\<close>

theorem match_prefix_longest:
  assumes "hosts_ok h"
  shows "(case match_prefix h authority path of
      Some (e, rest) \<Rightarrow> e \<in> set (host_list h) \<and> key_authority (he_name e) = to_ascii_lowercase authority
        \<and> split_segments path = split_segments (key_subpath (he_name e)) @ split_segments rest
        \<and> (\<forall>e'\<in>set (host_list h). key_authority (he_name e') = to_ascii_lowercase authority
             \<and> covers (he_name e') (split_segments path) \<longrightarrow>
             length (split_segments (key_subpath (he_name e'))) \<le> length (split_segments (key_subpath (he_name e))))
    | None \<Rightarrow> \<forall>e\<in>set (host_list h). key_authority (he_name e) = to_ascii_lowercase authority \<longrightarrow>
        \<not> covers (he_name e) (split_segments path))"
proof -
  let ?c = "map he_name (filter (\<lambda>e. key_authority (he_name e) = to_ascii_lowercase authority) (host_list h))"
  let ?s = "split_segments path"
  show ?thesis
  proof (cases "longest_subpath_prefix ?c ?s")
    case None
    then show ?thesis using longest_subpath_prefix_None [of ?c ?s] by (auto simp: match_prefix_def Let_def)
  next
    case (Some p)
    then obtain k n where kn: "longest_subpath_prefix ?c ?s = Some (k, n)" by (cases p) auto
    note l = longest_subpath_prefix_Some [OF kn]
    then obtain e where e: "e \<in> set (host_list h)" "he_name e = k" "key_authority k = to_ascii_lowercase authority"
      by auto
    then have g: "host_get h k = Some e"
      using assms hl.lookup_in [of "host_list h" e] by (simp add: host_get_def hosts_ok_alt)
    have pre: "?s = split_segments (key_subpath k) @ drop n ?s"
      using l by (auto simp: covers_def prefix_def)
    have "split_segments (join ''/'' (drop n ?s)) = drop n ?s"
      by (rule split_segments_join) (auto dest!: in_set_dropD split_segments_member)
    then have "?s = split_segments (key_subpath (he_name e)) @ split_segments (join ''/'' (drop n ?s))"
      using pre e(2) by simp
    moreover have "match_prefix h authority path = Some (e, join ''/'' (drop n ?s))"
      using kn g by (simp add: match_prefix_def Let_def)
    ultimately show ?thesis using e l by auto
  qed
qed

theorem match_prefix_longest_witness:
  "\<exists>e rest. match_prefix sample_hosts ''H'' ''/o/r.git'' = Some (e, rest) \<and> split_segments rest = [''o'', ''r.git'']"
proof -
  have k: "key_authority sample_key = ''h''" "split_segments (key_subpath sample_key) = []"
    "to_ascii_lowercase ''H'' = ''h''" "split_segments ''/o/r.git'' = [''o'', ''r.git'']" by code_simp+
  have h: "host_list sample_hosts = [sample_entry]" "he_name sample_entry = sample_key"
    by (simp_all add: host_list_def sample_hosts_def sample_entry_def)
  show ?thesis
    using match_prefix_longest [OF hosts_reachable_ok [OF sample_reachable], of "''H''" "''/o/r.git''"] k h
    by (auto simp: covers_def split: option.splits prod.splits)
qed

end
