(* ===== verification/Secrets.thy ===== *)
theory Secrets
  imports Hosts
begin

text \<open>
  Where tokens live: \<open>crates/forgejo-core/src/config/secrets.rs\<close>.  A backend (trait
  \<open>CredStore\<close>) is a record of its three operations on a state \<open>'k\<close> of its own; the file
  backend works on the \<open>Hosts\<close> value the operations are handed.  \<open>Credentials\<close> chooses
  among the keyring, the file and the environment.

  The keyring crate is a parameter: what a call to it came back with, error kind and text.
\<close>

subsection \<open>Tokens and backends\<close>

record token =
  tok_secret :: str
  tok_source :: token_source

definition KEYRING_SERVICE :: str where
  "KEYRING_SERVICE = ''fjo''"

definition account :: "host_key \<Rightarrow> str \<Rightarrow> str" where
  "account host login = login @ ''@'' @ key_str host"

definition entry_label :: "str \<Rightarrow> host_key \<Rightarrow> str \<Rightarrow> str" where
  "entry_label service host login = service @ '':'' @ account host login"

record 'k cred_ops =
  co_get :: "'k \<Rightarrow> host_key \<Rightarrow> str \<Rightarrow> hosts \<Rightarrow> (error, token option) res"
  co_set :: "'k \<Rightarrow> host_key \<Rightarrow> str \<Rightarrow> str \<Rightarrow> hosts \<Rightarrow> (error, token_source) res \<times> 'k \<times> hosts"
  co_delete :: "'k \<Rightarrow> host_key \<Rightarrow> str \<Rightarrow> hosts \<Rightarrow> (error, unit) res \<times> 'k \<times> hosts"

definition keyring_unavailable :: "keyring_cause \<Rightarrow> error" where
  "keyring_unavailable cause = error_new (KeyringUnavailable cause)"

subsection \<open>The system keyring\<close>

text \<open>The error kinds of the keyring crate that the code tells apart.\<close>

datatype keyring_error_kind = NoDefaultStore | NotSupportedByStore | NoStorageAccess | PlatformFailure
  | BadEncoding | NoEntry | OtherKeyringError

type_synonym keyring_error = "keyring_error_kind \<times> str"

definition classify_keyring :: "keyring_error \<Rightarrow> keyring_cause" where
  "classify_keyring e =
     (let says = contains (to_ascii_lowercase (snd e))
      in case fst e of
           NoDefaultStore \<Rightarrow> NoBackend
         | NotSupportedByStore \<Rightarrow> NoBackend
         | NoStorageAccess \<Rightarrow> if says ''denied'' \<or> says ''dismissed'' then Denied else Locked
         | PlatformFailure \<Rightarrow>
             if says ''dbus'' \<and> (says ''not provided by any'' \<or> says ''serviceunknown'') then NoBackend
             else if says ''no such file or directory'' \<and> says ''bus'' then NoBackend
             else if says ''locked'' then Locked
             else if says ''denied'' \<or> says ''dismissed'' \<or> says ''not permitted'' then Denied
             else if says ''timed out'' \<or> says ''timeout'' then KTimeout
             else KOther (snd e)
         | BadEncoding \<Rightarrow> KOther ''the stored token is not valid UTF-8''
         | _ \<Rightarrow> KOther (snd e))"

text \<open>What the worker thread and its channel report within the time allowed.\<close>

datatype 'a worker = SpawnFailed | Answered "(keyring_error, 'a) res" | TimedOut | Disconnected

definition with_timeout :: "'a worker \<Rightarrow> (keyring_cause, 'a) res" where
  "with_timeout w =
     (case w of
        SpawnFailed \<Rightarrow> Inl (KOther ''could not spawn a thread for the keyring'')
      | Answered (Inr v) \<Rightarrow> Inr v
      | Answered (Inl e) \<Rightarrow> Inl (classify_keyring e)
      | TimedOut \<Rightarrow> Inl KTimeout
      | Disconnected \<Rightarrow> Inl (KOther ''the keyring backend panicked''))"

text \<open>
  The crate as a record of calls on a state of its own: service and account, then what the worker
  reports.
\<close>

record 'k keyring_lib =
  kl_get :: "'k \<Rightarrow> str \<Rightarrow> str \<Rightarrow> str worker"
  kl_set :: "'k \<Rightarrow> str \<Rightarrow> str \<Rightarrow> str \<Rightarrow> unit worker \<times> 'k"
  kl_delete :: "'k \<Rightarrow> str \<Rightarrow> str \<Rightarrow> unit worker \<times> 'k"

definition no_entry_as :: "'b \<Rightarrow> ('a \<Rightarrow> 'b) \<Rightarrow> 'a worker \<Rightarrow> 'b worker" where
  "no_entry_as d f w =
     (case w of
        SpawnFailed \<Rightarrow> SpawnFailed
      | Answered (Inr v) \<Rightarrow> Answered (Inr (f v))
      | Answered (Inl e) \<Rightarrow> if fst e = NoEntry then Answered (Inr d) else Answered (Inl e)
      | TimedOut \<Rightarrow> TimedOut
      | Disconnected \<Rightarrow> Disconnected)"

definition keyring_get :: "'k keyring_lib \<Rightarrow> 'k \<Rightarrow> host_key \<Rightarrow> str \<Rightarrow> hosts \<Rightarrow> (error, token option) res" where
  "keyring_get lib k host login hosts =
     (case with_timeout (no_entry_as None Some (kl_get lib k KEYRING_SERVICE (account host login))) of
        Inl cause \<Rightarrow> Inl (keyring_unavailable cause)
      | Inr got \<Rightarrow> Inr (map_option (\<lambda>plain. \<lparr>tok_secret = plain,
          tok_source = Keyring (entry_label KEYRING_SERVICE host login)\<rparr>) got))"

definition keyring_set ::
  "'k keyring_lib \<Rightarrow> 'k \<Rightarrow> host_key \<Rightarrow> str \<Rightarrow> str \<Rightarrow> hosts \<Rightarrow> (error, token_source) res \<times> 'k \<times> hosts" where
  "keyring_set lib k host login tok hosts =
     (let (w, k') = kl_set lib k KEYRING_SERVICE (account host login) tok
      in case with_timeout w of
           Inl cause \<Rightarrow> (Inl (keyring_unavailable cause), k', hosts)
         | Inr _ \<Rightarrow> (Inr (Keyring (entry_label KEYRING_SERVICE host login)), k', hosts))"

definition keyring_delete ::
  "'k keyring_lib \<Rightarrow> 'k \<Rightarrow> host_key \<Rightarrow> str \<Rightarrow> hosts \<Rightarrow> (error, unit) res \<times> 'k \<times> hosts" where
  "keyring_delete lib k host login hosts =
     (let (w, k') = kl_delete lib k KEYRING_SERVICE (account host login)
      in case with_timeout (no_entry_as () id w) of
           Inl cause \<Rightarrow> (Inl (keyring_unavailable cause), k', hosts)
         | Inr _ \<Rightarrow> (Inr (), k', hosts))"

definition keyring_ops :: "'k keyring_lib \<Rightarrow> 'k cred_ops" where
  "keyring_ops lib = \<lparr>co_get = keyring_get lib, co_set = keyring_set lib, co_delete = keyring_delete lib\<rparr>"

subsection \<open>The in-memory keyring\<close>

record fake_keyring =
  fk_entries :: "str \<rightharpoonup> str"
  fk_fail :: "keyring_cause option"

definition fake_new :: fake_keyring where
  "fake_new = \<lparr>fk_entries = Map.empty, fk_fail = None\<rparr>"

definition fake_unavailable :: "keyring_cause \<Rightarrow> fake_keyring" where
  "fake_unavailable cause = \<lparr>fk_entries = Map.empty, fk_fail = Some cause\<rparr>"

definition fake_get :: "fake_keyring \<Rightarrow> host_key \<Rightarrow> str \<Rightarrow> hosts \<Rightarrow> (error, token option) res" where
  "fake_get k host login hosts =
     (case fk_fail k of Some cause \<Rightarrow> Inl (keyring_unavailable cause)
      | None \<Rightarrow> Inr (map_option (\<lambda>v. \<lparr>tok_secret = v,
          tok_source = Keyring (KEYRING_SERVICE @ '':'' @ login @ ''@'' @ key_str host)\<rparr>)
          (fk_entries k (login @ ''@'' @ key_str host))))"

definition fake_set ::
  "fake_keyring \<Rightarrow> host_key \<Rightarrow> str \<Rightarrow> str \<Rightarrow> hosts \<Rightarrow> (error, token_source) res \<times> fake_keyring \<times> hosts" where
  "fake_set k host login tok hosts =
     (case fk_fail k of Some cause \<Rightarrow> (Inl (keyring_unavailable cause), k, hosts)
      | None \<Rightarrow>
          let key = login @ ''@'' @ key_str host
          in (Inr (Keyring (KEYRING_SERVICE @ '':'' @ key)),
              k\<lparr>fk_entries := (fk_entries k)(key \<mapsto> tok)\<rparr>, hosts))"

definition fake_delete ::
  "fake_keyring \<Rightarrow> host_key \<Rightarrow> str \<Rightarrow> hosts \<Rightarrow> (error, unit) res \<times> fake_keyring \<times> hosts" where
  "fake_delete k host login hosts =
     (case fk_fail k of Some cause \<Rightarrow> (Inl (keyring_unavailable cause), k, hosts)
      | None \<Rightarrow> (Inr (), k\<lparr>fk_entries := (fk_entries k)(login @ ''@'' @ key_str host := None)\<rparr>, hosts))"

definition fake_ops :: "fake_keyring cred_ops" where
  "fake_ops = \<lparr>co_get = fake_get, co_set = fake_set, co_delete = fake_delete\<rparr>"

subsection \<open>The file backend\<close>

definition file_get :: "unit \<Rightarrow> host_key \<Rightarrow> str \<Rightarrow> hosts \<Rightarrow> (error, token option) res" where
  "file_get _ host login hosts =
     (case host_get hosts host of None \<Rightarrow> Inr None
      | Some e \<Rightarrow> (case he_login e login of None \<Rightarrow> Inr None
        | Some l \<Rightarrow> (case lg_token l of None \<Rightarrow> Inr None
          | Some secret \<Rightarrow> Inr (Some \<lparr>tok_secret = secret, tok_source = File (path_text (hs_path hosts))\<rparr>))))"

definition file_set :: "unit \<Rightarrow> host_key \<Rightarrow> str \<Rightarrow> str \<Rightarrow> hosts \<Rightarrow> (error, token_source) res \<times> unit \<times> hosts" where
  "file_set _ host login tok hosts =
     (case add_login hosts host login (Some tok) [] None of
        Inl e \<Rightarrow> (Inl e, (), hosts)
      | Inr h \<Rightarrow> (Inr (File (path_text (hs_path h))), (), h))"

definition file_delete :: "unit \<Rightarrow> host_key \<Rightarrow> str \<Rightarrow> hosts \<Rightarrow> (error, unit) res \<times> unit \<times> hosts" where
  "file_delete _ host login hosts = (Inr (), (), get_mut hosts host (entry_clear_token login))"

definition file_ops :: "unit cred_ops" where
  "file_ops = \<lparr>co_get = file_get, co_set = file_set, co_delete = file_delete\<rparr>"

subsection \<open>The environment\<close>

fun env_token :: "env \<Rightarrow> str list \<Rightarrow> token option" where
  "env_token env [] = None"
| "env_token env (var # vars) =
     (case env_get env var of
        Some plain \<Rightarrow> Some \<lparr>tok_secret = plain, tok_source = EnvVar var\<rparr>
      | None \<Rightarrow> env_token env vars)"

definition env_store_get :: "env \<Rightarrow> host_key \<Rightarrow> str \<Rightarrow> hosts \<Rightarrow> (error, token option) res" where
  "env_store_get env host login hosts = Inr (env_token env TOKEN_VARS)"

definition env_store_set :: "env \<Rightarrow> host_key \<Rightarrow> str \<Rightarrow> str \<Rightarrow> hosts \<Rightarrow> (error, token_source) res \<times> env \<times> hosts" where
  "env_store_set env host login tok hosts =
     (Inl (error_new (Usage (Fmt ''cannot save a token into an environment variable; unset {STORE_VAR}=env, or pass --insecure-storage to write it to hosts.toml'' [STORE_VAR]))), env, hosts)"

definition env_store_delete :: "env \<Rightarrow> host_key \<Rightarrow> str \<Rightarrow> hosts \<Rightarrow> (error, unit) res \<times> env \<times> hosts" where
  "env_store_delete env host login hosts = (Inr (), env, hosts)"

definition env_ops :: "env cred_ops" where
  "env_ops = \<lparr>co_get = env_store_get, co_set = env_store_set, co_delete = env_store_delete\<rparr>"

subsection \<open>Choosing a backend\<close>

record 'k credentials =
  cr_env :: env
  cr_keyring :: 'k
  cr_forced :: "credential_store option"
  cr_preference :: credential_store
  cr_insecure :: bool
  cr_warnings :: "error_kind list"

definition credentials_new :: "env \<Rightarrow> 'k \<Rightarrow> 'k credentials" where
  "credentials_new env keyring =
     (let (forced, warnings) =
        (case env_get env STORE_VAR of
           None \<Rightarrow> (None, [])
         | Some v \<Rightarrow> (case store_from_str v of
             Some s \<Rightarrow> (Some s, [])
           | None \<Rightarrow> (None, [Usage (Fmt ''ignoring {STORE_VAR}={v:?}; expected one of: {}''
                               [STORE_VAR, v, join '', '' STORE_VALUES])])))
      in \<lparr>cr_env = env, cr_keyring = keyring, cr_forced = forced, cr_preference = store_default,
          cr_insecure = False, cr_warnings = warnings\<rparr>)"

definition with_preference :: "'k credentials \<Rightarrow> credential_store \<Rightarrow> 'k credentials" where
  "with_preference c pref = c\<lparr>cr_preference := pref\<rparr>"

definition insecure_storage :: "'k credentials \<Rightarrow> bool \<Rightarrow> 'k credentials" where
  "insecure_storage c yes = c\<lparr>cr_insecure := yes\<rparr>"

definition cr_take_warnings :: "'k credentials \<Rightarrow> error_kind list \<times> 'k credentials" where
  "cr_take_warnings c = (cr_warnings c, c\<lparr>cr_warnings := []\<rparr>)"

definition read_order :: "'k credentials \<Rightarrow> hosts \<Rightarrow> host_key \<Rightarrow> credential_store list" where
  "read_order c hosts host =
     (case cr_forced c of Some forced \<Rightarrow> [forced]
      | None \<Rightarrow>
          if cr_insecure c then [StoreFile, StoreEnv]
          else (case (case cached_store hosts host of Some s \<Rightarrow> s | None \<Rightarrow> cr_preference c) of
                  StoreKeyring \<Rightarrow> [StoreKeyring, StoreFile, StoreEnv]
                | StoreFile \<Rightarrow> [StoreFile, StoreEnv]
                | StoreEnv \<Rightarrow> [StoreEnv]))"

definition effective_store :: "'k credentials \<Rightarrow> hosts \<Rightarrow> host_key \<Rightarrow> credential_store" where
  "effective_store c hosts host = (case read_order c hosts host of k # _ \<Rightarrow> k | [] \<Rightarrow> StoreEnv)"

definition get_from ::
  "'k cred_ops \<Rightarrow> 'k credentials \<Rightarrow> credential_store \<Rightarrow> host_key \<Rightarrow> str \<Rightarrow> hosts \<Rightarrow> (error, token option) res" where
  "get_from ops c kind host login hosts =
     (case kind of
        StoreKeyring \<Rightarrow> co_get ops (cr_keyring c) host login hosts
      | StoreFile \<Rightarrow> co_get file_ops () host login hosts
      | StoreEnv \<Rightarrow> co_get env_ops (cr_env c) host login hosts)"

definition set_in ::
  "'k cred_ops \<Rightarrow> 'k credentials \<Rightarrow> credential_store \<Rightarrow> host_key \<Rightarrow> str \<Rightarrow> str \<Rightarrow> hosts \<Rightarrow>
   (error, token_source) res \<times> 'k credentials \<times> hosts" where
  "set_in ops c kind host login tok hosts =
     (case kind of
        StoreKeyring \<Rightarrow>
          (case co_set ops (cr_keyring c) host login tok hosts of (r, k, h) \<Rightarrow> (r, c\<lparr>cr_keyring := k\<rparr>, h))
      | StoreFile \<Rightarrow> (case co_set file_ops () host login tok hosts of (r, _, h) \<Rightarrow> (r, c, h))
      | StoreEnv \<Rightarrow> (case co_set env_ops (cr_env c) host login tok hosts of (r, _, h) \<Rightarrow> (r, c, h)))"

definition delete_in ::
  "'k cred_ops \<Rightarrow> 'k credentials \<Rightarrow> credential_store \<Rightarrow> host_key \<Rightarrow> str \<Rightarrow> hosts \<Rightarrow>
   (error, unit) res \<times> 'k credentials \<times> hosts" where
  "delete_in ops c kind host login hosts =
     (case kind of
        StoreKeyring \<Rightarrow>
          (case co_delete ops (cr_keyring c) host login hosts of (r, k, h) \<Rightarrow> (r, c\<lparr>cr_keyring := k\<rparr>, h))
      | StoreFile \<Rightarrow> (case co_delete file_ops () host login hosts of (r, _, h) \<Rightarrow> (r, c, h))
      | StoreEnv \<Rightarrow> (case co_delete env_ops (cr_env c) host login hosts of (r, _, h) \<Rightarrow> (r, c, h)))"

definition is_keyring_unavailable :: "error \<Rightarrow> bool" where
  "is_keyring_unavailable e = (case err_kind e of KeyringUnavailable _ \<Rightarrow> True | _ \<Rightarrow> False)"

definition cr_warn :: "'k credentials \<Rightarrow> error \<Rightarrow> 'k credentials" where
  "cr_warn c e = c\<lparr>cr_warnings := cr_warnings c @ [err_kind e]\<rparr>"

text \<open>The loop of \<open>token\<close> over the backends; \<open>cache k\<close> is \<open>set_cached_store\<close> when it may be called.\<close>

fun token_loop ::
  "'k cred_ops \<Rightarrow> bool \<Rightarrow> host_key \<Rightarrow> str \<Rightarrow> credential_store list \<Rightarrow> 'k credentials \<Rightarrow> hosts \<Rightarrow>
   (error, token option) res \<times> 'k credentials \<times> hosts" where
  "token_loop ops may_cache host login [] c hosts = (Inr None, c, hosts)"
| "token_loop ops may_cache host login (kind # kinds) c hosts =
     (case get_from ops c kind host login hosts of
        Inr (Some t) \<Rightarrow> (Inr (Some t), c, if may_cache then set_cached_store hosts host kind else hosts)
      | Inr None \<Rightarrow>
          token_loop ops may_cache host login kinds c
            (if may_cache \<and> kind = StoreKeyring then set_cached_store hosts host kind else hosts)
      | Inl e \<Rightarrow>
          if \<not> is_keyring_unavailable e then (Inl e, c, hosts)
          else token_loop ops may_cache host login kinds (cr_warn c e)
                 (if may_cache then set_cached_store hosts host StoreFile else hosts))"

definition cr_token ::
  "'k cred_ops \<Rightarrow> 'k credentials \<Rightarrow> hosts \<Rightarrow> host_key \<Rightarrow> str \<Rightarrow> (error, token option) res \<times> 'k credentials \<times> hosts" where
  "cr_token ops c hosts host login =
     token_loop ops (cr_forced c = None \<and> \<not> cr_insecure c) host login (read_order c hosts host) c hosts"

definition store_target :: "'k credentials \<Rightarrow> credential_store" where
  "store_target c = (case cr_forced c of Some forced \<Rightarrow> forced
     | None \<Rightarrow> if cr_insecure c then StoreFile else cr_preference c)"

text \<open>The system \<open>store\<close> and \<open>forget\<close> save the file in: the toml crate, the faults, the files.\<close>

record system =
  sys_toml :: toml_lib
  sys_io :: io_env
  sys_fs :: file_system

definition sys_save :: "system \<Rightarrow> hosts \<Rightarrow> (error, unit) res \<times> hosts \<times> system" where
  "sys_save sys hosts =
     (case save_if_dirty (sys_toml sys) (sys_io sys) (sys_fs sys) hosts of
        (r, h, fs) \<Rightarrow> (r, h, sys\<lparr>sys_fs := fs\<rparr>))"

text \<open>The second half of \<open>store\<close>: the file (or the refusing environment) backend.\<close>

definition store_fallback ::
  "'k cred_ops \<Rightarrow> system \<Rightarrow> 'k credentials \<Rightarrow> hosts \<Rightarrow> host_key \<Rightarrow> str \<Rightarrow> str \<Rightarrow>
   (error, token_source) res \<times> 'k credentials \<times> hosts \<times> system" where
  "store_fallback ops sys c hosts host login tok =
     (let kind = (if store_target c = StoreEnv then StoreEnv else StoreFile)
      in case set_in ops c kind host login tok hosts of
           (Inl e, c, hosts) \<Rightarrow> (Inl e, c, hosts, sys)
         | (Inr src, c, hosts) \<Rightarrow>
             (case sys_save sys (set_cached_store hosts host kind) of
                (Inl e, hosts, sys) \<Rightarrow> (Inl e, c, hosts, sys)
              | (Inr _, hosts, sys) \<Rightarrow> (Inr src, c, hosts, sys)))"

definition cr_store ::
  "'k cred_ops \<Rightarrow> system \<Rightarrow> 'k credentials \<Rightarrow> hosts \<Rightarrow> host_key \<Rightarrow> str \<Rightarrow> str \<Rightarrow> scope list \<Rightarrow> str option \<Rightarrow>
   (error, token_source) res \<times> 'k credentials \<times> hosts \<times> system" where
  "cr_store ops sys c hosts host login tok scopes kind =
     (case add_login hosts host login None scopes kind of
        Inl e \<Rightarrow> (Inl e, c, hosts, sys)
      | Inr hosts \<Rightarrow>
          if store_target c = StoreKeyring
          then (case set_in ops c StoreKeyring host login tok hosts of
                  (Inr src, c, hosts) \<Rightarrow>
                    (case sys_save sys (set_cached_store hosts host StoreKeyring) of
                       (Inl e, hosts, sys) \<Rightarrow> (Inl e, c, hosts, sys)
                     | (Inr _, hosts, sys) \<Rightarrow> (Inr src, c, hosts, sys))
                | (Inl e, c, hosts) \<Rightarrow>
                    if is_keyring_unavailable e
                    then store_fallback ops sys (cr_warn c e) hosts host login tok
                    else (Inl e, c, hosts, sys))
          else store_fallback ops sys c hosts host login tok)"

fun forget_loop ::
  "'k cred_ops \<Rightarrow> host_key \<Rightarrow> str \<Rightarrow> credential_store list \<Rightarrow> 'k credentials \<Rightarrow> hosts \<Rightarrow>
   (error, unit) res \<times> 'k credentials \<times> hosts" where
  "forget_loop ops host login [] c hosts = (Inr (), c, hosts)"
| "forget_loop ops host login (kind # kinds) c hosts =
     (case delete_in ops c kind host login hosts of
        (Inr _, c, hosts) \<Rightarrow> forget_loop ops host login kinds c hosts
      | (Inl e, c, hosts) \<Rightarrow>
          if is_keyring_unavailable e then forget_loop ops host login kinds (cr_warn c e) hosts
          else (Inl e, c, hosts))"

definition cr_forget ::
  "'k cred_ops \<Rightarrow> system \<Rightarrow> 'k credentials \<Rightarrow> hosts \<Rightarrow> host_key \<Rightarrow> str \<Rightarrow>
   (error, unit) res \<times> 'k credentials \<times> hosts \<times> system" where
  "cr_forget ops sys c hosts host login =
     (case forget_loop ops host login [StoreKeyring, StoreFile, StoreEnv] c hosts of
        (Inl e, c, hosts) \<Rightarrow> (Inl e, c, hosts, sys)
      | (Inr _, c, hosts) \<Rightarrow> (case sys_save sys hosts of (r, hosts, sys) \<Rightarrow> (r, c, hosts, sys)))"

subsection \<open>The contract of a backend\<close>

text \<open>
  What the callers of a writable backend rely on.  \<open>usable\<close> says when it works for a host,
  \<open>plain\<close> which logins it keeps apart.
\<close>

locale cred_store =
  fixes ops :: "'k cred_ops"
    and usable :: "'k \<Rightarrow> hosts \<Rightarrow> host_key \<Rightarrow> bool"
    and plain :: "str \<Rightarrow> bool"
  assumes set_works: "usable k h host \<Longrightarrow>
      \<exists>src k' h'. co_set ops k host login tok h = (Inr src, k', h') \<and> usable k' h' host"
    and get_set: "usable k h host \<Longrightarrow> co_set ops k host login tok h = (Inr src, k', h') \<Longrightarrow>
      co_get ops k' host login h' = Inr (Some \<lparr>tok_secret = tok, tok_source = src\<rparr>)"
    and get_set_other: "usable k h host \<Longrightarrow> co_set ops k host login tok h = (Inr src, k', h') \<Longrightarrow>
      plain login \<Longrightarrow> plain login' \<Longrightarrow> host' \<noteq> host \<or> login' \<noteq> login \<Longrightarrow>
      co_get ops k' host' login' h' = co_get ops k host' login' h"
    and delete_works: "usable k h host \<Longrightarrow> \<exists>k' h'. co_delete ops k host login h = (Inr (), k', h') \<and> usable k' h' host"
    and get_delete: "usable k h host \<Longrightarrow> co_delete ops k host login h = (Inr (), k', h') \<Longrightarrow>
      co_get ops k' host login h' = Inr None"
begin

text \<open>Two accounts do not disturb each other, and deleting is idempotent.\<close>

lemma two_logins:
  assumes "usable k h host" "co_set ops k host l1 t1 h = (Inr s1, k1, h1)" "usable k1 h1 host"
    "co_set ops k1 host l2 t2 h1 = (Inr s2, k2, h2)" "plain l1" "plain l2" "l1 \<noteq> l2"
  shows "co_get ops k2 host l1 h2 = Inr (Some \<lparr>tok_secret = t1, tok_source = s1\<rparr>)
    \<and> co_get ops k2 host l2 h2 = Inr (Some \<lparr>tok_secret = t2, tok_source = s2\<rparr>)"
  using get_set [OF assms(1,2)] get_set [OF assms(3,4)] get_set_other [OF assms(3,4) assms(6,5)] assms(7)
  by simp

lemma set_delete:
  assumes "usable k h host" "co_set ops k host login tok h = (Inr src, k1, h1)"
  shows "\<exists>k2 h2. co_delete ops k1 host login h1 = (Inr (), k2, h2) \<and> co_get ops k2 host login h2 = Inr None"
proof -
  have "usable k1 h1 host" using set_works [OF assms(1), of login tok] assms(2) by auto
  with delete_works [OF this] get_delete [OF this] show ?thesis by blast
qed

end

text \<open>The entry names of the in-memory keyring keep accounts apart when no login has an \<open>@\<close>.\<close>

lemma split_at_first: "(c :: char) \<notin> set a \<Longrightarrow> c \<notin> set b \<Longrightarrow> a @ c # x = b @ c # y \<Longrightarrow> a = b \<and> x = y"
proof -
  assume "c \<notin> set a" "c \<notin> set b" and eq: "a @ c # x = b @ c # y"
  then have "Some (a, x) = split_once_c (b @ c # y) c" unfolding eq [symmetric] by simp
  then show ?thesis using \<open>c \<notin> set b\<close> by simp
qed

lemma account_inject:
  assumes "CHR ''@'' \<notin> set l1" "CHR ''@'' \<notin> set l2"
  shows "l1 @ ''@'' @ key_str h1 = l2 @ ''@'' @ key_str h2 \<longleftrightarrow> l1 = l2 \<and> h1 = h2"
  using split_at_first [OF assms, of "key_str h1" "key_str h2"] by (auto intro: host_key.expand)

interpretation fake_cs: cred_store fake_ops "\<lambda>k _ _. fk_fail k = None" "\<lambda>l. CHR ''@'' \<notin> set l"
proof
  fix k :: fake_keyring and h host login tok src k' h' login' host'
  assume k: "fk_fail k = None"
  show "\<exists>src k' h'. co_set fake_ops k host login tok h = (Inr src, k', h') \<and> fk_fail k' = None"
    using k by (simp add: fake_ops_def fake_set_def Let_def)
  show "\<exists>k' h'. co_delete fake_ops k host login h = (Inr (), k', h') \<and> fk_fail k' = None"
    using k by (simp add: fake_ops_def fake_delete_def)
  show "co_set fake_ops k host login tok h = (Inr src, k', h') \<Longrightarrow>
    co_get fake_ops k' host login h' = Inr (Some \<lparr>tok_secret = tok, tok_source = src\<rparr>)"
    using k by (auto simp: fake_ops_def fake_set_def fake_get_def Let_def)
  show "co_set fake_ops k host login tok h = (Inr src, k', h') \<Longrightarrow> CHR ''@'' \<notin> set login \<Longrightarrow>
    CHR ''@'' \<notin> set login' \<Longrightarrow> host' \<noteq> host \<or> login' \<noteq> login \<Longrightarrow>
    co_get fake_ops k' host' login' h' = co_get fake_ops k host' login' h"
    using k account_inject [of login' login host' host]
    by (auto simp: fake_ops_def fake_set_def fake_get_def Let_def)
  show "co_delete fake_ops k host login h = (Inr (), k', h') \<Longrightarrow> co_get fake_ops k' host login h' = Inr None"
    using k by (auto simp: fake_ops_def fake_delete_def fake_get_def)
qed

text \<open>The file backend, on well-formed hosts.\<close>

lemma host_get_update:
  assumes "hosts_ok h" "host_get h k = Some e" "\<And>e. he_name (f e) = he_name e"
  shows "host_get (mark_dirty (with_hosts h (update_by he_name k f (host_list h)))) j =
     (if j = k then Some (f e) else host_get h j)"
  using hl.lookup_updat(1) [of k "host_list h" e f j] assms host_get_ok [OF assms(1,2)]
  by (simp add: host_get_def hosts_defs hosts_ok_alt)

lemma he_login_add:
  assumes "entry_ok e"
  shows "he_login (entry_add_login u t sc kd e) v =
    (if v = u then Some (case he_login e u of Some l \<Rightarrow> merge_login t sc kd l
        | None \<Rightarrow> \<lparr>lg_user = u, lg_token = t, lg_scopes = sc, lg_kind = kd\<rparr>)
     else he_login e v)"
proof -
  have d: "distinct (map lg_user (he_logins e))" using assms by (simp add: entry_ok_def)
  show ?thesis
  proof (cases "find_by lg_user u (he_logins e)")
    case None
    let ?l = "\<lparr>lg_user = u, lg_token = t, lg_scopes = sc, lg_kind = kd\<rparr>"
    have "find_by lg_user v (insert_by lg_user ?l (he_logins e)) = (if v = u then Some ?l else find_by lg_user v (he_logins e))"
      using ll.lookup_insrt [OF d, of ?l v] None ll.lookup_None [of u "he_logins e"] by simp
    then show ?thesis using None by (simp add: he_login_def entry_add_login_def)
  next
    case (Some l)
    have "lg_user (merge_login t sc kd l) = u" using ll.lookup_Some [OF Some] by simp
    then show ?thesis
      using Some ll.lookup_updat(1) [OF Some _ d, of "merge_login t sc kd" v] by (simp add: he_login_def entry_add_login_def)
  qed
qed

lemma he_login_clear:
  assumes "entry_ok e"
  shows "he_login (entry_clear_token u e) v =
    (if v = u then map_option (\<lambda>l. l\<lparr>lg_token := None\<rparr>) (he_login e u) else he_login e v)"
proof -
  have d: "distinct (map lg_user (he_logins e))" using assms by (simp add: entry_ok_def)
  show ?thesis
  proof (cases "find_by lg_user u (he_logins e)")
    case None
    then show ?thesis by (simp add: he_login_def entry_clear_token_def update_by_None)
  next
    case (Some l)
    have "lg_user (l\<lparr>lg_token := None\<rparr>) = u" using ll.lookup_Some [OF Some] by simp
    then show ?thesis
      using Some ll.lookup_updat(1) [OF Some _ d, of "\<lambda>l. l\<lparr>lg_token := None\<rparr>" v] by (simp add: he_login_def entry_clear_token_def)
  qed
qed

lemma add_login_get:
  assumes "hosts_ok h" "add_login h k u t sc kd = Inr h'"
  shows "hosts_ok h' \<and> hs_path h' = hs_path h \<and> (\<exists>e. host_get h k = Some e \<and> entry_ok e
    \<and> (\<forall>j. host_get h' j = (if j = k then Some (entry_add_login u t sc kd e) else host_get h j)))"
proof -
  from assms(2) obtain e where e: "host_get h k = Some e"
    and h': "h' = mark_dirty (with_hosts h (update_by he_name k (entry_add_login u t sc kd) (host_list h)))"
    by (auto simp: add_login_def split: option.splits)
  have "hosts_ok h'" using hosts_step_ok [OF step_add_login [OF assms(2)] assms(1)] .
  moreover have "hs_path h' = hs_path h" by (simp add: h' mark_dirty_def with_hosts_def)
  moreover have "\<forall>j. host_get h' j = (if j = k then Some (entry_add_login u t sc kd e) else host_get h j)"
    unfolding h' using host_get_update [OF assms(1) e] by simp
  ultimately show ?thesis using e host_get_ok [OF assms(1) e] by blast
qed

text \<open>What a file lookup returns, as a function of the hosts.\<close>

definition file_token :: "hosts \<Rightarrow> host_key \<Rightarrow> str \<Rightarrow> str option" where
  "file_token h k u = (case host_get h k of None \<Rightarrow> None
     | Some e \<Rightarrow> (case he_login e u of None \<Rightarrow> None | Some l \<Rightarrow> lg_token l))"

lemma file_get_token:
  "file_get u h login hosts = Inr (map_option (\<lambda>s. \<lparr>tok_secret = s, tok_source = File (path_text (hs_path hosts))\<rparr>)
     (file_token hosts h login))"
  by (simp add: file_get_def file_token_def split: option.splits)

lemma file_token_add:
  assumes "hosts_ok h" "add_login h k u t sc kd = Inr h'"
  shows "file_token h' j v = (if j = k \<and> v = u \<and> t \<noteq> None then t else file_token h j v)"
proof -
  obtain e where e: "host_get h k = Some e" "entry_ok e"
    "\<And>j. host_get h' j = (if j = k then Some (entry_add_login u t sc kd e) else host_get h j)"
    using add_login_get [OF assms] by blast
  show ?thesis
    by (auto simp: file_token_def e(1,3) he_login_add [OF e(2)] merge_login_def split: option.splits)
qed

lemma file_token_clear:
  assumes "hosts_ok h"
  shows "file_token (get_mut h k (entry_clear_token u)) j v = (if j = k \<and> v = u then None else file_token h j v)"
proof (cases "host_get h k")
  case None
  then have "update_by he_name k (entry_clear_token u) (host_list h) = host_list h"
    by (simp add: host_get_def update_by_None)
  then have "host_get (get_mut h k (entry_clear_token u)) j = host_get h j"
    by (simp add: get_mut_def host_get_def hosts_defs)
  then show ?thesis using None by (auto simp: file_token_def)
next
  case (Some e)
  have "host_get (get_mut h k (entry_clear_token u)) j = (if j = k then Some (entry_clear_token u e) else host_get h j)"
    unfolding get_mut_def by (rule host_get_update [OF assms Some]) simp
  then show ?thesis using Some host_get_ok [OF assms Some]
    by (auto simp: file_token_def he_login_clear split: option.splits)
qed

interpretation file_cs: cred_store file_ops "\<lambda>_ h host. hosts_ok h \<and> host_contains h host" "\<lambda>_. True"
proof
  fix k :: unit and h host login tok src k' h' login' host'
  assume k: "hosts_ok h \<and> host_contains h host"
  then obtain e where e: "host_get h host = Some e" by (auto simp: host_contains_def)
  obtain h1 where a: "add_login h host login (Some tok) [] None = Inr h1" using e by (simp add: add_login_def)
  have h1: "hosts_ok h1" "hs_path h1 = hs_path h" "host_contains h1 host"
    using add_login_get [OF _ a] k by (auto simp: host_contains_def)
  have set: "co_set file_ops k host login tok h = (Inr (File (path_text (hs_path h))), (), h1)"
    using a h1 by (simp add: file_ops_def file_set_def)
  have get: "co_get file_ops = file_get" by (simp add: file_ops_def)
  note ft = file_token_add [OF _ a] file_get_token
  show "\<exists>src k' h'. co_set file_ops k host login tok h = (Inr src, k', h') \<and> hosts_ok h' \<and> host_contains h' host"
    using set h1 by simp
  show "co_get file_ops k' host login h' = Inr (Some \<lparr>tok_secret = tok, tok_source = src\<rparr>)"
    if "co_set file_ops k host login tok h = (Inr src, k', h')"
    using that set k h1 by (simp add: get ft)
  show "co_get file_ops k' host' login' h' = co_get file_ops k host' login' h"
    if "co_set file_ops k host login tok h = (Inr src, k', h')" "host' \<noteq> host \<or> login' \<noteq> login"
    using that set k h1 by (auto simp: get ft)
  have del: "co_delete file_ops k host login h = (Inr (), (), get_mut h host (entry_clear_token login))"
    by (simp add: file_ops_def file_delete_def)
  have "hosts_ok (get_mut h host (entry_clear_token login))"
    using k hosts_step_ok [OF step_clear_token [OF refl]] by blast
  moreover have "host_contains (get_mut h host (entry_clear_token login)) host"
    using host_get_update [of h host e "entry_clear_token login" host] k e
    by (simp add: host_contains_def get_mut_def)
  ultimately show "\<exists>k' h'. co_delete file_ops k host login h = (Inr (), k', h') \<and> hosts_ok h' \<and> host_contains h' host"
    using del by simp
  show "co_get file_ops k' host login h' = Inr None" if "co_delete file_ops k host login h = (Inr (), k', h')"
    using that del k file_token_clear [of h host login host login] by (auto simp: get file_get_token)
qed

subsection \<open>The cached store\<close>

lemma set_cached_get:
  assumes "hosts_ok h" "host_get h k = Some e"
  shows "host_get (set_cached_store h k s) j = (if j = k then Some (e\<lparr>he_store := Some s\<rparr>) else host_get h j)"
proof (cases "he_store e = Some s")
  case True
  then have "e\<lparr>he_store := Some s\<rparr> = e" by (cases e) simp
  then show ?thesis using True assms(2) by (simp add: set_cached_store_def)
next
  case False
  then show ?thesis using host_get_update [OF assms, of "\<lambda>e. e\<lparr>he_store := Some s\<rparr>" j] assms(2)
    by (simp add: set_cached_store_def)
qed

lemma set_cached_ok: "hosts_ok h \<Longrightarrow> hosts_ok (set_cached_store h k s)"
  using hosts_step_ok [OF step_set_cached_store [OF refl]] by blast

lemma set_cached_path [simp]: "hs_path (set_cached_store h k s) = hs_path h"
  by (simp add: set_cached_store_def mark_dirty_def with_hosts_def split: option.splits)

lemma set_cached_token: "hosts_ok h \<Longrightarrow> file_token (set_cached_store h k s) j u = file_token h j u"
proof (cases "host_get h k")
  case (Some e)
  assume "hosts_ok h"
  then show ?thesis using set_cached_get [OF _ Some] Some
    by (auto simp: file_token_def he_login_def split: option.splits)
qed (simp add: set_cached_store_def)

lemma cached_store_set: "hosts_ok h \<Longrightarrow> host_contains h k \<Longrightarrow> cached_store (set_cached_store h k s) k = Some s"
  using set_cached_get [of h k _ s k] by (auto simp: host_contains_def cached_store_def)

lemma host_contains_set_cached [simp]: "hosts_ok h \<Longrightarrow> host_contains (set_cached_store h k s) j = host_contains h j"
  using set_cached_get [of h k _ s j] by (cases "host_get h k") (auto simp: host_contains_def set_cached_store_def)

lemma sys_save_hosts: "sys_save sys h = (r, h', sys') \<Longrightarrow> h' = h \<or> h' = h\<lparr>hs_dirty := False\<rparr>"
  by (auto simp: sys_save_def save_if_dirty_def save_def split: if_splits sum.splits prod.splits)

lemma clean_get [simp]: "host_get (h\<lparr>hs_dirty := b\<rparr>) = host_get h" "hosts_ok (h\<lparr>hs_dirty := b\<rparr>) = hosts_ok h"
  "file_token (h\<lparr>hs_dirty := b\<rparr>) = file_token h" "cached_store (h\<lparr>hs_dirty := b\<rparr>) = cached_store h"
  by (auto simp: host_get_def host_list_def hosts_ok_def file_token_def cached_store_def fun_eq_iff)

lemma sys_save_keeps:
  assumes "sys_save sys h = (r, h', sys')"
  shows "host_get h' = host_get h \<and> hosts_ok h' = hosts_ok h \<and> file_token h' = file_token h
    \<and> cached_store h' = cached_store h \<and> hs_path h' = hs_path h"
  using sys_save_hosts [OF assms] by auto

lemma cr_token_first:
  assumes "read_order c h host = kind # kinds" "get_from ops c kind host login h = Inr (Some t)"
  shows "fst (cr_token ops c h host login) = Inr (Some t)"
  using assms by (simp add: cr_token_def)

subsection \<open>Properties\<close>

text \<open>What a successful \<open>store\<close> leaves behind.\<close>

lemma set_in_file: "set_in ops c StoreFile host login tok h =
    (case add_login h host login (Some tok) [] None of Inl e \<Rightarrow> (Inl e, c, h)
     | Inr h' \<Rightarrow> (Inr (File (path_text (hs_path h'))), c, h'))"
  by (simp add: set_in_def file_ops_def file_set_def split: sum.splits)

lemma store_fallback_file:
  assumes "hosts_ok h" "store_fallback ops sys c h host login tok = (Inr src, c', h', sys')"
  shows "store_target c \<noteq> StoreEnv \<and> c' = c \<and> hosts_ok h' \<and> file_token h' host login = Some tok
    \<and> src = File (path_text (hs_path h')) \<and> cached_store h' host = Some StoreFile"
proof -
  have te: "store_target c \<noteq> StoreEnv"
    using assms(2) by (auto simp: store_fallback_def set_in_def env_ops_def env_store_set_def)
  then obtain h1 where a: "add_login h host login (Some tok) [] None = Inr h1"
    using assms(2) by (cases "add_login h host login (Some tok) [] None") (auto simp: store_fallback_def set_in_file)
  note g = add_login_get [OF assms(1) a]
  then have h1: "hosts_ok h1" "host_contains h1 host" by (auto simp: host_contains_def)
  obtain r h2 s2 where sv: "sys_save sys (set_cached_store h1 host StoreFile) = (r, h2, s2)" by (metis prod_cases3)
  with assms(2) a te have "c' = c \<and> h' = h2 \<and> src = File (path_text (hs_path h1))"
    by (auto simp: store_fallback_def set_in_file split: sum.splits)
  moreover have "file_token h1 host login = Some tok" using file_token_add [OF assms(1) a] by simp
  ultimately show ?thesis
    using te h1 sys_save_keeps [OF sv] set_cached_ok [OF h1(1)] set_cached_token [OF h1(1)]
      cached_store_set [OF h1] by auto
qed

lemma read_order_file:
  assumes "cached_store h host = Some StoreFile" "store_target c \<noteq> StoreEnv" "cr_forced c \<noteq> Some StoreKeyring"
  shows "\<exists>ks. read_order c h host = StoreFile # ks"
  using assms by (cases "cr_forced c"; cases "the (cr_forced c)") (auto simp: read_order_def store_target_def)

lemma store_read_file:
  assumes "hosts_ok h" "store_fallback ops sys c h host login tok = (Inr src, c', h', sys')"
    "cr_forced c \<noteq> Some StoreKeyring"
  shows "fst (cr_token ops c' h' host login) = Inr (Some \<lparr>tok_secret = tok, tok_source = src\<rparr>)"
proof -
  note f = store_fallback_file [OF assms(1,2)]
  from f assms(3) obtain ks where "read_order c' h' host = StoreFile # ks" using read_order_file by blast
  moreover have "get_from ops c' StoreFile host login h' = Inr (Some \<lparr>tok_secret = tok, tok_source = src\<rparr>)"
    using f by (simp add: get_from_def file_ops_def file_get_token)
  ultimately show ?thesis by (rule cr_token_first)
qed

lemma cr_store_found:
  assumes ok: "hosts_ok hosts"
    and store: "cr_store fake_ops sys c hosts host login tok scopes kind = (Inr src, c', hosts', sys')"
    and over: "cr_forced c = Some StoreKeyring \<longrightarrow> fk_fail (cr_keyring c) = None"
  shows "fst (cr_token fake_ops c' hosts' host login) = Inr (Some \<lparr>tok_secret = tok, tok_source = src\<rparr>)"
proof -
  from store obtain h1 where a: "add_login hosts host login None scopes kind = Inr h1"
    by (cases "add_login hosts host login None scopes kind") (auto simp: cr_store_def)
  have h1: "hosts_ok h1" "host_contains h1 host" using add_login_get [OF ok a] by (auto simp: host_contains_def)
  show ?thesis
  proof (cases "store_target c = StoreKeyring")
    case False
    then have "store_fallback fake_ops sys c h1 host login tok = (Inr src, c', hosts', sys')"
      using store a by (simp add: cr_store_def)
    moreover have "cr_forced c \<noteq> Some StoreKeyring" using False by (auto simp: store_target_def)
    ultimately show ?thesis by (rule store_read_file [OF h1(1)])
  next
    case True
    show ?thesis
    proof (cases "fk_fail (cr_keyring c)")
      case (Some cause)
      then have "set_in fake_ops c StoreKeyring host login tok h1 = (Inl (keyring_unavailable cause), c, h1)"
        by (simp add: set_in_def fake_ops_def fake_set_def)
      then have "store_fallback fake_ops sys (cr_warn c (keyring_unavailable cause)) h1 host login tok = (Inr src, c', hosts', sys')"
        using store a True by (simp add: cr_store_def is_keyring_unavailable_def keyring_unavailable_def error_new_def)
      then show ?thesis by (rule store_read_file [OF h1(1)]) (use over Some in \<open>auto simp: cr_warn_def\<close>)
    next
      case None
      obtain k1 s where k1: "co_set fake_ops (cr_keyring c) host login tok h1 = (Inr s, k1, h1)"
        using None by (simp add: fake_ops_def fake_set_def Let_def)
      then have set: "set_in fake_ops c StoreKeyring host login tok h1 = (Inr s, c\<lparr>cr_keyring := k1\<rparr>, h1)"
        by (simp add: set_in_def)
      obtain r h2 s2 where sv: "sys_save sys (set_cached_store h1 host StoreKeyring) = (r, h2, s2)" by (metis prod_cases3)
      have c': "c' = c\<lparr>cr_keyring := k1\<rparr>" "hosts' = h2" "src = s"
        using store a True set sv by (auto simp: cr_store_def split: sum.splits)
      have "cached_store hosts' host = Some StoreKeyring"
        using sys_save_keeps [OF sv] cached_store_set [OF h1] c' by simp
      then have "\<exists>ks. read_order c' hosts' host = StoreKeyring # ks"
        using True c' by (auto simp: read_order_def store_target_def split: option.splits if_splits)
      moreover have "get_from fake_ops c' StoreKeyring host login hosts' = Inr (Some \<lparr>tok_secret = tok, tok_source = src\<rparr>)"
        using fake_cs.get_set [OF None k1] c' by (simp add: get_from_def fake_ops_def fake_get_def)
      ultimately show ?thesis using cr_token_first by blast
    qed
  qed
qed


definition sample_system :: system where
  "sample_system = \<lparr>sys_toml = sample_lib\<lparr>toml_print := (\<lambda>_. Inr ''text'')\<rparr>,
     sys_io = \<lparr>io_pid = 7, io_umask = 0, io_fault = (\<lambda>_. None)\<rparr>, sys_fs = Map.empty\<rparr>"

definition sample_credentials :: "fake_keyring \<Rightarrow> fake_keyring credentials" where
  "sample_credentials k = \<lparr>cr_env = (\<lambda>_. None), cr_keyring = k, cr_forced = None,
     cr_preference = StoreKeyring, cr_insecure = False, cr_warnings = []\<rparr>"

lemmas sample_defs = sample_hosts_def sample_entry_def sample_system_def sample_lib_def sample_credentials_def
  login_new_def


text \<open>A lookup that finds nothing, whatever is cached on the way.\<close>

lemma token_loop_none:
  "hosts_ok h \<Longrightarrow> file_token h host login = None \<Longrightarrow> env_token (cr_env c) TOKEN_VARS = None \<Longrightarrow>
   StoreKeyring \<in> set kinds \<longrightarrow> fk_fail (cr_keyring c) \<noteq> None \<or> fk_entries (cr_keyring c) (login @ ''@'' @ key_str host) = None \<Longrightarrow>
   fst (token_loop fake_ops mc host login kinds c h) = Inr None"
proof (induction kinds arbitrary: c h)
  case (Cons kind kinds)
  have ok: "hosts_ok (set_cached_store h host s)" "file_token (set_cached_store h host s) host login = None" for s
    using Cons.prems(1,2) set_cached_ok set_cached_token by auto
  have get: "get_from fake_ops c kind host login h = Inr None
    \<or> kind = StoreKeyring \<and> (\<exists>cause. get_from fake_ops c kind host login h = Inl (keyring_unavailable cause))"
    using Cons.prems(2-4)
    by (cases kind; cases "fk_fail (cr_keyring c)")
      (auto simp: get_from_def fake_ops_def fake_get_def file_ops_def file_get_token env_ops_def env_store_get_def)
  have "fst (token_loop fake_ops mc host login kinds c h) = Inr None"
    "fst (token_loop fake_ops mc host login kinds c (set_cached_store h host s)) = Inr None"
    "fst (token_loop fake_ops mc host login kinds (cr_warn c e) h) = Inr None"
    "fst (token_loop fake_ops mc host login kinds (cr_warn c e) (set_cached_store h host s)) = Inr None" for s e
    using ok Cons.prems by (auto intro!: Cons.IH simp: cr_warn_def)
  then show ?case using get
    by (auto simp: is_keyring_unavailable_def keyring_unavailable_def error_new_def)
qed simp

lemma cr_forget_gone:
  assumes "hosts_ok hosts" and "cr_forget fake_ops sys c hosts host login = (Inr u, c', hosts', sys')"
    and "fk_fail (cr_keyring c) = None" and "env_token (cr_env c) TOKEN_VARS = None"
  shows "fst (cr_token fake_ops c' hosts' host login) = Inr None"
proof -
  let ?k1 = "(cr_keyring c)\<lparr>fk_entries := (fk_entries (cr_keyring c))(login @ ''@'' @ key_str host := None)\<rparr>"
  let ?h1 = "get_mut hosts host (entry_clear_token login)"
  have loop: "forget_loop fake_ops host login [StoreKeyring, StoreFile, StoreEnv] c hosts
      = (Inr (), c\<lparr>cr_keyring := ?k1\<rparr>, ?h1)"
    using assms(3) by (simp add: delete_in_def fake_ops_def fake_delete_def file_ops_def file_delete_def
        env_ops_def env_store_delete_def)
  obtain r h2 s2 where sv: "sys_save sys ?h1 = (r, h2, s2)" by (metis prod_cases3)
  have c': "c' = c\<lparr>cr_keyring := ?k1\<rparr>" "hosts' = h2"
    using assms(2) loop sv by (auto simp: cr_forget_def simp del: forget_loop.simps split: sum.splits)
  have "hosts_ok ?h1" using assms(1) hosts_step_ok [OF step_clear_token [OF refl]] by blast
  then have "hosts_ok hosts'" "file_token hosts' host login = None"
    using sys_save_keeps [OF sv] file_token_clear [OF assms(1), of host login host login] c' by auto
  then show ?thesis unfolding cr_token_def
    by (rule token_loop_none) (use assms(3,4) c' in auto)
qed



text \<open>A broken keyring is a warning: whatever the keyring library answers, looking up a token
  never fails, adds at most one warning, and with an override or \<open>--insecure-storage\<close> leaves the
  hosts file as it was.\<close>

theorem token_degrades:
  assumes "cr_token (keyring_ops lib) c hosts host login = (r, c', hosts')"
  shows "(\<exists>t. r = Inr t) \<and> (\<exists>ws. cr_warnings c' = cr_warnings c @ ws \<and> length ws \<le> 1)
    \<and> (cr_forced c \<noteq> None \<or> cr_insecure c \<longrightarrow> hosts' = hosts)"
proof -
  have kr: "(\<exists>t. get_from (keyring_ops lib) c0 StoreKeyring host login h = Inr t)
    \<or> (\<exists>cause. get_from (keyring_ops lib) c0 StoreKeyring host login h = Inl (keyring_unavailable cause))" for c0 h
    by (auto simp: get_from_def keyring_ops_def keyring_get_def split: sum.splits)
  have other: "\<exists>t. get_from (keyring_ops lib) c0 k host login h = Inr t" if "k \<noteq> StoreKeyring" for c0 h k
    using that by (cases k) (auto simp: get_from_def file_ops_def file_get_token env_ops_def env_store_get_def)
  have loop: "\<exists>t c1 h1. token_loop (keyring_ops lib) mc host login ks c0 h = (Inr t, c1, h1)
      \<and> cr_warnings c1 = cr_warnings c0 \<and> (\<not> mc \<longrightarrow> h1 = h)" if "StoreKeyring \<notin> set ks" for mc ks c0 h
    using that
  proof (induction ks arbitrary: c0 h)
    case (Cons k ks)
    then obtain t where "get_from (keyring_ops lib) c0 k host login h = Inr t" using other by force
    then show ?case using Cons by (cases t) auto
  qed simp
  have loop1: "\<exists>t c1 h1 ws. token_loop (keyring_ops lib) mc host login (StoreKeyring # ks) c0 h = (Inr t, c1, h1)
      \<and> cr_warnings c1 = cr_warnings c0 @ ws \<and> length ws \<le> 1 \<and> (\<not> mc \<longrightarrow> h1 = h)"
    if "StoreKeyring \<notin> set ks" for mc ks c0 h
    using kr [of c0 h]
  proof
    assume "\<exists>t. get_from (keyring_ops lib) c0 StoreKeyring host login h = Inr t"
    then obtain t where "get_from (keyring_ops lib) c0 StoreKeyring host login h = Inr t" by blast
    then show ?thesis
      using loop [OF that, of mc c0 "if mc then set_cached_store h host StoreKeyring else h"] by (cases t) auto
  next
    assume "\<exists>cause. get_from (keyring_ops lib) c0 StoreKeyring host login h = Inl (keyring_unavailable cause)"
    then obtain cause where e: "get_from (keyring_ops lib) c0 StoreKeyring host login h = Inl (keyring_unavailable cause)" by blast
    then show ?thesis
      using loop [OF that, of mc "cr_warn c0 (keyring_unavailable cause)" "if mc then set_cached_store h host StoreFile else h"]
      by (auto simp: cr_warn_def is_keyring_unavailable_def keyring_unavailable_def error_new_def)
  qed
  have "(\<exists>ks. read_order c hosts host = StoreKeyring # ks \<and> StoreKeyring \<notin> set ks) \<or> StoreKeyring \<notin> set (read_order c hosts host)"
    by (cases "cr_forced c"; cases "the (cr_forced c)")
      (auto simp: read_order_def split: option.splits credential_store.splits)
  then show ?thesis
    using assms loop1 [of _ "cr_forced c = None \<and> \<not> cr_insecure c" c hosts]
      loop [of "read_order c hosts host" "cr_forced c = None \<and> \<not> cr_insecure c" c hosts]
    unfolding cr_token_def by (elim disjE exE) fastforce+
qed

theorem token_degrades_witness:
  "\<exists>r c' hosts'. cr_token (keyring_ops \<lparr>kl_get = (\<lambda>_ _ _. TimedOut), kl_set = (\<lambda>k _ _ _. (TimedOut, k)),
        kl_delete = (\<lambda>k _ _. (TimedOut, k))\<rparr>)
      \<lparr>cr_env = (\<lambda>_. None), cr_keyring = (), cr_forced = Some StoreKeyring, cr_preference = StoreKeyring,
       cr_insecure = False, cr_warnings = []\<rparr> sample_hosts sample_key ''bob'' = (Inr r, c', hosts') \<and> hosts' = sample_hosts"
proof -
  let ?lib = "\<lparr>kl_get = (\<lambda>_ _ _. TimedOut), kl_set = (\<lambda>k _ _ _. (TimedOut, k)), kl_delete = (\<lambda>k _ _. (TimedOut, k))\<rparr>"
  let ?c = "\<lparr>cr_env = (\<lambda>_. None), cr_keyring = (), cr_forced = Some StoreKeyring, cr_preference = StoreKeyring,
       cr_insecure = False, cr_warnings = []\<rparr>"
  obtain r c' hosts' where t: "cr_token (keyring_ops ?lib) ?c sample_hosts sample_key ''bob'' = (r, c', hosts')"
    by (metis prod_cases3)
  from token_degrades [OF t] t show ?thesis by auto
qed

text \<open>The remembered backend belongs to the host, not to the login: with one login's token in
  the keyring and another's in the file, a lookup of the second leaves the first one logged out,
  although its token is still in the keyring and was found before.\<close>

theorem cached_store_hides_login:
  assumes "hosts_ok hosts" "host_contains hosts host"
    and "cr_forced c = None" "\<not> cr_insecure c" "read_order c hosts host = [StoreKeyring, StoreFile, StoreEnv]"
    and "fk_fail (cr_keyring c) = None" "env_token (cr_env c) TOKEN_VARS = None"
    and "fk_entries (cr_keyring c) (u @ ''@'' @ key_str host) = Some tu" "file_token hosts host u = None"
    and "fk_entries (cr_keyring c) (v @ ''@'' @ key_str host) = None" "file_token hosts host v = Some tv"
    and "cr_token fake_ops c hosts host v = (r, c', hosts')"
  shows "map_option tok_secret (the (res_ok (fst (cr_token fake_ops c hosts host u)))) = Some tu
    \<and> map_option tok_secret (the (res_ok r)) = Some tv
    \<and> fst (cr_token fake_ops c' hosts' host u) = Inr None"
proof -
  let ?k = "set_cached_store hosts host StoreKeyring"
  have ok: "hosts_ok ?k" "host_contains ?k host" using assms(1,2) set_cached_ok by simp_all
  have gets: "get_from fake_ops c StoreKeyring host w h = Inr (map_option (\<lambda>t. \<lparr>tok_secret = t,
      tok_source = Keyring (KEYRING_SERVICE @ '':'' @ w @ ''@'' @ key_str host)\<rparr>)
      (fk_entries (cr_keyring c) (w @ ''@'' @ key_str host)))" for w h
    using assms(6) by (simp add: get_from_def fake_ops_def fake_get_def)
  have fl: "get_from fake_ops c StoreFile host w h = file_get () host w h" for w h
    by (simp add: get_from_def file_ops_def)
  have env: "get_from fake_ops c StoreEnv host w h = Inr None" for w h
    using assms(7) by (simp add: get_from_def env_ops_def env_store_get_def)
  have c': "c' = c" "hosts' = set_cached_store ?k host StoreFile"
    "map_option tok_secret (the (res_ok r)) = Some tv"
    using assms(3,4,5,10,11,12) set_cached_token [OF assms(1)]
    by (auto simp: cr_token_def gets fl file_get_token)
  have "cached_store hosts' host = Some StoreFile" unfolding c' by (rule cached_store_set [OF ok])
  then have ro: "read_order c' hosts' host = [StoreFile, StoreEnv]" using assms(3,4) c' by (simp add: read_order_def)
  have "file_token hosts' host u = None"
    using assms(1,9) ok c' by (simp add: set_cached_token)
  then have "fst (cr_token fake_ops c' hosts' host u) = Inr None"
    using ro c'(1) by (simp add: cr_token_def fl env file_get_token)
  moreover have "map_option tok_secret (the (res_ok (fst (cr_token fake_ops c hosts host u)))) = Some tu"
    using assms(5,8) by (simp add: cr_token_def gets)
  ultimately show ?thesis using c' by simp
qed

definition two_accounts :: hosts where
  "two_accounts = (case add_login sample_hosts sample_key ''ci'' (Some ''cit'') [] None of Inr h \<Rightarrow> h | Inl _ \<Rightarrow> sample_hosts)"

theorem cached_store_hides_login_witness:
  "\<exists>r c' hosts'. cr_token fake_ops (sample_credentials \<lparr>fk_entries = [''bob@h'' \<mapsto> ''t''], fk_fail = None\<rparr>)
       two_accounts sample_key ''ci'' = (r, c', hosts')
     \<and> fst (cr_token fake_ops c' hosts' sample_key ''bob'') = Inr None"
proof -
  let ?c = "sample_credentials \<lparr>fk_entries = [''bob@h'' \<mapsto> ''t''], fk_fail = None\<rparr>"
  obtain h where h: "add_login sample_hosts sample_key ''ci'' (Some ''cit'') [] None = Inr h"
    by (simp add: add_login_def host_get_def find_by_def host_list_def sample_hosts_def sample_entry_def)
  then have t: "two_accounts = h" by (simp add: two_accounts_def)
  note g = add_login_get [OF hosts_reachable_ok [OF sample_reachable] h]
  note ft = file_token_add [OF hosts_reachable_ok [OF sample_reachable] h]
  have ok: "hosts_ok two_accounts" "host_contains two_accounts sample_key"
    using g by (auto simp: t host_contains_def)
  have "file_token sample_hosts sample_key ''bob'' = None"
    by (simp add: file_token_def host_get_def find_by_def host_list_def he_login_def sample_defs)
  then have ft': "file_token two_accounts sample_key ''bob'' = None" "file_token two_accounts sample_key ''ci'' = Some ''cit''"
    by (simp_all add: t ft)
  have "host_get two_accounts sample_key = Some (entry_add_login ''ci'' (Some ''cit'') [] None sample_entry)"
    using g by (auto simp: t host_get_def find_by_def host_list_def sample_hosts_def sample_entry_def)
  then have "cached_store two_accounts sample_key = None"
    by (simp add: cached_store_def entry_add_login_def Let_def sample_entry_def)
  then have ro: "read_order ?c two_accounts sample_key = [StoreKeyring, StoreFile, StoreEnv]"
    by (simp add: read_order_def sample_credentials_def)
  obtain r c' hosts' where v: "cr_token fake_ops ?c two_accounts sample_key ''ci'' = (r, c', hosts')" by (metis prod_cases3)
  have "fst (cr_token fake_ops c' hosts' sample_key ''bob'') = Inr None"
    using cached_store_hides_login [OF ok _ _ ro _ _ _ ft'(1) _ ft'(2) v, of "''t''"]
    by (simp add: sample_credentials_def TOKEN_VARS_def env_get_def sample_key_def)
  with v show ?thesis by blast
qed

end
