(* ===== verification/Remote_Url.thy ===== *)
theory Remote_Url
  imports Host_Key Slug
begin

text \<open>
  Git remote URLs: \<open>crates/forgejo-core/src/context/remote_url.rs\<close>.  \<open>parse\<close> takes the URL
  forms apart (scheme and authority, or the scp-like \<open>host:path\<close>) and \<open>resolve\<close> matches the
  host against the configured ones before it splits the path.
\<close>

subsection \<open>The parser\<close>

record remote_url =
  ru_scheme :: "str option"
  ru_host :: str
  ru_port :: "nat option"
  ru_path :: str

definition is_ssh_like :: "remote_url \<Rightarrow> bool" where
  "is_ssh_like u = (case ru_scheme u of None \<Rightarrow> True
     | Some s \<Rightarrow> s = ''ssh'' \<or> s = ''git'' \<or> s = ''git+ssh'')"

definition ru_authority :: "remote_url \<Rightarrow> str" where
  "ru_authority u = (case ru_port u of
      Some p \<Rightarrow> if \<not> is_ssh_like u \<and> p \<noteq> 80 \<and> p \<noteq> 443 then ru_host u @ '':'' @ show_nat p else ru_host u
    | None \<Rightarrow> ru_host u)"

definition ru_matches :: "remote_url \<Rightarrow> host_key \<Rightarrow> bool" where
  "ru_matches u key = (if is_ssh_like u then key_host key = ru_host u else key_authority key = ru_authority u)"

definition strip_userinfo :: "str \<Rightarrow> str" where
  "strip_userinfo authority = (case rsplit_once_c authority CHR ''@'' of None \<Rightarrow> authority | Some (_, rest) \<Rightarrow> rest)"

definition split_host_port :: "str \<Rightarrow> (str \<times> nat option) option" where
  "split_host_port authority =
     (case strip_prefix authority ''['' of
        Some rest \<Rightarrow>
          (case find_c CHR '']'' rest of None \<Rightarrow> None
           | Some e \<Rightarrow>
               let host = take (e + 2) authority; after = drop (e + 1) rest
               in case strip_prefix after '':'' of
                    Some p \<Rightarrow> (case parse_u16 p of None \<Rightarrow> None | Some n \<Rightarrow> Some (host, Some n))
                  | None \<Rightarrow> if after = [] then Some (host, None) else None)
      | None \<Rightarrow>
          (case split_once_c authority CHR '':'' of
             None \<Rightarrow> Some (authority, None)
           | Some (h, p) \<Rightarrow>
               if p = [] then Some (h, None)
               else (case parse_u16 p of None \<Rightarrow> None | Some n \<Rightarrow> Some (h, Some n))))"

definition split_scp :: "str \<Rightarrow> (str \<times> str) option" where
  "split_scp s =
     (case strip_prefix s ''['' of
        Some rest \<Rightarrow>
          (case find_c CHR '']'' rest of None \<Rightarrow> None
           | Some e \<Rightarrow> (case strip_prefix (drop (e + 1) rest) '':'' of None \<Rightarrow> None
               | Some tail \<Rightarrow> Some (take (e + 2) s, tail)))
      | None \<Rightarrow> split_once_c s CHR '':'')"

definition split_leading_port :: "str \<Rightarrow> nat option \<times> str" where
  "split_leading_port tail =
     (case split_once_c tail CHR ''/'' of
        None \<Rightarrow> (None, tail)
      | Some (head, rest) \<Rightarrow>
          if head \<noteq> [] \<and> list_all is_ascii_digit head
          then (case parse_u16 head of Some p \<Rightarrow> (Some p, rest) | None \<Rightarrow> (None, tail))
          else (None, tail))"

definition clean_path :: "str \<Rightarrow> str" where
  "clean_path path =
     (let p = trim_c path CHR ''/''
      in trim_end_c (case strip_suffix p ''.git'' of Some q \<Rightarrow> q | None \<Rightarrow> p) CHR ''/'')"

text \<open>The last step of \<open>parse\<close>: the host is checked, the parts are normalised.\<close>

definition mk_remote :: "str option \<Rightarrow> str \<Rightarrow> nat option \<Rightarrow> str \<Rightarrow> remote_url option" where
  "mk_remote scheme host port path =
     (if host = [] \<or> contains host '' '' then None
      else Some \<lparr>ru_scheme = scheme, ru_host = to_ascii_lowercase host, ru_port = port, ru_path = clean_path path\<rparr>)"

definition remote_parse :: "str \<Rightarrow> remote_url option" where
  "remote_parse input =
     (let t = trim input in
      if t = [] then None
      else if starts_with t ''/'' \<or> starts_with t ''.'' \<or> starts_with t ''~'' then None
      else
        case split_once t ''://'' of
          Some (s, rest) \<Rightarrow>
            let scheme = to_ascii_lowercase s in
            if scheme = ''file'' then None
            else
              let (authority, path) = (case split_once_c rest CHR ''/'' of Some p \<Rightarrow> p | None \<Rightarrow> (rest, []))
              in (case split_host_port (strip_userinfo authority) of None \<Rightarrow> None
                  | Some (host, port) \<Rightarrow> mk_remote (Some scheme) host port path)
        | None \<Rightarrow>
            (case split_scp (strip_userinfo t) of None \<Rightarrow> None
             | Some (host_part, tail) \<Rightarrow>
                 (case split_host_port host_part of None \<Rightarrow> None
                  | Some (_, Some _) \<Rightarrow> None
                  | Some (host, None) \<Rightarrow>
                      let (port, path) = split_leading_port tail in mk_remote None host port path)))"

subsection \<open>Resolution\<close>

datatype resolution =
    Matched host_key repo_slug
  | UnknownRemoteHost str
  | NotARepoPath host_key str
  | Unparseable

definition remote_resolve :: "str \<Rightarrow> host_key list \<Rightarrow> resolution" where
  "remote_resolve input known =
     (case remote_parse input of
        None \<Rightarrow> Unparseable
      | Some url \<Rightarrow>
          let segments = split_segments (ru_path url)
          in case longest_subpath_prefix (filter (ru_matches url) known) segments of
               None \<Rightarrow> UnknownRemoteHost (ru_authority url)
             | Some (host, skip) \<Rightarrow>
                 (case drop skip segments of
                    [ow, nm] \<Rightarrow> Matched host (slug_new ow nm)
                  | rest \<Rightarrow> NotARepoPath host (join ''/'' rest)))"

subsection \<open>Lemmas\<close>

lemma remote_resolve_cases:
  "case remote_resolve input known of
     Matched k slug \<Rightarrow> \<exists>url. remote_parse input = Some url \<and> k \<in> set known \<and> ru_matches url k
       \<and> split_segments (ru_path url) = split_segments (key_subpath k) @ [slug_owner slug, slug_name slug]
       \<and> (\<forall>k'\<in>set known. ru_matches url k' \<and> covers k' (split_segments (ru_path url)) \<longrightarrow>
            length (split_segments (key_subpath k')) \<le> length (split_segments (key_subpath k)))
   | UnknownRemoteHost h \<Rightarrow> \<exists>url. remote_parse input = Some url \<and> h = ru_authority url
       \<and> (\<forall>k\<in>set known. ru_matches url k \<longrightarrow> \<not> covers k (split_segments (ru_path url)))
   | NotARepoPath k path \<Rightarrow> \<exists>url. remote_parse input = Some url \<and> k \<in> set known \<and> ru_matches url k
       \<and> covers k (split_segments (ru_path url))
       \<and> length (split_segments (ru_path url)) \<noteq> length (split_segments (key_subpath k)) + 2
   | Unparseable \<Rightarrow> remote_parse input = None"
proof (cases "remote_parse input")
  case None
  then show ?thesis by (simp add: remote_resolve_def)
next
  case (Some url)
  let ?c = "filter (ru_matches url) known" and ?s = "split_segments (ru_path url)"
  show ?thesis
  proof (cases "longest_subpath_prefix ?c ?s")
    case None
    then show ?thesis using Some longest_subpath_prefix_None [of ?c ?s] by (auto simp: remote_resolve_def Let_def)
  next
    case (Some p)
    then obtain k n where kn: "longest_subpath_prefix ?c ?s = Some (k, n)" by (cases p) auto
    note l = longest_subpath_prefix_Some [OF kn]
    then obtain zs where zs: "?s = split_segments (key_subpath k) @ zs" by (auto simp: covers_def prefix_def)
    then have d: "drop n ?s = zs" using l by simp
    have res: "remote_resolve input known = (case zs of [ow, nm] \<Rightarrow> Matched k (slug_new ow nm)
        | rest \<Rightarrow> NotARepoPath k (join ''/'' rest))"
      using \<open>remote_parse input = Some url\<close> kn d by (simp add: remote_resolve_def)
    consider (two) ow nm where "zs = [ow, nm]" | (no) "length zs \<noteq> 2"
      by (metis (no_types, opaque_lifting) One_nat_def Suc_1 Suc_length_conv length_0_conv)
    then show ?thesis
    proof cases
      case two
      then show ?thesis using l zs \<open>remote_parse input = Some url\<close> res by (auto simp: slug_new_def)
    next
      case no
      then have "remote_resolve input known = NotARepoPath k (join ''/'' zs)"
        using res by (auto split: list.splits)
      then show ?thesis using l zs \<open>remote_parse input = Some url\<close> no by simp
    qed
  qed
qed

subsection \<open>The spellings of one repository\<close>

text \<open>Names free of the characters that separate the parts of a URL.\<close>

definition plain_name :: "str \<Rightarrow> bool" where
  "plain_name s \<longleftrightarrow> s \<noteq> [] \<and> printable s
     \<and> list_all (\<lambda>c. \<not> List.member [CHR ''/'', CHR '':'', CHR ''@'', CHR ''['', CHR '']''] c) s"

lemma plain_nameD: "plain_name s \<Longrightarrow> s \<noteq> [] \<and> printable s \<and> CHR ''/'' \<notin> set s \<and> CHR '':'' \<notin> set s
    \<and> CHR ''@'' \<notin> set s \<and> CHR ''['' \<notin> set s \<and> CHR '']'' \<notin> set s \<and> CHR '' '' \<notin> set s"
proof -
  assume s: "plain_name s"
  then have "\<not> List.member [CHR ''/'', CHR '':'', CHR ''@'', CHR ''['', CHR '']''] c \<and> 33 \<le> byte c" if "c \<in> set s" for c
    using that unfolding plain_name_def printable_def list_all_iff by blast
  then have no: "c \<notin> set s" if "List.member [CHR ''/'', CHR '':'', CHR ''@'', CHR ''['', CHR '']''] c \<or> byte c < 33" for c
    using that linorder_not_less by blast
  have "byte (CHR '' '') < 33" by code_simp
  then show ?thesis using s no [of "CHR '' ''"] no [of "CHR ''/''"] no [of "CHR '':''"] no [of "CHR ''@''"]
      no [of "CHR ''[''"] no [of "CHR '']''"]
    by (simp add: plain_name_def)
qed

lemma ends_with_append: "length q \<le> length b \<Longrightarrow> ends_with (a @ b) q = ends_with b q"
  by (auto simp: ends_with_suffix suffix_def append_eq_append_conv2)

lemma ends_with_after_slash:
  assumes "CHR ''/'' \<notin> set q" "ends_with (a @ CHR ''/'' # b) q"
  shows "ends_with b q"
proof -
  from assms(2) obtain us where us: "a @ CHR ''/'' # b = us @ q" by (auto simp: ends_with_suffix suffix_def)
  then consider vs where "us = a @ vs" "CHR ''/'' # b = vs @ q" | ws where "q = ws @ CHR ''/'' # b"
    by (auto simp: append_eq_append_conv2)
  then show ?thesis
  proof cases
    case 1
    then show ?thesis using assms(1) by (cases vs) (auto simp: ends_with_suffix suffix_def)
  next
    case 2
    then show ?thesis using assms(1) by simp
  qed
qed

lemma clean_path_repo:
  assumes "plain_name ow" "plain_name nm" "\<not> ends_with nm ''.git''"
  shows "clean_path (ow @ CHR ''/'' # nm) = ow @ CHR ''/'' # nm"
    "clean_path (ow @ CHR ''/'' # nm @ ''.git'') = ow @ CHR ''/'' # nm"
    "clean_path (ow @ CHR ''/'' # nm @ ''/'') = ow @ CHR ''/'' # nm"
proof -
  note o = plain_nameD [OF assms(1)] and n = plain_nameD [OF assms(2)]
  have start: "trim_start_c (ow @ x) CHR ''/'' = ow @ x" for x
    using o by (cases ow) (auto simp: trim_start_c_def)
  have nlast: "last nm \<noteq> CHR ''/''" using n last_in_set [of nm] by metis
  have stop: "trim_end_c (ow @ CHR ''/'' # nm) CHR ''/'' = ow @ CHR ''/'' # nm"
    using nlast n by (intro trim_end_c_noop) auto
  have stop2: "trim_end_c (ow @ CHR ''/'' # nm @ ''.git'') CHR ''/'' = ow @ CHR ''/'' # nm @ ''.git''"
    by (intro trim_end_c_noop) auto
  have stop3: "trim_end_c (ow @ CHR ''/'' # nm @ ''/'') CHR ''/'' = ow @ CHR ''/'' # nm"
  proof -
    have "trim_end_c (ow @ CHR ''/'' # nm @ ''/'') CHR ''/'' = trim_end_c (ow @ CHR ''/'' # nm) CHR ''/''"
      by (simp add: trim_end_c_def)
    then show ?thesis using stop by simp
  qed
  have no_git: "strip_suffix (ow @ CHR ''/'' # nm) ''.git'' = None"
    using assms(3) ends_with_after_slash [of "''.git''" ow nm] by (auto simp: strip_suffix_def)
  have git: "strip_suffix (ow @ CHR ''/'' # nm @ ''.git'') ''.git'' = Some (ow @ CHR ''/'' # nm)"
  proof -
    have "ends_with ((ow @ CHR ''/'' # nm) @ ''.git'') ''.git''" unfolding ends_with_suffix by (rule suffixI) simp
    then show ?thesis by (simp add: strip_suffix_def)
  qed
  show "clean_path (ow @ CHR ''/'' # nm) = ow @ CHR ''/'' # nm"
    "clean_path (ow @ CHR ''/'' # nm @ ''.git'') = ow @ CHR ''/'' # nm"
    "clean_path (ow @ CHR ''/'' # nm @ ''/'') = ow @ CHR ''/'' # nm"
    by (simp_all add: clean_path_def trim_c_def start stop stop2 stop3 no_git git)
qed

lemma strip_userinfo_plain: "CHR ''@'' \<notin> set a \<Longrightarrow> strip_userinfo a = a"
  by (simp add: strip_userinfo_def)

lemma strip_userinfo_creds: "CHR ''@'' \<notin> set a \<Longrightarrow> strip_userinfo (cr @ CHR ''@'' # a) = a"
  by (simp add: strip_userinfo_def)

lemma no_bracket: "plain_name h \<Longrightarrow> strip_prefix (h @ x) ''['' = None"
  using plain_nameD [of h] by (cases h) (auto simp: strip_prefix_def)

lemma split_host_port_plain: "plain_name h \<Longrightarrow> split_host_port h = Some (h, None)"
  using plain_nameD [of h] no_bracket [of h "[]"] by (simp add: split_host_port_def)

lemma split_host_port_port:
  "plain_name h \<Longrightarrow> p < 2 ^ 16 \<Longrightarrow> split_host_port (h @ CHR '':'' # show_nat p) = Some (h, Some p)"
  using plain_nameD [of h] parse_unsigned_show_nat [of p 16] no_bracket [of h "CHR '':'' # show_nat p"]
  by (simp add: split_host_port_def)

lemma mk_remote_plain: "plain_name h \<Longrightarrow> to_ascii_lowercase h = h \<Longrightarrow> mk_remote s h p path =
    Some \<lparr>ru_scheme = s, ru_host = h, ru_port = p, ru_path = clean_path path\<rparr>"
  using plain_nameD [of h] by (auto simp: mk_remote_def contains_sublist sublist_def)

lemma remote_parse_url:
  assumes "sch = ''https'' \<or> sch = ''ssh''" "printable a" "printable path" "CHR ''/'' \<notin> set a"
  shows "remote_parse (sch @ ''://'' @ a @ CHR ''/'' # path) =
    (case split_host_port (strip_userinfo a) of None \<Rightarrow> None
     | Some (host, port) \<Rightarrow> mk_remote (Some sch) host port path)"
proof -
  let ?t = "sch @ CHR '':'' # CHR ''/'' # CHR ''/'' # a @ CHR ''/'' # path"
  have t: "trim ?t = ?t" using assms by (intro trim_printable) (auto simp: byte_def)
  have s: "split_once ?t ''://'' = Some (sch, a @ CHR ''/'' # path)"
    using assms(1) by (intro split_once_scheme) auto
  have sl: "split_once_c (a @ CHR ''/'' # path) CHR ''/'' = Some (a, path)" using assms(4) by simp
  have low: "to_ascii_lowercase sch = sch" "sch \<noteq> ''file''"
    using assms(1) by (auto simp: to_ascii_lowercase_def ascii_lower_def byte_def)
  have st: "\<not> starts_with ?t ''/''" "\<not> starts_with ?t ''.''" "\<not> starts_with ?t ''~''" "?t \<noteq> []"
    using assms(1) by (auto simp: starts_with_def)
  show ?thesis using st low(2) by (simp add: remote_parse_def t s sl low(1))
qed

lemma parse_https:
  assumes "plain_name h" "to_ascii_lowercase h = h" "plain_name ow" "plain_name nm" "\<not> ends_with nm ''.git''"
  shows "remote_parse (''https://'' @ h @ ''/'' @ ow @ ''/'' @ nm @ ''.git'') =
           Some \<lparr>ru_scheme = Some ''https'', ru_host = h, ru_port = None, ru_path = ow @ CHR ''/'' # nm\<rparr>"
proof -
  have "remote_parse (''https'' @ ''://'' @ h @ CHR ''/'' # (ow @ CHR ''/'' # nm @ ''.git'')) =
    (case split_host_port (strip_userinfo h) of None \<Rightarrow> None
     | Some (host, port) \<Rightarrow> mk_remote (Some ''https'') host port (ow @ CHR ''/'' # nm @ ''.git''))"
    using plain_nameD [OF assms(1)] plain_nameD [OF assms(3)] plain_nameD [OF assms(4)]
    by (intro remote_parse_url) (auto simp: byte_def)
  then show ?thesis
    using assms plain_nameD [OF assms(1)] clean_path_repo(2) [OF assms(3-5)]
    by (simp add: strip_userinfo_plain split_host_port_plain mk_remote_plain)
qed

lemma parse_https_creds:
  assumes "plain_name h" "to_ascii_lowercase h = h" "plain_name ow" "plain_name nm" "\<not> ends_with nm ''.git''"
    and "printable cred" "CHR ''/'' \<notin> set cred"
  shows "remote_parse (''https://'' @ cred @ ''@'' @ h @ ''/'' @ ow @ ''/'' @ nm @ ''/'') =
           Some \<lparr>ru_scheme = Some ''https'', ru_host = h, ru_port = None, ru_path = ow @ CHR ''/'' # nm\<rparr>"
proof -
  have "remote_parse (''https'' @ ''://'' @ (cred @ CHR ''@'' # h) @ CHR ''/'' # (ow @ CHR ''/'' # nm @ ''/'')) =
    (case split_host_port (strip_userinfo (cred @ CHR ''@'' # h)) of None \<Rightarrow> None
     | Some (host, port) \<Rightarrow> mk_remote (Some ''https'') host port (ow @ CHR ''/'' # nm @ ''/''))"
    using plain_nameD [OF assms(1)] plain_nameD [OF assms(3)] plain_nameD [OF assms(4)] assms(6,7)
    by (intro remote_parse_url) (auto simp: byte_def)
  then show ?thesis
    using assms plain_nameD [OF assms(1)] clean_path_repo(3) [OF assms(3-5)]
    by (simp add: strip_userinfo_creds split_host_port_plain mk_remote_plain)
qed

lemma parse_ssh:
  assumes "plain_name h" "to_ascii_lowercase h = h" "plain_name ow" "plain_name nm" "\<not> ends_with nm ''.git''"
    and "p < 2 ^ 16"
  shows "remote_parse (''ssh://git@'' @ h @ '':'' @ show_nat p @ ''/'' @ ow @ ''/'' @ nm @ ''.git'') =
           Some \<lparr>ru_scheme = Some ''ssh'', ru_host = h, ru_port = Some p, ru_path = ow @ CHR ''/'' # nm\<rparr>"
proof -
  let ?a = "h @ CHR '':'' # show_nat p"
  have d: "\<forall>c\<in>set (show_nat p). 48 \<le> byte c \<and> byte c \<le> 57"
    using show_nat_digits [of p] by (simp add: list_all_iff is_ascii_digit_def)
  then have n: "printable (show_nat p)" "CHR ''@'' \<notin> set (show_nat p)" "CHR ''/'' \<notin> set (show_nat p)"
    by (fastforce simp: printable_def list_all_iff byte_def)+
  have "remote_parse (''ssh'' @ ''://'' @ (''git'' @ CHR ''@'' # ?a) @ CHR ''/'' # (ow @ CHR ''/'' # nm @ ''.git'')) =
    (case split_host_port (strip_userinfo (''git'' @ CHR ''@'' # ?a)) of None \<Rightarrow> None
     | Some (host, port) \<Rightarrow> mk_remote (Some ''ssh'') host port (ow @ CHR ''/'' # nm @ ''.git''))"
    using plain_nameD [OF assms(1)] plain_nameD [OF assms(3)] plain_nameD [OF assms(4)] n
    by (intro remote_parse_url) (auto simp: byte_def)
  moreover have "strip_userinfo (''git'' @ CHR ''@'' # ?a) = ?a"
    using n plain_nameD [OF assms(1)] by (intro strip_userinfo_creds) auto
  ultimately show ?thesis
    using assms clean_path_repo(2) [OF assms(3-5)]
    by (simp add: split_host_port_port mk_remote_plain)
qed

lemma no_scheme:
  assumes "CHR '':'' \<notin> set a" "x \<noteq> CHR ''/''" "CHR '':'' \<notin> set (x # b)"
  shows "split_once (a @ CHR '':'' # x # b) ''://'' = None"
proof -
  have "str_find ''://'' b = None" if "CHR '':'' \<notin> set b" for b
    using that by (induction b) auto
  then have "str_find ''://'' (x # b) = None" using assms(3) by blast
  then have "str_find ''://'' (CHR '':'' # x # b) = None" using assms(2) by simp
  then have "str_find ''://'' (a @ CHR '':'' # x # b) = None"
    using assms(1) by (induction a) auto
  then show ?thesis by (simp add: split_once_def)
qed

lemma parse_scp:
  assumes "plain_name h" "to_ascii_lowercase h = h" "plain_name ow" "plain_name nm" "\<not> ends_with nm ''.git''"
    and "\<not> list_all is_ascii_digit ow"
  shows "remote_parse (''git@'' @ h @ '':'' @ ow @ ''/'' @ nm @ ''.git'') =
           Some \<lparr>ru_scheme = None, ru_host = h, ru_port = None, ru_path = ow @ CHR ''/'' # nm\<rparr>"
proof -
  note hh = plain_nameD [OF assms(1)] and oo = plain_nameD [OF assms(3)] and nn = plain_nameD [OF assms(4)]
  obtain x ow' where ow: "ow = x # ow'" using oo by (cases ow) auto
  let ?tail = "ow @ CHR ''/'' # nm @ ''.git''"
  let ?b = "h @ CHR '':'' # ?tail"
  let ?t = "''git'' @ CHR ''@'' # ?b"
  have t: "trim ?t = ?t" using hh oo nn by (intro trim_printable) (auto simp: byte_def)
  have "split_once ((''git@'' @ h) @ CHR '':'' # x # (ow' @ CHR ''/'' # nm @ ''.git'')) ''://'' = None"
    using hh oo nn ow by (intro no_scheme) auto
  then have s: "split_once ?t ''://'' = None" by (simp add: ow)
  have u: "strip_userinfo ?t = ?b" using hh oo nn by (intro strip_userinfo_creds) auto
  have sc: "split_scp ?b = Some (h, ?tail)"
    using no_bracket [OF assms(1), of "CHR '':'' # ?tail"] hh by (simp add: split_scp_def)
  have lp: "split_leading_port ?tail = (None, ?tail)"
    using oo assms(6) by (simp add: split_leading_port_def)
  have st: "\<not> starts_with ?t ''/''" "\<not> starts_with ?t ''.''" "\<not> starts_with ?t ''~''" "?t \<noteq> []"
    by (auto simp: starts_with_def)
  have "remote_parse ?t = mk_remote None h None ?tail"
    using st by (simp add: remote_parse_def t s u sc lp split_host_port_plain [OF assms(1)] Let_def
        del: append.simps)
  then show ?thesis
    using assms clean_path_repo(2) [OF assms(3-5)] by (simp add: mk_remote_plain)
qed

subsection \<open>Properties\<close>

text \<open>A remote is resolved to the configured host with the longest subpath: a match takes the
  path apart into the subpath of that host, the owner and the name, no other host that the URL
  matches has a longer subpath, and a host is reported as unknown only when none matches.\<close>

theorem resolve_longest_known_host:
  assumes "remote_parse input = Some url"
  shows "case remote_resolve input known of
     Matched k slug \<Rightarrow> k \<in> set known \<and> ru_matches url k
       \<and> split_segments (ru_path url) = split_segments (key_subpath k) @ [slug_owner slug, slug_name slug]
       \<and> (\<forall>k'\<in>set known. ru_matches url k' \<and> covers k' (split_segments (ru_path url)) \<longrightarrow>
            length (split_segments (key_subpath k')) \<le> length (split_segments (key_subpath k)))
   | UnknownRemoteHost h \<Rightarrow> h = ru_authority url
       \<and> (\<forall>k\<in>set known. ru_matches url k \<longrightarrow> \<not> covers k (split_segments (ru_path url)))
   | NotARepoPath k path \<Rightarrow> k \<in> set known \<and> ru_matches url k
       \<and> length (split_segments (ru_path url)) \<noteq> length (split_segments (key_subpath k)) + 2
   | Unparseable \<Rightarrow> False"
  using remote_resolve_cases [of input known] assms by (auto split: resolution.splits)

theorem resolve_longest_known_host_witness:
  "\<exists>url. remote_parse ''https://e.org/sub/o/r.git'' = Some url
     \<and> ru_matches url (HostKey ''e.org/sub'')
     \<and> remote_resolve ''https://e.org/sub/o/r.git'' [HostKey ''e.org'', HostKey ''e.org/sub'']
       = Matched (HostKey ''e.org/sub'') (slug_new ''o'' ''r'')"
proof -
  have r: "remote_resolve ''https://e.org/sub/o/r.git'' [HostKey ''e.org'', HostKey ''e.org/sub'']
      = Matched (HostKey ''e.org/sub'') (slug_new ''o'' ''r'')" by code_simp
  then obtain url where u: "remote_parse ''https://e.org/sub/o/r.git'' = Some url"
    by (cases "remote_parse ''https://e.org/sub/o/r.git''") (auto simp: remote_resolve_def)
  show ?thesis using resolve_longest_known_host [OF u, of "[HostKey ''e.org'', HostKey ''e.org/sub'']"] r u by simp
qed

text \<open>However a remote is written, it names the same repository: the https form, with
  credentials or a trailing slash, the ssh form with a port and the scp-like form of one
  repository resolve to the same result, and credentials leave no trace in it.\<close>

theorem remote_forms_agree:
  assumes "plain_name h" "to_ascii_lowercase h = h" "plain_name ow" "plain_name nm" "\<not> ends_with nm ''.git''"
    and "printable cred" "CHR ''/'' \<notin> set cred" "p < 2 ^ 16" "\<not> list_all is_ascii_digit ow"
    and "\<forall>k\<in>set known. key_host k = h \<longleftrightarrow> key_authority k = h"
  shows "(let https = ''https://'' @ h @ ''/'' @ ow @ ''/'' @ nm @ ''.git'';
              creds = ''https://'' @ cred @ ''@'' @ h @ ''/'' @ ow @ ''/'' @ nm @ ''/'';
              ssh = ''ssh://git@'' @ h @ '':'' @ show_nat p @ ''/'' @ ow @ ''/'' @ nm @ ''.git'';
              scp = ''git@'' @ h @ '':'' @ ow @ ''/'' @ nm @ ''.git''
    in remote_parse creds = remote_parse https
       \<and> remote_resolve creds known = remote_resolve https known
       \<and> remote_resolve ssh known = remote_resolve https known
       \<and> remote_resolve scp known = remote_resolve https known)"
proof -
  let ?u = "\<lambda>s p. \<lparr>ru_scheme = s, ru_host = h, ru_port = p, ru_path = ow @ CHR ''/'' # nm\<rparr>"
  have m: "filter (ru_matches (?u (Some ''ssh'') (Some p))) known = filter (ru_matches (?u (Some ''https'') None)) known"
    "filter (ru_matches (?u None None)) known = filter (ru_matches (?u (Some ''https'') None)) known"
    using assms(10) by (intro filter_cong; simp add: ru_matches_def is_ssh_like_def ru_authority_def)+
  have a: "ru_authority (?u (Some ''ssh'') (Some p)) = h" "ru_authority (?u None None) = h"
    "ru_authority (?u (Some ''https'') None) = h"
    by (simp_all add: ru_authority_def is_ssh_like_def)
  show ?thesis
    unfolding remote_resolve_def Let_def parse_https [OF assms(1-5)] parse_https_creds [OF assms(1-7)]
      parse_ssh [OF assms(1-5) assms(8)] parse_scp [OF assms(1-5) assms(9)] option.case m a remote_url.select_convs
    by simp
qed

theorem remote_forms_agree_witness:
  "remote_resolve ''git@e.org:o/r.git'' [HostKey ''e.org''] = remote_resolve ''https://e.org/o/r.git'' [HostKey ''e.org'']"
proof -
  have "plain_name ''e.org'' \<and> to_ascii_lowercase ''e.org'' = ''e.org'' \<and> plain_name ''o'' \<and> plain_name ''r''
    \<and> \<not> ends_with ''r'' ''.git'' \<and> printable ''u:p'' \<and> List.member ''u:p'' (CHR ''/'') = False
    \<and> \<not> list_all is_ascii_digit ''o'' \<and> key_host (HostKey ''e.org'') = ''e.org'' \<and> key_authority (HostKey ''e.org'') = ''e.org''"
    by code_simp
  then show ?thesis
    using remote_forms_agree [of "''e.org''" "''o''" "''r''" "''u:p''" 22 "[HostKey ''e.org'']"]
    by (simp add: Let_def)
qed

end
