(* ===== verification/Git_Spec.thy ===== *)
theory Git_Spec
  imports Redact Errors
begin

text \<open>
  The shapes a git invocation takes: \<open>crates/forgejo-core/src/context/git/spec.rs\<close>, and the
  AGit push of \<open>git/agit.rs\<close>.  An \<open>OsString\<close> argument is its bytes.
\<close>

subsection \<open>Lines\<close>

text \<open>\<open>str::lines\<close>: a carriage return is dropped only before a line feed.\<close>

definition NL :: char where
  "NL = CHR 0x0A"

definition strip_cr :: "str \<Rightarrow> str" where
  "strip_cr l = (if l \<noteq> [] \<and> last l = CHR 0x0D then butlast l else l)"

definition str_lines :: "str \<Rightarrow> str list" where
  "str_lines s = (let ps = split_c s NL in map strip_cr (butlast ps) @ (if last ps = [] then [] else [last ps]))"

subsection \<open>Output\<close>

datatype git_io = Capture | Inherit

record git_output =
  go_ok :: bool
  go_code :: "int option"
  go_stdout :: str
  go_stderr :: str

definition git_success :: git_output where
  "git_success = \<lparr>go_ok = True, go_code = Some 0, go_stdout = [], go_stderr = []\<rparr>"

definition git_failure :: "int \<Rightarrow> str \<Rightarrow> git_output" where
  "git_failure code stderr = \<lparr>go_ok = False, go_code = Some code, go_stdout = [], go_stderr = stderr\<rparr>"

definition with_stdout :: "git_output \<Rightarrow> str \<Rightarrow> git_output" where
  "with_stdout o' s = o'\<lparr>go_stdout := s\<rparr>"

definition with_stderr :: "git_output \<Rightarrow> str \<Rightarrow> git_output" where
  "with_stderr o' s = o'\<lparr>go_stderr := s\<rparr>"

definition git_detail :: "git_output \<Rightarrow> str" where
  "git_detail out = (if trim (go_stderr out) = [] then trim (go_stdout out) else trim (go_stderr out))"

record commit_message =
  cm_subject :: str
  cm_body :: str

subsection \<open>Clone\<close>

record clone_spec =
  cl_url :: str
  cl_dir :: "str option"
  cl_extra :: "str list"

definition clone_new :: "str \<Rightarrow> clone_spec" where
  "clone_new url = \<lparr>cl_url = url, cl_dir = None, cl_extra = []\<rparr>"

definition into_dir :: "clone_spec \<Rightarrow> str \<Rightarrow> clone_spec" where
  "into_dir s dir = s\<lparr>cl_dir := Some dir\<rparr>"

definition maybe_into_dir :: "clone_spec \<Rightarrow> str option \<Rightarrow> clone_spec" where
  "maybe_into_dir s dir = s\<lparr>cl_dir := dir\<rparr>"

definition with_extra :: "clone_spec \<Rightarrow> str list \<Rightarrow> clone_spec" where
  "with_extra s extra = s\<lparr>cl_extra := extra\<rparr>"

text \<open>The last piece of \<open>rsplit(['/', ':'])\<close>.\<close>

definition dir_from_url :: "str \<Rightarrow> str" where
  "dir_from_url url =
     (let trimmed = trim_end_c url CHR ''/'';
          last = rev (takeWhile (\<lambda>c. c \<noteq> CHR ''/'' \<and> c \<noteq> CHR '':'') (rev trimmed))
      in case strip_suffix last ''.git'' of Some s \<Rightarrow> s | None \<Rightarrow> last)"

definition target_dir :: "clone_spec \<Rightarrow> str" where
  "target_dir s = (case cl_dir s of Some dir \<Rightarrow> dir | None \<Rightarrow> dir_from_url (cl_url s))"

definition clone_argv :: "clone_spec \<Rightarrow> str list" where
  "clone_argv s = [''clone'', cl_url s] @ (case cl_dir s of Some dir \<Rightarrow> [dir] | None \<Rightarrow> []) @ cl_extra s"

subsection \<open>Fetch\<close>

record fetch_spec =
  fs_remote :: str
  fs_refspecs :: "str list"
  fs_force :: bool
  fs_prune :: bool
  fs_progress :: bool

definition fetch_new :: "str \<Rightarrow> fetch_spec" where
  "fetch_new remote = \<lparr>fs_remote = remote, fs_refspecs = [], fs_force = False, fs_prune = False, fs_progress = True\<rparr>"

definition fetch_with_refspec :: "fetch_spec \<Rightarrow> str \<Rightarrow> fetch_spec" where
  "fetch_with_refspec s r = s\<lparr>fs_refspecs := fs_refspecs s @ [r]\<rparr>"

definition fetch_with_refspecs :: "fetch_spec \<Rightarrow> str list \<Rightarrow> fetch_spec" where
  "fetch_with_refspecs s rs = s\<lparr>fs_refspecs := fs_refspecs s @ rs\<rparr>"

definition fetch_forced :: "fetch_spec \<Rightarrow> bool \<Rightarrow> fetch_spec" where
  "fetch_forced s b = s\<lparr>fs_force := b\<rparr>"

definition pruning :: "fetch_spec \<Rightarrow> bool \<Rightarrow> fetch_spec" where
  "pruning s b = s\<lparr>fs_prune := b\<rparr>"

definition quiet :: "fetch_spec \<Rightarrow> fetch_spec" where
  "quiet s = s\<lparr>fs_progress := False\<rparr>"

definition fetch_argv :: "fetch_spec \<Rightarrow> str list" where
  "fetch_argv s = [''fetch''] @ (if fs_force s then [''--force''] else [])
     @ (if fs_prune s then [''--prune''] else []) @ [fs_remote s] @ fs_refspecs s"

subsection \<open>Push\<close>

record push_spec =
  ps_remote :: str
  ps_refspecs :: "str list"
  ps_force :: bool
  ps_set_upstream :: bool
  ps_options :: "str list"
  ps_progress :: bool

definition push_new :: "str \<Rightarrow> push_spec" where
  "push_new remote = \<lparr>ps_remote = remote, ps_refspecs = [], ps_force = False, ps_set_upstream = False,
     ps_options = [], ps_progress = False\<rparr>"

definition push_with_refspec :: "push_spec \<Rightarrow> str \<Rightarrow> push_spec" where
  "push_with_refspec s r = s\<lparr>ps_refspecs := ps_refspecs s @ [r]\<rparr>"

definition push_forced :: "push_spec \<Rightarrow> bool \<Rightarrow> push_spec" where
  "push_forced s b = s\<lparr>ps_force := b\<rparr>"

definition setting_upstream :: "push_spec \<Rightarrow> bool \<Rightarrow> push_spec" where
  "setting_upstream s b = s\<lparr>ps_set_upstream := b\<rparr>"

definition with_option :: "push_spec \<Rightarrow> str \<Rightarrow> push_spec" where
  "with_option s o' = s\<lparr>ps_options := ps_options s @ [o']\<rparr>"

definition with_progress :: "push_spec \<Rightarrow> push_spec" where
  "with_progress s = s\<lparr>ps_progress := True\<rparr>"

definition push_argv :: "push_spec \<Rightarrow> str list" where
  "push_argv s = [''push''] @ (if ps_force s then [''--force''] else [])
     @ (if ps_set_upstream s then [''-u''] else []) @ [ps_remote s] @ ps_refspecs s
     @ concat (map (\<lambda>o'. [''-o'', o']) (ps_options s))"

subsection \<open>Checkout\<close>

datatype checkout = Rev str | Detach str | NewBranch str "str option" bool

definition new_branch :: "str \<Rightarrow> checkout" where
  "new_branch branch = NewBranch branch None False"

fun from_point :: "checkout \<Rightarrow> str \<Rightarrow> checkout" where
  "from_point (NewBranch branch _ force) start = NewBranch branch (Some start) force"
| "from_point c start = c"

fun checkout_forced :: "checkout \<Rightarrow> bool \<Rightarrow> checkout" where
  "checkout_forced (NewBranch branch start _) force = NewBranch branch start force"
| "checkout_forced c force = c"

fun checkout_argv :: "checkout \<Rightarrow> str list" where
  "checkout_argv (Rev r) = [''checkout'', r]"
| "checkout_argv (Detach r) = [''checkout'', ''--detach'', r]"
| "checkout_argv (NewBranch branch start force) =
     [''checkout'', if force then ''-B'' else ''-b'', branch] @ (case start of Some s \<Rightarrow> [s] | None \<Rightarrow> [])"

subsection \<open>AGit\<close>

record agit_ref =
  ag_base :: str
  ag_topic :: str

definition agit_ref_new :: "str \<Rightarrow> str \<Rightarrow> (error, agit_ref) res" where
  "agit_ref_new base topic =
     (let base = trim base; topic = trim topic
      in if base = [] then Inl (error_new (Usage (Fmt ''an AGit pull request needs a base branch to open against'' [])))
         else if topic = [] then Inl (error_new (Usage (Fmt ''an AGit topic cannot be empty: Forgejo refuses refs/for/<base> with no topic. Use the same topic again to update the same pull request'' [])))
         else Inr \<lparr>ag_base = base, ag_topic = topic\<rparr>)"

definition agit_refname :: "agit_ref \<Rightarrow> str" where
  "agit_refname r = ''refs/for/'' @ ag_base r @ ''/'' @ ag_topic r"

definition agit_refspec :: "agit_ref \<Rightarrow> str \<Rightarrow> str" where
  "agit_refspec r src = src @ '':'' @ agit_refname r"

record agit_push =
  ap_remote :: str
  ap_target :: agit_ref
  ap_src :: str
  ap_title :: str
  ap_body :: str
  ap_force :: bool

definition agit_push_new :: "str \<Rightarrow> agit_ref \<Rightarrow> agit_push" where
  "agit_push_new remote target = \<lparr>ap_remote = remote, ap_target = target, ap_src = ''HEAD'',
     ap_title = [], ap_body = [], ap_force = False\<rparr>"

definition agit_with_title :: "agit_push \<Rightarrow> str \<Rightarrow> agit_push" where
  "agit_with_title p t = p\<lparr>ap_title := t\<rparr>"

definition agit_with_body :: "agit_push \<Rightarrow> str \<Rightarrow> agit_push" where
  "agit_with_body p t = p\<lparr>ap_body := t\<rparr>"

definition agit_forced :: "agit_push \<Rightarrow> bool \<Rightarrow> agit_push" where
  "agit_forced p b = p\<lparr>ap_force := b\<rparr>"

definition agit_from_src :: "agit_push \<Rightarrow> str \<Rightarrow> agit_push" where
  "agit_from_src p s = p\<lparr>ap_src := s\<rparr>"

definition agit_push_refspec :: "agit_push \<Rightarrow> str" where
  "agit_push_refspec p = agit_refspec (ap_target p) (ap_src p)"

definition to_push_spec :: "agit_push \<Rightarrow> push_spec" where
  "to_push_spec p =
     (let spec = push_forced (push_with_refspec (push_new (ap_remote p)) (agit_push_refspec p)) (ap_force p);
          spec = (if trim (ap_title p) \<noteq> [] then with_option spec (''title='' @ ap_title p) else spec)
      in if trim (ap_body p) \<noteq> [] then with_option spec (''description='' @ ap_body p) else spec)"

record agit_outcome =
  ao_stderr :: str
  ao_pull_index :: "int option"

definition trim_end_of :: "char list \<Rightarrow> str \<Rightarrow> str" where
  "trim_end_of cs s = rev (dropWhile (List.member cs) (rev s))"

definition pull_marker :: "str \<Rightarrow> str \<Rightarrow> int option \<Rightarrow> int option" where
  "pull_marker cleaned marker found =
     (case rsplit_once cleaned marker of
        None \<Rightarrow> found
      | Some (_, rest) \<Rightarrow> (case parse_i64 rest of Some n \<Rightarrow> Some n | None \<Rightarrow> found))"

definition pull_token :: "str \<Rightarrow> int option \<Rightarrow> int option" where
  "pull_token token found =
     (let cleaned = trim_end_of [CHR ''.'', CHR '','', CHR '')'', CHR 0x22, CHR 0x27] token
      in pull_marker cleaned ''/pull/'' (pull_marker cleaned ''/pulls/'' found))"

definition pull_index :: "str \<Rightarrow> int option" where
  "pull_index s = fold pull_token (split_whitespace s) None"

end
