(* ===== verification/Git.thy ===== *)
theory Git
  imports Git_Spec Keyed
begin

text \<open>
  The local git repository as the program uses it: the interface \<open>GitCtx\<close> of
  \<open>crates/forgejo-core/src/context/git/mod.rs\<close> with its derived operations, the command-line
  implementation \<open>git/cli.rs\<close> over the outcome of running \<open>git\<close> (a parameter) and the
  in-memory \<open>FakeGit\<close> of \<open>git/fake.rs\<close>.

  The reads of the interface are functions of the repository state \<open>'g\<close>: a read command does
  not change the repository.
\<close>

subsection \<open>The interface\<close>

record remote =
  rm_name :: str
  rm_fetch :: "str option"
  rm_push :: "str option"

definition remote_urls :: "remote \<Rightarrow> str list" where
  "remote_urls r = (case rm_fetch r of Some u \<Rightarrow> [u] | None \<Rightarrow> []) @ (case rm_push r of Some u \<Rightarrow> [u] | None \<Rightarrow> [])"

record 'g git_ctx =
  gc_exec :: "'g \<Rightarrow> str list \<Rightarrow> git_io \<Rightarrow> (error, git_output) res \<times> 'g"
  gc_git_dir :: "'g \<Rightarrow> (error, str option) res"
  gc_remotes :: "'g \<Rightarrow> (error, remote list) res"
  gc_config_get :: "'g \<Rightarrow> str \<Rightarrow> (error, str option) res"
  gc_config_get_regexp :: "'g \<Rightarrow> str \<Rightarrow> (error, (str \<times> str) list) res"
  gc_config_set_local :: "'g \<Rightarrow> str \<Rightarrow> str \<Rightarrow> (error, unit) res \<times> 'g"
  gc_config_unset_local :: "'g \<Rightarrow> str \<Rightarrow> (error, unit) res \<times> 'g"
  gc_current_branch :: "'g \<Rightarrow> (error, str option) res"
  gc_remote_head :: "'g \<Rightarrow> str \<Rightarrow> (error, str option) res"

text \<open>The failure of a command: both the arguments and git's words are scrubbed.\<close>

definition git_failed :: "str list \<Rightarrow> git_output \<Rightarrow> error" where
  "git_failed args out = error_new (GitFailed (''git '' @ argv id args) (scrub_text (git_detail out)) (go_code out))"

subsection \<open>Derived operations\<close>

definition try_run :: "'g git_ctx \<Rightarrow> 'g \<Rightarrow> str list \<Rightarrow> (error, git_output) res \<times> 'g" where
  "try_run gc g args = gc_exec gc g args Capture"

definition checked :: "'g git_ctx \<Rightarrow> 'g \<Rightarrow> str list \<Rightarrow> git_io \<Rightarrow> (error, git_output) res \<times> 'g" where
  "checked gc g args io =
     (case gc_exec gc g args io of
        (Inl e, g) \<Rightarrow> (Inl e, g)
      | (Inr out, g) \<Rightarrow> (if go_ok out then Inr out else Inl (git_failed args out), g))"

definition git_run :: "'g git_ctx \<Rightarrow> 'g \<Rightarrow> str list \<Rightarrow> (error, git_output) res \<times> 'g" where
  "git_run gc g args =
     (case try_run gc g args of
        (Inl e, g) \<Rightarrow> (Inl e, g)
      | (Inr out, g) \<Rightarrow> (if \<not> go_ok out then Inl (git_failed args out) else Inr out, g))"

definition git_succeeds :: "'g git_ctx \<Rightarrow> 'g \<Rightarrow> str list \<Rightarrow> (error, bool) res \<times> 'g" where
  "git_succeeds gc g args = (case try_run gc g args of (r, g) \<Rightarrow> (res_map go_ok r, g))"

definition stdout_of :: "'g git_ctx \<Rightarrow> 'g \<Rightarrow> str list \<Rightarrow> (error, str) res \<times> 'g" where
  "stdout_of gc g args = (case git_run gc g args of (r, g) \<Rightarrow> (res_map (\<lambda>out. trim_end (go_stdout out)) r, g))"

definition git_unit :: "(error, 'a) res \<times> 'g \<Rightarrow> (error, unit) res \<times> 'g" where
  "git_unit rg = (case rg of (r, g) \<Rightarrow> (res_map (\<lambda>_. ()) r, g))"

definition rev_exists :: "'g git_ctx \<Rightarrow> 'g \<Rightarrow> str \<Rightarrow> (error, bool) res \<times> 'g" where
  "rev_exists gc g rv = git_succeeds gc g [''rev-parse'', ''--verify'', ''--quiet'', rv]"

definition is_ancestor :: "'g git_ctx \<Rightarrow> 'g \<Rightarrow> str \<Rightarrow> str \<Rightarrow> (error, bool) res \<times> 'g" where
  "is_ancestor gc g anc desc = git_succeeds gc g [''merge-base'', ''--is-ancestor'', anc, desc]"

definition porcelain_status :: "'g git_ctx \<Rightarrow> 'g \<Rightarrow> (error, str) res \<times> 'g" where
  "porcelain_status gc g =
     (case git_run gc g [''status'', ''--porcelain''] of (r, g) \<Rightarrow> (res_map (\<lambda>out. trim (go_stdout out)) r, g))"

definition is_clean :: "'g git_ctx \<Rightarrow> 'g \<Rightarrow> (error, bool) res \<times> 'g" where
  "is_clean gc g = (case porcelain_status gc g of (r, g) \<Rightarrow> (res_map (\<lambda>s. s = []) r, g))"

definition commit_subjects :: "'g git_ctx \<Rightarrow> 'g \<Rightarrow> str \<Rightarrow> (error, str list) res \<times> 'g" where
  "commit_subjects gc g revs =
     (case stdout_of gc g [''log'', ''--reverse'', ''--no-merges'', ''--pretty=format:%s'', revs] of
        (r, g) \<Rightarrow> (res_map (\<lambda>out. filter (\<lambda>l. l \<noteq> []) (map trim (str_lines out))) r, g))"

definition parse_message :: "str \<Rightarrow> commit_message option" where
  "parse_message out =
     (let first = trim (hd (split_c out (CHR 0x00)))
      in if first = [] then None
         else (let (subject, body) = (case split_once_c first NL of Some p \<Rightarrow> p | None \<Rightarrow> (first, []))
               in Some \<lparr>cm_subject = trim subject, cm_body = trim body\<rparr>))"

definition first_commit_message :: "'g git_ctx \<Rightarrow> 'g \<Rightarrow> str \<Rightarrow> (error, commit_message option) res \<times> 'g" where
  "first_commit_message gc g revs =
     (case stdout_of gc g [''log'', ''--reverse'', ''--no-merges'', ''--pretty=format:%B%x00'', revs] of
        (r, g) \<Rightarrow> (res_map parse_message r, g))"

definition remote_exists :: "'g git_ctx \<Rightarrow> 'g \<Rightarrow> str \<Rightarrow> (error, bool) res" where
  "remote_exists gc g name = res_map (list_ex (\<lambda>r. rm_name r = name)) (gc_remotes gc g)"

definition remote_add :: "'g git_ctx \<Rightarrow> 'g \<Rightarrow> str \<Rightarrow> str \<Rightarrow> (error, unit) res \<times> 'g" where
  "remote_add gc g name url = git_unit (git_run gc g [''remote'', ''add'', name, url])"

definition remote_rename :: "'g git_ctx \<Rightarrow> 'g \<Rightarrow> str \<Rightarrow> str \<Rightarrow> (error, unit) res \<times> 'g" where
  "remote_rename gc g old new = git_unit (git_run gc g [''remote'', ''rename'', old, new])"

definition clone_repo :: "'g git_ctx \<Rightarrow> 'g \<Rightarrow> clone_spec \<Rightarrow> (error, str) res \<times> 'g" where
  "clone_repo gc g spec = (case checked gc g (clone_argv spec) Inherit of (r, g) \<Rightarrow> (res_map (\<lambda>_. target_dir spec) r, g))"

definition git_fetch :: "'g git_ctx \<Rightarrow> 'g \<Rightarrow> fetch_spec \<Rightarrow> (error, unit) res \<times> 'g" where
  "git_fetch gc g spec = git_unit (checked gc g (fetch_argv spec) (if fs_progress spec then Inherit else Capture))"

definition git_push :: "'g git_ctx \<Rightarrow> 'g \<Rightarrow> push_spec \<Rightarrow> (error, git_output) res \<times> 'g" where
  "git_push gc g spec = gc_exec gc g (push_argv spec) (if ps_progress spec then Inherit else Capture)"

definition push_or_fail :: "'g git_ctx \<Rightarrow> 'g \<Rightarrow> push_spec \<Rightarrow> (error, git_output) res \<times> 'g" where
  "push_or_fail gc g spec =
     (case git_push gc g spec of
        (Inl e, g) \<Rightarrow> (Inl e, g)
      | (Inr out, g) \<Rightarrow> (if \<not> go_ok out then Inl (git_failed (push_argv spec) out) else Inr out, g))"

definition push_agit :: "'g git_ctx \<Rightarrow> 'g \<Rightarrow> agit_push \<Rightarrow> (error, agit_outcome) res \<times> 'g" where
  "push_agit gc g push =
     (case git_push gc g (to_push_spec push) of
        (Inl e, g) \<Rightarrow> (Inl e, g)
      | (Inr out, g) \<Rightarrow>
          if \<not> go_ok out
          then (let stderr = scrub_text (git_detail out)
                in (Inl (error_new (AgitRefused (agit_push_refspec push) (from_stderr stderr) stderr)), g))
          else (Inr \<lparr>ao_stderr = go_stderr out, ao_pull_index = pull_index (go_stderr out)\<rparr>, g))"

definition git_checkout :: "'g git_ctx \<Rightarrow> 'g \<Rightarrow> checkout \<Rightarrow> (error, unit) res \<times> 'g" where
  "git_checkout gc g c = git_unit (checked gc g (checkout_argv c) Capture)"

definition try_checkout :: "'g git_ctx \<Rightarrow> 'g \<Rightarrow> checkout \<Rightarrow> (error, bool) res \<times> 'g" where
  "try_checkout gc g c = (case gc_exec gc g (checkout_argv c) Capture of (r, g) \<Rightarrow> (res_map go_ok r, g))"

definition create_branch :: "'g git_ctx \<Rightarrow> 'g \<Rightarrow> str \<Rightarrow> str option \<Rightarrow> bool \<Rightarrow> (error, unit) res \<times> 'g" where
  "create_branch gc g name start force =
     git_unit (git_run gc g ([''branch''] @ (if force then [''--force''] else []) @ [name]
       @ (case start of Some s \<Rightarrow> [s] | None \<Rightarrow> [])))"

definition delete_branch :: "'g git_ctx \<Rightarrow> 'g \<Rightarrow> str \<Rightarrow> bool \<Rightarrow> (error, bool) res \<times> 'g" where
  "delete_branch gc g name force = git_succeeds gc g [''branch'', if force then ''-D'' else ''-d'', name]"

definition merge_ff_only :: "'g git_ctx \<Rightarrow> 'g \<Rightarrow> str \<Rightarrow> (error, bool) res \<times> 'g" where
  "merge_ff_only gc g target = git_succeeds gc g [''merge'', ''--ff-only'', target]"

definition reset_hard :: "'g git_ctx \<Rightarrow> 'g \<Rightarrow> str \<Rightarrow> (error, unit) res \<times> 'g" where
  "reset_hard gc g target = git_unit (git_run gc g [''reset'', ''--hard'', target])"

definition worktree_add :: "'g git_ctx \<Rightarrow> 'g \<Rightarrow> str \<Rightarrow> str \<Rightarrow> bool \<Rightarrow> (error, unit) res \<times> 'g" where
  "worktree_add gc g path rv detach =
     git_unit (checked gc g ([''worktree'', ''add''] @ (if detach then [''--detach''] else []) @ [path, rv]) Capture)"

definition update_submodules :: "'g git_ctx \<Rightarrow> 'g \<Rightarrow> (error, unit) res \<times> 'g" where
  "update_submodules gc g =
     git_unit (checked gc g [''submodule'', ''update'', ''--init'', ''--recursive''] Inherit)"

subsection \<open>The command line\<close>

text \<open>
  Running the program: it could not be started, or its status and its two streams (decoded
  lossily); with \<open>Inherit\<close> the streams go to the terminal.
\<close>

datatype spawn_failure = SpawnNotFound | SpawnError io_error

datatype spawn = NotStarted spawn_failure | Ran bool "int option" str str

type_synonym 'g runner = "'g \<Rightarrow> str list \<Rightarrow> git_io \<Rightarrow> spawn \<times> 'g"

definition spawn_error :: "spawn_failure \<Rightarrow> error" where
  "spawn_error s = (case s of
       SpawnNotFound \<Rightarrow> error_new (Usage (Fmt (CHR 0x60 # ''git'' @ CHR 0x60 # '' was not found on PATH; install git, or pass -R owner/name to skip repository detection'') []))
     | SpawnError e \<Rightarrow> error_new (Io e))"

definition cli_exec :: "'g runner \<Rightarrow> 'g \<Rightarrow> str list \<Rightarrow> git_io \<Rightarrow> (error, git_output) res \<times> 'g" where
  "cli_exec run g args io =
     (case run g args io of
        (Ran ok code out err, g) \<Rightarrow>
          (Inr (case io of
              Capture \<Rightarrow> \<lparr>go_ok = ok, go_code = code, go_stdout = out, go_stderr = err\<rparr>
            | Inherit \<Rightarrow> \<lparr>go_ok = ok, go_code = code, go_stdout = [], go_stderr = []\<rparr>), g)
      | (NotStarted s, g) \<Rightarrow> (Inl (spawn_error s), g))"

definition cli_read :: "'g runner \<Rightarrow> 'g \<Rightarrow> str list \<Rightarrow> (error, git_output) res" where
  "cli_read run g args = fst (cli_exec run g args Capture)"

definition cli_git_dir :: "'g runner \<Rightarrow> 'g \<Rightarrow> (error, str option) res" where
  "cli_git_dir run g =
     res_map (\<lambda>out. let dir = trim (go_stdout out) in if go_ok out \<and> dir \<noteq> [] then Some dir else None)
       (cli_read run g [''rev-parse'', ''--git-dir''])"

text \<open>One line of \<open>git remote -v\<close>; the table is ordered by name, like the \<open>BTreeMap\<close>.\<close>

definition TAB :: char where
  "TAB = CHR 0x09"

definition remote_entry :: "str \<Rightarrow> remote list \<Rightarrow> remote list" where
  "remote_entry name rs =
     (if find_by rm_name name rs = None
      then insert_by rm_name \<lparr>rm_name = name, rm_fetch = None, rm_push = None\<rparr> rs else rs)"

definition remote_line :: "remote list \<Rightarrow> str \<Rightarrow> remote list" where
  "remote_line rs line =
     (case split_once_c line TAB of
        None \<Rightarrow> rs
      | Some (name, rest) \<Rightarrow>
          let rest = trim_end rest;
              (url, kind) = (case rsplit_once_c rest CHR '' '' of Some (u, k) \<Rightarrow> (trim u, k) | None \<Rightarrow> (rest, []));
              rs = remote_entry name rs
          in update_by rm_name name (\<lambda>e.
               if kind = ''(fetch)'' then e\<lparr>rm_fetch := Some url\<rparr>
               else if kind = ''(push)'' then e\<lparr>rm_push := Some url\<rparr>
               else e\<lparr>rm_fetch := (case rm_fetch e of Some f \<Rightarrow> Some f | None \<Rightarrow> Some rest),
                      rm_push := (case rm_push e of Some p \<Rightarrow> Some p | None \<Rightarrow> Some rest)\<rparr>) rs)"

definition parse_remote_v :: "str \<Rightarrow> remote list" where
  "parse_remote_v out = foldl remote_line [] (str_lines out)"

definition cli_remotes :: "'g runner \<Rightarrow> 'g \<Rightarrow> (error, remote list) res" where
  "cli_remotes run g =
     res_map (\<lambda>out. if \<not> go_ok out then [] else parse_remote_v (go_stdout out)) (cli_read run g [''remote'', ''-v''])"

definition cli_config_get :: "'g runner \<Rightarrow> 'g \<Rightarrow> str \<Rightarrow> (error, str option) res" where
  "cli_config_get run g key =
     res_map (\<lambda>out. if go_ok out then Some (trim (go_stdout out)) else None) (cli_read run g [''config'', ''--get'', key])"

definition cli_config_get_regexp :: "'g runner \<Rightarrow> 'g \<Rightarrow> str \<Rightarrow> (error, (str \<times> str) list) res" where
  "cli_config_get_regexp run g pattern =
     res_map (\<lambda>out. if \<not> go_ok out then []
         else map (\<lambda>(k, v). (k, trim v)) (List.map_filter (\<lambda>l. split_once_c l CHR '' '') (str_lines (go_stdout out))))
       (cli_read run g [''config'', ''--get-regexp'', pattern])"

definition cli_config_set_local :: "'g runner \<Rightarrow> 'g \<Rightarrow> str \<Rightarrow> str \<Rightarrow> (error, unit) res \<times> 'g" where
  "cli_config_set_local run g key v =
     (let args = [''config'', ''--local'', key, v] in
      case cli_exec run g args Capture of
        (Inl e, g) \<Rightarrow> (Inl e, g)
      | (Inr out, g) \<Rightarrow> (if \<not> go_ok out then Inl (git_failed args out) else Inr (), g))"

definition cli_config_unset_local :: "'g runner \<Rightarrow> 'g \<Rightarrow> str \<Rightarrow> (error, unit) res \<times> 'g" where
  "cli_config_unset_local run g key =
     (let args = [''config'', ''--local'', ''--unset'', key] in
      case cli_exec run g args Capture of
        (Inl e, g) \<Rightarrow> (Inl e, g)
      | (Inr out, g) \<Rightarrow> (if \<not> go_ok out \<and> go_code out \<noteq> Some 5 then Inl (git_failed args out) else Inr (), g))"

definition cli_current_branch :: "'g runner \<Rightarrow> 'g \<Rightarrow> (error, str option) res" where
  "cli_current_branch run g =
     res_map (\<lambda>out. let name = trim (go_stdout out) in if go_ok out \<and> name \<noteq> [] then Some name else None)
       (cli_read run g [''branch'', ''--show-current''])"

definition cli_remote_head :: "'g runner \<Rightarrow> 'g \<Rightarrow> str \<Rightarrow> (error, str option) res" where
  "cli_remote_head run g remote =
     res_map (\<lambda>out. if \<not> go_ok out then None
         else (let s = last (split_c (trim (go_stdout out)) CHR ''/'') in if s = [] then None else Some s))
       (cli_read run g [''symbolic-ref'', ''refs/remotes/'' @ remote @ ''/HEAD''])"

definition git_cli :: "'g runner \<Rightarrow> 'g git_ctx" where
  "git_cli run = \<lparr>gc_exec = cli_exec run, gc_git_dir = cli_git_dir run, gc_remotes = cli_remotes run,
     gc_config_get = cli_config_get run, gc_config_get_regexp = cli_config_get_regexp run,
     gc_config_set_local = cli_config_set_local run, gc_config_unset_local = cli_config_unset_local run,
     gc_current_branch = cli_current_branch run, gc_remote_head = cli_remote_head run\<rparr>"

subsection \<open>The in-memory repository\<close>

record git_action =
  ga_argv :: "str list"
  ga_io :: git_io

definition action_line :: "git_action \<Rightarrow> str" where
  "action_line a = join '' '' (ga_argv a)"

definition action_starts_with :: "git_action \<Rightarrow> str list \<Rightarrow> bool" where
  "action_starts_with a pre = prefix pre (ga_argv a)"

record fake_git =
  fg_git_dir :: "str option"
  fg_remotes :: "remote list"
  fg_config :: "str str_map"
  fg_branch :: "str option"
  fg_remote_heads :: "str str_map"
  fg_revs :: "str list"
  fg_ancestors :: "(str \<times> str) list"
  fg_status :: str
  fg_log :: "(str \<times> commit_message list) list"
  fg_ff_only_succeeds :: bool
  fg_responses :: "git_output list"
  fg_actions :: "git_action list"

definition not_a_repo :: fake_git where
  "not_a_repo = \<lparr>fg_git_dir = None, fg_remotes = [], fg_config = [], fg_branch = None, fg_remote_heads = [],
     fg_revs = [], fg_ancestors = [], fg_status = [], fg_log = [], fg_ff_only_succeeds = False,
     fg_responses = [], fg_actions = []\<rparr>"

definition fake_repo :: fake_git where
  "fake_repo = not_a_repo\<lparr>fg_git_dir := Some ''.git'', fg_ff_only_succeeds := True\<rparr>"

definition with_remote :: "fake_git \<Rightarrow> str \<Rightarrow> str \<Rightarrow> fake_git" where
  "with_remote g name url = g\<lparr>fg_remotes := fg_remotes g @ [\<lparr>rm_name = name, rm_fetch = Some url, rm_push = Some url\<rparr>]\<rparr>"

definition with_split_remote :: "fake_git \<Rightarrow> str \<Rightarrow> str \<Rightarrow> str \<Rightarrow> fake_git" where
  "with_split_remote g name f p = g\<lparr>fg_remotes := fg_remotes g @ [\<lparr>rm_name = name, rm_fetch = Some f, rm_push = Some p\<rparr>]\<rparr>"

definition with_config :: "fake_git \<Rightarrow> str \<Rightarrow> str \<Rightarrow> fake_git" where
  "with_config g key v = g\<lparr>fg_config := map_put key v (fg_config g)\<rparr>"

definition with_branch :: "fake_git \<Rightarrow> str \<Rightarrow> fake_git" where
  "with_branch g name = g\<lparr>fg_branch := Some name\<rparr>"

definition with_remote_head :: "fake_git \<Rightarrow> str \<Rightarrow> str \<Rightarrow> fake_git" where
  "with_remote_head g remote branch = g\<lparr>fg_remote_heads := map_put remote branch (fg_remote_heads g)\<rparr>"

definition with_rev :: "fake_git \<Rightarrow> str \<Rightarrow> fake_git" where
  "with_rev g rv = g\<lparr>fg_revs := rv # fg_revs g\<rparr>"

definition with_ancestor :: "fake_git \<Rightarrow> str \<Rightarrow> str \<Rightarrow> fake_git" where
  "with_ancestor g anc desc = g\<lparr>fg_ancestors := (anc, desc) # fg_ancestors g\<rparr>"

definition with_status :: "fake_git \<Rightarrow> str \<Rightarrow> fake_git" where
  "with_status g porcelain = g\<lparr>fg_status := porcelain\<rparr>"

definition with_log :: "fake_git \<Rightarrow> str \<Rightarrow> (str \<times> str) list \<Rightarrow> fake_git" where
  "with_log g revs commits = g\<lparr>fg_log := (revs, map (\<lambda>(s, b). \<lparr>cm_subject = s, cm_body = b\<rparr>) commits) # fg_log g\<rparr>"

definition with_diverged_branch :: "fake_git \<Rightarrow> fake_git" where
  "with_diverged_branch g = g\<lparr>fg_ff_only_succeeds := False\<rparr>"

definition with_response :: "fake_git \<Rightarrow> git_output \<Rightarrow> fake_git" where
  "with_response g out = g\<lparr>fg_responses := fg_responses g @ [out]\<rparr>"

definition command_lines :: "fake_git \<Rightarrow> str list" where
  "command_lines g = map action_line (fg_actions g)"

definition action_starting_with :: "fake_git \<Rightarrow> str list \<Rightarrow> git_action option" where
  "action_starting_with g pre = List.find (\<lambda>a. action_starts_with a pre) (fg_actions g)"

definition full_message :: "commit_message \<Rightarrow> str" where
  "full_message c = (if cm_body c = [] then cm_subject c else cm_subject c @ [NL, NL] @ cm_body c)"

definition ok_or_no :: "bool \<Rightarrow> git_output" where
  "ok_or_no yes = (if yes then git_success else git_failure 1 [])"

definition rename_remote :: "str \<Rightarrow> str \<Rightarrow> remote list \<Rightarrow> remote list" where
  "rename_remote old new rs = update_by rm_name old (\<lambda>r. r\<lparr>rm_name := new\<rparr>) rs"

definition fake_exec :: "fake_git \<Rightarrow> str list \<Rightarrow> git_io \<Rightarrow> (error, git_output) res \<times> fake_git" where
  "fake_exec g args io =
     (let g = g\<lparr>fg_actions := fg_actions g @ [\<lparr>ga_argv = args, ga_io = io\<rparr>]\<rparr>;
          n = length args
      in if n = 4 \<and> take 3 args = [''rev-parse'', ''--verify'', ''--quiet'']
         then (Inr (ok_or_no (List.member (fg_revs g) (args ! 3))), g)
         else if n = 4 \<and> take 2 args = [''merge-base'', ''--is-ancestor'']
         then (Inr (ok_or_no (List.member (fg_ancestors g) (args ! 2, args ! 3))), g)
         else if args = [''status'', ''--porcelain'']
         then (Inr (with_stdout git_success (fg_status g)), g)
         else if n = 3 \<and> take 2 args = [''merge'', ''--ff-only'']
         then (Inr (if fg_ff_only_succeeds g then git_success
                    else git_failure 1 ''fatal: Not possible to fast-forward, aborting.''), g)
         else if n = 5 \<and> take 3 args = [''log'', ''--reverse'', ''--no-merges'']
         then (let commits = (case map_of (fg_log g) (args ! 4) of Some cs \<Rightarrow> cs | None \<Rightarrow> []);
                   rendered = (if args ! 3 = ''--pretty=format:%s'' then join [NL] (map cm_subject commits)
                               else join [CHR 0x00] (map full_message commits))
               in (Inr (with_stdout git_success rendered), g))
         else if n = 4 \<and> take 2 args = [''remote'', ''add'']
         then (Inr git_success, with_remote g (args ! 2) (args ! 3))
         else if n = 4 \<and> take 2 args = [''remote'', ''rename'']
         then (if find_by rm_name (args ! 2) (fg_remotes g) = None
               then (Inr (git_failure 128 (''error: No such remote: '' @ [CHR 0x27] @ (args ! 2) @ [CHR 0x27])), g)
               else (Inr git_success, g\<lparr>fg_remotes := rename_remote (args ! 2) (args ! 3) (fg_remotes g)\<rparr>))
         else (case fg_responses g of
                 [] \<Rightarrow> (Inr git_success, g)
               | r # rs \<Rightarrow> (Inr r, g\<lparr>fg_responses := rs\<rparr>)))"

text \<open>The subset of regular expressions the fake understands.\<close>

definition fake_pattern :: "str \<Rightarrow> str \<Rightarrow> bool" where
  "fake_pattern pattern k =
     (let anchored_start = strip_prefix pattern ''^'';
          pattern_body = (case anchored_start of Some b \<Rightarrow> b | None \<Rightarrow> pattern);
          (body, anchored_end) = (case strip_suffix pattern_body ''$'' of Some b \<Rightarrow> (b, True) | None \<Rightarrow> (pattern_body, False));
          literal = replace_all (replace_all body [CHR 0x5C, CHR ''.''] ''.'') ''.*'' [CHR 0x00];
          (head, tail) = (case split_once_c literal (CHR 0x00) of Some p \<Rightarrow> p | None \<Rightarrow> (literal, []))
      in (if anchored_start \<noteq> None then starts_with k head else contains k head)
         \<and> (if anchored_end then ends_with k tail else contains k tail))"

definition fake_config_get_regexp :: "fake_git \<Rightarrow> str \<Rightarrow> (error, (str \<times> str) list) res" where
  "fake_config_get_regexp g pattern = Inr (filter (\<lambda>(k, _). fake_pattern pattern k) (fg_config g))"

definition fake_config_set_local :: "fake_git \<Rightarrow> str \<Rightarrow> str \<Rightarrow> (error, unit) res \<times> fake_git" where
  "fake_config_set_local g key v =
     (Inr (), g\<lparr>fg_actions := fg_actions g @ [\<lparr>ga_argv = [''config'', ''--local'', key, v], ga_io = Capture\<rparr>],
                fg_config := map_put key v (fg_config g)\<rparr>)"

definition fake_config_unset_local :: "fake_git \<Rightarrow> str \<Rightarrow> (error, unit) res \<times> fake_git" where
  "fake_config_unset_local g key =
     (Inr (), g\<lparr>fg_actions := fg_actions g @ [\<lparr>ga_argv = [''config'', ''--local'', ''--unset'', key], ga_io = Capture\<rparr>],
                fg_config := remove_by fst key (fg_config g)\<rparr>)"

definition git_fake :: "fake_git git_ctx" where
  "git_fake = \<lparr>gc_exec = fake_exec, gc_git_dir = (\<lambda>g. Inr (fg_git_dir g)), gc_remotes = (\<lambda>g. Inr (fg_remotes g)),
     gc_config_get = (\<lambda>g key. Inr (map_get key (fg_config g))), gc_config_get_regexp = fake_config_get_regexp,
     gc_config_set_local = fake_config_set_local, gc_config_unset_local = fake_config_unset_local,
     gc_current_branch = (\<lambda>g. Inr (fg_branch g)),
     gc_remote_head = (\<lambda>g remote. Inr (map_get remote (fg_remote_heads g)))\<rparr>"

subsection \<open>The contract of the configuration\<close>

text \<open>
  What \<open>fjo repo set-default\<close> and the repository resolution rely on: a value that was set is
  read back, by name and by pattern, unsetting is idempotent, and other keys keep their values.
\<close>

locale git_config =
  fixes gc :: "'g git_ctx"
    and valid :: "'g \<Rightarrow> bool"
  assumes set_valid: "valid g \<Longrightarrow> gc_config_set_local gc g k v = (Inr (), g') \<Longrightarrow> valid g'"
    and unset_valid: "valid g \<Longrightarrow> gc_config_unset_local gc g k = (Inr (), g') \<Longrightarrow> valid g'"
    and set_get: "valid g \<Longrightarrow> gc_config_set_local gc g k v = (Inr (), g') \<Longrightarrow>
      gc_config_get gc g' j = (if j = k then Inr (Some v) else gc_config_get gc g j)"
    and unset_get: "valid g \<Longrightarrow> gc_config_unset_local gc g k = (Inr (), g') \<Longrightarrow>
      gc_config_get gc g' j = (if j = k then Inr None else gc_config_get gc g j)"
    and regexp_get: "valid g \<Longrightarrow> gc_config_get_regexp gc g p = Inr kvs \<Longrightarrow> (k, v) \<in> set kvs \<Longrightarrow>
      gc_config_get gc g k = Inr (Some v)"
    and set_remotes: "gc_config_set_local gc g k v = (r, g') \<Longrightarrow>
      gc_remotes gc g' = gc_remotes gc g \<and> gc_git_dir gc g' = gc_git_dir gc g"
begin

lemma set_unset_get:
  assumes "valid g" "gc_config_set_local gc g k v = (Inr (), g1)" "gc_config_unset_local gc g1 k = (Inr (), g2)"
  shows "gc_config_get gc g2 k = Inr None \<and> (j \<noteq> k \<longrightarrow> gc_config_get gc g2 j = gc_config_get gc g j)"
  using unset_get [OF set_valid [OF assms(1,2)] assms(3)] set_get [OF assms(1,2)] by simp

lemma unset_twice:
  assumes "valid g" "gc_config_unset_local gc g k = (Inr (), g1)" "gc_config_unset_local gc g1 k = (Inr (), g2)"
  shows "gc_config_get gc g2 j = gc_config_get gc g1 j"
  using unset_get [OF unset_valid [OF assms(1,2)] assms(3), of j] unset_get [OF assms(1,2), of j] by simp

end

interpretation rl: keyed_list rm_name "find_by rm_name" "insert_by rm_name" "remove_by rm_name" "update_by rm_name"
  by (rule keyed_list_by)

interpretation fgc: git_config git_fake "\<lambda>g. distinct (map fst (fg_config g))"
proof
  fix g g' :: fake_git and k v j p kvs r
  show "distinct (map fst (fg_config g'))"
    if "distinct (map fst (fg_config g))" "gc_config_set_local git_fake g k v = (Inr (), g')"
    using that by (auto simp: git_fake_def fake_config_set_local_def map_put_distinct)
  show "distinct (map fst (fg_config g'))"
    if "distinct (map fst (fg_config g))" "gc_config_unset_local git_fake g k = (Inr (), g')"
    using that by (auto simp: git_fake_def fake_config_unset_local_def intro: cl.remov_distinct)
  show "gc_config_get git_fake g' j = (if j = k then Inr (Some v) else gc_config_get git_fake g j)"
    if "distinct (map fst (fg_config g))" "gc_config_set_local git_fake g k v = (Inr (), g')"
    using that by (auto simp: git_fake_def fake_config_set_local_def map_get_put)
  show "gc_config_get git_fake g' j = (if j = k then Inr None else gc_config_get git_fake g j)"
    if "distinct (map fst (fg_config g))" "gc_config_unset_local git_fake g k = (Inr (), g')"
    using that by (auto simp: git_fake_def fake_config_unset_local_def map_get_def remove_lookup_other)
  show "gc_config_get git_fake g k = Inr (Some v)"
    if "distinct (map fst (fg_config g))" "gc_config_get_regexp git_fake g p = Inr kvs" "(k, v) \<in> set kvs"
  proof -
    have "(k, v) \<in> set (fg_config g)" using that by (auto simp: git_fake_def fake_config_get_regexp_def)
    then have "find_by fst (fst (k, v)) (fg_config g) = Some (k, v)" by (rule cl.lookup_in [OF that(1)])
    then show ?thesis by (simp add: git_fake_def map_get_def)
  qed
  show "gc_remotes git_fake g' = gc_remotes git_fake g \<and> gc_git_dir git_fake g' = gc_git_dir git_fake g"
    if "gc_config_set_local git_fake g k v = (r, g')"
    using that by (auto simp: git_fake_def fake_config_set_local_def)
qed

end
