(* ===== verification/Context.thy ===== *)
theory Context
  imports Hosts Remote_Url Git "HOL-Library.Product_Lexorder"
begin

text \<open>
  Which repository and host a command is about: \<open>crates/forgejo-core/src/context/mod.rs\<close>.  The
  order is \<open>-R\<close>, the environment, \<open>remote.<name>.fjo-resolved\<close>, then the remotes by name.
\<close>

subsection \<open>Remotes in order of preference\<close>

definition RESOLVED_SUFFIX :: str where
  "RESOLVED_SUFFIX = ''fjo-resolved''"

definition RESOLVED_BASE :: str where
  "RESOLVED_BASE = ''base''"

definition RESOLVED_NONE :: str where
  "RESOLVED_NONE = ''NONE''"

definition resolved_key :: "str \<Rightarrow> str" where
  "resolved_key remote = ''remote.'' @ remote @ ''.'' @ RESOLVED_SUFFIX"

text \<open>The pattern \<open>^remote\..*\.fjo-resolved$\<close>.\<close>

definition resolved_pattern :: str where
  "resolved_pattern = ''^remote'' @ [CHR 0x5C] @ ''..*'' @ [CHR 0x5C] @ ''.'' @ RESOLVED_SUFFIX @ ''$''"

definition remote_score :: "str \<Rightarrow> nat" where
  "remote_score name =
     (if name = ''upstream'' then 3
      else if name = ''forgejo'' \<or> name = ''codeberg'' then 2
      else if name = ''origin'' then 1
      else 0)"

text \<open>The key that \<open>by_preference\<close> compares: higher scores first, then by name.\<close>

definition preference :: "remote \<Rightarrow> nat \<times> str" where
  "preference r = (3 - remote_score (rm_name r), rm_name r)"

definition by_preference :: "remote list \<Rightarrow> remote list" where
  "by_preference rs = sort_key preference rs"

text \<open>The first URL that names a repository on a known host.\<close>

fun first_match :: "host_key list \<Rightarrow> str list \<Rightarrow> (host_key \<times> repo_slug) option" where
  "first_match keys [] = None"
| "first_match keys (u # us) =
     (case remote_resolve u keys of Matched h s \<Rightarrow> Some (h, s) | _ \<Rightarrow> first_match keys us)"

definition configured_value :: "(str \<times> str) list \<Rightarrow> remote \<Rightarrow> str option" where
  "configured_value configured r = map_option snd (List.find (\<lambda>(k, _). k = resolved_key (rm_name r)) configured)"

subsection \<open>The host of a checkout\<close>

text \<open>The loop over the configured remotes: \<open>None\<close> means that it fell through.\<close>

fun configured_host :: "hosts \<Rightarrow> (str \<times> str) list \<Rightarrow> remote list \<Rightarrow> host_key option option" where
  "configured_host hosts configured [] = None"
| "configured_host hosts configured (r # rs) =
     (case configured_value configured r of
        None \<Rightarrow> configured_host hosts configured rs
      | Some v \<Rightarrow>
          let v = trim v in
          if v = RESOLVED_NONE then Some None
          else if v = RESOLVED_BASE then
            (case first_match (host_keys hosts) (remote_urls r) of
               Some (h, _) \<Rightarrow> Some (Some h)
             | None \<Rightarrow> configured_host hosts configured rs)
          else
            (case repo_ref_from_str v of
               Inl _ \<Rightarrow> configured_host hosts configured rs
             | Inr ref \<Rightarrow>
                 (case ref_host ref of
                    None \<Rightarrow> configured_host hosts configured rs
                  | Some h \<Rightarrow>
                      (case host_key_parse h of
                         Inl _ \<Rightarrow> configured_host hosts configured rs
                       | Inr key \<Rightarrow>
                           if host_contains hosts key then Some (Some key)
                           else configured_host hosts configured rs))))"

fun url_host :: "host_key list \<Rightarrow> remote list \<Rightarrow> host_key option" where
  "url_host keys [] = None"
| "url_host keys (r # rs) =
     (case first_match keys (remote_urls r) of Some (h, _) \<Rightarrow> Some h | None \<Rightarrow> url_host keys rs)"

definition host_from_remotes :: "'g git_ctx \<Rightarrow> 'g \<Rightarrow> hosts \<Rightarrow> (error, host_key option) res" where
  "host_from_remotes gc g hosts =
     res_bind (gc_git_dir gc g) (\<lambda>dir.
       if dir = None then Inr None
       else res_bind (gc_remotes gc g) (\<lambda>remotes.
         res_bind (gc_config_get_regexp gc g resolved_pattern) (\<lambda>configured.
           case configured_host hosts configured (by_preference remotes) of
             Some r \<Rightarrow> Inr r
           | None \<Rightarrow> Inr (url_host (host_keys hosts) (by_preference remotes)))))"

subsection \<open>The repository\<close>

datatype repo_source = SrcFlag | SrcEnv str | SrcGitConfig str str | SrcRemote str nat

text \<open>The name is printed with \<open>Debug\<close>, whose quoting is the parameter \<open>q\<close>.\<close>

fun source_show :: "(str \<Rightarrow> str) \<Rightarrow> repo_source \<Rightarrow> str" where
  "source_show q SrcFlag = ''-R/--repo''"
| "source_show q (SrcEnv var) = CHR ''$'' # var"
| "source_show q (SrcGitConfig remote v) = ''git config remote.'' @ remote @ ''.'' @ RESOLVED_SUFFIX @ ''='' @ v"
| "source_show q (SrcRemote remote score) = ''remote '' @ q remote @ '' (score '' @ show_nat score @ '')''"

record repo_context =
  rx_host :: host_key
  rx_login :: "str option"
  rx_slug :: repo_slug
  rx_source :: repo_source

record resolve_options =
  ro_repo :: "repo_ref option"
  ro_host :: "str option"
  ro_login :: "str option"

definition require_git_repo :: "'g git_ctx \<Rightarrow> 'g \<Rightarrow> (error, str) res" where
  "require_git_repo gc g = res_bind (gc_git_dir gc g) (\<lambda>d. case d of Some p \<Rightarrow> Inr p | None \<Rightarrow> Inl (error_new NotAGitRepo))"

definition attempt_new :: "str \<Rightarrow> msg \<Rightarrow> attempt" where
  "attempt_new what outcome = \<lparr>att_what = what, att_outcome = outcome\<rparr>"

type_synonym host_pref = "(str \<times> str) option"

definition pref_of :: "resolve_options \<Rightarrow> env \<Rightarrow> host_pref" where
  "pref_of opts env =
     (case ro_host opts of Some h \<Rightarrow> Some (h, ''--host'')
      | None \<Rightarrow> (case env_get env ''FJO_HOST'' of Some v \<Rightarrow> Some (v, ''$FJO_HOST'')
        | None \<Rightarrow> (case env_get env ''FORGEJO_HOST'' of Some v \<Rightarrow> Some (v, ''$FORGEJO_HOST'') | None \<Rightarrow> None)))"

definition login_of :: "resolve_options \<Rightarrow> env \<Rightarrow> str option" where
  "login_of opts env =
     (case ro_login opts of Some l \<Rightarrow> Some l
      | None \<Rightarrow> (case env_get env ''FJO_USER'' of Some v \<Rightarrow> Some v | None \<Rightarrow> env_get env ''FORGEJO_USER''))"

definition explicit_or :: "hosts \<Rightarrow> host_pref \<Rightarrow> host_key \<Rightarrow> (error, host_key) res" where
  "explicit_or hosts pref matched =
     (case pref of
        Some (h, _) \<Rightarrow> res_bind (host_key_parse h) (\<lambda>key.
            if host_contains hosts key then Inr key else Inl (error_new (UnknownHost h (known hosts))))
      | None \<Rightarrow> Inr matched)"

definition host_from_pref :: "'g git_ctx \<Rightarrow> 'g \<Rightarrow> hosts \<Rightarrow> host_pref \<Rightarrow> env \<Rightarrow> (error, host_key) res" where
  "host_from_pref gc g hosts pref env =
     (case pref of
        Some (h, _) \<Rightarrow> res_bind (host_key_parse h) (\<lambda>key.
            if host_contains hosts key then Inr key else Inl (error_new (UnknownHost h (known hosts))))
      | None \<Rightarrow> res_bind (host_from_remotes gc g hosts) (\<lambda>r.
            case r of Some key \<Rightarrow> Inr key | None \<Rightarrow> resolve_host hosts None env))"

definition finish :: "hosts \<Rightarrow> host_key \<Rightarrow> str option \<Rightarrow> repo_slug \<Rightarrow> repo_source \<Rightarrow> (error, repo_context) res" where
  "finish hosts host login slug source =
     (if \<not> host_contains hosts host then Inl (error_new (UnknownHost (key_str host) (known hosts)))
      else res_map (\<lambda>l. \<lparr>rx_host = host, rx_login = l, rx_slug = slug, rx_source = source\<rparr>)
        (case login of
           Some u \<Rightarrow> res_map Some (resolve_login hosts host (Some u))
         | None \<Rightarrow> Inr (res_ok (resolve_login hosts host None))))"

text \<open>\<open>-R/--repo\<close>.\<close>

definition resolve_flag ::
  "'g git_ctx \<Rightarrow> 'g \<Rightarrow> hosts \<Rightarrow> env \<Rightarrow> host_pref \<Rightarrow> str option \<Rightarrow> repo_ref \<Rightarrow> (error, repo_context) res" where
  "resolve_flag gc g hosts env pref login r =
     res_bind (case (ref_host r, pref) of
         (Some from_flag, Some (from_host, label)) \<Rightarrow>
           res_bind (host_key_parse from_flag) (\<lambda>a. res_bind (host_key_parse from_host) (\<lambda>b.
             if a \<noteq> b
             then Inl (error_new (Usage (Fmt ''-R names host {a}, but {label} says {b}; they must agree, so drop one of them''
                    [key_str a, label, key_str b])))
             else Inr a))
       | (Some from_flag, None) \<Rightarrow> host_key_parse from_flag
       | (None, _) \<Rightarrow> host_from_pref gc g hosts pref env)
       (\<lambda>host. finish hosts host login (ref_slug r) SrcFlag)"

text \<open>\<open>$FJO_REPO\<close>, \<open>$FORGEJO_REPO\<close>: the result, or the attempts so far.\<close>

fun resolve_env ::
  "'g git_ctx \<Rightarrow> 'g \<Rightarrow> hosts \<Rightarrow> env \<Rightarrow> host_pref \<Rightarrow> str option \<Rightarrow> str list \<Rightarrow> attempt list \<Rightarrow>
   (attempt list, (error, repo_context) res) res" where
  "resolve_env gc g hosts env pref login [] tried = Inl tried"
| "resolve_env gc g hosts env pref login (var # vars) tried =
     (case env_get env var of
        None \<Rightarrow> resolve_env gc g hosts env pref login vars (tried @ [attempt_new (CHR ''$'' # var) (Fmt ''not set'' [])])
      | Some v \<Rightarrow>
          Inr (case repo_ref_from_str v of
                 Inl e \<Rightarrow> Inl (error_new (Usage (Fmt ''${var} is not a repository: {e}'' [var, pse_input e, pse_reason e])))
               | Inr r \<Rightarrow>
                   res_bind (case ref_host r of Some h \<Rightarrow> host_key_parse h | None \<Rightarrow> host_from_pref gc g hosts pref env)
                     (\<lambda>host. finish hosts host login (ref_slug r) (SrcEnv var))))"

text \<open>The URLs of a remote marked \<open>base\<close>: a match, or the first unknown host seen.\<close>

fun base_urls :: "host_key list \<Rightarrow> str list \<Rightarrow> str option \<Rightarrow> (str option, host_key \<times> repo_slug) res" where
  "base_urls keys [] seen = Inl seen"
| "base_urls keys (u # us) seen =
     (case remote_resolve u keys of
        Matched h s \<Rightarrow> Inr (h, s)
      | UnknownRemoteHost h \<Rightarrow> base_urls keys us (case seen of Some x \<Rightarrow> Some x | None \<Rightarrow> Some h)
      | NotARepoPath _ _ \<Rightarrow> base_urls keys us seen
      | Unparseable \<Rightarrow> base_urls keys us seen)"

fun resolve_configured ::
  "'g git_ctx \<Rightarrow> 'g \<Rightarrow> hosts \<Rightarrow> env \<Rightarrow> host_pref \<Rightarrow> str option \<Rightarrow> (str \<times> str) list \<Rightarrow> remote list \<Rightarrow> attempt list \<Rightarrow>
   (attempt list, (error, repo_context) res) res" where
  "resolve_configured gc g hosts env pref login configured [] tried = Inl tried"
| "resolve_configured gc g hosts env pref login configured (r # rs) tried =
     (case configured_value configured r of
        None \<Rightarrow> resolve_configured gc g hosts env pref login configured rs tried
      | Some v \<Rightarrow>
          let key = resolved_key (rm_name r); v = trim v in
          if v = RESOLVED_NONE then
            Inr (Inl (error_new (RepoNotResolved (tried @ [attempt_new ''git config fjo-resolved''
              (Fmt (''{key} is {RESOLVED_NONE}: you opted out for this remote. Pass -R owner/name, or run '' @ CHR 0x60 # ''fjo repo set-default'' @ CHR 0x60 # '' to choose one'') [key, RESOLVED_NONE])]))))
          else if v = RESOLVED_BASE then
            (case base_urls (host_keys hosts) (remote_urls r) None of
               Inr (h, slug) \<Rightarrow>
                 Inr (res_bind (explicit_or hosts pref h) (\<lambda>host.
                   finish hosts host login slug (SrcGitConfig (rm_name r) v)))
             | Inl (Some host) \<Rightarrow> Inr (Inl (error_new (RemoteHostUnknown (rm_name r) host)))
             | Inl None \<Rightarrow>
                 resolve_configured gc g hosts env pref login configured rs
                   (tried @ [attempt_new ''git config fjo-resolved''
                      (Fmt (''{key} is '' @ CHR 0x60 # ''{RESOLVED_BASE}'' @ CHR 0x60 # '', but {}'' @ CHR 0x27 # ''s URL is not a repository URL'') [key, RESOLVED_BASE, rm_name r])]))
          else
            Inr (case repo_ref_from_str v of
                   Inl e \<Rightarrow> Inl (error_new (Usage (Fmt (''git config {key} is {value:?}, which is not '' @ CHR 0x60 # ''{RESOLVED_BASE}'' @ CHR 0x60 # '', '' @ CHR 0x60 # ''{RESOLVED_NONE}'' @ CHR 0x60 # '', '' @ CHR 0x60 # ''owner/name'' @ CHR 0x60 # '', or '' @ CHR 0x60 # ''host/owner/name'' @ CHR 0x60 # '': {e}'')
                     [key, v, RESOLVED_BASE, RESOLVED_NONE, pse_input e, pse_reason e])))
                 | Inr ref \<Rightarrow>
                     res_bind (case ref_host ref of Some h \<Rightarrow> host_key_parse h | None \<Rightarrow> host_from_pref gc g hosts pref env)
                       (\<lambda>host. finish hosts host login (ref_slug ref) (SrcGitConfig (rm_name r) v))))"

text \<open>Scoring: the match of one remote and the first unknown host, then all the matches.\<close>

fun scan_urls :: "host_key list \<Rightarrow> str \<Rightarrow> str list \<Rightarrow> (str \<times> str) option \<Rightarrow>
    (host_key \<times> repo_slug) option \<times> (str \<times> str) option" where
  "scan_urls keys name [] unknown = (None, unknown)"
| "scan_urls keys name (u # us) unknown =
     (case remote_resolve u keys of
        Matched h s \<Rightarrow> (Some (h, s), unknown)
      | UnknownRemoteHost h \<Rightarrow> scan_urls keys name us (if unknown = None then Some (name, h) else unknown)
      | NotARepoPath _ _ \<Rightarrow> scan_urls keys name us unknown
      | Unparseable \<Rightarrow> scan_urls keys name us unknown)"

type_synonym scored = "nat \<times> remote \<times> host_key \<times> repo_slug"

fun scan_remotes :: "host_key list \<Rightarrow> remote list \<Rightarrow> (str \<times> str) option \<Rightarrow> scored list \<times> (str \<times> str) option" where
  "scan_remotes keys [] unknown = ([], unknown)"
| "scan_remotes keys (r # rs) unknown =
     (case scan_urls keys (rm_name r) (remote_urls r) unknown of
        (m, unknown) \<Rightarrow>
          (case scan_remotes keys rs unknown of
             (matched, unknown) \<Rightarrow>
               (case m of Some (h, s) \<Rightarrow> ((remote_score (rm_name r), r, h, s) # matched, unknown)
                | None \<Rightarrow> (matched, unknown))))"

definition resolve_scored ::
  "hosts \<Rightarrow> host_pref \<Rightarrow> str option \<Rightarrow> remote list \<Rightarrow> remote list \<Rightarrow> attempt list \<Rightarrow> (error, repo_context) res" where
  "resolve_scored hosts pref login remotes ordered tried =
     (case scan_remotes (host_keys hosts) ordered None of
        (matched, unknown) \<Rightarrow>
          if matched = [] then
            (case unknown of
               Some (remote, host) \<Rightarrow> Inl (error_new (RemoteHostUnknown remote host))
             | None \<Rightarrow> Inl (error_new (RepoNotResolved (tried @ [attempt_new ''git remotes''
                 (if remotes = [] then Fmt ''this repository has no remotes'' []
                  else Fmt ''none of {} named a repository on a known host'' [join '', '' (map rm_name remotes)])]))))
          else
            (let top = Max (set (map fst matched));
                 at_top = filter (\<lambda>m. fst m = top) matched
             in if 1 < length at_top then
                  Inl (error_new (AmbiguousRemote (map (\<lambda>(_, remote, host, slug).
                    \<lparr>rc_remote = rm_name remote, rc_host = key_str host, rc_slug = slug_show slug\<rparr>) at_top)))
                else (case hd at_top of
                  (score, remote, host, slug) \<Rightarrow>
                    res_bind (explicit_or hosts pref host) (\<lambda>host.
                      finish hosts host login slug (SrcRemote (rm_name remote) score)))))"

definition resolve_repo ::
  "'g git_ctx \<Rightarrow> 'g \<Rightarrow> hosts \<Rightarrow> env \<Rightarrow> resolve_options \<Rightarrow> (error, repo_context) res" where
  "resolve_repo gc g hosts env opts =
     (let pref = pref_of opts env; login = login_of opts env in
      case ro_repo opts of
        Some r \<Rightarrow> resolve_flag gc g hosts env pref login r
      | None \<Rightarrow>
          (case resolve_env gc g hosts env pref login [''FJO_REPO'', ''FORGEJO_REPO'']
                  [attempt_new ''-R/--repo'' (Fmt ''not given'' [])] of
             Inr result \<Rightarrow> result
           | Inl tried \<Rightarrow>
               res_bind (gc_git_dir gc g) (\<lambda>dir.
                 if dir = None then
                   Inl (error_new (RepoNotResolved (tried @ [attempt_new ''git work tree''
                     (Fmt ''not inside one, so there are no remotes to inspect'' [])])))
                 else res_bind (gc_remotes gc g) (\<lambda>remotes.
                   res_bind (gc_config_get_regexp gc g resolved_pattern) (\<lambda>configured.
                     case resolve_configured gc g hosts env pref login configured (by_preference remotes) tried of
                       Inr result \<Rightarrow> result
                     | Inl tried \<Rightarrow>
                         resolve_scored hosts pref login remotes (by_preference remotes)
                           (tried @ [attempt_new ''git config fjo-resolved'' (Fmt ''not set on any remote'' [])]))))))"

subsection \<open>Lemmas\<close>

lemma finish_Inr:
  "finish hosts host login slug source = Inr ctx \<Longrightarrow>
   rx_host ctx = host \<and> rx_slug ctx = slug \<and> rx_source ctx = source \<and> host_contains hosts host"
  by (auto simp: finish_def res_map_eq_Inr split: if_splits)

lemma base_urls_first:
  "base_urls keys us seen = Inr p \<Longrightarrow> first_match keys us = Some p"
  "base_urls keys us seen = Inl x \<Longrightarrow> first_match keys us = None"
  by (induction us arbitrary: seen) (auto split: resolution.splits)

lemma scan_urls_first: "fst (scan_urls keys name us unknown) = first_match keys us"
  by (induction us arbitrary: unknown) (auto split: resolution.splits)

definition remote_match :: "host_key list \<Rightarrow> remote \<Rightarrow> scored option" where
  "remote_match keys r = map_option (\<lambda>(h, s). (remote_score (rm_name r), r, h, s)) (first_match keys (remote_urls r))"

lemma scan_remotes_matches:
  "fst (scan_remotes keys rs unknown) = List.map_filter (remote_match keys) rs"
proof (induction rs arbitrary: unknown)
  case (Cons r rs)
  obtain m u where m: "scan_urls keys (rm_name r) (remote_urls r) unknown = (m, u)" by fastforce
  then have "m = first_match keys (remote_urls r)" using scan_urls_first [of keys "rm_name r" "remote_urls r" unknown] by simp
  then show ?case using Cons [of u] m
    by (auto simp: List.map_filter_simps remote_match_def split: prod.splits option.splits)
qed (simp add: List.map_filter_simps)

lemma url_host_first:
  "url_host keys rs = (case List.map_filter (remote_match keys) rs of [] \<Rightarrow> None | (_, _, h, _) # _ \<Rightarrow> Some h)"
  by (induction rs) (auto simp: List.map_filter_simps remote_match_def split: option.splits)

lemma map_filter_mem: "y \<in> set (List.map_filter f xs) \<longleftrightarrow> (\<exists>x\<in>set xs. f x = Some y)"
  by (auto simp: List.map_filter_def image_iff)

lemma by_preference_set [simp]: "set (by_preference rs) = set rs"
  by (simp add: by_preference_def)

text \<open>The first match in the order of preference has the top score.\<close>

lemma preferred_head_top:
  assumes "List.map_filter (remote_match keys) (by_preference rs) = m # ms"
  shows "\<forall>x\<in>set (m # ms). fst x \<le> fst m"
proof -
  have gen: "sorted (map preference xs) \<Longrightarrow> List.map_filter (remote_match keys) xs = m # ms \<Longrightarrow>
    \<forall>x\<in>set (m # ms). fst x \<le> fst m" for xs
  proof (induction xs)
    case (Cons r xs)
    show ?case
    proof (cases "remote_match keys r")
      case None
      then show ?thesis using Cons by (simp add: List.map_filter_simps)
    next
      case (Some y)
      then have m: "m = y" and ms: "ms = List.map_filter (remote_match keys) xs" using Cons.prems(2)
        by (simp_all add: List.map_filter_simps)
      have sc: "remote_score n \<le> 3" for n by (simp add: remote_score_def)
      have le: "remote_score (rm_name q) \<le> remote_score (rm_name r)" if "q \<in> set xs" for q
      proof -
        have "preference r \<le> preference q" using Cons.prems(1) that by simp
        then have "3 - remote_score (rm_name r) \<le> 3 - remote_score (rm_name q)"
          by (auto simp: preference_def less_eq_prod_def)
        then show ?thesis using sc [of "rm_name r"] sc [of "rm_name q"] by linarith
      qed
      have fy: "fst y = remote_score (rm_name r)" using Some by (auto simp: remote_match_def)
      have "fst x \<le> fst y" if "x \<in> set ms" for x
      proof -
        from that ms obtain q where q: "q \<in> set xs" "remote_match keys q = Some x" by (auto simp: map_filter_mem)
        then have "fst x = remote_score (rm_name q)" by (auto simp: remote_match_def)
        then show ?thesis using le [OF q(1)] fy by simp
      qed
      then show ?thesis using m by auto
    qed
  qed (simp add: List.map_filter_simps)
  show ?thesis by (rule gen [OF _ assms]) (simp add: by_preference_def)
qed

lemma resolve_configured_Inl:
  "resolve_configured gc g hosts env pref login configured rs tried = Inl tried' \<Longrightarrow>
   configured_host hosts configured rs = None"
proof (induction rs arbitrary: tried)
  case (Cons r rs)
  show ?case
  proof (cases "configured_value configured r")
    case None
    then show ?thesis using Cons by simp
  next
    case (Some v)
    show ?thesis using Cons.prems Some base_urls_first(2) [of "host_keys hosts" "remote_urls r" None None]
      by (auto simp: Let_def split: if_splits sum.splits option.splits intro: Cons.IH)
  qed
qed simp

lemma resolve_configured_host:
  assumes "resolve_configured gc g hosts env None login configured rs tried = Inr (Inr ctx)"
  shows "configured_host hosts configured rs = Some (Some (rx_host ctx))
    \<or> host_from_pref gc g hosts None env = Inr (rx_host ctx)"
  using assms
proof (induction rs arbitrary: tried)
  case (Cons r rs)
  show ?case
  proof (cases "configured_value configured r")
    case None
    then show ?thesis using Cons by simp
  next
    case (Some v)
    consider (none) "trim v = RESOLVED_NONE" | (base) "trim v = RESOLVED_BASE" "trim v \<noteq> RESOLVED_NONE"
      | (other) "trim v \<noteq> RESOLVED_BASE" "trim v \<noteq> RESOLVED_NONE" by blast
    then show ?thesis
    proof cases
      case none
      then show ?thesis using Cons.prems Some by (simp add: Let_def)
    next
      case base
      show ?thesis
      proof (cases "base_urls (host_keys hosts) (remote_urls r) None")
        case (Inr p)
        obtain h s where p: "p = (h, s)" by fastforce
        have "finish hosts h login s (SrcGitConfig (rm_name r) (trim v)) = Inr ctx"
          using Cons.prems Some base Inr p by (simp add: Let_def explicit_or_def)
        then show ?thesis using finish_Inr Some base base_urls_first(1) [OF Inr] p by (fastforce simp: Let_def)
      next
        case (Inl x)
        show ?thesis using Cons.prems Some base Inl base_urls_first(2) [OF Inl] Cons.IH
          by (auto simp: Let_def split: option.splits)
      qed
    next
      case other
      have "\<exists>ref. repo_ref_from_str (trim v) = Inr ref" using Cons.prems Some other
        by (auto simp: Let_def split: sum.splits)
      then obtain ref where ref: "repo_ref_from_str (trim v) = Inr ref" by blast
      have "\<exists>host. (case ref_host ref of Some h \<Rightarrow> host_key_parse h | None \<Rightarrow> host_from_pref gc g hosts None env) = Inr host
          \<and> finish hosts host login (ref_slug ref) (SrcGitConfig (rm_name r) (trim v)) = Inr ctx"
        using Cons.prems Some other ref by (simp add: Let_def res_bind_eq_Inr)
      then obtain host where host: "(case ref_host ref of Some h \<Rightarrow> host_key_parse h
            | None \<Rightarrow> host_from_pref gc g hosts None env) = Inr host"
        and f: "finish hosts host login (ref_slug ref) (SrcGitConfig (rm_name r) (trim v)) = Inr ctx" by blast
      show ?thesis using finish_Inr [OF f] host Some other ref by (cases "ref_host ref") (auto simp: Let_def)
    qed
  qed
qed simp

text \<open>What scoring returns: the single remote of the top score, at its first matching URL.\<close>

lemma resolve_scored_Inr:
  assumes "resolve_scored hosts pref login remotes (by_preference remotes) tried = Inr ctx"
  obtains r h s ms where
    "List.map_filter (remote_match (host_keys hosts)) (by_preference remotes) = (remote_score (rm_name r), r, h, s) # ms"
    "filter (\<lambda>m. fst m = remote_score (rm_name r))
       (List.map_filter (remote_match (host_keys hosts)) (by_preference remotes)) = [(remote_score (rm_name r), r, h, s)]"
    "\<exists>host. explicit_or hosts pref h = Inr host
       \<and> finish hosts host login s (SrcRemote (rm_name r) (remote_score (rm_name r))) = Inr ctx"
proof -
  let ?M = "List.map_filter (remote_match (host_keys hosts)) (by_preference remotes)"
  obtain matched u where mu: "scan_remotes (host_keys hosts) (by_preference remotes) None = (matched, u)" by fastforce
  then have mM: "matched = ?M" using scan_remotes_matches [of "host_keys hosts" "by_preference remotes" None] by simp
  have ne: "matched \<noteq> []" using assms mu by (auto simp: resolve_scored_def split: option.splits)
  then obtain m ms where cons: "?M = m # ms" using mM by (metis neq_Nil_conv)
  have "m \<in> set ?M" using cons by simp
  then have "\<exists>r h s. m = (remote_score (rm_name r), r, h, s)" by (auto simp: map_filter_mem remote_match_def)
  then obtain r h s where m: "m = (remote_score (rm_name r), r, h, s)" by blast
  have max: "Max (set (map fst matched)) = remote_score (rm_name r)"
    by (rule Max_eqI) (use preferred_head_top [OF cons] mM cons m in auto)
  define top where "top = filter (\<lambda>m. fst m = remote_score (rm_name r)) ?M"
  have le: "\<not> 1 < length top" using assms mu ne max mM
    by (simp add: resolve_scored_def Let_def top_def split: if_splits)
  have "top = m # filter (\<lambda>m. fst m = remote_score (rm_name r)) ms" using m cons by (simp add: top_def)
  then have top: "top = [m]" using le by simp
  have "res_bind (explicit_or hosts pref h) (\<lambda>host. finish hosts host login s
      (SrcRemote (rm_name r) (remote_score (rm_name r)))) = Inr ctx"
    using assms mu ne max mM le top m unfolding resolve_scored_def top_def by (simp add: Let_def)
  then show thesis using that [of r h s ms] cons m top unfolding top_def by (auto simp: res_bind_eq_Inr)
qed

text \<open>What the user named outright: \<open>-R\<close>, or the first environment variable that is set.\<close>

definition named_ref :: "resolve_options \<Rightarrow> env \<Rightarrow> repo_ref option" where
  "named_ref opts env =
     (case ro_repo opts of Some r \<Rightarrow> Some r
      | None \<Rightarrow> (case env_get env ''FJO_REPO'' of Some v \<Rightarrow> res_ok (repo_ref_from_str v)
        | None \<Rightarrow> (case env_get env ''FORGEJO_REPO'' of Some v \<Rightarrow> res_ok (repo_ref_from_str v) | None \<Rightarrow> None)))"

lemma resolve_repo_cases:
  assumes "resolve_repo gc g hosts env opts = Inr ctx"
  obtains (flag) r where "ro_repo opts = Some r" "named_ref opts env = Some r"
      "resolve_flag gc g hosts env (pref_of opts env) (login_of opts env) r = Inr ctx"
  | (env) r v where "ro_repo opts = None" "named_ref opts env = Some r" "rx_source ctx = SrcEnv v"
      "\<exists>host. (case ref_host r of Some h \<Rightarrow> host_key_parse h | None \<Rightarrow> host_from_pref gc g hosts (pref_of opts env) env) = Inr host
        \<and> finish hosts host (login_of opts env) (ref_slug r) (SrcEnv v) = Inr ctx"
  | (config) dir remotes configured tried where "ro_repo opts = None" "named_ref opts env = None"
      "gc_git_dir gc g = Inr (Some dir)" "gc_remotes gc g = Inr remotes"
      "gc_config_get_regexp gc g resolved_pattern = Inr configured"
      "resolve_configured gc g hosts env (pref_of opts env) (login_of opts env) configured (by_preference remotes) tried
         = Inr (Inr ctx)"
  | (scored) dir remotes configured tried tried' tried2 where "ro_repo opts = None" "named_ref opts env = None"
      "gc_git_dir gc g = Inr (Some dir)" "gc_remotes gc g = Inr remotes"
      "gc_config_get_regexp gc g resolved_pattern = Inr configured"
      "resolve_configured gc g hosts env (pref_of opts env) (login_of opts env) configured (by_preference remotes) tried
         = Inl tried'"
      "resolve_scored hosts (pref_of opts env) (login_of opts env) remotes (by_preference remotes) tried2 = Inr ctx"
proof (cases "ro_repo opts")
  case (Some r)
  then show thesis using assms flag [of r] by (simp add: resolve_repo_def named_ref_def Let_def)
next
  case None
  let ?E = "resolve_env gc g hosts env (pref_of opts env) (login_of opts env) [''FJO_REPO'', ''FORGEJO_REPO'']
                  [attempt_new ''-R/--repo'' (Fmt ''not given'' [])]"
  show thesis
  proof (cases ?E)
    case (Inr res)
    then have "res = Inr ctx" using assms None by (simp add: resolve_repo_def Let_def)
    then have ex: "\<exists>v r. named_ref opts env = Some r \<and>
       res_bind (case ref_host r of Some h \<Rightarrow> host_key_parse h | None \<Rightarrow> host_from_pref gc g hosts (pref_of opts env) env)
         (\<lambda>host. finish hosts host (login_of opts env) (ref_slug r) (SrcEnv v)) = Inr ctx"
    proof (cases "env_get env ''FJO_REPO''")
      case (Some x)
      then obtain r where "repo_ref_from_str x = Inr r" using Inr \<open>res = Inr ctx\<close> by (auto split: sum.splits)
      then show ?thesis using Inr None \<open>res = Inr ctx\<close> Some
        by (intro exI [of _ "''FJO_REPO''"] exI [of _ r]) (simp add: named_ref_def)
    next
      case none: None
      then obtain x where x: "env_get env ''FORGEJO_REPO'' = Some x" using Inr by (auto split: option.splits)
      then obtain r where "repo_ref_from_str x = Inr r" using Inr none \<open>res = Inr ctx\<close> by (auto split: sum.splits)
      then show ?thesis using Inr None \<open>res = Inr ctx\<close> none x
        by (intro exI [of _ "''FORGEJO_REPO''"] exI [of _ r]) (simp add: named_ref_def)
    qed
    then obtain v r where n: "named_ref opts env = Some r" and
      b: "res_bind (case ref_host r of Some h \<Rightarrow> host_key_parse h | None \<Rightarrow> host_from_pref gc g hosts (pref_of opts env) env)
         (\<lambda>host. finish hosts host (login_of opts env) (ref_slug r) (SrcEnv v)) = Inr ctx" by blast
    from b have "\<exists>host. (case ref_host r of Some h \<Rightarrow> host_key_parse h | None \<Rightarrow> host_from_pref gc g hosts (pref_of opts env) env) = Inr host
        \<and> finish hosts host (login_of opts env) (ref_slug r) (SrcEnv v) = Inr ctx" by (simp add: res_bind_eq_Inr)
    then show thesis using env [OF None n, of v] finish_Inr by blast
  next
    case (Inl tried)
    then have n: "named_ref opts env = None" using None by (auto simp: named_ref_def split: option.splits)
    have "\<exists>dir remotes configured. gc_git_dir gc g = Inr (Some dir) \<and> gc_remotes gc g = Inr remotes
        \<and> gc_config_get_regexp gc g resolved_pattern = Inr configured"
      using assms None Inl by (auto simp: resolve_repo_def Let_def res_bind_eq_Inr split: if_splits)
    then obtain dir remotes configured where q: "gc_git_dir gc g = Inr (Some dir)" "gc_remotes gc g = Inr remotes"
        "gc_config_get_regexp gc g resolved_pattern = Inr configured" by blast
    show thesis
    proof (cases "resolve_configured gc g hosts env (pref_of opts env) (login_of opts env) configured (by_preference remotes) tried")
      case (Inr res)
      then have "res = Inr ctx" using assms None Inl q by (simp add: resolve_repo_def Let_def)
      then show thesis using config [OF None n q] Inr by blast
    next
      case (Inl tried2)
      then show thesis using assms None \<open>?E = Inl tried\<close> q scored [OF None n q Inl] by (simp add: resolve_repo_def Let_def)
    qed
  qed
qed

lemma resolve_configured_finish:
  "resolve_configured gc g hosts env pref login configured rs tried = Inr (Inr ctx) \<Longrightarrow>
   \<exists>host slug name v. finish hosts host login slug (SrcGitConfig name v) = Inr ctx"
proof (induction rs arbitrary: tried)
  case (Cons r rs)
  then show ?case
    by (cases "configured_value configured r")
      (auto simp: Let_def res_bind_eq_Inr split: if_splits sum.splits option.splits, blast+)
qed simp

lemma resolve_configured_contains:
  "resolve_configured gc g hosts env pref login configured rs tried = Inr (Inr ctx) \<Longrightarrow> host_contains hosts (rx_host ctx)"
  using resolve_configured_finish finish_Inr by metis

lemma resolve_configured_source:
  "resolve_configured gc g hosts env pref login configured rs tried = Inr (Inr ctx) \<Longrightarrow>
   \<exists>name v. rx_source ctx = SrcGitConfig name v"
  using resolve_configured_finish finish_Inr by metis

subsection \<open>Properties\<close>

lemma host_from_pref_remotes:
  assumes "gc_git_dir gc g = Inr (Some dir)" "gc_remotes gc g = Inr remotes"
    "gc_config_get_regexp gc g resolved_pattern = Inr configured"
    "(case configured_host hosts configured (by_preference remotes) of Some k \<Rightarrow> k
      | None \<Rightarrow> url_host (host_keys hosts) (by_preference remotes)) = Some key"
  shows "host_from_pref gc g hosts None env = Inr key"
  using assms by (simp add: host_from_pref_def host_from_remotes_def split: option.splits)

definition sample_git :: fake_git where
  "sample_git = with_remote (with_remote fake_repo ''origin'' ''https://h/me/fork.git'') ''upstream'' ''git@h:them/proj.git''"

definition sample_opts :: resolve_options where
  "sample_opts = \<lparr>ro_repo = None, ro_host = None, ro_login = None\<rparr>"

definition sample_ctx :: repo_context where
  "sample_ctx = \<lparr>rx_host = sample_key, rx_login = Some ''bob'', rx_slug = slug_new ''them'' ''proj'',
     rx_source = SrcRemote ''upstream'' 3\<rparr>"

lemma sample_resolve: "resolve_repo git_fake sample_git sample_hosts (\<lambda>_. None) sample_opts = Inr sample_ctx"
  by code_simp

text \<open>C27. The host that a command gets without a repository and the host of the repository it
  resolves are the same, unless \<open>--host\<close>, its environment variables or the named repository
  itself chose another: the override in the git configuration and the remotes are walked in the
  same order with the same preferences by the two routines.\<close>

theorem repo_host_is_checkout_host:
  assumes "resolve_repo gc g hosts env opts = Inr ctx" "pref_of opts env = None"
    "\<forall>r. named_ref opts env = Some r \<longrightarrow> ref_host r = None"
  shows "host_from_pref gc g hosts None env = Inr (rx_host ctx) \<and> host_contains hosts (rx_host ctx)"
  using assms(1)
proof (cases rule: resolve_repo_cases)
  case (flag r)
  then show ?thesis using assms finish_Inr by (fastforce simp: resolve_flag_def res_bind_eq_Inr)
next
  case (env r v)
  then show ?thesis using assms finish_Inr by fastforce
next
  case (config dir remotes configured tried)
  then have "configured_host hosts configured (by_preference remotes) = Some (Some (rx_host ctx))
      \<or> host_from_pref gc g hosts None env = Inr (rx_host ctx)"
    using assms(2) resolve_configured_host by metis
  moreover have "host_contains hosts (rx_host ctx)" using config(6) resolve_configured_contains by fast
  ultimately show ?thesis using host_from_pref_remotes [OF config(3-5)] by fastforce
next
  case (scored dir remotes configured tried tried' tried2)
  from scored(7) obtain r h s ms where
    m: "List.map_filter (remote_match (host_keys hosts)) (by_preference remotes) = (remote_score (rm_name r), r, h, s) # ms"
    and f: "\<exists>host. explicit_or hosts (pref_of opts env) h = Inr host
       \<and> finish hosts host (login_of opts env) s (SrcRemote (rm_name r) (remote_score (rm_name r))) = Inr ctx"
    by (rule resolve_scored_Inr)
  have "rx_host ctx = h \<and> host_contains hosts h" using f assms(2) finish_Inr by (fastforce simp: explicit_or_def)
  moreover have "configured_host hosts configured (by_preference remotes) = None"
    by (rule resolve_configured_Inl [OF scored(6)])
  ultimately show ?thesis using host_from_pref_remotes [OF scored(3-5)] m by (simp add: url_host_first)
qed

theorem repo_host_is_checkout_host_witness:
  "host_from_pref git_fake sample_git sample_hosts None (\<lambda>_. None) = Inr sample_key"
  using repo_host_is_checkout_host [OF sample_resolve]
  by (simp add: sample_opts_def pref_of_def env_get_def named_ref_def sample_ctx_def)

text \<open>C28. Scoring never guesses: a repository taken from a remote comes from the first URL of that
  remote that names a repository on a known host, and every other remote that names one has a
  strictly lower score.\<close>

theorem remote_choice_unambiguous:
  assumes "resolve_repo gc g hosts env opts = Inr ctx" "rx_source ctx = SrcRemote name score"
  shows "\<exists>remotes r h. gc_remotes gc g = Inr remotes \<and> r \<in> set remotes \<and> rm_name r = name
    \<and> first_match (host_keys hosts) (remote_urls r) = Some (h, rx_slug ctx)
    \<and> (pref_of opts env = None \<longrightarrow> rx_host ctx = h)
    \<and> score = remote_score name
    \<and> (\<forall>r'\<in>set remotes. r' \<noteq> r \<and> first_match (host_keys hosts) (remote_urls r') \<noteq> None \<longrightarrow>
          remote_score (rm_name r') < score)"
  using assms(1)
proof (cases rule: resolve_repo_cases)
  case (flag r)
  then show ?thesis using assms(2) finish_Inr by (fastforce simp: resolve_flag_def res_bind_eq_Inr)
next
  case (env r v)
  then show ?thesis using assms(2) by simp
next
  case (config dir remotes configured tried)
  then show ?thesis using assms(2) resolve_configured_source by fastforce
next
  case (scored dir remotes configured tried tried' tried2)
  let ?M = "List.map_filter (remote_match (host_keys hosts)) (by_preference remotes)"
  from scored(7) obtain r h s ms where m: "?M = (remote_score (rm_name r), r, h, s) # ms"
    and top: "filter (\<lambda>m. fst m = remote_score (rm_name r)) ?M = [(remote_score (rm_name r), r, h, s)]"
    and f: "\<exists>host. explicit_or hosts (pref_of opts env) h = Inr host
       \<and> finish hosts host (login_of opts env) s (SrcRemote (rm_name r) (remote_score (rm_name r))) = Inr ctx"
    by (rule resolve_scored_Inr)
  have c: "rx_slug ctx = s" "name = rm_name r" "score = remote_score (rm_name r)" "pref_of opts env = None \<longrightarrow> rx_host ctx = h"
    using f assms(2) finish_Inr by (fastforce simp: explicit_or_def)+
  have "(remote_score (rm_name r), r, h, s) \<in> set ?M" using m by simp
  then have r: "r \<in> set remotes" "first_match (host_keys hosts) (remote_urls r) = Some (h, s)"
    by (auto simp: map_filter_mem remote_match_def)
  have "remote_score (rm_name r') < score"
    if r': "r' \<in> set remotes" "r' \<noteq> r" "first_match (host_keys hosts) (remote_urls r') \<noteq> None" for r'
  proof -
    from r'(3) obtain h' s' where "remote_match (host_keys hosts) r' = Some (remote_score (rm_name r'), r', h', s')"
      by (auto simp: remote_match_def)
    then have mem: "(remote_score (rm_name r'), r', h', s') \<in> set ?M" using r'(1) by (auto simp: map_filter_mem)
    have "remote_score (rm_name r') \<le> remote_score (rm_name r)" using preferred_head_top [OF m] mem m by fastforce
    moreover have "remote_score (rm_name r') \<noteq> remote_score (rm_name r)"
    proof
      assume "remote_score (rm_name r') = remote_score (rm_name r)"
      then have "(remote_score (rm_name r'), r', h', s') \<in> set (filter (\<lambda>m. fst m = remote_score (rm_name r)) ?M)"
        using mem by simp
      then show False using top r'(2) by simp
    qed
    ultimately show ?thesis using c(3) by simp
  qed
  then show ?thesis using scored(4) r c by (intro exI [of _ remotes] exI [of _ r] exI [of _ h]) simp
qed

theorem remote_choice_unambiguous_witness:
  "\<exists>r. r \<in> set (fg_remotes sample_git) \<and> rm_name r = ''upstream''
     \<and> (\<forall>r'\<in>set (fg_remotes sample_git). r' \<noteq> r \<and> first_match [sample_key] (remote_urls r') \<noteq> None \<longrightarrow>
          remote_score (rm_name r') < 3)"
proof -
  have "host_keys sample_hosts = [sample_key]" by code_simp
  then show ?thesis using remote_choice_unambiguous [OF sample_resolve, of "''upstream''" 3]
    by (auto simp: sample_ctx_def git_fake_def)
qed

end
