(* ===== verification/Config.thy ===== *)
theory Config
  imports Hosts
begin

text \<open>
  The preferences of \<open>config.toml\<close>: \<open>Config\<close> of \<open>crates/forgejo-core/src/config/mod.rs\<close>.
  A \<open>toml::Table\<close> is a map from keys to values in key order; a value that is neither a
  string nor a table is its printed form.  The \<open>toml\<close> crate is a parameter.
\<close>

subsection \<open>Tables\<close>

datatype toml_value = TStr str | TTable "(str \<times> toml_value) list" | TOther str

type_synonym toml_table = "toml_value str_map"

record table_lib =
  tl_parse :: "str \<Rightarrow> (str, toml_table) res"
  tl_print :: "toml_table \<Rightarrow> (str, str) res"
  tl_show :: "toml_value \<Rightarrow> str"

fun as_str :: "toml_value \<Rightarrow> str option" where
  "as_str (TStr s) = Some s"
| "as_str _ = None"

fun as_table :: "toml_value \<Rightarrow> toml_table option" where
  "as_table (TTable t) = Some t"
| "as_table _ = None"

definition map_del :: "str \<Rightarrow> 'v str_map \<Rightarrow> 'v str_map" where
  "map_del k m = remove_by fst k m"

text \<open>\<open>entry(key).or_insert_with(|| Table::new())\<close>.\<close>

definition or_insert_table :: "str \<Rightarrow> toml_table \<Rightarrow> toml_table" where
  "or_insert_table k t = (if map_get k t = None then map_put k (TTable []) t else t)"

subsection \<open>Value vocabularies\<close>

datatype prompt = PromptEnabled | PromptDisabled

datatype color_pref = ColorAuto | ColorAlways | ColorNever

fun prompt_as_str :: "prompt \<Rightarrow> str" where
  "prompt_as_str PromptEnabled = ''enabled''"
| "prompt_as_str PromptDisabled = ''disabled''"

fun color_as_str :: "color_pref \<Rightarrow> str" where
  "color_as_str ColorAuto = ''auto''"
| "color_as_str ColorAlways = ''always''"
| "color_as_str ColorNever = ''never''"

definition prompt_from_str :: "str \<Rightarrow> prompt option" where
  "prompt_from_str s =
     (let t = to_ascii_lowercase (trim s)
      in if t = ''enabled'' then Some PromptEnabled else if t = ''disabled'' then Some PromptDisabled else None)"

definition color_from_str :: "str \<Rightarrow> color_pref option" where
  "color_from_str s =
     (let t = to_ascii_lowercase (trim s)
      in if t = ''auto'' then Some ColorAuto else if t = ''always'' then Some ColorAlways
         else if t = ''never'' then Some ColorNever else None)"

definition KEYS :: "str list" where
  "KEYS = [''browser'', ''color'', ''credential_store'', ''editor'', ''oauth_client_id'', ''pager'', ''prompt'']"

definition check_key :: "str \<Rightarrow> (error, str) res" where
  "check_key key =
     (case List.find (\<lambda>k. k = key) KEYS of Some k \<Rightarrow> Inr k
      | None \<Rightarrow> Inl (error_new (Usage (Fmt ''unknown config key {key:?}; known keys: {}'' [key, join '', '' KEYS]))))"

definition bad_value :: "str \<Rightarrow> str \<Rightarrow> str list \<Rightarrow> error" where
  "bad_value key v allowed =
     error_new (Usage (Fmt ''{value:?} is not a valid value for {key}; expected one of: {}'' [v, key, join '', '' allowed]))"

definition check_value :: "str \<Rightarrow> str \<Rightarrow> (error, str) res" where
  "check_value key v =
     (if key = ''prompt'' then
        (case prompt_from_str v of Some p \<Rightarrow> Inr (prompt_as_str p)
         | None \<Rightarrow> Inl (bad_value key v [''enabled'', ''disabled'']))
      else if key = ''color'' then
        (case color_from_str v of Some p \<Rightarrow> Inr (color_as_str p)
         | None \<Rightarrow> Inl (bad_value key v [''auto'', ''always'', ''never'']))
      else if key = ''credential_store'' then
        (case store_from_str v of Some p \<Rightarrow> Inr (store_as_str p) | None \<Rightarrow> Inl (bad_value key v STORE_VALUES))
      else Inr v)"

definition default_for :: "str \<Rightarrow> str" where
  "default_for key =
     (if key = ''prompt'' then prompt_as_str PromptEnabled
      else if key = ''color'' then color_as_str ColorAuto
      else if key = ''credential_store'' then store_as_str store_default
      else [])"

definition render_scalar :: "table_lib \<Rightarrow> toml_value \<Rightarrow> str" where
  "render_scalar lib v = (case v of TStr s \<Rightarrow> s | other \<Rightarrow> tl_show lib other)"

subsection \<open>The preferences\<close>

record config =
  cf_dir :: str
  cf_path :: path
  cf_table :: toml_table

definition CONFIG_FILE :: str where
  "CONFIG_FILE = ''config.toml''"

definition HOSTS_FILE :: str where
  "HOSTS_FILE = ''hosts.toml''"

text \<open>\<open>PathBuf::join\<close> with a relative name.\<close>

definition path_join :: "str \<Rightarrow> str \<Rightarrow> str" where
  "path_join d n = (if d = [] then n else if last d = CHR ''/'' then d @ n else d @ ''/'' @ n)"

text \<open>The platform's base directory is what \<open>etcetera\<close> answers.\<close>

definition config_dir :: "env \<Rightarrow> (str, str) res \<Rightarrow> (error, str) res" where
  "config_dir env base =
     (case env_get env ''FJO_CONFIG_DIR'' of Some dir \<Rightarrow> Inr dir
      | None \<Rightarrow> (case env_get env ''XDG_CONFIG_HOME'' of Some dir \<Rightarrow> Inr (path_join dir ''fjo'')
        | None \<Rightarrow> (case base of
            Inl e \<Rightarrow> Inl (error_new (Usage (Fmt ''cannot locate a configuration directory ({e}); set FJO_CONFIG_DIR'' [e])))
          | Inr b \<Rightarrow> Inr (path_join b ''fjo''))))"

definition config_at :: "str \<Rightarrow> toml_table \<Rightarrow> config" where
  "config_at dir t = \<lparr>cf_dir = dir, cf_path = (dir, CONFIG_FILE), cf_table = t\<rparr>"

definition load_from_dir :: "table_lib \<Rightarrow> io_env \<Rightarrow> file_system \<Rightarrow> str \<Rightarrow> (error, config) res" where
  "load_from_dir lib io fs dir =
     (let path = (dir, CONFIG_FILE) in
      case io_fault io ReadText of
        Some (e, _) \<Rightarrow> Inl (io_error_new e)
      | None \<Rightarrow>
          (case fs path of
             None \<Rightarrow> Inr (config_at dir [])
           | Some node \<Rightarrow>
               (case tl_parse lib (fn_text node) of
                  Inl e \<Rightarrow> Inl (error_new (Usage (Fmt ''{} is not valid TOML: {e}'' [path_text path, e])))
                | Inr t \<Rightarrow> Inr (config_at dir t))))"

definition config_load :: "table_lib \<Rightarrow> io_env \<Rightarrow> file_system \<Rightarrow> env \<Rightarrow> (str, str) res \<Rightarrow> (error, config) res" where
  "config_load lib io fs env base = res_bind (config_dir env base) (load_from_dir lib io fs)"

definition config_empty_at :: "str \<Rightarrow> config" where
  "config_empty_at dir = config_at dir []"

definition hosts_path :: "config \<Rightarrow> path" where
  "hosts_path c = (cf_dir c, HOSTS_FILE)"

definition config_save :: "table_lib \<Rightarrow> io_env \<Rightarrow> config \<Rightarrow> file_system \<Rightarrow> (error, unit) res \<times> file_system" where
  "config_save lib io c fs =
     (case tl_print lib (cf_table c) of
        Inl e \<Rightarrow> (Inl (error_new (Usage (Fmt ''cannot serialize config: {e}'' [e]))), fs)
      | Inr t \<Rightarrow> write_atomic io (cf_path c) t None fs)"

text \<open>The per-host value of a key.\<close>

definition host_value :: "toml_table \<Rightarrow> str \<Rightarrow> str \<Rightarrow> toml_value option" where
  "host_value t h key =
     (case host_key_parse h of Inl _ \<Rightarrow> None
      | Inr k \<Rightarrow> Option.bind (Option.bind (map_get ''hosts'' t) as_table)
          (\<lambda>hs. Option.bind (Option.bind (map_get (key_str k) hs) as_table) (map_get key)))"

definition config_lookup :: "config \<Rightarrow> str option \<Rightarrow> str \<Rightarrow> toml_value option" where
  "config_lookup c host key =
     (case Option.bind host (\<lambda>h. host_value (cf_table c) h key) of
        Some v \<Rightarrow> Some v
      | None \<Rightarrow> map_get key (cf_table c))"

definition config_get :: "table_lib \<Rightarrow> config \<Rightarrow> str option \<Rightarrow> str \<Rightarrow> str option" where
  "config_get lib c host key = map_option (render_scalar lib) (config_lookup c host key)"

definition set_table :: "config \<Rightarrow> toml_table \<Rightarrow> config" where
  "set_table c t = c\<lparr>cf_table := t\<rparr>"

text \<open>\<open>set\<close>: the tables on the way are created before the value is written, and stay on an error.\<close>

definition config_set :: "config \<Rightarrow> str option \<Rightarrow> str \<Rightarrow> str \<Rightarrow> (error, unit) res \<times> config" where
  "config_set c host key v =
     (case check_key key of Inl e \<Rightarrow> (Inl e, c) | Inr key \<Rightarrow>
      case check_value key v of Inl e \<Rightarrow> (Inl e, c) | Inr v \<Rightarrow>
      case host of
        None \<Rightarrow> (Inr (), set_table c (map_put key (TStr v) (cf_table c)))
      | Some h \<Rightarrow>
          let t = or_insert_table ''hosts'' (cf_table c); c = set_table c t in
          (case Option.bind (map_get ''hosts'' t) as_table of
             None \<Rightarrow> (Inl (error_new (Usage (Fmt (''config.toml: '' @ CHR 0x60 # ''hosts'' @ CHR 0x60 # '' is not a table'') []))), c)
           | Some hs \<Rightarrow>
               (case host_key_parse h of Inl e \<Rightarrow> (Inl e, c) | Inr k \<Rightarrow>
                let hs = or_insert_table (key_str k) hs; c = set_table c (map_put ''hosts'' (TTable hs) t) in
                case Option.bind (map_get (key_str k) hs) as_table of
                  None \<Rightarrow> (Inl (error_new (Usage (Fmt (''config.toml: '' @ CHR 0x60 # ''hosts.{h}'' @ CHR 0x60 # '' is not a table'') [h]))), c)
                | Some es \<Rightarrow>
                    (Inr (), set_table c (map_put ''hosts'' (TTable (map_put (key_str k) (TTable (map_put key (TStr v) es)) hs)) t)))))"

definition config_unset :: "config \<Rightarrow> str option \<Rightarrow> str \<Rightarrow> (error, bool) res \<times> config" where
  "config_unset c host key =
     (case check_key key of Inl e \<Rightarrow> (Inl e, c) | Inr key \<Rightarrow>
      case host of
        None \<Rightarrow> (Inr (map_get key (cf_table c) \<noteq> None), set_table c (map_del key (cf_table c)))
      | Some h \<Rightarrow>
          (case host_key_parse h of Inl e \<Rightarrow> (Inl e, c) | Inr k \<Rightarrow>
           case Option.bind (map_get ''hosts'' (cf_table c)) as_table of None \<Rightarrow> (Inr False, c) | Some hs \<Rightarrow>
           case Option.bind (map_get (key_str k) hs) as_table of None \<Rightarrow> (Inr False, c) | Some es \<Rightarrow>
           (Inr (map_get key es \<noteq> None),
            set_table c (map_put ''hosts'' (TTable (map_put (key_str k) (TTable (map_del key es)) hs)) (cf_table c)))))"

definition config_list :: "table_lib \<Rightarrow> config \<Rightarrow> str option \<Rightarrow> (str \<times> str) list" where
  "config_list lib c host =
     map (\<lambda>k. (k, case config_lookup c host k of Some v \<Rightarrow> render_scalar lib v | None \<Rightarrow> default_for k)) KEYS"

definition unknown_keys :: "config \<Rightarrow> str list" where
  "unknown_keys c =
     filter (\<lambda>k. \<not> List.member KEYS k) (filter (\<lambda>k. k \<noteq> ''aliases'' \<and> k \<noteq> ''hosts'') (map fst (cf_table c)))"

subsection \<open>Typed getters\<close>

definition config_string :: "config \<Rightarrow> str option \<Rightarrow> str \<Rightarrow> str option" where
  "config_string c host key =
     Option.bind (Option.bind (config_lookup c host key) as_str) (\<lambda>s. if s = [] then None else Some s)"

definition config_parsed :: "(str \<Rightarrow> 'a option) \<Rightarrow> 'a \<Rightarrow> config \<Rightarrow> str option \<Rightarrow> str \<Rightarrow> 'a" where
  "config_parsed from_str def c host key =
     (case Option.bind (config_string c host key) from_str of Some v \<Rightarrow> v | None \<Rightarrow> def)"

definition resolved_editor :: "config \<Rightarrow> str option \<Rightarrow> env \<Rightarrow> str" where
  "resolved_editor c host env =
     (case config_string c host ''editor'' of Some e \<Rightarrow> e
      | None \<Rightarrow> (case env_get env ''VISUAL'' of Some e \<Rightarrow> e
        | None \<Rightarrow> (case env_get env ''EDITOR'' of Some e \<Rightarrow> e | None \<Rightarrow> ''vi'')))"

definition resolved_pager :: "config \<Rightarrow> str option \<Rightarrow> env \<Rightarrow> str" where
  "resolved_pager c host env =
     (case env_get env ''FJO_PAGER'' of Some p \<Rightarrow> p
      | None \<Rightarrow> (case env_get env ''PAGER'' of Some p \<Rightarrow> p
        | None \<Rightarrow> (case config_string c host ''pager'' of Some p \<Rightarrow> p | None \<Rightarrow> ''less'')))"

definition resolved_browser :: "config \<Rightarrow> str option \<Rightarrow> env \<Rightarrow> str option" where
  "resolved_browser c host env =
     (case config_string c host ''browser'' of Some b \<Rightarrow> Some b | None \<Rightarrow> env_get env ''BROWSER'')"

definition config_prompt :: "config \<Rightarrow> str option \<Rightarrow> prompt" where
  "config_prompt c host = config_parsed prompt_from_str PromptEnabled c host ''prompt''"

definition config_credential_store :: "config \<Rightarrow> str option \<Rightarrow> credential_store" where
  "config_credential_store c host = config_parsed store_from_str store_default c host ''credential_store''"

definition config_color :: "config \<Rightarrow> str option \<Rightarrow> color_pref" where
  "config_color c host = config_parsed color_from_str ColorAuto c host ''color''"

definition oauth_client_id :: "config \<Rightarrow> str option \<Rightarrow> str option" where
  "oauth_client_id c host = config_string c host ''oauth_client_id''"

subsection \<open>Aliases\<close>

definition alias_table :: "config \<Rightarrow> toml_table option" where
  "alias_table c = Option.bind (map_get ''aliases'' (cf_table c)) as_table"

definition config_aliases :: "config \<Rightarrow> str str_map" where
  "config_aliases c =
     (case alias_table c of None \<Rightarrow> []
      | Some t \<Rightarrow> List.map_filter (\<lambda>(k, v). map_option (\<lambda>s. (k, s)) (as_str v)) t)"

definition config_alias :: "config \<Rightarrow> str \<Rightarrow> str option" where
  "config_alias c name = Option.bind (alias_table c) (\<lambda>t. Option.bind (map_get name t) as_str)"

definition set_alias :: "config \<Rightarrow> str \<Rightarrow> str \<Rightarrow> (error, unit) res \<times> config" where
  "set_alias c name expansion =
     (if trim name = [] \<or> starts_with name ''-''
      then (Inl (error_new (Usage (Fmt ''{name:?} is not a usable alias name'' [name]))), c)
      else
        let t = or_insert_table ''aliases'' (cf_table c); c = set_table c t in
        (case Option.bind (map_get ''aliases'' t) as_table of
           None \<Rightarrow> (Inl (error_new (Usage (Fmt (''config.toml: '' @ CHR 0x60 # ''aliases'' @ CHR 0x60 # '' is not a table'') []))), c)
         | Some al \<Rightarrow> (Inr (), set_table c (map_put ''aliases'' (TTable (map_put name (TStr expansion) al)) t))))"

definition remove_alias :: "config \<Rightarrow> str \<Rightarrow> bool \<times> config" where
  "remove_alias c name =
     (case alias_table c of
        None \<Rightarrow> (False, c)
      | Some al \<Rightarrow> (map_get name al \<noteq> None,
          set_table c (map_put ''aliases'' (TTable (map_del name al)) (cf_table c))))"

subsection \<open>Well-formed tables\<close>

text \<open>The keys of a table are distinct: of the file, of its \<open>hosts\<close> and \<open>aliases\<close> and of each host.\<close>

definition keys_ok :: "'v str_map \<Rightarrow> bool" where
  "keys_ok t = distinct (map fst t)"

definition table_at :: "str \<Rightarrow> toml_table \<Rightarrow> toml_table option" where
  "table_at k t = Option.bind (map_get k t) as_table"

definition hosts_ok_at :: "toml_table \<Rightarrow> bool" where
  "hosts_ok_at hs \<longleftrightarrow> keys_ok hs \<and> (\<forall>k es. table_at k hs = Some es \<longrightarrow> keys_ok es)"

definition table_ok :: "toml_table \<Rightarrow> bool" where
  "table_ok t \<longleftrightarrow> keys_ok t \<and> (\<forall>hs. table_at ''hosts'' t = Some hs \<longrightarrow> hosts_ok_at hs)
     \<and> (\<forall>al. table_at ''aliases'' t = Some al \<longrightarrow> keys_ok al)"

lemma keys_ok_Nil [simp]: "keys_ok []"
  by (simp add: keys_ok_def)

lemma keys_ok_put [simp]: "keys_ok m \<Longrightarrow> keys_ok (map_put k v m)"
  unfolding keys_ok_def by (rule map_put_distinct)

lemma keys_ok_del [simp]: "keys_ok m \<Longrightarrow> keys_ok (map_del k m)"
  unfolding keys_ok_def map_del_def by (rule cl.remov_distinct)

lemma map_get_put_ok: "keys_ok m \<Longrightarrow> map_get j (map_put k v m) = (if j = k then Some v else map_get j m)"
  unfolding keys_ok_def by (rule map_get_put)

lemma map_get_del: "keys_ok m \<Longrightarrow> map_get j (map_del k m) = (if j = k then None else map_get j m)"
  unfolding keys_ok_def map_del_def map_get_def by (simp add: remove_lookup_other)

lemma map_get_Nil [simp]: "map_get k [] = None"
  by (simp add: map_get_def find_by_def)

lemma table_at_put: "keys_ok t \<Longrightarrow> table_at j (map_put k v t) = (if j = k then as_table v else table_at j t)"
  by (simp add: table_at_def map_get_put_ok)

lemma table_at_Nil [simp]: "table_at k [] = None"
  by (simp add: table_at_def)

text \<open>Creating a table where there was none.\<close>

lemma or_insert_table_get:
  "keys_ok t \<Longrightarrow> map_get j (or_insert_table k t) =
     (if j = k \<and> map_get k t = None then Some (TTable []) else map_get j t)"
  by (auto simp: or_insert_table_def map_get_put_ok)

lemma or_insert_table_keys [simp]: "keys_ok t \<Longrightarrow> keys_ok (or_insert_table k t)"
  by (simp add: or_insert_table_def)

lemma table_at_or_insert:
  "keys_ok t \<Longrightarrow> table_at j (or_insert_table k t) = (if j = k \<and> map_get k t = None then Some [] else table_at j t)"
  by (simp add: table_at_def or_insert_table_get)

lemma hosts_ok_at_insert: "hosts_ok_at hs \<Longrightarrow> hosts_ok_at (or_insert_table k hs)"
  by (auto simp: hosts_ok_at_def table_at_or_insert split: if_splits)

lemma hosts_ok_at_put: "hosts_ok_at hs \<Longrightarrow> keys_ok es \<Longrightarrow> hosts_ok_at (map_put k (TTable es) hs)"
  by (auto simp: hosts_ok_at_def table_at_put split: if_splits)

lemma table_ok_insert: "table_ok t \<Longrightarrow> table_ok (or_insert_table k t)"
  by (auto simp: table_ok_def table_at_or_insert hosts_ok_at_def split: if_splits)

lemma table_ok_put_str: "table_ok t \<Longrightarrow> table_ok (map_put k (TStr v) t)"
  by (auto simp: table_ok_def table_at_put split: if_splits)

lemma table_ok_put_hosts: "table_ok t \<Longrightarrow> hosts_ok_at hs \<Longrightarrow> table_ok (map_put ''hosts'' (TTable hs) t)"
  by (auto simp: table_ok_def table_at_put split: if_splits)

lemma table_ok_put_aliases: "table_ok t \<Longrightarrow> keys_ok al \<Longrightarrow> table_ok (map_put ''aliases'' (TTable al) t)"
  by (auto simp: table_ok_def table_at_put split: if_splits)

lemma table_ok_del: "table_ok t \<Longrightarrow> table_ok (map_del k t)"
  by (auto simp: table_ok_def table_at_def map_get_del split: if_splits)

lemma table_okD:
  "table_ok t \<Longrightarrow> keys_ok t"
  "table_ok t \<Longrightarrow> table_at ''hosts'' t = Some hs \<Longrightarrow> keys_ok hs \<and> hosts_ok_at hs"
  "table_ok t \<Longrightarrow> table_at ''hosts'' t = Some hs \<Longrightarrow> table_at k hs = Some es \<Longrightarrow> keys_ok es"
  "table_ok t \<Longrightarrow> table_at ''aliases'' t = Some al \<Longrightarrow> keys_ok al"
  by (auto simp: table_ok_def hosts_ok_at_def)

lemma set_table_simps [simp]:
  "cf_table (set_table c t) = t" "cf_path (set_table c t) = cf_path c" "cf_dir (set_table c t) = cf_dir c"
  "set_table (set_table c t) u = set_table c u"
  by (simp_all add: set_table_def)

lemma check_key_Inr: "check_key key = Inr k \<Longrightarrow> k = key \<and> key \<in> set KEYS"
  by (auto simp: check_key_def dest: find_Some_set split: option.splits)

text \<open>What \<open>set\<close> does, in one place.\<close>

lemma config_set_global:
  assumes "config_set c None key v = (Inr (), c')"
  obtains w where "check_value key v = Inr w" "key \<in> set KEYS" "c' = set_table c (map_put key (TStr w) (cf_table c))"
  using assms by (auto simp: config_set_def dest: check_key_Inr split: sum.splits)

lemma config_set_host:
  assumes "config_set c (Some h) key v = (Inr (), c')"
  obtains w hs k es where "check_value key v = Inr w" "key \<in> set KEYS" "host_key_parse h = Inr k"
    "table_at ''hosts'' (or_insert_table ''hosts'' (cf_table c)) = Some hs"
    "table_at (key_str k) (or_insert_table (key_str k) hs) = Some es"
    "c' = set_table c (map_put ''hosts'' (TTable (map_put (key_str k) (TTable (map_put key (TStr w) es))
            (or_insert_table (key_str k) hs))) (or_insert_table ''hosts'' (cf_table c)))"
  using assms by (auto simp: config_set_def Let_def table_at_def dest: check_key_Inr split: sum.splits option.splits)

lemma config_set_same_place: "config_set c host key v = (r, c') \<Longrightarrow> cf_path c' = cf_path c \<and> cf_dir c' = cf_dir c"
  by (auto simp: config_set_def Let_def split: sum.splits option.splits)

lemma config_set_table_ok: "table_ok (cf_table c) \<Longrightarrow> config_set c host key v = (r, c') \<Longrightarrow> table_ok (cf_table c')"
proof (cases host)
  case None
  assume a: "table_ok (cf_table c)" "config_set c host key v = (r, c')"
  then show ?thesis using None by (auto simp: config_set_def table_ok_put_str split: sum.splits)
next
  case (Some h)
  assume a: "table_ok (cf_table c)" "config_set c host key v = (r, c')"
  let ?t = "or_insert_table ''hosts'' (cf_table c)"
  have t: "table_ok ?t" by (rule table_ok_insert [OF a(1)])
  have "hosts_ok_at hs" if "table_at ''hosts'' ?t = Some hs" for hs using table_okD(2) [OF t that] by simp
  then have "table_ok (map_put ''hosts'' (TTable (or_insert_table k hs)) ?t)"
    "table_at k (or_insert_table k hs) = Some es \<Longrightarrow>
       table_ok (map_put ''hosts'' (TTable (map_put k (TTable (map_put key (TStr w) es)) (or_insert_table k hs))) ?t)"
    if "table_at ''hosts'' ?t = Some hs" for hs k es w
    using that hosts_ok_at_insert [of hs k]
    by (auto intro!: table_ok_put_hosts [OF t] hosts_ok_at_put keys_ok_put simp: hosts_ok_at_def)
  then show ?thesis using a t Some
    by (auto simp: config_set_def Let_def table_at_def dest!: check_key_Inr split: sum.splits option.splits)
qed

lemma host_value_alt:
  "host_value t h key = (case host_key_parse h of Inl _ \<Rightarrow> None
     | Inr k \<Rightarrow> Option.bind (table_at ''hosts'' t) (\<lambda>hs. Option.bind (table_at (key_str k) hs) (map_get key)))"
  by (cases "host_key_parse h") (simp_all add: host_value_def table_at_def)

lemma in_keys: "keys_ok t \<Longrightarrow> k \<in> set (map fst t) \<longleftrightarrow> map_get k t \<noteq> None"
  unfolding map_get_def using cl.lookup_None [of k t] by auto

lemma unknown_keys_set:
  "keys_ok (cf_table c) \<Longrightarrow> set (unknown_keys c) =
     {k. map_get k (cf_table c) \<noteq> None \<and> k \<noteq> ''aliases'' \<and> k \<noteq> ''hosts'' \<and> k \<notin> set KEYS}"
  using in_keys [of "cf_table c"] by (auto simp: unknown_keys_def)

lemma host_key_str_inj: "key_str a = key_str b \<longleftrightarrow> a = b"
  by (cases a; cases b) simp

text \<open>The effect of \<open>set\<close> on every lookup.\<close>

lemma set_host_values:
  assumes ok: "table_ok t" and hs: "table_at ''hosts'' (or_insert_table ''hosts'' t) = Some hs"
    and es: "table_at (key_str k) (or_insert_table (key_str k) hs) = Some es"
    and t': "t' = map_put ''hosts'' (TTable (map_put (key_str k) (TTable (map_put key (TStr w) es))
            (or_insert_table (key_str k) hs))) (or_insert_table ''hosts'' t)"
  shows "host_value t' h' key' = (if host_key_parse h' = Inr k \<and> key' = key then Some (TStr w) else host_value t h' key')"
    and "j \<noteq> ''hosts'' \<Longrightarrow> map_get j t' = map_get j t"
proof -
  have k: "keys_ok t" and kt: "keys_ok (or_insert_table ''hosts'' t)" using ok by (simp_all add: table_okD)
  have kh: "keys_ok hs" using table_okD(2) [OF table_ok_insert [OF ok] hs] by simp
  have kes: "keys_ok es" using table_okD(2) [OF table_ok_insert [OF ok] hs] es
    by (auto simp: hosts_ok_at_def table_at_or_insert split: if_splits)
  have at: "table_at (key_str j) (map_put (key_str k) (TTable (map_put key (TStr w) es)) (or_insert_table (key_str k) hs))
     = (if j = k then Some (map_put key (TStr w) es) else table_at (key_str j) hs)" for j
    using kh by (auto simp: table_at_put table_at_or_insert host_key_str_inj)
  have at': "table_at ''hosts'' t' = Some (map_put (key_str k) (TTable (map_put key (TStr w) es)) (or_insert_table (key_str k) hs))"
    using kt by (simp add: t' table_at_put)
  have old: "Option.bind (table_at ''hosts'' t) (\<lambda>hs. table_at (key_str j) hs) = table_at (key_str j) hs" for j
    using hs k by (auto simp: table_at_or_insert split: if_splits) (auto simp: table_at_def)
  have esk: "map_get i es = Option.bind (table_at (key_str k) hs) (map_get i)" for i
    using es kh by (auto simp: table_at_or_insert split: if_splits) (auto simp: table_at_def)
  have old_bind: "Option.bind (table_at ''hosts'' t) (\<lambda>hs. Option.bind (table_at (key_str j) hs) (map_get i))
      = Option.bind (table_at (key_str j) hs) (map_get i)" for j i
    using old [of j] by (cases "table_at ''hosts'' t") auto
  show "host_value t' h' key' = (if host_key_parse h' = Inr k \<and> key' = key then Some (TStr w) else host_value t h' key')"
  proof (cases "host_key_parse h'")
    case (Inl e)
    then show ?thesis by (simp add: host_value_alt)
  next
    case (Inr j)
    show ?thesis unfolding host_value_alt Inr sum.case at' bind.simps at old_bind
      using kes esk [of key'] by (auto simp: map_get_put_ok)
  qed
  show "j \<noteq> ''hosts'' \<Longrightarrow> map_get j t' = map_get j t"
    using k kt by (simp add: t' map_get_put_ok or_insert_table_get)
qed

lemma hosts_not_key: "''hosts'' \<notin> set KEYS" "''aliases'' \<notin> set KEYS"
  by (simp_all add: KEYS_def)

lemma config_set_effect:
  assumes ok: "table_ok (cf_table c)" and s: "config_set c host key v = (Inr (), c')"
  shows "\<exists>w. check_value key v = Inr w \<and> config_lookup c' host key = Some (TStr w)"
    and "key' \<noteq> key \<Longrightarrow> key' \<noteq> ''hosts'' \<Longrightarrow> config_lookup c' host' key' = config_lookup c host' key'"
    and "(\<And>h. host = Some h \<Longrightarrow> host_key_parse h' \<noteq> host_key_parse h) \<Longrightarrow>
           host_value (cf_table c') h' key = host_value (cf_table c) h' key"
    and "host \<noteq> None \<Longrightarrow> map_get key (cf_table c') = map_get key (cf_table c)"
    and "set (unknown_keys c') = set (unknown_keys c)"
proof -
  have kc: "keys_ok (cf_table c)" using ok by (rule table_okD)
  have kc': "keys_ok (cf_table c')" using config_set_table_ok [OF ok s] by (rule table_okD)
  have "(\<exists>w. check_value key v = Inr w \<and> config_lookup c' host key = Some (TStr w))
    \<and> (\<forall>key' host'. key' \<noteq> key \<and> key' \<noteq> ''hosts'' \<longrightarrow> config_lookup c' host' key' = config_lookup c host' key')
    \<and> (\<forall>h'. (\<forall>h. host = Some h \<longrightarrow> host_key_parse h' \<noteq> host_key_parse h) \<longrightarrow>
           host_value (cf_table c') h' key = host_value (cf_table c) h' key)
    \<and> (host \<noteq> None \<longrightarrow> map_get key (cf_table c') = map_get key (cf_table c))
    \<and> (\<forall>j. j \<notin> set KEYS \<and> j \<noteq> ''hosts'' \<longrightarrow> map_get j (cf_table c') = map_get j (cf_table c))"
  proof (cases host)
    case None
    from s [unfolded None] obtain w where w: "check_value key v = Inr w" "key \<in> set KEYS"
      "c' = set_table c (map_put key (TStr w) (cf_table c))" by (rule config_set_global)
    have ne: "key \<noteq> ''hosts''" using w(2) hosts_not_key by auto
    have g: "map_get j (cf_table c') = (if j = key then Some (TStr w) else map_get j (cf_table c))" for j
      using kc w(3) by (simp add: map_get_put_ok)
    have "table_at ''hosts'' (cf_table c') = table_at ''hosts'' (cf_table c)" using g ne by (simp add: table_at_def)
    then have hv: "host_value (cf_table c') h' j = host_value (cf_table c) h' j" for h' j
      by (cases "host_key_parse h'") (simp_all add: host_value_alt)
    show ?thesis using w(1,2) g hv None by (auto simp: config_lookup_def split: option.splits)
  next
    case (Some h)
    from s [unfolded Some] obtain w hs k es where w: "check_value key v = Inr w" "key \<in> set KEYS" "host_key_parse h = Inr k"
      and hs: "table_at ''hosts'' (or_insert_table ''hosts'' (cf_table c)) = Some hs"
      and es: "table_at (key_str k) (or_insert_table (key_str k) hs) = Some es"
      and c': "c' = set_table c (map_put ''hosts'' (TTable (map_put (key_str k) (TTable (map_put key (TStr w) es))
            (or_insert_table (key_str k) hs))) (or_insert_table ''hosts'' (cf_table c)))" by (rule config_set_host)
    have t': "cf_table c' = map_put ''hosts'' (TTable (map_put (key_str k) (TTable (map_put key (TStr w) es))
            (or_insert_table (key_str k) hs))) (or_insert_table ''hosts'' (cf_table c))" using c' by simp
    note hv = set_host_values(1) [OF ok hs es t'] and g = set_host_values(2) [OF ok hs es t']
    have ne: "key \<noteq> ''hosts''" using w(2) hosts_not_key by auto
    show ?thesis using w hv g ne Some by (auto simp: config_lookup_def split: option.splits)
  qed
  note effect = this
  show "\<exists>w. check_value key v = Inr w \<and> config_lookup c' host key = Some (TStr w)"
    and "key' \<noteq> key \<Longrightarrow> key' \<noteq> ''hosts'' \<Longrightarrow> config_lookup c' host' key' = config_lookup c host' key'"
    and "(\<And>h. host = Some h \<Longrightarrow> host_key_parse h' \<noteq> host_key_parse h) \<Longrightarrow>
           host_value (cf_table c') h' key = host_value (cf_table c) h' key"
    and "host \<noteq> None \<Longrightarrow> map_get key (cf_table c') = map_get key (cf_table c)"
    by (insert effect) (blast | simp)+
  show "set (unknown_keys c') = set (unknown_keys c)"
    using effect unfolding unknown_keys_set [OF kc] unknown_keys_set [OF kc'] by auto
qed

lemma load_saved:
  assumes "config_save lib io c fs = (Inr (), fs')" "\<And>t x. tl_print lib t = Inr x \<Longrightarrow> tl_parse lib x = Inr t"
    "cf_path c = (cf_dir c, CONFIG_FILE)" "io_fault io' ReadText = None"
  shows "load_from_dir lib io' fs' (cf_dir c) = Inr (config_at (cf_dir c) (cf_table c))"
proof -
  obtain x where x: "tl_print lib (cf_table c) = Inr x" "write_atomic io (cf_path c) x None fs = (Inr (), fs')"
    using assms(1) by (auto simp: config_save_def split: sum.splits)
  have "map_option fn_text (fs' (cf_path c)) = Some x"
    using x(2) by (auto simp: write_atomic_cases Let_def split: if_splits)
  then show ?thesis using assms(2) [OF x(1)] assms(3,4) by (auto simp: load_from_dir_def)
qed

definition sample_table_lib :: table_lib where
  "sample_table_lib = \<lparr>tl_parse = (\<lambda>x. Inr [(''prompt'', TStr ''disabled''), (''z'', TOther ''7'')]),
     tl_print = (\<lambda>t. if t = [(''prompt'', TStr ''disabled''), (''z'', TOther ''7'')] then Inr ''ok'' else Inl ''no''),
     tl_show = (\<lambda>v. case v of TOther s \<Rightarrow> s | _ \<Rightarrow> [])\<rparr>"

definition sample_io :: io_env where
  "sample_io = \<lparr>io_pid = 7, io_umask = 0x12, io_fault = (\<lambda>_. None)\<rparr>"

subsection \<open>Properties\<close>

text \<open>C30. A preference that was set is in effect after the next start: the file that \<open>set\<close> and
  \<open>save\<close> leave loads to the same preferences, \<open>get\<close> returns the normalised value for the
  same host, every other key, the values of other hosts and the global value keep theirs, and
  the keys this build does not know survive.\<close>

theorem config_set_persists:
  assumes "table_ok (cf_table c)" "c = config_at dir (cf_table c)"
    "config_set c host key v = (Inr (), c')"
    "\<forall>t x. tl_print lib t = Inr x \<longrightarrow> tl_parse lib x = Inr t"
    "config_save lib io c' fs = (Inr (), fs')" "io_fault io' ReadText = None"
  shows "load_from_dir lib io' fs' dir = Inr c'
    \<and> (\<exists>w. check_value key v = Inr w \<and> config_get lib c' host key = Some w)
    \<and> (\<forall>host' key'. key' \<noteq> key \<and> key' \<noteq> ''hosts'' \<longrightarrow> config_get lib c' host' key' = config_get lib c host' key')
    \<and> (\<forall>h'. (\<forall>h. host = Some h \<longrightarrow> host_key_parse h' \<noteq> host_key_parse h) \<longrightarrow>
           host_value (cf_table c') h' key = host_value (cf_table c) h' key)
    \<and> (host \<noteq> None \<longrightarrow> config_get lib c' None key = config_get lib c None key)
    \<and> set (unknown_keys c') = set (unknown_keys c) \<and> table_ok (cf_table c')"
proof -
  note e = config_set_effect [OF assms(1,3)]
  have dir: "cf_dir c = dir" "cf_path c = (dir, CONFIG_FILE)" using assms(2) by (metis config.select_convs(1,2) config_at_def)+
  have place: "cf_dir c' = dir" "cf_path c' = (dir, CONFIG_FILE)" using config_set_same_place [OF assms(3)] dir by simp_all
  then have c': "config_at dir (cf_table c') = c'" by (cases c') (simp add: config_at_def)
  have "load_from_dir lib io' fs' dir = Inr c'"
    using load_saved [OF assms(5) _ _ assms(6)] assms(4) place c' by simp
  moreover have "\<exists>w. check_value key v = Inr w \<and> config_get lib c' host key = Some w"
    using e(1) by (auto simp: config_get_def render_scalar_def)
  moreover have "\<forall>h'. (\<forall>h. host = Some h \<longrightarrow> host_key_parse h' \<noteq> host_key_parse h) \<longrightarrow>
           host_value (cf_table c') h' key = host_value (cf_table c) h' key" using e(3) by blast
  ultimately show ?thesis using e(2,4,5) config_set_table_ok [OF assms(1,3)]
    by (simp add: config_get_def config_lookup_def)
qed

theorem config_set_persists_witness:
  "\<exists>c' fs'. config_set (config_at ''d'' [(''z'', TOther ''7'')]) None ''prompt'' '' Disabled'' = (Inr (), c')
     \<and> config_get sample_table_lib c' None ''prompt'' = Some ''disabled''
     \<and> load_from_dir sample_table_lib sample_io fs' ''d'' = Inr c' \<and> set (unknown_keys c') = {''z''}"
proof -
  let ?c = "config_at ''d'' [(''z'', TOther ''7'')]"
  let ?c' = "config_at ''d'' [(''prompt'', TStr ''disabled''), (''z'', TOther ''7'')]"
  have s: "config_set ?c None ''prompt'' '' Disabled'' = (Inr (), ?c')" by code_simp
  obtain fs' where f: "config_save sample_table_lib sample_io ?c' Map.empty = (Inr (), fs')"
    by (simp add: config_save_def sample_table_lib_def config_at_def write_atomic_cases sample_io_def Let_def)
  have ok: "table_ok (cf_table ?c)"
    by (auto simp: config_at_def table_ok_def keys_ok_def table_at_def map_get_def find_by_def)
  have w: "check_value ''prompt'' '' Disabled'' = Inr ''disabled''" by code_simp
  have u: "unknown_keys ?c = [''z'']" by code_simp
  have "?c = config_at ''d'' (cf_table ?c)" by (simp add: config_at_def)
  moreover have "\<forall>t x. tl_print sample_table_lib t = Inr x \<longrightarrow> tl_parse sample_table_lib x = Inr t"
    by (simp add: sample_table_lib_def)
  moreover have "io_fault sample_io ReadText = None" by (simp add: sample_io_def)
  ultimately show ?thesis using config_set_persists [OF ok _ s _ f, of "''d''" sample_io] s w u by auto
qed

lemma parse_own_names:
  "prompt_from_str (prompt_as_str p) = Some p" "color_from_str (color_as_str q) = Some q" "store_from_str (store_as_str r) = Some r"
proof -
  show "prompt_from_str (prompt_as_str p) = Some p" by (cases p; simp only:; code_simp)
  show "color_from_str (color_as_str q) = Some q" by (cases q; simp only:; code_simp)
  show "store_from_str (store_as_str r) = Some r" by (cases r; simp only:; code_simp)
qed

lemma names_not_empty: "prompt_as_str p \<noteq> []" "color_as_str q \<noteq> []" "store_as_str r \<noteq> []"
proof -
  show "prompt_as_str p \<noteq> []" by (cases p; simp only:; code_simp)
  show "color_as_str q \<noteq> []" by (cases q; simp only:; code_simp)
  show "store_as_str r \<noteq> []" by (cases r; simp only:; code_simp)
qed

text \<open>A stored preference has the type of its key: when \<open>set\<close> accepts a value for \<open>prompt\<close>,
  \<open>color\<close> or \<open>credential_store\<close>, the value parses, and the typed accessor for the same host
  returns what it parses to, never the default by accident.\<close>

theorem config_set_typed:
  assumes "table_ok (cf_table c)" "config_set c host key v = (Inr (), c')"
  shows "(key = ''prompt'' \<longrightarrow> prompt_from_str v = Some (config_prompt c' host))
    \<and> (key = ''color'' \<longrightarrow> color_from_str v = Some (config_color c' host))
    \<and> (key = ''credential_store'' \<longrightarrow> store_from_str v = Some (config_credential_store c' host))"
proof -
  from config_set_effect(1) [OF assms] obtain w where w: "check_value key v = Inr w" "config_lookup c' host key = Some (TStr w)"
    by blast
  then have str: "w \<noteq> [] \<Longrightarrow> config_string c' host key = Some w" by (simp add: config_string_def)
  have "prompt_from_str v = Some (config_prompt c' host)" if k: "key = ''prompt''"
    using w(1) str k by (auto simp: check_value_def config_prompt_def config_parsed_def parse_own_names names_not_empty split: option.splits)
  moreover have "color_from_str v = Some (config_color c' host)" if k: "key = ''color''"
    using w(1) str k by (auto simp: check_value_def config_color_def config_parsed_def parse_own_names names_not_empty split: option.splits)
  moreover have "store_from_str v = Some (config_credential_store c' host)" if k: "key = ''credential_store''"
    using w(1) str k
    by (auto simp: check_value_def config_credential_store_def config_parsed_def parse_own_names names_not_empty split: option.splits)
  ultimately show ?thesis by blast
qed

theorem config_set_typed_witness:
  "config_color (snd (config_set (config_at ''d'' []) None ''color'' ''never'')) None = ColorNever"
proof -
  let ?c = "config_at ''d'' []" and ?c' = "config_at ''d'' [(''color'', TStr ''never'')]"
  have ok: "table_ok (cf_table ?c)" by (simp add: config_at_def table_ok_def keys_ok_def table_at_def map_get_def find_by_def)
  have s: "config_set ?c None ''color'' ''never'' = (Inr (), ?c')" by code_simp
  have p: "color_from_str ''never'' = Some ColorNever" by code_simp
  show ?thesis using config_set_typed [OF ok s] s p by simp
qed

end
