(* ===== verification/Classify.thy ===== *)
theory Classify
  imports Request Slug
begin

text \<open>
  From an HTTP status and body to an error kind: \<open>crates/forgejo-core/src/error/classify.rs\<close>.

  A JSON value is a datatype whose objects keep their order (\<open>preserve_order\<close>).  Parsing and
  printing JSON and the lossy decoding of bytes are parameters (\<open>json_lib\<close>); \<open>Retry-After\<close>
  is read by the parameter \<open>ra\<close>.
\<close>

subsection \<open>JSON\<close>

datatype json = JNull | JBool bool | JNum str | JStr str | JArr "json list" | JObj "(str \<times> json) list"

record json_lib =
  js_parse :: "str \<Rightarrow> json option"
  js_show :: "json \<Rightarrow> str"
  js_lossy :: "str \<Rightarrow> str"

fun json_get :: "json \<Rightarrow> str \<Rightarrow> json option" where
  "json_get (JObj m) k = map_of m k"
| "json_get _ k = None"

subsection \<open>What classification knows\<close>

datatype repo_probe = NotAttempted | Exists | Missing

record classify_ctx =
  cc_host :: str
  cc_method :: str
  cc_path :: str
  cc_had_token :: bool
  cc_login :: "str option"
  cc_needed_scope :: "str list"
  cc_have_scopes :: "str list option"
  cc_settings_url :: str
  cc_instance :: "str option"
  cc_repo_probe :: repo_probe
  cc_uploading :: "str option"

definition with_op_scope :: "classify_ctx \<Rightarrow> str option \<Rightarrow> classify_ctx" where
  "with_op_scope ctx scope =
     ctx\<lparr>cc_needed_scope := (case map_option trim scope of Some s \<Rightarrow> if s = [] then [] else [s] | None \<Rightarrow> [])\<rparr>"

text \<open>The pieces of a path: \<open>trim_matches('/').split('/')\<close>, the empty ones dropped.\<close>

definition path_segs :: "str \<Rightarrow> str list" where
  "path_segs p = filter (\<lambda>s. s \<noteq> []) (split_c (trim_c p CHR ''/'') CHR ''/'')"

definition api_path :: "str \<Rightarrow> str" where
  "api_path path =
     (let p = takeWhile (\<lambda>c. c \<noteq> CHR ''?'' \<and> c \<noteq> CHR ''#'') path;
          p = (case strip_prefix p ''/api/v1'' of Some q \<Rightarrow> q | None \<Rightarrow> p)
      in if p = [] then ''/'' else p)"

definition ISSUE_ROUTES :: "str list" where
  "ISSUE_ROUTES = [''issues'', ''pulls'', ''milestones'', ''labels'', ''times'', ''issue_templates'']"

definition infer_scope :: "str \<Rightarrow> str \<Rightarrow> scope option" where
  "infer_scope meth path =
     (case path_segs (api_path path) of
        [] \<Rightarrow> None
      | root # segs \<Rightarrow>
          let area =
            (if root = ''repos'' \<or> root = ''repositories'' then
               (if list_ex (List.member ISSUE_ROUTES) (root # segs) then ''issue'' else ''repository'')
             else if root = ''issues'' then ''issue''
             else if root = ''user'' \<or> root = ''users'' then ''user''
             else if root = ''org'' \<or> root = ''orgs'' \<or> root = ''teams'' then ''organization''
             else if root = ''admin'' then ''admin''
             else if root = ''notifications'' then ''notification''
             else if root = ''packages'' then ''package''
             else if root = ''activitypub'' then ''activitypub''
             else ''misc'')
          in Some (scope_new (for_method meth) area))"

definition scope_to_name :: "classify_ctx \<Rightarrow> str list" where
  "scope_to_name ctx =
     (if cc_needed_scope ctx \<noteq> [] then cc_needed_scope ctx
      else (case infer_scope (cc_method ctx) (cc_path ctx) of Some s \<Rightarrow> [s] | None \<Rightarrow> []))"

subsection \<open>Error bodies\<close>

record server_body =
  sb_message :: "str option"
  sb_errors :: "str list"
  sb_fields :: "field_error list"
  sb_raw :: str
  sb_is_html :: bool

definition field_text :: "field_error \<Rightarrow> str" where
  "field_text f = (case fe_field f of Some nm \<Rightarrow> nm @ '': '' @ fe_message f | None \<Rightarrow> fe_message f)"

definition best_message :: "server_body \<Rightarrow> str" where
  "best_message sb =
     (case (case map_option trim (sb_message sb) of Some m \<Rightarrow> if m = [] then None else Some m | None \<Rightarrow> None) of
        Some m \<Rightarrow> m
      | None \<Rightarrow>
          if sb_errors sb \<noteq> [] then join ''; '' (sb_errors sb)
          else if sb_fields sb \<noteq> [] then join ''; '' (map field_text (sb_fields sb))
          else if sb_is_html sb then [] else sb_raw sb)"

definition sb_is_empty :: "server_body \<Rightarrow> bool" where
  "sb_is_empty sb \<longleftrightarrow> sb_message sb = None \<and> sb_errors sb = [] \<and> sb_fields sb = []"

definition ENVELOPE :: "str list" where
  "ENVELOPE = [''message'', ''errors'', ''url'', ''error'', ''error_description'', ''documentation_url'']"

definition EXCERPT :: nat where
  "EXCERPT = 400"

definition clip_text :: "str \<Rightarrow> str" where
  "clip_text s = (if length (chars s) \<le> EXCERPT then s else concat (take EXCERPT (chars s)) @ ellipsis)"

fun as_message :: "json \<Rightarrow> str option" where
  "as_message (JStr s) = (if trim s \<noteq> [] then Some (trim s) else None)"
| "as_message (JNum n) = Some n"
| "as_message _ = None"

text \<open>One item of an \<open>errors\<close> array: what it adds to the errors and to the fields.\<close>

definition error_item :: "json_lib \<Rightarrow> json \<Rightarrow> str list \<times> field_error list" where
  "error_item lib item =
     (case item of
        JObj ob \<Rightarrow>
          let message = (case Option.bind (map_of ob ''message'') as_message of Some m \<Rightarrow> m | None \<Rightarrow> js_show lib item);
              field = Option.bind (case map_of ob ''field'' of Some v \<Rightarrow> Some v | None \<Rightarrow> map_of ob ''resource'') as_message
          in (case field of
                Some f \<Rightarrow> ([], [\<lparr>fe_field = Some f, fe_message = message\<rparr>])
              | None \<Rightarrow> ([message], []))
      | other \<Rightarrow> (case as_message other of Some m \<Rightarrow> ([m], []) | None \<Rightarrow> ([], [])))"

text \<open>The field map: whether it is one, and its complaints.\<close>

fun field_map :: "bool \<Rightarrow> (str \<times> json) list \<Rightarrow> bool \<times> field_error list" where
  "field_map strict [] = (True, [])"
| "field_map strict ((k, v) # m) =
     (if List.member ENVELOPE k then (if strict then (False, []) else field_map strict m)
      else
        (let here = (case v of
               JStr s \<Rightarrow> if trim s \<noteq> [] then Some [\<lparr>fe_field = Some k, fe_message = trim s\<rparr>] else None
             | JArr items \<Rightarrow> Some (map (\<lambda>msg. \<lparr>fe_field = Some k, fe_message = msg\<rparr>) (List.map_filter as_message items))
             | _ \<Rightarrow> None)
         in case here of
              Some fs \<Rightarrow> (case field_map strict m of (ok, fs') \<Rightarrow> (ok, fs @ fs'))
            | None \<Rightarrow> if strict then (False, []) else field_map strict m))"

definition parse_object :: "json_lib \<Rightarrow> (str \<times> json) list \<Rightarrow> server_body \<Rightarrow> server_body" where
  "parse_object lib m out =
     (let out = out\<lparr>sb_message := Option.bind (map_of m ''message'') as_message\<rparr>;
          out = (if sb_message out = None
                 then out\<lparr>sb_message := Option.bind (case map_of m ''error_description'' of Some v \<Rightarrow> Some v
                                                   | None \<Rightarrow> map_of m ''error'') as_message\<rparr>
                 else out);
          out = (case map_of m ''errors'' of
                   Some (JArr items) \<Rightarrow> out\<lparr>sb_errors := concat (map (fst \<circ> error_item lib) items),
                                          sb_fields := concat (map (snd \<circ> error_item lib) items)\<rparr>
                 | _ \<Rightarrow> out);
          (plausible, fields) = field_map (sb_is_empty out) m
      in if m \<noteq> [] \<and> plausible \<and> fields \<noteq> [] then out\<lparr>sb_fields := fields\<rparr> else out)"

definition parse_body :: "json_lib \<Rightarrow> header_map \<Rightarrow> str \<Rightarrow> server_body" where
  "parse_body lib headers body =
     (let trimmed = trim (js_lossy lib body);
          content_type = to_ascii_lowercase (case header_text headers ''content-type'' of Some v \<Rightarrow> v | None \<Rightarrow> []);
          is_html = contains content_type ''text/html'' \<or> starts_with trimmed ''<!DOCTYPE''
            \<or> starts_with trimmed ''<!doctype'' \<or> starts_with trimmed ''<html'';
          out = \<lparr>sb_message = None, sb_errors = [], sb_fields = [], sb_raw = clip_text trimmed, sb_is_html = is_html\<rparr>
      in case js_parse lib trimmed of
           None \<Rightarrow> out
         | Some (JObj m) \<Rightarrow> parse_object lib m out
         | Some (JArr items) \<Rightarrow> out\<lparr>sb_errors := List.map_filter as_message items\<rparr>
         | Some (JStr s) \<Rightarrow> out\<lparr>sb_message := Some s\<rparr>
         | Some _ \<Rightarrow> out)"

subsection \<open>Paths\<close>

definition KNOWN_ROOTS :: "str list" where
  "KNOWN_ROOTS = [''activitypub'', ''admin'', ''gitignore'', ''issues'', ''label_templates'', ''labels'', ''licenses'',
     ''markdown'', ''markup'', ''nodeinfo'', ''notifications'', ''org'', ''orgs'', ''packages'', ''repos'',
     ''repositories'', ''settings'', ''signing-key.gpg'', ''teams'', ''topics'', ''user'', ''users'', ''version'']"

datatype id_shape = Segment | PathShape

definition KINDS :: "(str \<times> str \<times> id_shape) list" where
  "KINDS =
    [(''assets'', ''release asset'', Segment), (''attachments'', ''attachment'', Segment),
     (''branch_protections'', ''branch protection rule'', Segment), (''branches'', ''branch'', Segment),
     (''collaborators'', ''collaborator'', Segment), (''comments'', ''comment'', Segment),
     (''commits'', ''commit'', Segment), (''contents'', ''file'', PathShape),
     (''editorconfig'', ''file'', PathShape), (''gpg_keys'', ''GPG key'', Segment), (''hooks'', ''webhook'', Segment),
     (''issues'', ''issue'', Segment), (''jobs'', ''workflow job'', Segment), (''keys'', ''key'', Segment),
     (''labels'', ''label'', Segment), (''media'', ''file'', PathShape), (''members'', ''member'', Segment),
     (''milestones'', ''milestone'', Segment), (''orgs'', ''organization'', Segment), (''packages'', ''package'', Segment),
     (''pulls'', ''pull request'', Segment), (''raw'', ''file'', PathShape), (''refs'', ''ref'', PathShape),
     (''releases'', ''release'', Segment), (''reviews'', ''review'', Segment), (''runners'', ''runner'', Segment),
     (''runs'', ''workflow run'', Segment), (''secrets'', ''secret'', Segment), (''tags'', ''tag'', Segment),
     (''teams'', ''team'', Segment), (''times'', ''tracked time'', Segment), (''topics'', ''topic'', Segment),
     (''users'', ''user'', Segment), (''variables'', ''variable'', Segment), (''wiki'', ''wiki page'', Segment),
     (''workflows'', ''workflow'', Segment)]"

definition kind_of :: "str \<Rightarrow> (str \<times> id_shape) option" where
  "kind_of s = map_option snd (List.find (\<lambda>(k, _). k = s) KINDS)"

fun resource_walk :: "str list \<Rightarrow> str \<times> str \<Rightarrow> str \<times> str" where
  "resource_walk [] best = best"
| "resource_walk (s # rest) best =
     (case kind_of s of
        None \<Rightarrow> resource_walk rest best
      | Some (kind, shape) \<Rightarrow>
          if shape = PathShape then (kind, join ''/'' rest)
          else
            (let ident = (case rest of x # _ \<Rightarrow> x | [] \<Rightarrow> [])
             in if ident \<noteq> [] \<and> kind_of ident = None then resource_walk (tl rest) (kind, ident)
                else resource_walk rest (kind, ident)))"

definition resource_of :: "str list \<Rightarrow> str \<times> str" where
  "resource_of tail =
     (let best = resource_walk tail (''resource'', [])
      in if snd best = [] \<and> fst best = ''resource''
         then (if tail = [] then best else (''resource'', last tail)) else best)"

definition named_resource :: "str \<Rightarrow> str \<times> str" where
  "named_resource path =
     (let segs = path_segs path
      in resource_of (if segs \<noteq> [] \<and> hd segs = ''repos'' \<and> 3 \<le> length segs then drop 3 segs else segs))"

definition repo_slug_of :: "str \<Rightarrow> str option" where
  "repo_slug_of path =
     (case split_c (trim_c (api_path path) CHR ''/'') CHR ''/'' of
        root # ow # nm # _ \<Rightarrow> if root = ''repos'' \<and> ow \<noteq> [] \<and> nm \<noteq> [] then Some (ow @ ''/'' @ nm) else None
      | _ \<Rightarrow> None)"

definition probe_target :: "nat \<Rightarrow> str \<Rightarrow> (str \<times> str) option" where
  "probe_target status path =
     (if status \<noteq> 404 then None
      else (case path_segs (api_path path) of
              root # ow # nm # _ # _ \<Rightarrow> if root = ''repos'' then Some (ow, nm) else None
            | _ \<Rightarrow> None))"

subsection \<open>Messages\<close>

definition non_empty :: "str \<Rightarrow> str option" where
  "non_empty s = (if trim s \<noteq> [] then Some s else None)"

definition validation_message :: "server_body \<Rightarrow> str \<Rightarrow> str option" where
  "validation_message sb msg =
     (if sb_message sb = None \<and> sb_errors sb = [] \<and> sb_fields sb \<noteq> [] then None else non_empty msg)"

definition RESTATES_THE_STATUS :: "str list" where
  "RESTATES_THE_STATUS = [''null'', ''not found'', ''notfound'', ''404'', ''404 not found'', ''page not found'',
     ''the target couldnt be found'', ''the target could not be found'', ''object does not exist'', ''resource not found'']"

definition flat_text :: "str \<Rightarrow> str" where
  "flat_text msg =
     join '' '' (split_whitespace (filter (\<lambda>c. is_ascii_alphanumeric c \<or> is_ascii_ws c) (to_ascii_lowercase msg)))"

definition not_found_message :: "server_body \<Rightarrow> str option" where
  "not_found_message sb =
     (let msg = trim (best_message sb); flat = flat_text msg
      in if msg = [] \<or> flat = [] \<or> List.member RESTATES_THE_STATUS flat then None else Some msg)"

text \<open>\<open>split([',', ' ', '\t'])\<close>.\<close>

fun split_any :: "char list \<Rightarrow> str \<Rightarrow> str list" where
  "split_any cs [] = [[]]"
| "split_any cs (c # s) =
     (if List.member cs c then [] # split_any cs s
      else (case split_any cs s of p # ps \<Rightarrow> (c # p) # ps | [] \<Rightarrow> [[c]]))"

definition scopes_in_message :: "str \<Rightarrow> str list" where
  "scopes_in_message msg =
     (if \<not> contains (to_ascii_lowercase msg) ''scope'' then []
      else (case find_c CHR ''['' msg of None \<Rightarrow> []
        | Some opn \<Rightarrow> (case find_c CHR '']'' (drop opn msg) of None \<Rightarrow> []
          | Some i \<Rightarrow>
              filter (\<lambda>s. contains s '':'')
                (map (\<lambda>s. trim_c (trim_c (trim s) (CHR 0x22)) (CHR 0x27))
                  (split_any [CHR '','', CHR '' '', CHR 0x09] (take (i - 1) (drop (opn + 1) msg)))))))"

definition looks_like_scope_problem :: "str \<Rightarrow> bool" where
  "looks_like_scope_problem msg =
     (let m = to_ascii_lowercase msg
      in contains m ''scope'' \<or> contains m ''insufficient''
         \<or> (contains m ''token'' \<and> (contains m ''permission'' \<or> contains m ''not allowed'')))"

definition mentions_two_factor :: "str \<Rightarrow> bool" where
  "mentions_two_factor msg =
     (let m = to_ascii_lowercase msg
      in contains m ''otp'' \<or> contains m ''two-factor'' \<or> contains m ''two factor'' \<or> contains m ''2fa'')"

subsection \<open>Classification\<close>

definition route_not_found :: "classify_ctx \<Rightarrow> str \<Rightarrow> error_kind" where
  "route_not_found ctx path = RouteNotFound (cc_method ctx) path (cc_instance ctx)"

definition classify_404 :: "server_body \<Rightarrow> str \<Rightarrow> classify_ctx \<Rightarrow> error_kind" where
  "classify_404 sb path ctx =
     (if sb_is_html sb then route_not_found ctx path
      else (case path_segs path of
        [] \<Rightarrow> route_not_found ctx path
      | root # segs \<Rightarrow>
          if \<not> List.member KNOWN_ROOTS root then route_not_found ctx path
          else
            let server_message = not_found_message sb in
            if root = ''repos'' \<and> 2 \<le> length segs then
              (let slug = segs ! 0 @ ''/'' @ segs ! 1; rest = drop 2 segs in
               if rest = [] then RepoNotFound slug (cc_host ctx) (cc_login ctx) True server_message
               else (case cc_repo_probe ctx of
                       Exists \<Rightarrow> (case resource_of rest of (kind, ident) \<Rightarrow>
                           ResourceNotFound kind ident (Some slug) server_message)
                     | Missing \<Rightarrow> RepoNotFound slug (cc_host ctx) (cc_login ctx) True server_message
                     | NotAttempted \<Rightarrow> RepoNotFound slug (cc_host ctx) (cc_login ctx) False server_message))
            else
              (case resource_of segs of (kind, ident) \<Rightarrow>
                 if ident = [] then route_not_found ctx path
                 else ResourceNotFound kind ident None server_message)))"

definition classify ::
  "json_lib \<Rightarrow> (str \<Rightarrow> duration option) \<Rightarrow> nat \<Rightarrow> header_map \<Rightarrow> str \<Rightarrow> classify_ctx \<Rightarrow> error_kind" where
  "classify lib ra status headers body ctx =
     (let sb = parse_body lib headers body; msg = best_message sb; path = api_path (cc_path ctx) in
      if status = 400 then Validation (sb_fields sb) (validation_message sb msg)
      else if status = 401 then
        (if mentions_two_factor msg then TwoFactorRequired (cc_host ctx)
         else if cc_had_token ctx then TokenRejected (cc_host ctx) (cc_login ctx) (cc_settings_url ctx)
         else NotAuthenticated (cc_host ctx))
      else if status = 403 then
        (let named = scopes_in_message msg in
         if named = [] \<and> \<not> looks_like_scope_problem msg then Forbidden msg
         else InsufficientScope (cc_host ctx) (if named = [] then scope_to_name ctx else named)
                (cc_have_scopes ctx) (cc_settings_url ctx))
      else if status = 404 then classify_404 sb path ctx
      else if status = 405 then
        (if sb_is_html sb \<or> trim msg = [] then route_not_found ctx path
         else (case named_resource path of (kind, ident) \<Rightarrow>
           StateConflict (if ident \<noteq> [] then Some (kind @ '' '' @ ident) else None) None msg))
      else if status = 409 then Conflict msg
      else if status = 413 then QuotaExceeded msg (cc_uploading ctx)
      else if status = 422 then Validation (sb_fields sb) (validation_message sb msg)
      else if status = 423 then
        Archived (case repo_slug_of path of Some s \<Rightarrow> s | None \<Rightarrow> []) (cc_host ctx)
      else if status = 429 then
        RateLimited (cc_host ctx) (Option.bind (header_text headers ''retry-after'') ra)
      else if 500 \<le> status \<and> status \<le> 599 then ServerError status msg
      else UnexpectedStatus status (if msg = [] then sb_raw sb else msg))"

subsection \<open>Lemmas\<close>

text \<open>Trimming only drops pieces that are empty.\<close>

lemma filter_split_c_dropWhile:
  "filter (\<lambda>s. s \<noteq> []) (split_c (dropWhile (\<lambda>x. x = c) p) c) = filter (\<lambda>s. s \<noteq> []) (split_c p c)"
  by (induction p) auto

lemma filter_split_c_snoc: "filter (\<lambda>s. s \<noteq> []) (split_c (p @ [c]) c) = filter (\<lambda>s. s \<noteq> []) (split_c p c)"
  using split_c_mid [of p c "[]"] by simp

lemma path_segs_alt: "path_segs p = filter (\<lambda>s. s \<noteq> []) (split_c p CHR ''/'')"
proof -
  have e: "filter (\<lambda>s. s \<noteq> []) (split_c (trim_end_c q CHR ''/'') CHR ''/'') = filter (\<lambda>s. s \<noteq> []) (split_c q CHR ''/'')" for q
    by (induction q rule: rev_induct) (auto simp: trim_end_c_def filter_split_c_snoc)
  show ?thesis by (simp add: path_segs_def trim_c_def e trim_start_c_def filter_split_c_dropWhile)
qed

definition server_says :: "error_kind \<Rightarrow> str option" where
  "server_says k =
     (case k of
        Validation _ m \<Rightarrow> m | RepoNotFound _ _ _ _ m \<Rightarrow> m | ResourceNotFound _ _ _ m \<Rightarrow> m
      | Conflict m \<Rightarrow> Some m | QuotaExceeded m _ \<Rightarrow> Some m | StateConflict _ _ m \<Rightarrow> Some m
      | Forbidden m \<Rightarrow> Some m | ServerError _ m \<Rightarrow> Some m | UnexpectedStatus _ m \<Rightarrow> Some m
      | _ \<Rightarrow> None)"

text \<open>The pieces of the path of a request about something in a repository.\<close>

definition repo_segs :: "classify_ctx \<Rightarrow> (str \<times> str list) option" where
  "repo_segs ctx =
     (case path_segs (api_path (cc_path ctx)) of
        root # ow # nm # rest \<Rightarrow> if root = ''repos'' then Some (ow @ ''/'' @ nm, rest) else None
      | _ \<Rightarrow> None)"

lemma best_message_fields:
  "sb_message sb = None \<Longrightarrow> sb_errors sb = [] \<Longrightarrow> sb_fields sb \<noteq> [] \<Longrightarrow>
   best_message sb = join ''; '' (map field_text (sb_fields sb))"
  by (simp add: best_message_def)

lemma validation_says:
  assumes "trim (best_message sb) \<noteq> []"
  shows "validation_message sb (best_message sb) = Some (best_message sb)
    \<or> validation_message sb (best_message sb) = None \<and> sb_fields sb \<noteq> []
      \<and> best_message sb = join ''; '' (map field_text (sb_fields sb))"
  using assms best_message_fields [of sb] by (auto simp: validation_message_def non_empty_def)

lemma classify_400_422:
  "status = 400 \<or> status = 422 \<Longrightarrow> classify lib ra status headers body ctx =
     (let sb = parse_body lib headers body in Validation (sb_fields sb) (validation_message sb (best_message sb)))"
  by (auto simp: classify_def Let_def)

lemma classify_404_eq:
  "classify lib ra 404 headers body ctx = classify_404 (parse_body lib headers body) (api_path (cc_path ctx)) ctx"
  by (simp add: classify_def Let_def)

lemma classify_404_cases:
  "classify_404 sb (api_path (cc_path ctx)) ctx = route_not_found ctx (api_path (cc_path ctx))
   \<or> (\<exists>slug rest. repo_segs ctx = Some (slug, rest) \<and>
        classify_404 sb (api_path (cc_path ctx)) ctx =
          (if rest = [] then RepoNotFound slug (cc_host ctx) (cc_login ctx) True (not_found_message sb)
           else (case cc_repo_probe ctx of
                   Exists \<Rightarrow> ResourceNotFound (fst (resource_of rest)) (snd (resource_of rest)) (Some slug) (not_found_message sb)
                 | Missing \<Rightarrow> RepoNotFound slug (cc_host ctx) (cc_login ctx) True (not_found_message sb)
                 | NotAttempted \<Rightarrow> RepoNotFound slug (cc_host ctx) (cc_login ctx) False (not_found_message sb))))
   \<or> (repo_segs ctx = None \<and> (\<exists>k i. i \<noteq> [] \<and>
        classify_404 sb (api_path (cc_path ctx)) ctx = ResourceNotFound k i None (not_found_message sb)))"
proof (cases "sb_is_html sb")
  case True
  then show ?thesis by (simp add: classify_404_def)
next
  case html: False
  show ?thesis
  proof (cases "path_segs (api_path (cc_path ctx))")
    case Nil
    then show ?thesis using html by (simp add: classify_404_def)
  next
    case (Cons root segs)
    show ?thesis
    proof (cases "List.member KNOWN_ROOTS root")
      case False
      then show ?thesis using html Cons by (simp add: classify_404_def)
    next
      case known: True
      show ?thesis
      proof (cases "repo_segs ctx")
        case (Some p)
        then obtain ow nm rest where p: "root = ''repos''" "segs = ow # nm # rest" "p = (ow @ ''/'' @ nm, rest)"
          using Cons by (auto simp: repo_segs_def split: list.splits if_splits)
        then have "classify_404 sb (api_path (cc_path ctx)) ctx =
          (if rest = [] then RepoNotFound (ow @ ''/'' @ nm) (cc_host ctx) (cc_login ctx) True (not_found_message sb)
           else (case cc_repo_probe ctx of
                   Exists \<Rightarrow> ResourceNotFound (fst (resource_of rest)) (snd (resource_of rest)) (Some (ow @ ''/'' @ nm)) (not_found_message sb)
                 | Missing \<Rightarrow> RepoNotFound (ow @ ''/'' @ nm) (cc_host ctx) (cc_login ctx) True (not_found_message sb)
                 | NotAttempted \<Rightarrow> RepoNotFound (ow @ ''/'' @ nm) (cc_host ctx) (cc_login ctx) False (not_found_message sb)))"
          using html Cons known by (simp add: classify_404_def Let_def split: repo_probe.splits prod.splits)
        then show ?thesis using Some unfolding p(3) by blast
      next
        case None
        then have n: "(root = ''repos'' \<and> 2 \<le> length segs) = False"
          using Cons by (auto simp: repo_segs_def split: list.splits if_splits)
        have "classify_404 sb (api_path (cc_path ctx)) ctx =
          (if snd (resource_of segs) = [] then route_not_found ctx (api_path (cc_path ctx))
           else ResourceNotFound (fst (resource_of segs)) (snd (resource_of segs)) None (not_found_message sb))"
          by (simp only: classify_404_def Cons list.case Let_def n html known if_False if_True simp_thms case_prod_beta)
        then show ?thesis using None by auto
      qed
    qed
  qed
qed

lemma sample_404_segs: "path_segs (api_path ''/api/v1/repos/o/r/pulls/4'') = [''repos'', ''o'', ''r'', ''pulls'', ''4'']"
  by code_simp

definition sample_cctx :: "str \<Rightarrow> repo_probe \<Rightarrow> classify_ctx" where
  "sample_cctx p probe = \<lparr>cc_host = ''h'', cc_method = ''GET'', cc_path = p, cc_had_token = True, cc_login = None,
     cc_needed_scope = [], cc_have_scopes = None, cc_settings_url = ''s'', cc_instance = None, cc_repo_probe = probe,
     cc_uploading = None\<rparr>"

definition sample_js :: "json option \<Rightarrow> json_lib" where
  "sample_js v = \<lparr>js_parse = (\<lambda>_. v), js_show = (\<lambda>_. []), js_lossy = id\<rparr>"

text \<open>A server message is never swallowed: for every status whose answer is a sentence of the
  server, the error carries the sentence verbatim or, for a rejected value, the same words field
  by field; and a 404 carries it unless it only restates the status.\<close>

lemma classify_keeps_message:
  assumes "trim (best_message (parse_body lib headers body)) \<noteq> []"
    "status \<notin> {401, 423, 429}"
    "status = 403 \<longrightarrow> scopes_in_message (best_message (parse_body lib headers body)) = []
       \<and> \<not> looks_like_scope_problem (best_message (parse_body lib headers body))"
    "status = 404 \<or> status = 405 \<longrightarrow> \<not> sb_is_html (parse_body lib headers body)"
    "status = 404 \<longrightarrow> repo_segs ctx \<noteq> None"
  shows "(let msg = best_message (parse_body lib headers body); k = classify lib ra status headers body ctx in
     if status = 404 then
       (if List.member RESTATES_THE_STATUS (flat_text (trim msg)) \<or> flat_text (trim msg) = []
        then server_says k = None else server_says k = Some (trim msg))
     else server_says k = Some msg
       \<or> (\<exists>fs. k = Validation fs None \<and> fs \<noteq> [] \<and> msg = join ''; '' (map field_text fs)))"
proof (cases "status = 404")
  case True
  let ?sb = "parse_body lib headers body"
  from assms(5) True obtain ow nm rest where s: "path_segs (api_path (cc_path ctx)) = ''repos'' # ow # nm # rest"
    by (auto simp: repo_segs_def split: list.splits if_splits)
  have "List.member KNOWN_ROOTS ''repos''" by code_simp
  then have "server_says (classify_404 ?sb (api_path (cc_path ctx)) ctx) = not_found_message ?sb"
    using s assms(4) True
    by (simp add: classify_404_def Let_def server_says_def split: repo_probe.splits prod.splits)
  then show ?thesis using True assms(1)
    by (simp add: classify_404_eq not_found_message_def Let_def)
next
  case False
  show ?thesis
  proof (cases "status = 400 \<or> status = 422")
    case True
    then show ?thesis using False validation_says [OF assms(1)]
      by (auto simp: classify_400_422 Let_def server_says_def)
  next
    case other: False
    then show ?thesis using assms False by (auto simp: classify_def Let_def server_says_def split: prod.splits)
  qed
qed

lemma classify_keeps_message_sample:
  "server_says (classify (sample_js (Some (JArr [JStr ''no branch x'']))) (\<lambda>_. None) 404 [] ''b''
      (sample_cctx ''/api/v1/repos/o/r/pulls'' Exists)) = Some ''no branch x''"
proof -
  let ?lib = "sample_js (Some (JArr [JStr ''no branch x'']))"
  let ?ctx = "sample_cctx ''/api/v1/repos/o/r/pulls'' Exists"
  have m: "best_message (parse_body ?lib [] ''b'') = ''no branch x''" "\<not> sb_is_html (parse_body ?lib [] ''b'')"
    "trim ''no branch x'' = ''no branch x''" by code_simp+
  have f: "flat_text ''no branch x'' = ''no branch x''" "\<not> List.member RESTATES_THE_STATUS ''no branch x''" by code_simp+
  have "repo_segs ?ctx = Some (''o/r'', [''pulls''])" by code_simp
  then show ?thesis using classify_keeps_message [of ?lib "[]" "''b''" 404 ?ctx "\<lambda>_. None"] m f
    by (simp add: Let_def)
qed

subsection \<open>Properties\<close>



text \<open>The class of the status decides the exit code and whether the failure is transient: 401
  and a scope refusal ask for credentials, 404 is a missing object, 429 and 5xx alone are
  transient.\<close>

theorem classify_exit_codes:
  assumes "classify lib ra status headers body ctx = k"
  shows "exit_code k = (if status = 401 then 4 else if status = 404 then 5 else if status = 429 then 8
           else if 500 \<le> status \<and> status \<le> 599 then 7
           else if status = 403 \<and> (\<exists>h n hs s. k = InsufficientScope h n hs s) then 4
           else if status = 405 \<and> (\<exists>m p i. k = RouteNotFound m p i) then 5 else 1)
    \<and> (is_transient k \<longleftrightarrow> status = 429 \<or> 500 \<le> status \<and> status \<le> 599)"
proof (cases "status = 404")
  case True
  then show ?thesis using assms classify_404_cases [of "parse_body lib headers body" ctx]
    by (auto simp: classify_404_eq route_not_found_def exit_code_def is_transient_def split: if_splits repo_probe.splits)
next
  case False
  then show ?thesis using assms
    by (auto simp: classify_def Let_def route_not_found_def exit_code_def is_transient_def split: if_splits prod.splits)
qed

theorem classify_exit_codes_witness:
  "exit_code (classify (sample_js None) (\<lambda>_. None) 429 [] [] (sample_cctx ''/user'' NotAttempted)) = 8"
  using classify_exit_codes [OF refl, of "sample_js None" "\<lambda>_. None" 429 "[]" "[]" "sample_cctx ''/user'' NotAttempted"]
  by simp

subsection \<open>What is lost\<close>

text \<open>A field map beside an \<open>errors\<close> array replaces the fields that array had: the complaint
  about \<open>title\<close> is gone from the message.\<close>

lemma field_complaint_lost:
  "let v = JObj [(''errors'', JArr [JObj [(''field'', JStr ''title''), (''message'', JStr ''required'')]]),
                 (''invalidTopics'', JArr [JStr ''x''])];
       sb = parse_body (sample_js (Some v)) [] [] in
   best_message sb = ''invalidTopics: x''
   \<and> best_message (parse_body (sample_js (Some (JObj [hd (case v of JObj m \<Rightarrow> m | _ \<Rightarrow> [])]))) [] []) = ''title: required''"
  by code_simp

end
