(* ===== verification/Client.thy ===== *)
theory Client
  imports Paginate Classify Base64
begin

text \<open>
  The client: credentials (\<open>crates/forgejo-core/src/http/auth.rs\<close>) and the send path, decoding
  and entry points of \<open>http/mod.rs\<close>.

  What is outside the program is a record \<open>'w wire\<close> of functions on a world \<open>'w\<close>: the
  transport, the jitter sample, reading \<open>Retry-After\<close>, the header syntax of the \<open>http\<close> crate
  and JSON.  Sleeping advances the clock of the state.  A body is what reading it to its end came to.
\<close>

subsection \<open>Credentials\<close>

definition TOKEN_PREFIX :: str where
  "TOKEN_PREFIX = ''token ''"

definition BEARER_PREFIX :: str where
  "BEARER_PREFIX = ''Bearer ''"

definition OTP_HEADER :: str where
  "OTP_HEADER = ''x-forgejo-otp''"

definition SUDO_HEADER :: str where
  "SUDO_HEADER = ''sudo''"

datatype auth = AuthNone | AuthToken str | AuthBearer str | AuthBasic str str

definition has_credential :: "auth \<Rightarrow> bool" where
  "has_credential a \<longleftrightarrow> a \<noteq> AuthNone"

fun auth_secret :: "auth \<Rightarrow> str option" where
  "auth_secret AuthNone = None"
| "auth_secret (AuthToken t) = Some t"
| "auth_secret (AuthBearer t) = Some t"
| "auth_secret (AuthBasic _ pass) = Some pass"

datatype sudo_style = SudoHeader | SudoQuery

record http_creds =
  hc_auth :: auth
  hc_sudo :: "str option"
  hc_sudo_style :: sudo_style
  hc_otp :: "str option"

definition http_creds_new :: "auth \<Rightarrow> http_creds" where
  "http_creds_new a = \<lparr>hc_auth = a, hc_sudo = None, hc_sudo_style = SudoHeader, hc_otp = None\<rparr>"

definition with_sudo :: "http_creds \<Rightarrow> str \<Rightarrow> http_creds" where
  "with_sudo c user = c\<lparr>hc_sudo := Some user\<rparr>"

definition with_sudo_style :: "http_creds \<Rightarrow> sudo_style \<Rightarrow> http_creds" where
  "with_sudo_style c style = c\<lparr>hc_sudo_style := style\<rparr>"

definition with_otp :: "http_creds \<Rightarrow> str \<Rightarrow> http_creds" where
  "with_otp c code = c\<lparr>hc_otp := Some code\<rparr>"

text \<open>\<open>ok\<close> tells which texts \<open>HeaderValue::from_str\<close> accepts; the value never enters the error.\<close>

definition sensitive :: "(str \<Rightarrow> bool) \<Rightarrow> str \<Rightarrow> str \<Rightarrow> (error, str) res" where
  "sensitive ok v what =
     (if ok v then Inr v
      else Inl (error_new (Usage (Fmt ''your {what} contains a character that cannot be sent in an HTTP header (a newline or a non-ASCII byte); re-copy it without surrounding whitespace'' [what]))))"

definition auth_value :: "(str \<Rightarrow> bool) \<Rightarrow> auth \<Rightarrow> (error, str option) res" where
  "auth_value ok a =
     (case a of
        AuthNone \<Rightarrow> Inr None
      | AuthToken t \<Rightarrow> res_map Some (sensitive ok (TOKEN_PREFIX @ t) ''token'')
      | AuthBearer t \<Rightarrow> res_map Some (sensitive ok (BEARER_PREFIX @ t) ''access token'')
      | AuthBasic user pass \<Rightarrow> res_map Some (sensitive ok (''Basic '' @ Base64.encode (user @ '':'' @ pass)) ''basic credentials''))"

definition apply_creds :: "(str \<Rightarrow> bool) \<Rightarrow> http_creds \<Rightarrow> header_map \<Rightarrow> (error, header_map \<times> (str \<times> str) list) res" where
  "apply_creds ok c headers =
     res_bind (auth_value ok (hc_auth c)) (\<lambda>v.
       let headers = (case v of Some v \<Rightarrow> header_insert headers ''authorization'' (Some v) | None \<Rightarrow> headers) in
       res_bind (case hc_otp c of Some code \<Rightarrow> res_map (\<lambda>v. header_insert headers OTP_HEADER (Some v)) (sensitive ok code ''OTP code'')
                 | None \<Rightarrow> Inr headers) (\<lambda>headers.
         (case hc_sudo c of
            None \<Rightarrow> Inr (headers, [])
          | Some user \<Rightarrow>
              (case hc_sudo_style c of
                 SudoHeader \<Rightarrow> res_map (\<lambda>v. (header_insert headers SUDO_HEADER (Some v), [])) (sensitive ok user ''sudo user'')
               | SudoQuery \<Rightarrow> Inr (headers, [(''sudo'', user)])))))"

subsection \<open>The client and its world\<close>

record wire_response =
  wr_status :: nat
  wr_headers :: header_map
  wr_body :: "(error, str) res"

record wait_notice =
  wn_host :: str
  wn_attempt :: nat
  wn_of :: nat
  wn_after :: duration
  wn_reason :: retry_reason

record 'w wire =
  wi_execute :: "http_request \<Rightarrow> 'w \<Rightarrow> (error, wire_response) res \<times> 'w"
  wi_spread :: "'w \<Rightarrow> (duration \<Rightarrow> duration) \<times> 'w"
  wi_retry_after :: "str \<Rightarrow> duration option"
  wi_value_ok :: "str \<Rightarrow> bool"
  wi_name :: "str \<Rightarrow> str option"
  wi_json :: json_lib

record 'w net =
  net_world :: 'w
  net_now :: duration
  net_caps :: caps_cache
  net_notices :: "wait_notice list"

record client =
  cl_api_base :: str
  cl_web_base :: str
  cl_host :: str
  cl_login :: "str option"
  cl_creds :: http_creds
  cl_retry :: retry_policy
  cl_token_source :: "token_source option"
  cl_probe_404 :: bool
  cl_on_wait :: bool

subsection \<open>Building a client\<close>

definition authority_of :: "str \<Rightarrow> str" where
  "authority_of url =
     (let rest = (case split_once url ''://'' of Some (_, r) \<Rightarrow> r | None \<Rightarrow> url);
          rest = (case split_once_c rest CHR ''@'' of Some (_, r) \<Rightarrow> r | None \<Rightarrow> rest)
      in takeWhile (\<lambda>c. c \<noteq> CHR ''/'' \<and> c \<noteq> CHR ''?'' \<and> c \<noteq> CHR ''#'') rest)"

definition normalize_base :: "str \<Rightarrow> (error, str \<times> str) res" where
  "normalize_base base =
     (let trimmed = trim base in
      if trimmed = [] then Inl (error_new (Usage (Fmt ''the host URL is empty'' [])))
      else
        let with_scheme = (if contains trimmed ''://'' then trimmed else ''https://'' @ trimmed) in
        if authority_of with_scheme = [] then Inl (error_new (Usage (Fmt ''{base:?} has no host'' [base])))
        else
          let web = trim_end_c (trim_end_str (trim_end_c with_scheme CHR ''/'') ''/api/v1'') CHR ''/''
          in Inr (web @ ''/api/v1'', web))"

record client_builder =
  cb_base :: str
  cb_creds :: http_creds
  cb_retry :: retry_policy
  cb_user_agent :: str
  cb_token_source :: "token_source option"
  cb_login :: "str option"
  cb_probe_404 :: bool
  cb_on_wait :: bool
  cb_verify_tls :: bool

definition builder :: "str \<Rightarrow> http_creds \<Rightarrow> str \<Rightarrow> client_builder" where
  "builder base_url creds version =
     \<lparr>cb_base = base_url, cb_creds = creds, cb_retry = default_policy, cb_user_agent = ''forgejo-core/'' @ version,
      cb_token_source = None, cb_login = None, cb_probe_404 = True, cb_on_wait = False, cb_verify_tls = True\<rparr>"

definition cb_with_retry :: "client_builder \<Rightarrow> retry_policy \<Rightarrow> client_builder" where
  "cb_with_retry b p = b\<lparr>cb_retry := p\<rparr>"

definition cb_with_user_agent :: "client_builder \<Rightarrow> str \<Rightarrow> client_builder" where
  "cb_with_user_agent b ua = b\<lparr>cb_user_agent := ua\<rparr>"

definition cb_with_token_source :: "client_builder \<Rightarrow> token_source \<Rightarrow> client_builder" where
  "cb_with_token_source b s = b\<lparr>cb_token_source := Some s\<rparr>"

definition cb_with_login :: "client_builder \<Rightarrow> str \<Rightarrow> client_builder" where
  "cb_with_login b l = b\<lparr>cb_login := Some l\<rparr>"

definition cb_with_probe_404 :: "client_builder \<Rightarrow> bool \<Rightarrow> client_builder" where
  "cb_with_probe_404 b enabled = b\<lparr>cb_probe_404 := enabled\<rparr>"

definition danger_accept_invalid_certs :: "client_builder \<Rightarrow> bool \<Rightarrow> client_builder" where
  "danger_accept_invalid_certs b yes = b\<lparr>cb_verify_tls := \<not> yes\<rparr>"

definition cb_with_on_wait :: "client_builder \<Rightarrow> client_builder" where
  "cb_with_on_wait b = b\<lparr>cb_on_wait := True\<rparr>"

text \<open>\<open>build\<close>: \<open>transport\<close> is what making the transport came to.\<close>

definition build :: "(error, unit) res \<Rightarrow> client_builder \<Rightarrow> (error, client) res" where
  "build transport b =
     res_bind (normalize_base (cb_base b)) (\<lambda>(api_base, web_base).
       res_map (\<lambda>_. \<lparr>cl_api_base = api_base, cl_web_base = web_base, cl_host = authority_of web_base,
           cl_login = cb_login b, cl_creds = cb_creds b, cl_retry = cb_retry b, cl_token_source = cb_token_source b,
           cl_probe_404 = cb_probe_404 b, cl_on_wait = cb_on_wait b\<rparr>) transport)"

text \<open>The same client without a credential; its state starts with an empty cache.\<close>

definition anonymous :: "client \<Rightarrow> client" where
  "anonymous c = c\<lparr>cl_creds := http_creds_new AuthNone, cl_token_source := None\<rparr>"

definition settings_url :: "client \<Rightarrow> str" where
  "settings_url c = cl_web_base c @ ''/user/settings/applications''"

subsection \<open>The wire request\<close>

definition url_for :: "client \<Rightarrow> request \<Rightarrow> (str \<times> str) list \<Rightarrow> str" where
  "url_for c req extra =
     (let url = cl_api_base c @ req_path req; qs = query_string (req_query req @ extra)
      in if qs = [] then url else url @ ''?'' @ qs)"

definition wire_path :: "client \<Rightarrow> request \<Rightarrow> str" where
  "wire_path c req =
     (case split_once (cl_api_base c) ''://'' of
        None \<Rightarrow> []
      | Some (_, rest) \<Rightarrow> dropWhile (\<lambda>ch. ch \<noteq> CHR ''/'') rest) @ req_path req"

definition req_ctx :: "client \<Rightarrow> request \<Rightarrow> nat option \<Rightarrow> request_ctx" where
  "req_ctx c req status =
     \<lparr>ctx_host = Some (cl_host c), ctx_login = cl_login c, ctx_method = Some (method_name (req_method req)),
      ctx_path = Some (wire_path c req), ctx_repo = repo_slug_of (wire_path c req), ctx_status = status,
      ctx_token_source = cl_token_source c,
      ctx_credential_kind = (case hc_auth (cl_creds c) of AuthToken _ \<Rightarrow> Some Pat | AuthBearer _ \<Rightarrow> Some Oauth2
        | AuthNone \<Rightarrow> None | AuthBasic _ _ \<Rightarrow> None)\<rparr>"

definition with_ctx :: "error \<Rightarrow> request_ctx \<Rightarrow> error" where
  "with_ctx e ctx = e\<lparr>err_ctx := ctx\<rparr>"

definition invalid_value :: "str \<Rightarrow> error" where
  "invalid_value v = error_new (Usage (Fmt ''invalid header value: {e}'' []))"

fun extra_headers :: "'w wire \<Rightarrow> (str \<times> str) list \<Rightarrow> header_map \<Rightarrow> (error, header_map) res" where
  "extra_headers wi [] headers = Inr headers"
| "extra_headers wi ((n, v) # hs) headers =
     (case wi_name wi n of
        None \<Rightarrow> Inl (error_new (Usage (Fmt ''{name:?} is not a valid header name'' [n])))
      | Some nm \<Rightarrow>
          if wi_value_ok wi v then extra_headers wi hs (header_insert headers nm (Some v))
          else Inl (invalid_value v))"

fun out_body_of :: "body \<Rightarrow> out_body" where
  "out_body_of BodyNone = OutEmpty"
| "out_body_of (BodyJson v) = OutBytes ''application/json'' v"
| "out_body_of (BodyForm pairs) =
     OutBytes ''application/x-www-form-urlencoded'' (join ''&'' (map (\<lambda>(k, v). form k @ ''='' @ form v) pairs))"
| "out_body_of (BodyOctets m src) = OutStream m src"
| "out_body_of (BodyMultipart parts) = OutMultipart parts"

definition prepare :: "'w wire \<Rightarrow> client \<Rightarrow> request \<Rightarrow> str option \<Rightarrow> (error, http_request) res" where
  "prepare wi c req url =
     (if \<not> wi_value_ok wi (accept_header (req_accept req)) then Inl (invalid_value (accept_header (req_accept req)))
      else res_bind (apply_creds (wi_value_ok wi) (cl_creds c) [(''accept'', Some (accept_header (req_accept req)))])
        (\<lambda>(headers, extra).
          res_map (\<lambda>headers. \<lparr>hr_method = req_method req,
                     hr_url = (case url of Some u \<Rightarrow> u | None \<Rightarrow> url_for c req extra),
                     hr_headers = headers, hr_body = out_body_of (req_body req), hr_timeout = req_timeout req\<rparr>)
            (extra_headers wi (req_extra_headers req) headers)))"

subsection \<open>Sending\<close>

definition NOTIFY_THRESHOLD :: duration where
  "NOTIFY_THRESHOLD = secs 2"

definition wait :: "client \<Rightarrow> nat \<Rightarrow> duration \<Rightarrow> retry_reason \<Rightarrow> 'w net \<Rightarrow> 'w net" where
  "wait c attempt after reason s =
     (let s = (if NOTIFY_THRESHOLD \<le> after \<and> cl_on_wait c
               then s\<lparr>net_notices := net_notices s @ [\<lparr>wn_host = cl_host c, wn_attempt = attempt,
                        wn_of = rp_max (cl_retry c), wn_after = after, wn_reason = reason\<rparr>]\<rparr>
               else s)
      in s\<lparr>net_now := net_now s + after\<rparr>)"

text \<open>One attempt: what came back and the decision taken on it.\<close>

definition attempt_once ::
  "'w wire \<Rightarrow> client \<Rightarrow> http_request \<Rightarrow> nat \<Rightarrow> 'w net \<Rightarrow> (error, wire_response) res \<times> decision \<times> 'w net" where
  "attempt_once wi c http attempt s =
     (case wi_execute wi http (net_world s) of (r, w) \<Rightarrow>
        (case wi_spread wi w of (spread, w) \<Rightarrow>
           (r, (case r of
                  Inr resp \<Rightarrow> on_status (cl_retry c) (hr_method http) (wr_status resp)
                    (Option.bind (header_text (wr_headers resp) ''retry-after'') (wi_retry_after wi))
                    attempt (is_replayable (hr_body http)) spread
                | Inl e \<Rightarrow> on_transport (cl_retry c) (hr_method http) (err_kind e) attempt (is_replayable (hr_body http)) spread),
            s\<lparr>net_world := w\<rparr>)))"

lemma attempt_once_Retry:
  "attempt_once wi c http attempt s = (r, Retry after reason, s') \<Longrightarrow> attempt < rp_max (cl_retry c)"
  by (auto simp: attempt_once_def split: prod.splits sum.splits dest!: on_status_Retry on_transport_Retry)

function dispatch_loop ::
  "'w wire \<Rightarrow> client \<Rightarrow> request \<Rightarrow> str option \<Rightarrow> nat \<Rightarrow> 'w net \<Rightarrow> (error, wire_response) res \<times> 'w net" where
  "dispatch_loop wi c req url attempt s =
     (case prepare wi c req url of
        Inl e \<Rightarrow> (Inl e, s)
      | Inr http \<Rightarrow>
          (case attempt_once wi c http attempt s of
             (r, Retry after reason, s) \<Rightarrow> dispatch_loop wi c req url (Suc attempt) (wait c attempt after reason s)
           | (Inr resp, Fail, s) \<Rightarrow> (Inr resp, s)
           | (Inl e, Fail, s) \<Rightarrow> (Inl (with_ctx e (req_ctx c req None)), s)))"
  by pat_completeness auto
termination
  by (relation "measure (\<lambda>(wi, c, req, url, attempt, s). rp_max (cl_retry c) - attempt)")
    (auto dest!: attempt_once_Retry [OF sym] intro!: diff_less_mono2)

declare dispatch_loop.simps [simp del]

definition dispatch :: "'w wire \<Rightarrow> client \<Rightarrow> request \<Rightarrow> str option \<Rightarrow> 'w net \<Rightarrow> (error, wire_response) res \<times> 'w net" where
  "dispatch wi c req url s = dispatch_loop wi c req url 1 s"

definition probe_repo :: "'w wire \<Rightarrow> client \<Rightarrow> str \<Rightarrow> str \<Rightarrow> 'w net \<Rightarrow> repo_probe \<times> 'w net" where
  "probe_repo wi c ow repo s =
     (case dispatch wi c (request_get (''/repos/'' @ seg ow @ ''/'' @ seg repo)) None s of
        (r, s) \<Rightarrow> (case r of
            Inr resp \<Rightarrow> if is_success (wr_status resp) then Exists
                        else if wr_status resp = 404 then Missing else NotAttempted
          | Inl _ \<Rightarrow> NotAttempted, s))"

definition classify_ctx_of :: "client \<Rightarrow> request \<Rightarrow> 'w net \<Rightarrow> classify_ctx" where
  "classify_ctx_of c req s =
     with_op_scope
       \<lparr>cc_host = cl_host c, cc_method = method_name (req_method req), cc_path = wire_path c req,
        cc_had_token = has_credential (hc_auth (cl_creds c)), cc_login = cl_login c, cc_needed_scope = [],
        cc_have_scopes = None, cc_settings_url = settings_url c,
        cc_instance = Option.bind (cached_caps (net_now s) (net_caps s)) instance_label,
        cc_repo_probe = NotAttempted, cc_uploading = None\<rparr>
       (req_scope req)"

definition error_from ::
  "'w wire \<Rightarrow> client \<Rightarrow> request \<Rightarrow> nat \<Rightarrow> header_map \<Rightarrow> str \<Rightarrow> 'w net \<Rightarrow> error \<times> 'w net" where
  "error_from wi c req status headers b s =
     (let ctx = classify_ctx_of c req s;
          (ctx, s) = (case (if cl_probe_404 c then probe_target status (wire_path c req) else None) of
              Some (ow, repo) \<Rightarrow> (case probe_repo wi c ow repo s of (p, s) \<Rightarrow> (ctx\<lparr>cc_repo_probe := p\<rparr>, s))
            | None \<Rightarrow> (ctx, s))
      in (with_ctx (error_new (classify (wi_json wi) (wi_retry_after wi) status headers b ctx)) (req_ctx c req (Some status)), s))"

definition send :: "'w wire \<Rightarrow> client \<Rightarrow> request \<Rightarrow> str option \<Rightarrow> 'w net \<Rightarrow> (error, wire_response) res \<times> 'w net" where
  "send wi c req url s =
     (case dispatch wi c req url s of
        (Inl e, s) \<Rightarrow> (Inl e, s)
      | (Inr resp, s) \<Rightarrow>
          if is_success (wr_status resp) then (Inr resp, s)
          else (case error_from wi c req (wr_status resp) (wr_headers resp)
                       (case wr_body resp of Inr b \<Rightarrow> b | Inl _ \<Rightarrow> []) s of
                  (e, s) \<Rightarrow> (Inl e, s)))"

subsection \<open>Decoding\<close>

text \<open>A decoder is what \<open>serde\<close> does for the type asked for: a value, or where and why it failed.\<close>

datatype path_seg = PathSeq nat | PathMap str | PathEnum str | PathUnknown

type_synonym decode_failure = "path_seg list \<times> str"

definition json_pointer :: "path_seg list \<Rightarrow> str" where
  "json_pointer path =
     (let out = concat (map (\<lambda>s. CHR ''/'' # (case s of PathSeq i \<Rightarrow> show_nat i
                | PathMap key \<Rightarrow> replace_all (replace_all key ''~'' ''~0'') ''/'' ''~1''
                | PathEnum v \<Rightarrow> v | PathUnknown \<Rightarrow> ''?'')) path)
      in if out = [] then ''/'' else out)"

definition excerpt :: "json_lib \<Rightarrow> str \<Rightarrow> str" where
  "excerpt lib bytes =
     (let s = trim (js_lossy lib bytes)
      in if length (chars s) \<le> 400 then s else concat (take 400 (chars s)) @ ellipsis)"

definition trim_ws :: "str \<Rightarrow> str" where
  "trim_ws b = rev (dropWhile is_ascii_ws (rev (dropWhile is_ascii_ws b)))"

definition decode_error :: "'w wire \<Rightarrow> client \<Rightarrow> request \<Rightarrow> str \<Rightarrow> str \<Rightarrow> str \<Rightarrow> error" where
  "decode_error wi c req pointer expected bytes =
     with_ctx (error_new (Decode pointer expected (excerpt (wi_json wi) bytes))) (req_ctx c req None)"

definition decode_body ::
  "'w wire \<Rightarrow> client \<Rightarrow> (str \<Rightarrow> (decode_failure, 'a) res) \<Rightarrow> request \<Rightarrow> str \<Rightarrow> (error, 'a) res" where
  "decode_body wi c de req bytes =
     (case de bytes of Inr v \<Rightarrow> Inr v | Inl (path, why) \<Rightarrow> Inl (decode_error wi c req (json_pointer path) why bytes))"

record 'a decoder =
  de_list :: "str \<Rightarrow> (decode_failure, 'a list) res"
  de_value :: "str \<Rightarrow> (decode_failure, json) res"
  de_item :: "json \<Rightarrow> (decode_failure, 'a) res"

fun decode_data :: "'w wire \<Rightarrow> client \<Rightarrow> 'a decoder \<Rightarrow> request \<Rightarrow> str \<Rightarrow> nat \<Rightarrow> json list \<Rightarrow> (error, 'a list) res" where
  "decode_data wi c de req bytes i [] = Inr []"
| "decode_data wi c de req bytes i (item # items) =
     (case de_item de item of
        Inl (path, why) \<Rightarrow> Inl (decode_error wi c req (''/data/'' @ show_nat i @ json_pointer path) why bytes)
      | Inr v \<Rightarrow> res_map (\<lambda>vs. v # vs) (decode_data wi c de req bytes (Suc i) items))"

definition decode_items :: "'w wire \<Rightarrow> client \<Rightarrow> 'a decoder \<Rightarrow> request \<Rightarrow> str \<Rightarrow> (error, 'a list) res" where
  "decode_items wi c de req bytes =
     (let trimmed = trim_ws bytes in
      if trimmed \<noteq> [] \<and> hd trimmed = CHR ''['' then
        (case de_list de trimmed of Inr v \<Rightarrow> Inr v
         | Inl (path, why) \<Rightarrow> Inl (decode_error wi c req (json_pointer path) why bytes))
      else if trimmed = ''null'' then Inr []
      else res_bind (decode_body wi c (de_value de) req bytes) (\<lambda>v.
        (case json_get v ''data'' of
           Some JNull \<Rightarrow> Inr []
         | Some (JArr items) \<Rightarrow> decode_data wi c de req bytes 0 items
         | _ \<Rightarrow> Inl (with_ctx (error_new (Decode ''/'' ''a JSON array of items'' (excerpt (wi_json wi) bytes)))
                  (req_ctx c req None)))))"

subsection \<open>Entry points\<close>

text \<open>Sending, then reading the body to its end.\<close>

definition send_body :: "'w wire \<Rightarrow> client \<Rightarrow> request \<Rightarrow> str option \<Rightarrow> 'w net \<Rightarrow> (error, response) res \<times> 'w net" where
  "send_body wi c req url s =
     (case send wi c req url s of (r, s) \<Rightarrow>
        (res_bind r (\<lambda>resp. res_map (\<lambda>b. \<lparr>resp_status = wr_status resp, resp_headers = wr_headers resp, resp_body = b\<rparr>)
           (wr_body resp)), s))"

definition client_json ::
  "'w wire \<Rightarrow> client \<Rightarrow> (str \<Rightarrow> (decode_failure, 'a) res) \<Rightarrow> request \<Rightarrow> 'w net \<Rightarrow> (error, 'a) res \<times> 'w net" where
  "client_json wi c de req s =
     (case send_body wi c req None s of (r, s) \<Rightarrow> (res_bind r (\<lambda>resp. decode_body wi c de req (resp_body resp)), s))"

definition client_empty :: "'w wire \<Rightarrow> client \<Rightarrow> request \<Rightarrow> 'w net \<Rightarrow> (error, unit) res \<times> 'w net" where
  "client_empty wi c req s = (case send_body wi c req None s of (r, s) \<Rightarrow> (res_map (\<lambda>_. ()) r, s))"

definition raw_of :: "wire_response \<Rightarrow> (error, raw_response) res" where
  "raw_of resp =
     res_map (\<lambda>b. \<lparr>raw_status = wr_status resp,
         raw_headers = map (\<lambda>(n, v). (n, case v of Some t \<Rightarrow> t | None \<Rightarrow> ''<non-utf8>'')) (wr_headers resp), raw_body = b\<rparr>)
       (wr_body resp)"

definition client_raw :: "'w wire \<Rightarrow> client \<Rightarrow> request \<Rightarrow> 'w net \<Rightarrow> (error, raw_response) res \<times> 'w net" where
  "client_raw wi c req s = (case dispatch wi c req None s of (r, s) \<Rightarrow> (res_bind r raw_of, s))"

definition classify_raw :: "'w wire \<Rightarrow> client \<Rightarrow> request \<Rightarrow> raw_response \<Rightarrow> 'w net \<Rightarrow> error option \<times> 'w net" where
  "classify_raw wi c req resp s =
     (if is_success (raw_status resp) then (None, s)
      else
        let headers = List.map_filter (\<lambda>(n, v). case wi_name wi n of Some nm \<Rightarrow>
                if wi_value_ok wi v then Some (nm, Some v) else None | None \<Rightarrow> None) (raw_headers resp)
        in (case error_from wi c req (raw_status resp) headers (raw_body resp) s of (e, s) \<Rightarrow> (Some e, s)))"

definition header_content_type :: "header_map \<Rightarrow> mime" where
  "header_content_type h = (case header_text h ''content-type'' of Some m \<Rightarrow> m | None \<Rightarrow> ''application/octet-stream'')"

definition client_bytes :: "'w wire \<Rightarrow> client \<Rightarrow> request \<Rightarrow> 'w net \<Rightarrow> (error, mime \<times> (error, str) res) res \<times> 'w net" where
  "client_bytes wi c req s =
     (case send wi c req None s of (r, s) \<Rightarrow> (res_map (\<lambda>resp. (header_content_type (wr_headers resp), wr_body resp)) r, s))"

text \<open>Requests to the web root: the URL must be under it.\<close>

definition web_request :: "client \<Rightarrow> http_method \<Rightarrow> str \<Rightarrow> (error, request) res" where
  "web_request c m url =
     (case (case strip_prefix url (cl_web_base c) of
              Some rest \<Rightarrow> if rest = [] \<or> List.member [CHR ''/'', CHR ''?'', CHR ''#''] (hd rest) then Some rest else None
            | None \<Rightarrow> None) of
        None \<Rightarrow> Inl (error_new (Usage (Fmt ''{url} is outside {base}. fjo will not send your token to this external URL. Download it separately with curl or a browser.'' [url, cl_web_base c])))
      | Some rest \<Rightarrow> Inr ((request_new m (if rest = [] then ''/'' else rest))\<lparr>req_accept := AcceptAny\<rparr>))"

definition fix_path :: "request \<Rightarrow> (error, 'a) res \<Rightarrow> (error, 'a) res" where
  "fix_path req r = (case r of Inl e \<Rightarrow> Inl (e\<lparr>err_ctx := (err_ctx e)\<lparr>ctx_path := Some (req_path req)\<rparr>\<rparr>) | Inr x \<Rightarrow> Inr x)"

definition web_send :: "'w wire \<Rightarrow> client \<Rightarrow> request \<Rightarrow> str \<Rightarrow> 'w net \<Rightarrow> (error, wire_response) res \<times> 'w net" where
  "web_send wi c req url s = (case send wi c req (Some url) s of (r, s) \<Rightarrow> (fix_path req r, s))"

definition web_bytes :: "'w wire \<Rightarrow> client \<Rightarrow> str \<Rightarrow> 'w net \<Rightarrow> (error, mime \<times> (error, str) res) res \<times> 'w net" where
  "web_bytes wi c url s =
     (case web_request c GET url of
        Inl e \<Rightarrow> (Inl e, s)
      | Inr req \<Rightarrow> (case web_send wi c req url s of
          (r, s) \<Rightarrow> (res_map (\<lambda>resp. (header_content_type (wr_headers resp), wr_body resp)) r, s)))"

definition web_decode ::
  "'w wire \<Rightarrow> client \<Rightarrow> (str \<Rightarrow> (decode_failure, 'a) res) \<Rightarrow> (error, request) res \<Rightarrow> str \<Rightarrow> 'w net \<Rightarrow> (error, 'a) res \<times> 'w net" where
  "web_decode wi c de req url s =
     (case req of
        Inl e \<Rightarrow> (Inl e, s)
      | Inr req \<Rightarrow> (case web_send wi c req url s of
          (r, s) \<Rightarrow> (res_bind r (\<lambda>resp. res_bind (wr_body resp) (decode_body wi c de req)), s)))"

definition web_json ::
  "'w wire \<Rightarrow> client \<Rightarrow> (str \<Rightarrow> (decode_failure, 'a) res) \<Rightarrow> str \<Rightarrow> 'w net \<Rightarrow> (error, 'a) res \<times> 'w net" where
  "web_json wi c de url s =
     web_decode wi c de (res_map (\<lambda>req. req\<lparr>req_accept := AcceptJson\<rparr>) (web_request c GET url)) url s"

definition web_form_request :: "client \<Rightarrow> str \<Rightarrow> (str \<times> str) list \<Rightarrow> (error, request) res" where
  "web_form_request c url pairs =
     res_map (\<lambda>req. req\<lparr>req_accept := AcceptJson, req_body := BodyForm pairs\<rparr>) (web_request c POST url)"

definition web_form ::
  "'w wire \<Rightarrow> client \<Rightarrow> (str \<Rightarrow> (decode_failure, 'a) res) \<Rightarrow> str \<Rightarrow> (str \<times> str) list \<Rightarrow> 'w net \<Rightarrow> (error, 'a) res \<times> 'w net" where
  "web_form wi c de url pairs s = web_decode wi c de (web_form_request c url pairs) url s"

definition web_form_raw ::
  "'w wire \<Rightarrow> client \<Rightarrow> str \<Rightarrow> (str \<times> str) list \<Rightarrow> 'w net \<Rightarrow> (error, raw_response) res \<times> 'w net" where
  "web_form_raw wi c url pairs s =
     (case web_form_request c url pairs of
        Inl e \<Rightarrow> (Inl e, s)
      | Inr req \<Rightarrow> (case dispatch wi c req (Some url) s of (r, s) \<Rightarrow> (res_bind (fix_path req r) raw_of, s)))"

subsection \<open>Capabilities and pages\<close>

text \<open>The two probe requests run concurrently in the code, one after the other here.\<close>

definition client_capabilities ::
  "'w wire \<Rightarrow> client \<Rightarrow> (str \<Rightarrow> (decode_failure, api_settings) res) \<Rightarrow> (str \<Rightarrow> (decode_failure, node_info) res) \<Rightarrow> 'w net
   \<Rightarrow> capabilities \<times> 'w net" where
  "client_capabilities wi c de_settings de_node s =
     (case cached_caps (net_now s) (net_caps s) of
        Some caps \<Rightarrow> (caps, s)
      | None \<Rightarrow>
          (case client_json wi c de_settings (request_get ''/settings/api'') s of (settings, s) \<Rightarrow>
           case client_json wi c de_node (request_get ''/nodeinfo'') s of (node, s) \<Rightarrow>
             let caps = probe settings node in (caps, s\<lparr>net_caps := Some (caps, net_now s)\<rparr>)))"

definition client_page ::
  "'w wire \<Rightarrow> client \<Rightarrow> 'a decoder \<Rightarrow> request \<Rightarrow> 'w net \<Rightarrow> (error, 'a list \<times> page_info) res \<times> 'w net" where
  "client_page wi c de req s =
     (case send_body wi c req None s of (r, s) \<Rightarrow>
        (res_bind r (\<lambda>resp. res_map (\<lambda>items. (items, page_info_from_headers (resp_headers resp) (length items)))
           (decode_items wi c de req (resp_body resp))), s))"

text \<open>The client as the page walk of \<open>ItemStream\<close> uses it.\<close>

definition client_pager ::
  "'w wire \<Rightarrow> client \<Rightarrow> (str \<Rightarrow> (decode_failure, api_settings) res) \<Rightarrow> (str \<Rightarrow> (decode_failure, node_info) res) \<Rightarrow> 'a decoder
   \<Rightarrow> ('w net, 'a) pager" where
  "client_pager wi c de_settings de_node de =
     \<lparr>pager_send = (\<lambda>s req url. case send_body wi c req url s of (r, s) \<Rightarrow> (s, r)),
      pager_caps = (\<lambda>s. case client_capabilities wi c de_settings de_node s of (caps, s) \<Rightarrow> (s, Some caps)),
      pager_items = decode_items wi c de,
      pager_ctx = (\<lambda>req. req_ctx c req None)\<rparr>"

definition items_paged ::
  "'w wire \<Rightarrow> client \<Rightarrow> (str \<Rightarrow> (decode_failure, api_settings) res) \<Rightarrow> (str \<Rightarrow> (decode_failure, node_info) res) \<Rightarrow> 'a decoder
   \<Rightarrow> request \<Rightarrow> paging \<Rightarrow> 'w net \<Rightarrow> (error, 'a) res list" where
  "items_paged wi c de_settings de_node de req paging s = item_stream (client_pager wi c de_settings de_node de) s req paging"

subsection \<open>The credential in a request\<close>

definition AUTHORIZATION :: str where
  "AUTHORIZATION = ''authorization''"

fun auth_text :: "auth \<Rightarrow> str option" where
  "auth_text AuthNone = None"
| "auth_text (AuthToken t) = Some (''token '' @ t)"
| "auth_text (AuthBearer t) = Some (''Bearer '' @ t)"
| "auth_text (AuthBasic user pass) = Some (''Basic '' @ Base64.encode (user @ '':'' @ pass))"

text \<open>The headers other than \<open>Authorization\<close>.\<close>

definition strip_auth :: "header_map \<Rightarrow> header_map" where
  "strip_auth h = filter (\<lambda>p. fst p \<noteq> AUTHORIZATION) h"

lemma strip_auth_insert:
  "strip_auth (header_insert h n v) = (if n = AUTHORIZATION then strip_auth h else header_insert (strip_auth h) n v)"
  by (auto simp: strip_auth_def header_insert_def intro!: filter_cong)

lemma sensitive_Inr: "sensitive ok v what = Inr x \<Longrightarrow> x = v \<and> ok v"
  by (auto simp: sensitive_def split: if_splits)

lemma auth_value_Inr: "auth_value ok a = Inr v \<Longrightarrow> v = auth_text a"
  by (cases a) (auto simp: auth_value_def res_map_eq_Inr TOKEN_PREFIX_def BEARER_PREFIX_def dest: sensitive_Inr)

definition put_opt :: "str \<Rightarrow> str option \<Rightarrow> header_map \<Rightarrow> header_map" where
  "put_opt n v h = (case v of Some t \<Rightarrow> header_insert h n (Some t) | None \<Rightarrow> h)"

text \<open>What \<open>apply\<close> does to the headers, when it succeeds.\<close>

lemma apply_creds_Inr:
  assumes "apply_creds ok c h = Inr (h', q)"
  shows "h' = put_opt SUDO_HEADER (if hc_sudo_style c = SudoHeader then hc_sudo c else None)
           (put_opt OTP_HEADER (hc_otp c) (put_opt AUTHORIZATION (auth_text (hc_auth c)) h))
    \<and> q = (case hc_sudo c of Some u \<Rightarrow> if hc_sudo_style c = SudoQuery then [(''sudo'', u)] else [] | None \<Rightarrow> [])"
proof -
  from assms obtain v where v: "auth_value ok (hc_auth c) = Inr v" by (auto simp: apply_creds_def res_bind_eq_Inr)
  then have "v = auth_text (hc_auth c)" by (rule auth_value_Inr)
  then show ?thesis using assms v
    by (cases "hc_sudo_style c") (auto simp: apply_creds_def put_opt_def AUTHORIZATION_def Let_def res_bind_eq_Inr
        res_map_eq_Inr dest!: sensitive_Inr split: option.splits)
qed

lemma special_headers: "OTP_HEADER \<noteq> AUTHORIZATION" "SUDO_HEADER \<noteq> AUTHORIZATION" "''accept'' \<noteq> AUTHORIZATION"
  by (simp_all add: OTP_HEADER_def SUDO_HEADER_def AUTHORIZATION_def)

lemma put_opt_get_all: "header_get_all (put_opt n v h) m = (if m = n \<and> v \<noteq> None then [v] else header_get_all h m)"
  by (auto simp: put_opt_def split: option.splits)

lemma strip_auth_put: "strip_auth (put_opt n v h) = (if n = AUTHORIZATION then strip_auth h else put_opt n v (strip_auth h))"
  by (auto simp: put_opt_def strip_auth_insert split: option.splits)

lemma extra_headers_auth:
  "extra_headers wi hs h = Inr h' \<Longrightarrow> (\<And>n v. (n, v) \<in> set hs \<Longrightarrow> wi_name wi n \<noteq> Some AUTHORIZATION) \<Longrightarrow>
   header_get_all h' AUTHORIZATION = header_get_all h AUTHORIZATION"
proof (induction hs arbitrary: h)
  case (Cons p hs)
  obtain n v where p: "p = (n, v)" by fastforce
  from Cons.prems(1) p obtain nm where nm: "wi_name wi n = Some nm" "extra_headers wi hs (header_insert h nm (Some v)) = Inr h'"
    by (auto split: option.splits if_splits)
  have "nm \<noteq> AUTHORIZATION" using Cons.prems(2) [of n v] nm(1) p by auto
  then show ?case using Cons.IH [OF nm(2)] Cons.prems(2) by auto
qed simp

lemma extra_headers_strip:
  "extra_headers wi hs h1 = Inr h1' \<Longrightarrow> extra_headers wi hs h2 = Inr h2' \<Longrightarrow> strip_auth h1 = strip_auth h2 \<Longrightarrow>
   strip_auth h1' = strip_auth h2'"
proof (induction hs arbitrary: h1 h2)
  case (Cons p hs)
  obtain n v where p: "p = (n, v)" by fastforce
  from Cons.prems(1) p obtain nm where nm: "wi_name wi n = Some nm" "wi_value_ok wi v"
    "extra_headers wi hs (header_insert h1 nm (Some v)) = Inr h1'"
    by (auto split: option.splits if_splits)
  then have "extra_headers wi hs (header_insert h2 nm (Some v)) = Inr h2'" using Cons.prems(2) p by simp
  then show ?case using Cons.IH [OF nm(3)] Cons.prems(3) by (simp add: strip_auth_insert)
qed simp

lemma prepare_Inr:
  assumes "prepare wi c req url = Inr http"
  obtains headers extra where
    "apply_creds (wi_value_ok wi) (cl_creds c) [(''accept'', Some (accept_header (req_accept req)))] = Inr (headers, extra)"
    "extra_headers wi (req_extra_headers req) headers = Inr (hr_headers http)"
    "hr_url http = (case url of Some u \<Rightarrow> u | None \<Rightarrow> url_for c req extra)"
    "hr_method http = req_method req" "hr_body http = out_body_of (req_body req)"
  using assms by (fastforce simp: prepare_def res_bind_eq_Inr res_map_eq_Inr split: if_splits)

lemma accept_only: "header_get_all [(''accept'', v)] AUTHORIZATION = []"
  by (simp add: header_get_all_def special_headers)

lemma prepare_authorization:
  assumes "prepare wi c req url = Inr http" "\<And>n v. (n, v) \<in> set (req_extra_headers req) \<Longrightarrow> wi_name wi n \<noteq> Some AUTHORIZATION"
  shows "header_get_all (hr_headers http) AUTHORIZATION =
    (case auth_text (hc_auth (cl_creds c)) of Some t \<Rightarrow> [Some t] | None \<Rightarrow> [])"
proof -
  from assms(1) obtain headers extra where
    h: "apply_creds (wi_value_ok wi) (cl_creds c) [(''accept'', Some (accept_header (req_accept req)))] = Inr (headers, extra)"
    and e: "extra_headers wi (req_extra_headers req) headers = Inr (hr_headers http)" by (rule prepare_Inr)
  have "header_get_all (hr_headers http) AUTHORIZATION = header_get_all headers AUTHORIZATION"
    by (rule extra_headers_auth [OF e assms(2)])
  also have "\<dots> = (case auth_text (hc_auth (cl_creds c)) of Some t \<Rightarrow> [Some t] | None \<Rightarrow> [])"
    using apply_creds_Inr [OF h] special_headers accept_only
    by (simp add: put_opt_get_all eq_commute [of AUTHORIZATION] split: option.splits)
  finally show ?thesis .
qed

lemma prepare_same_but_auth:
  assumes "prepare wi c req url = Inr http" "prepare wi (c\<lparr>cl_creds := (cl_creds c)\<lparr>hc_auth := a\<rparr>\<rparr>) req url = Inr http'"
  shows "hr_url http' = hr_url http \<and> hr_method http' = hr_method http \<and> hr_body http' = hr_body http
    \<and> strip_auth (hr_headers http') = strip_auth (hr_headers http)"
proof -
  from assms(1) obtain headers extra where
    h: "apply_creds (wi_value_ok wi) (cl_creds c) [(''accept'', Some (accept_header (req_accept req)))] = Inr (headers, extra)"
    and e: "extra_headers wi (req_extra_headers req) headers = Inr (hr_headers http)"
    and r: "hr_url http = (case url of Some u \<Rightarrow> u | None \<Rightarrow> url_for c req extra)"
      "hr_method http = req_method req" "hr_body http = out_body_of (req_body req)" by (rule prepare_Inr)
  let ?c = "c\<lparr>cl_creds := (cl_creds c)\<lparr>hc_auth := a\<rparr>\<rparr>"
  from assms(2) obtain headers' extra' where
    h': "apply_creds (wi_value_ok wi) (cl_creds ?c) [(''accept'', Some (accept_header (req_accept req)))] = Inr (headers', extra')"
    and e': "extra_headers wi (req_extra_headers req) headers' = Inr (hr_headers http')"
    and r': "hr_url http' = (case url of Some u \<Rightarrow> u | None \<Rightarrow> url_for ?c req extra')"
      "hr_method http' = req_method req" "hr_body http' = out_body_of (req_body req)" by (rule prepare_Inr)
  have "strip_auth headers' = strip_auth headers \<and> extra' = extra"
    using apply_creds_Inr [OF h] apply_creds_Inr [OF h'] special_headers by (auto simp: strip_auth_put split: option.splits)
  moreover have "url_for ?c req x = url_for c req x" for x by (simp add: url_for_def)
  ultimately show ?thesis using r r' extra_headers_strip [OF e' e] by (simp split: option.splits)
qed

subsection \<open>Where a request goes\<close>

text \<open>Scheme and authority of a URL, in the sense of RFC 3986.\<close>

definition url_origin :: "str \<Rightarrow> (str \<times> str) option" where
  "url_origin url =
     (case split_once url ''://'' of
        Some (scheme, rest) \<Rightarrow> Some (scheme, takeWhile (\<lambda>ch. ch \<noteq> CHR ''/'' \<and> ch \<noteq> CHR ''?'' \<and> ch \<noteq> CHR ''#'') rest)
      | None \<Rightarrow> None)"

lemma str_find_append: "str_find p a = Some i \<Longrightarrow> str_find p (a @ b) = Some i"
proof (induction a arbitrary: i)
  case Nil
  then show ?case by (cases b) (auto split: if_splits)
next
  case (Cons x a)
  show ?case
  proof (cases "prefix p (x # a)")
    case True
    then have "prefix p (x # a @ b)" by (metis append_Cons prefix_append prefix_order.trans prefixI)
    then show ?thesis using Cons.prems True by simp
  next
    case False
    then obtain j where j: "str_find p a = Some j" "i = Suc j" using Cons.prems by auto
    have "\<not> prefix p (x # a @ b)"
    proof
      assume "prefix p (x # a @ b)"
      moreover have "length p \<le> length (x # a)"
      proof -
        have "j + length p \<le> length a" using str_find_bound [OF j(1)] by simp
        then show ?thesis by simp
      qed
      ultimately have "prefix p (x # a)" by (metis append_Cons prefix_length_prefix prefixI)
      then show False using False by simp
    qed
    then show ?thesis using Cons.IH [OF j(1)] j(2) by simp
  qed
qed

lemma takeWhile_stop: "rest = [] \<or> \<not> P (hd rest) \<Longrightarrow> takeWhile P (a @ rest) = takeWhile P a"
  by (induction a) (cases rest; auto)+

lemma url_origin_append:
  assumes "url_origin base = Some o'" "rest = [] \<or> hd rest \<in> {CHR ''/'', CHR ''?'', CHR ''#''}"
  shows "url_origin (base @ rest) = Some o'"
proof -
  from assms(1) obtain i where i: "str_find ''://'' base = Some i"
    by (auto simp: url_origin_def split_once_def split: option.splits)
  have l: "i + 3 \<le> length base" using str_find_bound [OF i] by simp
  have "split_once (base @ rest) ''://'' = Some (take i base, drop (i + 3) base @ rest)"
    using str_find_append [OF i] l by (simp add: split_once_def eval_nat_numeral)
  moreover have "split_once base ''://'' = Some (take i base, drop (i + 3) base)" using i by (simp add: split_once_def eval_nat_numeral)
  ultimately show ?thesis using assms by (auto simp: url_origin_def takeWhile_stop)
qed

lemma web_request_Inr:
  assumes "web_request c m url = Inr req"
  obtains rest where "url = cl_web_base c @ rest" "rest = [] \<or> hd rest \<in> {CHR ''/'', CHR ''?'', CHR ''#''}"
    "req_path req = (if rest = [] \<or> hd rest = CHR ''/'' then (if rest = [] then ''/'' else rest) else CHR ''/'' # rest)"
    "req_method req = m" "req_extra_headers req = []"
proof -
  from assms obtain rest where r: "strip_prefix url (cl_web_base c) = Some rest"
    "rest = [] \<or> List.member [CHR ''/'', CHR ''?'', CHR ''#''] (hd rest)"
    "req = (request_new m (if rest = [] then ''/'' else rest))\<lparr>req_accept := AcceptAny\<rparr>"
    by (auto simp: web_request_def split: option.splits if_splits)
  have "url = cl_web_base c @ rest" using r(1) by (simp add: strip_prefix_Some)
  then show thesis using that [of rest] r(2,3)
    by (cases rest) (auto simp: request_new_def starts_with_def)
qed

subsection \<open>The send loop\<close>

lemma attempt_once_counts:
  assumes "attempt_once wi c http n s = (r, d, s')"
    "\<And>http w. f (snd (wi_execute wi http w)) \<le> Suc (f w)" "\<And>w. f (snd (wi_spread wi w)) = f w"
  shows "f (net_world s') \<le> Suc (f (net_world s)) \<and> net_now s' = net_now s \<and> net_caps s' = net_caps s"
proof -
  obtain r0 w0 where e: "wi_execute wi http (net_world s) = (r0, w0)" by fastforce
  obtain sp w1 where g: "wi_spread wi w0 = (sp, w1)" by fastforce
  have "f w0 \<le> Suc (f (net_world s))" using assms(2) [of http "net_world s"] e by simp
  moreover have "f w1 = f w0" using assms(3) [of w0] g by simp
  moreover have "s' = s\<lparr>net_world := w1\<rparr>" using assms(1) e g by (simp add: attempt_once_def)
  ultimately show ?thesis by simp
qed

text \<open>A retry comes from the policy: within the bound, of a repeatable request, after a capped delay.\<close>

lemma attempt_once_policy:
  assumes "attempt_once wi c http n s = (r, Retry after reason, s')"
  shows "n < rp_max (cl_retry c) \<and> after \<le> wait_cap (cl_retry c) \<and> is_replayable (hr_body http)
    \<and> (is_idempotent (hr_method http) \<or> (\<exists>resp. r = Inr resp \<and> wr_status resp = 429))"
proof -
  obtain r0 w0 where e: "wi_execute wi http (net_world s) = (r0, w0)" by fastforce
  obtain sp w1 where g: "wi_spread wi w0 = (sp, w1)" by fastforce
  have r: "r = r0" using assms e g by (simp add: attempt_once_def)
  show ?thesis
  proof (cases r0)
    case (Inl x)
    then have "on_transport (cl_retry c) (hr_method http) (err_kind x) n (is_replayable (hr_body http)) sp = Retry after reason"
      using assms e g by (simp add: attempt_once_def)
    from on_transport_Retry [OF this] show ?thesis by (auto simp: wait_cap_def)
  next
    case (Inr x)
    then have "on_status (cl_retry c) (hr_method http) (wr_status x)
        (Option.bind (header_text (wr_headers x) ''retry-after'') (wi_retry_after wi)) n (is_replayable (hr_body http)) sp
        = Retry after reason"
      using assms e g by (simp add: attempt_once_def)
    from on_status_Retry [OF this] show ?thesis using r Inr by auto
  qed
qed

lemma wait_simps [simp]:
  "net_world (wait c n after reason s) = net_world s" "net_now (wait c n after reason s) = net_now s + after"
  "net_caps (wait c n after reason s) = net_caps s"
  by (simp_all add: wait_def Let_def)

lemma dispatch_loop_bounds:
  assumes "\<And>http w. f (snd (wi_execute wi http w)) \<le> Suc (f w)" "\<And>w. f (snd (wi_spread wi w)) = f w"
    "dispatch_loop wi c req url n s = (r, s')"
  shows "f (net_world s') \<le> f (net_world s) + Suc (rp_max (cl_retry c) - n)
    \<and> net_now s' \<le> net_now s + (rp_max (cl_retry c) - n) * wait_cap (cl_retry c)"
  using assms(3)
proof (induction "rp_max (cl_retry c) - n" arbitrary: n s)
  case k: (0 n s)
  show ?case
  proof (cases "prepare wi c req url")
    case (Inl e)
    then show ?thesis using k(2) by (auto simp: dispatch_loop.simps)
  next
    case (Inr http)
    obtain r1 d s1 where a: "attempt_once wi c http n s = (r1, d, s1)" by (metis prod_cases3)
    then have "d = Fail" using attempt_once_Retry k(1) by (cases d) fastforce+
    then have "s' = s1" using k(2) Inr a by (auto simp: dispatch_loop.simps split: sum.splits)
    then show ?thesis using attempt_once_counts [OF a, of f] assms(1,2) by simp
  qed
next
  case k: (Suc m n s)
  have m: "m = rp_max (cl_retry c) - Suc n" using k(2) by simp
  show ?case
  proof (cases "prepare wi c req url")
    case (Inl e)
    then show ?thesis using k(3) by (auto simp: dispatch_loop.simps)
  next
    case (Inr http)
    obtain r1 d s1 where a: "attempt_once wi c http n s = (r1, d, s1)" by (metis prod_cases3)
    then have cnt: "f (net_world s1) \<le> Suc (f (net_world s)) \<and> net_now s1 = net_now s"
      using attempt_once_counts [OF a, of f] assms(1,2) by simp
    show ?thesis
    proof (cases d)
      case Fail
      then have "s' = s1" using k(3) Inr a by (auto simp: dispatch_loop.simps split: sum.splits)
      then show ?thesis using cnt by simp
    next
      case (Retry after reason)
      let ?s2 = "wait c n after reason s1"
      have "dispatch_loop wi c req url (Suc n) ?s2 = (r, s')" using k(3) Inr a Retry
        by (cases r1) (simp_all add: dispatch_loop.simps [of wi c req url n s])
      from k(1) [OF m this] have "f (net_world s') \<le> f (net_world s1) + Suc m
        \<and> net_now s' \<le> net_now s1 + after + m * wait_cap (cl_retry c)" using m by simp
      moreover have "after \<le> wait_cap (cl_retry c)" using attempt_once_policy [OF a [unfolded Retry]] by simp
      ultimately show ?thesis using cnt k(2) [symmetric] by simp
    qed
  qed
qed

text \<open>A request that may not be repeated is sent once, unless the instance asks for a retry.\<close>

lemma dispatch_loop_once:
  assumes "\<And>http w. f (snd (wi_execute wi http w)) \<le> Suc (f w)" "\<And>w. f (snd (wi_spread wi w)) = f w"
    "\<And>http w resp w'. wi_execute wi http w = (Inr resp, w') \<Longrightarrow> wr_status resp \<noteq> 429"
    "\<not> is_idempotent (req_method req)"
    "dispatch_loop wi c req url n s = (r, s')"
  shows "f (net_world s') \<le> Suc (f (net_world s))"
proof (cases "prepare wi c req url")
  case (Inl e)
  then show ?thesis using assms(5) by (auto simp: dispatch_loop.simps)
next
  case (Inr http)
  obtain r1 d s1 where a: "attempt_once wi c http n s = (r1, d, s1)" by (metis prod_cases3)
  have cnt: "f (net_world s1) \<le> Suc (f (net_world s)) \<and> net_now s1 = net_now s \<and> net_caps s1 = net_caps s"
    by (rule attempt_once_counts [OF a]) (rule assms(1,2))+
  have m: "hr_method http = req_method req" using Inr by (rule prepare_Inr)
  show ?thesis
  proof (cases d)
    case Fail
    then have "s' = s1" using assms(5) Inr a by (auto simp: dispatch_loop.simps split: sum.splits)
    then show ?thesis using cnt by simp
  next
    case (Retry after reason)
    have "\<exists>w'. wi_execute wi http (net_world s) = (r1, w')" using a by (auto simp: attempt_once_def split: prod.splits)
    then show ?thesis using attempt_once_policy [OF a [unfolded Retry]] assms(3,4) m by fastforce
  qed
qed

subsection \<open>A 404 and its probe\<close>

lemma path_segs_slash: "CHR ''/'' \<notin> set a \<Longrightarrow> a \<noteq> [] \<Longrightarrow> path_segs (CHR ''/'' # a @ CHR ''/'' # x) = a # path_segs x"
  by (simp add: path_segs_alt split_c_append)

lemma path_segs_single: "CHR ''/'' \<notin> set a \<Longrightarrow> a \<noteq> [] \<Longrightarrow> path_segs (CHR ''/'' # a) = [a]"
  by (simp add: path_segs_alt split_c_noop)

subsection \<open>Base addresses\<close>

lemma split_once_c_append:
  "c \<notin> set x \<Longrightarrow> split_once_c (r @ x) c = map_option (\<lambda>(a, b). (a, b @ x)) (split_once_c r c)"
  by (cases "split_once_c r c") (auto simp: split_once_c_Some)

lemma split_once_append_left:
  assumes "contains a p"
  shows "split_once (a @ b) p = map_option (\<lambda>(u, v). (u, v @ b)) (split_once a p)"
proof -
  obtain i where i: "str_find p a = Some i" using assms by (auto simp: contains_def)
  have "i + length p \<le> length a" using i by (rule str_find_bound)
  then show ?thesis using i str_find_append [OF i] by (simp add: split_once_def)
qed

lemma authority_of_append:
  assumes "contains w ''://''" "CHR ''@'' \<notin> set x" "x = [] \<or> hd x = CHR ''/''"
  shows "authority_of (w @ x) = authority_of w"
proof -
  have h: "x = [] \<or> \<not> (\<lambda>c. c \<noteq> CHR ''/'' \<and> c \<noteq> CHR ''?'' \<and> c \<noteq> CHR ''#'') (hd x)" using assms(3) by auto
  obtain u v where u: "split_once w ''://'' = Some (u, v)" using assms(1) by (auto simp: contains_def split_once_def)
  then show ?thesis
    using split_once_append_left [OF assms(1), of x] split_once_c_append [OF assms(2), of v]
      takeWhile_stop [of x "\<lambda>c. c \<noteq> CHR ''/'' \<and> c \<noteq> CHR ''?'' \<and> c \<noteq> CHR ''#''", OF h]
    by (cases "split_once_c v CHR ''@''") (auto simp: authority_of_def)
qed

lemma trim_end_c_snoc: "trim_end_c (w @ [c]) c = trim_end_c w c"
  by (simp add: trim_end_c_def)

lemma trim_end_str_snoc: "p \<noteq> [] \<Longrightarrow> trim_end_str (w @ p) p = trim_end_str w p"
  using ends_with_suffix [of "w @ p" p] by (subst trim_end_str.simps) (simp add: suffix_def)

definition API_SUFFIX :: str where
  "API_SUFFIX = ''/api/v1''"

text \<open>A base address already in its normal form: what \<open>normalize_base\<close> answers for every way to write it.\<close>

definition plain_base :: "str \<Rightarrow> bool" where
  "plain_base w \<longleftrightarrow> printable w \<and> contains w ''://'' \<and> authority_of w \<noteq> [] \<and> last w \<noteq> CHR ''/'' \<and> \<not> ends_with w API_SUFFIX"

lemma contains_append: "contains a p \<Longrightarrow> contains (a @ b) p"
  by (auto simp: contains_def str_find_append)

lemma normalize_base_append:
  assumes "plain_base w" "x \<in> {[], ''/'', API_SUFFIX, API_SUFFIX @ ''/''}"
  shows "normalize_base (w @ x) = Inr (w @ API_SUFFIX, w)"
proof -
  have w: "printable w" "contains w ''://''" "authority_of w \<noteq> []" "last w \<noteq> CHR ''/''" "\<not> ends_with w ''/api/v1''"
    using assms(1) by (simp_all add: plain_base_def API_SUFFIX_def)
  have ne: "w \<noteq> []" using w(2) by (auto simp: contains_def)
  have px: "printable x" "CHR ''@'' \<notin> set x" "x = [] \<or> hd x = CHR ''/''"
    using assms(2) by (auto simp: API_SUFFIX_def of_char_def byte_def)
  have t: "trim (w @ x) = w @ x" using w(1) px(1) by (simp add: trim_printable)
  have a: "authority_of (w @ x) \<noteq> []" using authority_of_append [OF w(2) px(2,3)] w(3) by simp
  have noop: "trim_end_c w CHR ''/'' = w" "trim_end_str w ''/api/v1'' = w"
    using w(4,5) by (simp_all add: trim_end_c_noop trim_end_str_noop)
  have api: "trim_end_c (w @ ''/api/v1'') CHR ''/'' = w @ ''/api/v1''" "trim_end_str (w @ ''/api/v1'') ''/api/v1'' = w"
    using noop by (simp_all add: trim_end_c_noop trim_end_str_snoc)
  have api_slash: "trim_end_c (w @ ''/api/v1/'') CHR ''/'' = w @ ''/api/v1''"
    using trim_end_c_snoc [of "w @ ''/api/v1''"] api by simp
  have "trim_end_c (trim_end_str (trim_end_c (w @ x) CHR ''/'') ''/api/v1'') CHR ''/'' = w"
    using assms(2) noop api api_slash trim_end_c_snoc [of w] by (auto simp: API_SUFFIX_def)
  then show ?thesis using t a contains_append [OF w(2)] ne by (simp add: normalize_base_def API_SUFFIX_def)
qed

lemma normalize_base_bare:
  assumes "printable h" "h \<noteq> []" "\<not> contains h ''://''" "normalize_base (''https://'' @ h) = Inr r"
  shows "normalize_base h = Inr r"
proof -
  have t: "trim (''https://'' @ h) = ''https://'' @ h" by (rule trim_printable) (use assms(1) in \<open>simp add: byte_def\<close>)
  have "contains (''https://'' @ h) ''://''" by (simp add: contains_def)
  then show ?thesis using assms trim_printable [OF assms(1)] t
    by (simp add: normalize_base_def Let_def split: if_splits)
qed

subsection \<open>What a 404 is probed with\<close>

lemma probe_target_segs:
  "probe_target status p = Some (ow, repo) \<Longrightarrow>
   status = 404 \<and> (\<exists>x rest. path_segs (api_path p) = ''repos'' # ow # repo # x # rest)"
  by (auto simp: probe_target_def split: if_splits list.splits)

lemma classify_ctx_path [simp]:
  "cc_path (classify_ctx_of c req s) = wire_path c req" "cc_host (classify_ctx_of c req s) = cl_host c"
  "cc_login (classify_ctx_of c req s) = cl_login c"
  by (auto simp: classify_ctx_of_def with_op_scope_def split: option.splits)

lemma repo_segs_probe [simp]: "repo_segs (ctx\<lparr>cc_repo_probe := p\<rparr>) = repo_segs ctx"
  by (simp add: repo_segs_def)

lemma classify_404_repo:
  assumes "repo_segs ctx = Some (slug, rest)" "rest \<noteq> []" "\<not> sb_is_html (parse_body lib headers b)"
  shows "classify lib ra 404 headers b ctx =
    (let msg = not_found_message (parse_body lib headers b) in
     case cc_repo_probe ctx of
       Exists \<Rightarrow> ResourceNotFound (fst (resource_of rest)) (snd (resource_of rest)) (Some slug) msg
     | Missing \<Rightarrow> RepoNotFound slug (cc_host ctx) (cc_login ctx) True msg
     | NotAttempted \<Rightarrow> RepoNotFound slug (cc_host ctx) (cc_login ctx) False msg)"
proof -
  obtain ow nm where s: "path_segs (api_path (cc_path ctx)) = ''repos'' # ow # nm # rest" "slug = ow @ ''/'' @ nm"
    using assms(1) by (auto simp: repo_segs_def split: list.splits if_splits)
  have "List.member KNOWN_ROOTS ''repos''" by code_simp
  then show ?thesis using s assms(2,3)
    by (simp add: classify_404_eq classify_404_def Let_def split: repo_probe.splits prod.splits)
qed

text \<open>The request that asks whether the repository exists.\<close>

abbreviation probe_request :: "str \<Rightarrow> str \<Rightarrow> request" where
  "probe_request ow repo \<equiv> request_get (''/repos/'' @ seg ow @ ''/'' @ seg repo)"

lemma send_404_eq:
  assumes "dispatch wi c req url s = (Inr resp, s1)" "wr_status resp = 404" "cl_probe_404 c"
    "probe_target 404 (wire_path c req) = Some (ow, repo)"
    "dispatch wi c (probe_request ow repo) None s1 = (r, s2)"
  shows "send wi c req url s =
    (Inl (with_ctx (error_new (classify (wi_json wi) (wi_retry_after wi) 404 (wr_headers resp)
        (case wr_body resp of Inr b \<Rightarrow> b | Inl _ \<Rightarrow> [])
        ((classify_ctx_of c req s1)\<lparr>cc_repo_probe :=
           (case r of Inr x \<Rightarrow> if is_success (wr_status x) then Exists else if wr_status x = 404 then Missing else NotAttempted
            | Inl _ \<Rightarrow> NotAttempted)\<rparr>))) (req_ctx c req (Some 404))), s2)"
proof -
  have "\<not> is_success 404" by (simp add: is_success_def)
  then show ?thesis using assms by (simp add: send_def error_from_def probe_repo_def Let_def)
qed

subsection \<open>A sample client\<close>

definition sample_client :: client where
  "sample_client = \<lparr>cl_api_base = ''https://f.org/api/v1'', cl_web_base = ''https://f.org'', cl_host = ''f.org'',
     cl_login = None, cl_creds = http_creds_new (AuthToken ''t0k''), cl_retry = default_policy, cl_token_source = None,
     cl_probe_404 = True, cl_on_wait = False\<rparr>"

text \<open>A world that counts the requests and answers each with a status chosen by its URL.\<close>

definition sample_wire :: "(str \<Rightarrow> nat) \<Rightarrow> nat wire" where
  "sample_wire st = \<lparr>wi_execute = (\<lambda>http w. (Inr \<lparr>wr_status = st (hr_url http), wr_headers = [], wr_body = Inr []\<rparr>, Suc w)),
     wi_spread = (\<lambda>w. (id, w)), wi_retry_after = (\<lambda>_. None), wi_value_ok = (\<lambda>_. True), wi_name = Some,
     wi_json = sample_js None\<rparr>"

definition sample_net :: "nat net" where
  "sample_net = \<lparr>net_world = 0, net_now = 0, net_caps = None, net_notices = []\<rparr>"

subsection \<open>Properties\<close>

lemma sample_prepare_url:
  "prepare (sample_wire st) sample_client req None = Inr http \<Longrightarrow> hr_url http = url_for sample_client req []"
  by (erule prepare_Inr) (auto dest!: apply_creds_Inr simp: sample_client_def http_creds_new_def)

lemma sample_dispatch:
  assumes "prepare (sample_wire st) c req url = Inr http" "st (hr_url http) \<in> {200, 404}"
  shows "dispatch (sample_wire st) c req url s =
    (Inr \<lparr>wr_status = st (hr_url http), wr_headers = [], wr_body = Inr []\<rparr>, s\<lparr>net_world := Suc (net_world s)\<rparr>)"
proof -
  obtain r d s1 where a: "attempt_once (sample_wire st) c http 1 s = (r, d, s1)" by (metis prod_cases3)
  then have r: "r = Inr \<lparr>wr_status = st (hr_url http), wr_headers = [], wr_body = Inr []\<rparr>"
    "s1 = s\<lparr>net_world := Suc (net_world s)\<rparr>"
    and d: "d = on_status (cl_retry c) (hr_method http) (st (hr_url http)) None 1 (is_replayable (hr_body http)) id"
    by (auto simp: attempt_once_def sample_wire_def header_text_def)
  have "d = Fail" using on_status_Retry d [symmetric] assms(2) by (cases d) fastforce+
  then show ?thesis using assms(1) a r by (simp add: dispatch_def dispatch_loop.simps)
qed

lemma request_extras: "web_request c m url = Inr req \<Longrightarrow> req_extra_headers req = []"
  by (erule web_request_Inr)

lemma web_request_isl:
  "isl (web_request c m url) = (case strip_prefix url (cl_web_base c) of
      Some rest \<Rightarrow> rest \<noteq> [] \<and> hd rest \<noteq> CHR ''/'' \<and> hd rest \<noteq> CHR ''?'' \<and> hd rest \<noteq> CHR ''#'' | None \<Rightarrow> True)"
  by (auto simp: web_request_def split: option.splits)

lemma sample_prepare:
  assumes "req_extra_headers req = []"
  obtains http where "prepare (sample_wire st) c req url = Inr http"
proof -
  have ok: "wi_value_ok (sample_wire st) = (\<lambda>_. True)" by (simp add: sample_wire_def)
  have "\<exists>p. apply_creds (\<lambda>_. True) cr h = Inr p" for cr h
    by (cases "hc_auth cr"; cases "hc_otp cr"; cases "hc_sudo cr"; cases "hc_sudo_style cr")
      (simp_all add: apply_creds_def auth_value_def sensitive_def Let_def)
  then obtain p where "apply_creds (\<lambda>_. True) (cl_creds c) [(''accept'', Some (accept_header (req_accept req)))] = Inr p" by blast
  then show thesis using that assms ok by (cases p) (simp add: prepare_def)
qed

text \<open>C2. The credential of a client travels in one \<open>Authorization\<close> header and nowhere else: a
  prepared request has exactly that header when the client has a credential and none otherwise,
  and with another credential the URL, the method, the body and every other header are the same.\<close>

theorem credential_only_in_authorization:
  assumes "prepare wi c req url = Inr http"
    "\<And>n v. (n, v) \<in> set (req_extra_headers req) \<Longrightarrow> wi_name wi n \<noteq> Some AUTHORIZATION"
  shows "header_get_all (hr_headers http) AUTHORIZATION =
      (case auth_text (hc_auth (cl_creds c)) of Some t \<Rightarrow> [Some t] | None \<Rightarrow> [])
    \<and> (\<forall>a. case prepare wi (c\<lparr>cl_creds := (cl_creds c)\<lparr>hc_auth := a\<rparr>\<rparr>) req url of
        Inr http' \<Rightarrow> hr_url http' = hr_url http \<and> hr_method http' = hr_method http \<and> hr_body http' = hr_body http
          \<and> strip_auth (hr_headers http') = strip_auth (hr_headers http)
      | Inl e \<Rightarrow> True)"
  using prepare_authorization [OF assms] prepare_same_but_auth [OF assms(1)] by (simp split: sum.splits)

theorem credential_only_in_authorization_witness:
  "(case prepare (sample_wire (\<lambda>_. 200)) sample_client (request_get ''/user'') None of
      Inr http \<Rightarrow> header_get_all (hr_headers http) AUTHORIZATION = [Some ''token t0k''] | Inl _ \<Rightarrow> False)"
proof -
  have x: "req_extra_headers (request_get ''/user'') = []" by (simp add: request_get_def request_new_def)
  then obtain http where h: "prepare (sample_wire (\<lambda>_. 200)) sample_client (request_get ''/user'') None = Inr http"
    by (rule sample_prepare)
  with x credential_only_in_authorization [OF h] have "header_get_all (hr_headers http) AUTHORIZATION =
      (case auth_text (hc_auth (cl_creds sample_client)) of Some t \<Rightarrow> [Some t] | None \<Rightarrow> [])" by simp
  moreover have "auth_text (hc_auth (cl_creds sample_client)) = Some ''token t0k''"
    by (simp add: sample_client_def http_creds_new_def)
  ultimately show ?thesis by (simp add: h)
qed

text \<open>C3. A web request with a credential never leaves the instance: whatever URL a page or an API
  answer named, if \<open>web_request\<close> accepts it then what is sent goes to the scheme, host and port of
  the client's own web root.\<close>

theorem web_request_keeps_origin:
  assumes "web_request c m url = Inr req" "url_origin (cl_web_base c) = Some o'" "prepare wi c req (Some url) = Inr http"
  shows "url_origin (hr_url http) = Some o'"
proof -
  from assms(1) obtain rest where r: "url = cl_web_base c @ rest" "rest = [] \<or> hd rest \<in> {CHR ''/'', CHR ''?'', CHR ''#''}"
    by (rule web_request_Inr)
  have "hr_url http = url" using assms(3) by (rule prepare_Inr) simp
  then show ?thesis using url_origin_append [OF assms(2) r(2)] r(1) by simp
qed

theorem web_request_keeps_origin_witness:
  "(case web_request sample_client GET ''https://f.org/attachments/1?x'' of
      Inr req \<Rightarrow> (case prepare (sample_wire (\<lambda>_. 200)) sample_client req (Some ''https://f.org/attachments/1?x'') of
          Inr http \<Rightarrow> url_origin (hr_url http) = Some (''https'', ''f.org'') | Inl _ \<Rightarrow> False)
    | Inl _ \<Rightarrow> False)
   \<and> isl (web_request sample_client GET ''https://f.org.evil.net/x'') \<and> isl (web_request sample_client GET ''https://f.org@evil.net/x'')"
proof -
  have n: "isl (web_request sample_client GET ''https://f.org.evil.net/x'')" "isl (web_request sample_client GET ''https://f.org@evil.net/x'')"
    by (simp_all add: web_request_isl sample_client_def strip_prefix_def)
  have "url_origin ''https://f.org'' = Some (''https'', ''f.org'')" by code_simp
  then have o': "url_origin (cl_web_base sample_client) = Some (''https'', ''f.org'')" by (simp add: sample_client_def)
  have "\<not> isl (web_request sample_client GET ''https://f.org/attachments/1?x'')"
    by (simp add: web_request_isl sample_client_def strip_prefix_def)
  then obtain req where r: "web_request sample_client GET ''https://f.org/attachments/1?x'' = Inr req"
    by (cases "web_request sample_client GET ''https://f.org/attachments/1?x''") simp_all
  obtain http where h: "prepare (sample_wire (\<lambda>_. 200)) sample_client req (Some ''https://f.org/attachments/1?x'') = Inr http"
    by (rule sample_prepare [OF request_extras [OF r]])
  show ?thesis using web_request_keeps_origin [OF r o' h] n r h by simp
qed

text \<open>C5. Sending ends: a request goes out at most as often as the policy allows, the waits between
  the attempts add up to at most the cap of one wait for each retry, and whatever the instance
  answers there is a response or an error.  The function \<open>f\<close> counts the requests in the world.\<close>

theorem dispatch_bounded:
  assumes "\<And>http w. f (snd (wi_execute wi http w)) \<le> Suc (f w)" "\<And>w. f (snd (wi_spread wi w)) = f w"
    "dispatch wi c req url s = (r, s')" "0 < rp_max (cl_retry c)"
  shows "f (net_world s') \<le> f (net_world s) + rp_max (cl_retry c)
    \<and> net_now s' \<le> net_now s + (rp_max (cl_retry c) - 1) * wait_cap (cl_retry c)"
  using dispatch_loop_bounds [of f wi c req url 1 s r s', OF assms(1,2)] assms(3,4) by (simp add: dispatch_def)

theorem dispatch_bounded_witness:
  "net_world (snd (dispatch (sample_wire (\<lambda>_. 503)) sample_client (request_get ''/user'') None sample_net)) \<le> 4"
proof -
  obtain r s where d: "dispatch (sample_wire (\<lambda>_. 503)) sample_client (request_get ''/user'') None sample_net = (r, s)"
    by fastforce
  have m: "rp_max (cl_retry sample_client) \<le> 4" "0 < rp_max (cl_retry sample_client)"
    by (simp_all add: sample_client_def default_policy_def)
  from dispatch_bounded [of id, OF _ _ d m(2)] have "net_world s \<le> rp_max (cl_retry sample_client)"
    by (simp add: sample_wire_def sample_net_def)
  then show ?thesis using d m by simp
qed

text \<open>C4. A request that changes the instance is sent once: unless its method is idempotent, or the
  instance answers 429 and so says that it did nothing, no answer and no transport failure makes
  the client send it again.\<close>

theorem unrepeatable_sent_once:
  assumes "\<And>http w. f (snd (wi_execute wi http w)) \<le> Suc (f w)" "\<And>w. f (snd (wi_spread wi w)) = f w"
    "\<And>http w resp w'. wi_execute wi http w = (Inr resp, w') \<Longrightarrow> wr_status resp \<noteq> 429"
    "\<not> is_idempotent (req_method req)" "dispatch wi c req url s = (r, s')"
  shows "f (net_world s') \<le> Suc (f (net_world s))"
  using dispatch_loop_once [of f wi req c url 1 s r s', OF assms(1,2)] assms(3-5) by (simp add: dispatch_def)

theorem unrepeatable_sent_once_witness:
  "net_world (snd (dispatch (sample_wire (\<lambda>_. 503)) sample_client (request_new POST ''/user/repos'') None sample_net)) \<le> 1"
proof -
  obtain r s where d: "dispatch (sample_wire (\<lambda>_. 503)) sample_client (request_new POST ''/user/repos'') None sample_net = (r, s)"
    by fastforce
  have i: "\<not> is_idempotent (req_method (request_new POST ''/user/repos''))" by (simp add: request_new_def is_idempotent_def)
  from unrepeatable_sent_once [of id, OF _ _ _ i d] have "net_world s \<le> 1"
    by (auto simp: sample_wire_def sample_net_def)
  then show ?thesis using d by simp
qed

text \<open>However the address of an instance is written, with or without a trailing slash, the API
  path or (for https) the scheme, the client talks to the same API root and the same web root.\<close>

theorem normalize_base_forms:
  assumes "plain_base w" "x \<in> {[], ''/'', API_SUFFIX, API_SUFFIX @ ''/''}"
  shows "normalize_base (w @ x) = Inr (w @ API_SUFFIX, w)
    \<and> (\<forall>h. w = ''https://'' @ h \<and> \<not> contains (h @ x) ''://'' \<and> h \<noteq> [] \<longrightarrow> normalize_base (h @ x) = Inr (w @ API_SUFFIX, w))"
proof -
  have n: "normalize_base (w @ x) = Inr (w @ API_SUFFIX, w)" by (rule normalize_base_append [OF assms])
  have p: "printable w" using assms(1) by (simp add: plain_base_def)
  have px: "printable x" using assms(2) by (auto simp: API_SUFFIX_def byte_def)
  have "normalize_base (h @ x) = Inr (w @ API_SUFFIX, w)"
    if h: "w = ''https://'' @ h" "\<not> contains (h @ x) ''://''" "h \<noteq> []" for h
  proof (rule normalize_base_bare)
    show "printable (h @ x)" using p px h(1) by simp
    show "normalize_base (''https://'' @ h @ x) = Inr (w @ API_SUFFIX, w)" using n h(1) by simp
  qed (use h in simp_all)
  then show ?thesis using n by blast
qed

theorem normalize_base_forms_witness:
  "normalize_base ''https://f.org:3000/git/api/v1/'' = Inr (''https://f.org:3000/git/api/v1'', ''https://f.org:3000/git'')
   \<and> normalize_base ''f.org:3000/git'' = Inr (''https://f.org:3000/git/api/v1'', ''https://f.org:3000/git'')"
proof -
  have p: "plain_base ''https://f.org:3000/git''" by code_simp
  have c: "\<not> contains ''f.org:3000/git'' ''://''" by code_simp
  show ?thesis using normalize_base_forms [OF p, of "API_SUFFIX @ ''/''"] normalize_base_forms [OF p, of "[]"] c
    by (simp add: API_SUFFIX_def)
qed



subsection \<open>An instance below a path\<close>

text \<open>\<open>api_path\<close> only strips \<open>/api/v1\<close> from the front of the wire path, so on an instance served
  below a path that is not a known API root every 404 reads as a missing route and none is probed.\<close>

lemma subpath_404_is_route:
  assumes "path_segs (api_path (wire_path c req)) = root # segs" "\<not> List.member KNOWN_ROOTS root" "root \<noteq> ''repos''"
  shows "probe_target 404 (wire_path c req) = None
    \<and> (\<exists>m p i. classify lib ra 404 headers b (classify_ctx_of c req s) = RouteNotFound m p i)"
proof -
  have "classify_404 (parse_body lib headers b) (api_path (wire_path c req)) (classify_ctx_of c req s)
      = route_not_found (classify_ctx_of c req s) (api_path (wire_path c req))"
    using assms(1,2) by (simp add: classify_404_def)
  then show ?thesis using assms by (auto simp: probe_target_def classify_404_eq route_not_found_def split: list.splits)
qed

lemma subpath_404_sample:
  "path_segs (api_path (wire_path (sample_client\<lparr>cl_api_base := ''https://f.org/git/api/v1''\<rparr>) (request_get ''/repos/o/r/issues/7'')))
   = [''git'', ''api'', ''v1'', ''repos'', ''o'', ''r'', ''issues'', ''7''] \<and> \<not> List.member KNOWN_ROOTS ''git''"
proof -
  have "wire_path (sample_client\<lparr>cl_api_base := ''https://f.org/git/api/v1''\<rparr>) (request_get ''/repos/o/r/issues/7'')
    = ''/git/api/v1/repos/o/r/issues/7''"
    by (simp add: wire_path_def sample_client_def request_get_def request_new_def split_once_def starts_with_def)
  moreover have "path_segs (api_path ''/git/api/v1/repos/o/r/issues/7'') = [''git'', ''api'', ''v1'', ''repos'', ''o'', ''r'', ''issues'', ''7'']"
    "\<not> List.member KNOWN_ROOTS ''git''" by code_simp+
  ultimately show ?thesis by simp
qed

text \<open>The probe encodes segments that are already encoded.\<close>

lemma probe_encodes_twice: "seg (seg ''a b'') = ''a%2520b''"
  by code_simp

text \<open>A next link is followed with the credential wherever it leads, and the \<open>?sudo=\<close> of the
  query style is lost on it.\<close>

lemma override_url_keeps_credential:
  assumes "prepare wi c req (Some url) = Inr http" "req_extra_headers req = []"
  shows "hr_url http = url \<and> header_get_all (hr_headers http) AUTHORIZATION =
    (case auth_text (hc_auth (cl_creds c)) of Some t \<Rightarrow> [Some t] | None \<Rightarrow> [])"
proof -
  have "hr_url http = url" using assms(1) by (rule prepare_Inr) simp
  then show ?thesis using prepare_authorization [OF assms(1)] assms(2) by simp
qed

subsection \<open>Recovery\<close>

text \<open>An answer the policy reads as passing trouble of the instance or the network.\<close>

fun passing_answer :: "(error, wire_response) res \<Rightarrow> bool" where
  "passing_answer (Inr resp) \<longleftrightarrow> wr_status resp = 429 \<or> 500 \<le> wr_status resp \<and> wr_status resp \<le> 599"
| "passing_answer (Inl e) \<longleftrightarrow> (case err_kind e of Dns _ \<Rightarrow> True | Connect _ _ _ _ _ \<Rightarrow> True | Tls _ _ _ \<Rightarrow> True
     | Timeout _ _ ph \<Rightarrow> ph = PConnect \<or> ph = PHeaders | _ \<Rightarrow> False)"

lemma on_status_passing:
  "n < rp_max p \<Longrightarrow> is_idempotent m \<Longrightarrow> status = 429 \<or> 500 \<le> status \<and> status \<le> 599 \<Longrightarrow>
   \<exists>d r. on_status p m status ra n True sp = Retry d r"
  by (auto simp: on_status_def Let_def)

lemma on_status_final:
  "status \<noteq> 429 \<Longrightarrow> \<not> (500 \<le> status \<and> status \<le> 599) \<Longrightarrow> on_status p m status ra n b sp = Fail"
  by (auto simp: on_status_def Let_def)

lemma on_transport_passing:
  "n < rp_max p \<Longrightarrow> is_idempotent m \<Longrightarrow> passing_answer (Inl e) \<Longrightarrow> \<exists>d r. on_transport p m (err_kind e) n True sp = Retry d r"
  by (auto simp: on_transport_def Let_def)

lemma attempt_once_passing:
  assumes "passing_answer (fst (wi_execute wi http (net_world s)))" "n < rp_max (cl_retry c)"
    "is_idempotent (hr_method http)" "is_replayable (hr_body http)"
  obtains r d rs s' where "attempt_once wi c http n s = (r, Retry d rs, s')"
proof -
  obtain r w sp w' where e: "wi_execute wi http (net_world s) = (r, w)" "wi_spread wi w = (sp, w')" by fastforce
  show thesis
  proof (cases r)
    case (Inl x)
    then have "passing_answer (Inl x)" using assms(1) e(1) by simp
    from on_transport_passing [OF assms(2,3) this, of sp] obtain d rs where
      "on_transport (cl_retry c) (hr_method http) (err_kind x) n True sp = Retry d rs" by blast
    then show ?thesis using that e Inl assms(4) by (simp add: attempt_once_def)
  next
    case (Inr x)
    then have "wr_status x = 429 \<or> 500 \<le> wr_status x \<and> wr_status x \<le> 599" using assms(1) e(1) by simp
    from on_status_passing [OF assms(2,3) this, of _ sp] obtain d rs where
      "on_status (cl_retry c) (hr_method http) (wr_status x)
        (Option.bind (header_text (wr_headers x) ''retry-after'') (wi_retry_after wi)) n True sp = Retry d rs" by blast
    then show ?thesis using that e Inr assms(4) by (simp add: attempt_once_def)
  qed
qed

lemma attempt_once_final:
  assumes "fst (wi_execute wi http (net_world s)) = Inr resp" "\<not> passing_answer (Inr resp)"
  obtains s' where "attempt_once wi c http n s = (Inr resp, Fail, s')"
proof -
  obtain r w sp w' where e: "wi_execute wi http (net_world s) = (r, w)" "wi_spread wi w = (sp, w')" by fastforce
  then show thesis using that assms by (simp add: attempt_once_def on_status_final)
qed

lemma attempt_once_world:
  assumes "attempt_once wi c http n s = (r, d, s')" "\<And>w. f (snd (wi_execute wi http w)) = Suc (f w)"
    "\<And>w. f (snd (wi_spread wi w)) = f w"
  shows "f (net_world s') = Suc (f (net_world s))"
proof -
  obtain r0 w sp w' where e: "wi_execute wi http (net_world s) = (r0, w)" "wi_spread wi w = (sp, w')" by fastforce
  then have "s' = s\<lparr>net_world := w'\<rparr>" using assms(1) by (simp add: attempt_once_def)
  then show ?thesis using assms(2) [of "net_world s"] assms(3) [of w] e by simp
qed

lemma dispatch_loop_recovers:
  assumes "prepare wi c req url = Inr http" "is_idempotent (hr_method http)" "is_replayable (hr_body http)"
    "\<And>w. fst (wi_execute wi http w) = answer (f w)" "\<And>w. f (snd (wi_execute wi http w)) = Suc (f w)"
    "\<And>w. f (snd (wi_spread wi w)) = f w"
    "\<And>i. f (net_world s) \<le> i \<Longrightarrow> i < f (net_world s) + k \<Longrightarrow> passing_answer (answer i)"
    "answer (f (net_world s) + k) = Inr resp" "\<not> passing_answer (Inr resp)" "n + k \<le> rp_max (cl_retry c)"
  shows "fst (dispatch_loop wi c req url n s) = Inr resp"
  using assms(7,8,10)
proof (induction k arbitrary: n s)
  case 0
  have "fst (wi_execute wi http (net_world s)) = Inr resp" using 0(2) assms(4) by simp
  then obtain s' where "attempt_once wi c http n s = (Inr resp, Fail, s')" by (rule attempt_once_final [OF _ assms(9)])
  then show ?case using assms(1) by (simp add: dispatch_loop.simps)
next
  case (Suc k)
  have "passing_answer (fst (wi_execute wi http (net_world s)))" using Suc.prems(1) [of "f (net_world s)"] assms(4) by simp
  moreover have "n < rp_max (cl_retry c)" using Suc.prems(3) by simp
  ultimately obtain r d rs s' where a: "attempt_once wi c http n s = (r, Retry d rs, s')"
    using attempt_once_passing [OF _ _ assms(2,3)] by metis
  then have w: "f (net_world s') = Suc (f (net_world s))" by (rule attempt_once_world) (rule assms(5,6))+
  have "fst (dispatch_loop wi c req url (Suc n) (wait c n d rs s')) = Inr resp"
  proof (rule Suc.IH)
    show "passing_answer (answer i)" if "f (net_world (wait c n d rs s')) \<le> i" "i < f (net_world (wait c n d rs s')) + k" for i
      using Suc.prems(1) [of i] that w by simp
  qed (use Suc.prems(2,3) w in simp_all)
  then show ?case using assms(1) a by (cases r) (simp_all add: dispatch_loop.simps [of wi c req url n s])
qed


text \<open>A world whose first \<open>k\<close> answers are 503.\<close>

definition flaky_wire :: "nat \<Rightarrow> nat wire" where
  "flaky_wire k = (sample_wire (\<lambda>_. 200))\<lparr>wi_execute := (\<lambda>http w.
     (Inr \<lparr>wr_status = (if w < k then 503 else 200), wr_headers = [], wr_body = Inr []\<rparr>, Suc w))\<rparr>"


end
