(* ===== verification/Oauth.thy ===== *)
theory Oauth
  imports Client Secrets
begin

text \<open>
  OAuth sessions: \<open>crates/forgejo-core/src/oauth/\<close> (\<open>pkce.rs\<close>, \<open>discovery.rs\<close>, \<open>flow.rs\<close>,
  \<open>stored.rs\<close>) and the renewal before a command, \<open>crates/fjo/src/oauth_refresh.rs\<close>.

  SHA-256, the random source, \<open>serde_json\<close> and the timestamps of \<open>jiff\<close> are outside the program:
  a record \<open>oauth_lib\<close> of functions, and arguments for what a call came back with.  A timestamp is
  nanoseconds since the epoch; adding to one panics out of range, which is \<open>None\<close>.
\<close>

subsection \<open>Sessions\<close>

definition VERSION :: nat where
  "VERSION = 1"

definition KIND :: str where
  "KIND = ''oauth2''"

record stored_oauth =
  so_access :: str
  so_refresh :: str
  so_expires_at :: int
  so_client_id :: str
  so_token_endpoint :: str

record oauth_wire =
  ow_v :: nat
  ow_kind :: str
  ow_access :: str
  ow_refresh :: str
  ow_expires_at :: int
  ow_client_id :: str
  ow_token_endpoint :: str

record token_response =
  tr_access :: str
  tr_refresh :: str
  tr_expires_in :: int

record raw_token =
  rk_access :: str
  rk_refresh :: str
  rk_expires_in :: "int option"

record raw_error =
  re_error :: str
  re_description :: "str option"

record discovery_document =
  dd_authorize :: "str option"
  dd_token :: "str option"

record oauth_lib =
  ol_sha256 :: "str \<Rightarrow> str"
  ol_wire_parse :: "str \<Rightarrow> oauth_wire option"
  ol_wire_show :: "oauth_wire \<Rightarrow> (str, str) res"
  ol_token_parse :: "str \<Rightarrow> (str, raw_token) res"
  ol_error_parse :: "str \<Rightarrow> raw_error option"
  ol_document :: "str \<Rightarrow> (decode_failure, discovery_document) res"
  ol_add_secs :: "int \<Rightarrow> int \<Rightarrow> int option"

definition from_response :: "oauth_lib \<Rightarrow> token_response \<Rightarrow> str \<Rightarrow> str \<Rightarrow> int \<Rightarrow> stored_oauth option" where
  "from_response lib r client_id token_endpoint now =
     map_option (\<lambda>e. \<lparr>so_access = tr_access r, so_refresh = tr_refresh r, so_expires_at = e,
         so_client_id = client_id, so_token_endpoint = token_endpoint\<rparr>) (ol_add_secs lib now (tr_expires_in r))"

definition stored_parse :: "oauth_lib \<Rightarrow> str \<Rightarrow> stored_oauth option" where
  "stored_parse lib raw =
     (if \<not> starts_with (trim_start raw) [CHR 0x7B] then None
      else (case ol_wire_parse lib raw of
              None \<Rightarrow> None
            | Some w \<Rightarrow>
                if ow_v w \<noteq> VERSION \<or> ow_kind w \<noteq> KIND then None
                else Some \<lparr>so_access = ow_access w, so_refresh = ow_refresh w, so_expires_at = ow_expires_at w,
                       so_client_id = ow_client_id w, so_token_endpoint = ow_token_endpoint w\<rparr>))"

definition wire_of :: "stored_oauth \<Rightarrow> oauth_wire" where
  "wire_of s = \<lparr>ow_v = VERSION, ow_kind = KIND, ow_access = so_access s, ow_refresh = so_refresh s,
     ow_expires_at = so_expires_at s, ow_client_id = so_client_id s, ow_token_endpoint = so_token_endpoint s\<rparr>"

definition to_json :: "oauth_lib \<Rightarrow> stored_oauth \<Rightarrow> (error, str) res" where
  "to_json lib s =
     (case ol_wire_show lib (wire_of s) of
        Inr j \<Rightarrow> Inr j
      | Inl e \<Rightarrow> Inl (error_new (Usage (Fmt ''could not store the OAuth session: {e}'' [e]))))"

text \<open>The skew is cut to whole seconds.\<close>

definition is_expiring :: "stored_oauth \<Rightarrow> duration \<Rightarrow> int \<Rightarrow> bool" where
  "is_expiring s skew now \<longleftrightarrow> so_expires_at s - now \<le> int (secs (skew div secs 1))"

definition can_refresh :: "stored_oauth \<Rightarrow> bool" where
  "can_refresh s \<longleftrightarrow> so_refresh s \<noteq> []"

definition credential_kind_of :: "oauth_lib \<Rightarrow> str \<Rightarrow> credential_kind" where
  "credential_kind_of lib raw = (case stored_parse lib raw of Some _ \<Rightarrow> Oauth2 | None \<Rightarrow> Pat)"

subsection \<open>PKCE\<close>

record pkce =
  pk_verifier :: str
  pk_challenge :: str

definition from_verifier :: "oauth_lib \<Rightarrow> str \<Rightarrow> pkce" where
  "from_verifier lib v = \<lparr>pk_verifier = v, pk_challenge = encode_url_nopad (ol_sha256 lib v)\<rparr>"

text \<open>The argument is what filling 32 bytes from the operating system came to.\<close>

definition random_token :: "(str, str) res \<Rightarrow> (error, str) res" where
  "random_token fill =
     (case fill of Inl e \<Rightarrow> Inl (error_new (OauthEntropyUnavailable e)) | Inr bytes \<Rightarrow> Inr (encode_url_nopad bytes))"

definition pkce_generate :: "oauth_lib \<Rightarrow> (str, str) res \<Rightarrow> (error, pkce) res" where
  "pkce_generate lib fill = res_map (from_verifier lib) (random_token fill)"

definition random_state :: "(str, str) res \<Rightarrow> (error, str) res" where
  "random_state fill = random_token fill"

subsection \<open>Endpoints\<close>

definition AUTHORIZE_PATH :: str where
  "AUTHORIZE_PATH = ''/login/oauth/authorize''"

definition TOKEN_PATH :: str where
  "TOKEN_PATH = ''/login/oauth/access_token''"

definition DISCOVERY_PATH :: str where
  "DISCOVERY_PATH = ''/.well-known/openid-configuration''"

record endpoints =
  ep_authorize :: str
  ep_token :: str

definition fixed_endpoints :: "str \<Rightarrow> endpoints" where
  "fixed_endpoints web_base = \<lparr>ep_authorize = web_base @ AUTHORIZE_PATH, ep_token = web_base @ TOKEN_PATH\<rparr>"

definition vet :: "str option \<Rightarrow> str \<Rightarrow> str option" where
  "vet candidate web_base =
     (case candidate of
        None \<Rightarrow> None
      | Some c \<Rightarrow>
          if (case strip_prefix c web_base of
                Some rest \<Rightarrow> rest = [] \<or> List.member [CHR ''/'', CHR ''?'', CHR ''#''] (hd rest)
              | None \<Rightarrow> False)
          then Some c else None)"

definition discover :: "oauth_lib \<Rightarrow> 'w wire \<Rightarrow> client \<Rightarrow> 'w net \<Rightarrow> endpoints \<times> 'w net" where
  "discover lib wi c s =
     (let fixed = fixed_endpoints (cl_web_base c) in
      case web_json wi c (ol_document lib) (cl_web_base c @ DISCOVERY_PATH) s of
        (Inl _, s) \<Rightarrow> (fixed, s)
      | (Inr doc, s) \<Rightarrow>
          (\<lparr>ep_authorize = (case vet (dd_authorize doc) (cl_web_base c) of Some u \<Rightarrow> u | None \<Rightarrow> ep_authorize fixed),
            ep_token = (case vet (dd_token doc) (cl_web_base c) of Some u \<Rightarrow> u | None \<Rightarrow> ep_token fixed)\<rparr>, s))"

subsection \<open>The flow\<close>

definition DEFAULT_EXPIRES_IN :: int where
  "DEFAULT_EXPIRES_IN = 3600"

record authorize_params =
  ap_client_id :: str
  ap_redirect_uri :: str
  ap_state :: str
  ap_challenge :: str

definition authorize_pairs :: "authorize_params \<Rightarrow> (str \<times> str) list" where
  "authorize_pairs p =
     [(''client_id'', ap_client_id p), (''redirect_uri'', ap_redirect_uri p), (''response_type'', ''code''),
      (''state'', ap_state p), (''code_challenge'', ap_challenge p), (''code_challenge_method'', ''S256'')]"

definition authorize_url :: "endpoints \<Rightarrow> authorize_params \<Rightarrow> str" where
  "authorize_url ep p = ep_authorize ep @ ''?'' @ query_string (authorize_pairs p)"

datatype token_failure = FailExchange | FailRefresh

definition refused :: "oauth_lib \<Rightarrow> client \<Rightarrow> token_failure \<Rightarrow> raw_response \<Rightarrow> error" where
  "refused lib c on_failure resp =
     (let e = (case ol_error_parse lib (raw_body resp) of Some e \<Rightarrow> e | None \<Rightarrow> \<lparr>re_error = [], re_description = None\<rparr>);
          err = (if re_error e = [] then ''HTTP '' @ show_nat (raw_status resp) else re_error e)
      in error_new (case on_failure of
           FailExchange \<Rightarrow> OauthTokenExchangeFailed (cl_host c) err (re_description e)
         | FailRefresh \<Rightarrow> OauthRefreshFailed (cl_host c) (case cl_login c of Some l \<Rightarrow> l | None \<Rightarrow> [])
             (case re_description e of Some d \<Rightarrow> Some d | None \<Rightarrow> Some err)))"

definition accepted :: "oauth_lib \<Rightarrow> client \<Rightarrow> raw_response \<Rightarrow> (error, token_response) res" where
  "accepted lib c resp =
     (case ol_token_parse lib (raw_body resp) of
        Inl e \<Rightarrow> Inl (error_new (OauthTokenExchangeFailed (cl_host c) ''unreadable response'' (Some e)))
      | Inr raw \<Rightarrow>
          if rk_access raw = []
          then Inl (error_new (OauthTokenExchangeFailed (cl_host c) ''no access token''
                 (Some ''the server answered 200 with no access_token'')))
          else Inr \<lparr>tr_access = rk_access raw, tr_refresh = rk_refresh raw,
                 tr_expires_in = (case rk_expires_in raw of Some n \<Rightarrow> n | None \<Rightarrow> DEFAULT_EXPIRES_IN)\<rparr>)"

text \<open>The request goes out without a credential; the anonymous client starts with an empty cache, which it does not use.\<close>

definition post_token ::
  "oauth_lib \<Rightarrow> 'w wire \<Rightarrow> client \<Rightarrow> str \<Rightarrow> (str \<times> str) list \<Rightarrow> token_failure \<Rightarrow> 'w net
   \<Rightarrow> (error, token_response) res \<times> 'w net" where
  "post_token lib wi c url pairs on_failure s =
     (case web_form_raw wi (anonymous c) url pairs s of (r, s) \<Rightarrow>
        (res_bind r (\<lambda>resp. if \<not> is_success (raw_status resp) then Inl (refused lib c on_failure resp)
                            else accepted lib c resp), s))"

definition exchange_code ::
  "oauth_lib \<Rightarrow> 'w wire \<Rightarrow> client \<Rightarrow> endpoints \<Rightarrow> str \<Rightarrow> str \<Rightarrow> str \<Rightarrow> str \<Rightarrow> 'w net
   \<Rightarrow> (error, token_response) res \<times> 'w net" where
  "exchange_code lib wi c ep client_id redirect_uri code verifier s =
     post_token lib wi c (ep_token ep)
       [(''grant_type'', ''authorization_code''), (''client_id'', client_id), (''redirect_uri'', redirect_uri),
        (''code'', code), (''code_verifier'', verifier)] FailExchange s"

definition refresh ::
  "oauth_lib \<Rightarrow> 'w wire \<Rightarrow> client \<Rightarrow> str \<Rightarrow> str \<Rightarrow> str \<Rightarrow> 'w net \<Rightarrow> (error, token_response) res \<times> 'w net" where
  "refresh lib wi c token_endpoint client_id refresh_token s =
     post_token lib wi c token_endpoint
       [(''grant_type'', ''refresh_token''), (''client_id'', client_id), (''refresh_token'', refresh_token)] FailRefresh s"

subsection \<open>Renewing a session\<close>

definition SKEW :: duration where
  "SKEW = secs 300"

text \<open>
  What a renewal meets: the library and the transport, the version for the user agent, whether the
  thread finished, and the time after the answer.
\<close>

record 'w oauth_env =
  oe_lib :: oauth_lib
  oe_wire :: "'w wire"
  oe_transport :: "(error, unit) res"
  oe_version :: str
  oe_joined :: bool
  oe_now :: int

definition refresh_in_thread ::
  "'w oauth_env \<Rightarrow> stored_oauth \<Rightarrow> host_key \<Rightarrow> str \<Rightarrow> str \<Rightarrow> 'w net \<Rightarrow> (error, token_response) res \<times> 'w net" where
  "refresh_in_thread oe stored host login base_url s =
     (if \<not> oe_joined oe
      then (Inl (error_new (OauthRefreshFailed (key_str host) login (Some ''the refresh thread did not finish''))), s)
      else (case build (oe_transport oe) (builder base_url (http_creds_new AuthNone) (oe_version oe)) of
              Inl e \<Rightarrow> (Inl e, s)
            | Inr c \<Rightarrow> refresh (oe_lib oe) (oe_wire oe) c (so_token_endpoint stored) (so_client_id stored) (so_refresh stored) s))"

text \<open>The outer option of the result is \<open>None\<close> when computing the expiry panics.\<close>

definition refresh_blocking ::
  "'w oauth_env \<Rightarrow> 'k cred_ops \<Rightarrow> system \<Rightarrow> stored_oauth \<Rightarrow> hosts \<Rightarrow> host_key \<Rightarrow> str \<Rightarrow> 'k credentials \<Rightarrow> str \<Rightarrow> 'w net
   \<Rightarrow> (error, stored_oauth) res option \<times> hosts \<times> 'k credentials \<times> system \<times> 'w net" where
  "refresh_blocking oe ops sys stored hosts host login creds base_url s =
     (case refresh_in_thread oe stored host login base_url s of
        (Inl e, s) \<Rightarrow> (Some (Inl e), hosts, creds, sys, s)
      | (Inr tokens, s) \<Rightarrow>
          (case from_response (oe_lib oe) tokens (so_client_id stored) (so_token_endpoint stored) (oe_now oe) of
             None \<Rightarrow> (None, hosts, creds, sys, s)
           | Some fresh \<Rightarrow>
               (case to_json (oe_lib oe) fresh of
                  Inl e \<Rightarrow> (Some (Inl e), hosts, creds, sys, s)
                | Inr doc \<Rightarrow>
                    (case cr_store ops sys creds hosts host login doc [] (Some ''oauth2'') of
                       (Inl e, creds, hosts, sys) \<Rightarrow> (Some (Inl e), hosts, creds, sys, s)
                     | (Inr _, creds, hosts, sys) \<Rightarrow>
                         (case sys_save sys hosts of
                            (Inl e, hosts, sys) \<Rightarrow> (Some (Inl e), hosts, creds, sys, s)
                          | (Inr _, hosts, sys) \<Rightarrow> (Some (Inr fresh), hosts, creds, sys, s))))))"

subsection \<open>Where tokens go\<close>

text \<open>The JSON of a session reads back; printing one starts with a brace.\<close>

definition json_faithful :: "oauth_lib \<Rightarrow> bool" where
  "json_faithful lib \<longleftrightarrow> (\<forall>w j. ol_wire_show lib w = Inr j \<longrightarrow> ol_wire_parse lib j = Some w \<and> (\<exists>t. j = CHR 0x7B # t))"

lemma trim_start_brace: "trim_start (CHR 0x7B # t) = CHR 0x7B # t"
proof -
  have "\<forall>w\<in>set unicode_ws. hd w \<noteq> CHR 0x7B" by (simp add: unicode_ws_def)
  then have "\<not> is_whitespace (CHR 0x7B # takeWhile is_cont t)" by (force simp: is_whitespace_def)
  then show ?thesis using concat_chars [of "CHR 0x7B # t"] by (simp add: trim_start_def del: concat_chars)
qed

lemma stored_parse_to_json:
  assumes "json_faithful lib" "to_json lib s = Inr doc"
  shows "stored_parse lib doc = Some s"
proof -
  from assms(2) have "ol_wire_show lib (wire_of s) = Inr doc" by (auto simp: to_json_def split: sum.splits)
  with assms(1) obtain t where t: "ol_wire_parse lib doc = Some (wire_of s)" "doc = CHR 0x7B # t"
    by (auto simp: json_faithful_def)
  have "starts_with (trim_start doc) [CHR 0x7B]" unfolding t(2) trim_start_brace by (simp add: starts_with_def)
  then show ?thesis using t(1) by (simp add: stored_parse_def wire_of_def)
qed

text \<open>A request to the token endpoint: where it goes and what it carries.\<close>

definition goes_home :: "'w wire \<Rightarrow> client \<Rightarrow> str \<Rightarrow> (str \<times> str) list \<Rightarrow> bool" where
  "goes_home wi c url pairs \<longleftrightarrow>
     (\<exists>req. web_form_request (anonymous c) url pairs = Inr req \<and>
       (\<forall>http. prepare wi (anonymous c) req (Some url) = Inr http \<longrightarrow>
          hr_url http = url \<and> url_origin url = url_origin (cl_web_base c) \<and> header_get_all (hr_headers http) AUTHORIZATION = []))"

definition at_root :: "client \<Rightarrow> str \<Rightarrow> bool" where
  "at_root c url \<longleftrightarrow> (\<exists>rest. url = cl_web_base c @ rest \<and> (rest = [] \<or> hd rest \<in> {CHR ''/'', CHR ''?'', CHR ''#''}))"

lemma vet_at_root: "vet u (cl_web_base c) = Some v \<Longrightarrow> at_root c v"
  by (auto simp: vet_def at_root_def strip_prefix_Some split: option.splits if_splits)

lemma fixed_at_root: "at_root c (ep_authorize (fixed_endpoints (cl_web_base c)))" "at_root c (ep_token (fixed_endpoints (cl_web_base c)))"
  by (auto simp: at_root_def fixed_endpoints_def AUTHORIZE_PATH_def TOKEN_PATH_def)

lemma discover_at_root:
  assumes "discover lib wi c s = (ep, s')"
  shows "at_root c (ep_authorize ep) \<and> at_root c (ep_token ep)"
  using assms fixed_at_root [of c] by (auto simp: discover_def Let_def split: prod.splits sum.splits option.splits dest!: vet_at_root)

lemma anonymous_simps [simp]: "cl_web_base (anonymous c) = cl_web_base c" "hc_auth (cl_creds (anonymous c)) = AuthNone"
  by (simp_all add: anonymous_def http_creds_new_def)

lemma at_root_goes_home:
  assumes "at_root c url" "url_origin (cl_web_base c) = Some o'"
  shows "goes_home wi c url pairs \<and> url_origin url = Some o'"
proof -
  from assms(1) obtain rest where r: "url = cl_web_base c @ rest" "rest = [] \<or> hd rest \<in> {CHR ''/'', CHR ''?'', CHR ''#''}"
    by (auto simp: at_root_def)
  have og: "url_origin url = Some o'" using url_origin_append [OF assms(2) r(2)] r(1) by simp
  have "strip_prefix url (cl_web_base c) = Some rest" using r(1) by (simp add: strip_prefix_Some)
  then have "\<not> isl (web_request (anonymous c) POST url)" using r(2) by (auto simp: web_request_isl)
  then obtain req0 where w: "web_request (anonymous c) POST url = Inr req0" by (cases "web_request (anonymous c) POST url") simp_all
  let ?req = "req0\<lparr>req_accept := AcceptJson, req_body := BodyForm pairs\<rparr>"
  have f: "web_form_request (anonymous c) url pairs = Inr ?req" using w by (simp add: web_form_request_def)
  have x: "req_extra_headers ?req = []" using request_extras [OF w] by simp
  have "hr_url http = url \<and> header_get_all (hr_headers http) AUTHORIZATION = []"
    if h: "prepare wi (anonymous c) ?req (Some url) = Inr http" for http
    using override_url_keeps_credential [OF h x] by simp
  then show ?thesis using f og assms(2) by (auto simp: goes_home_def)
qed

subsection \<open>What a renewal leaves behind\<close>

lemma sys_save_clean: "sys_save sys h = (Inr u, h', sys') \<Longrightarrow> \<not> hs_dirty h'"
  by (auto simp: sys_save_def save_if_dirty_def split: if_splits prod.splits sum.splits)

lemma sys_save_noop: "\<not> hs_dirty h \<Longrightarrow> sys_save sys h = (Inr (), h, sys)"
  by (simp add: sys_save_def save_if_dirty_def)

lemma store_fallback_clean: "store_fallback ops sys c h host login tok = (Inr src, c', h', sys') \<Longrightarrow> \<not> hs_dirty h'"
  by (auto simp: store_fallback_def Let_def dest!: sys_save_clean split: prod.splits sum.splits)

lemma cr_store_clean: "cr_store ops sys c h host login tok scopes kind = (Inr src, c', h', sys') \<Longrightarrow> \<not> hs_dirty h'"
  by (auto simp: cr_store_def dest!: sys_save_clean store_fallback_clean split: prod.splits sum.splits if_splits)

lemma refresh_blocking_Inr:
  assumes "refresh_blocking oe ops sys stored hosts host login creds base s = (Some (Inr fresh), hosts', creds', sys', s')"
  obtains doc src where "to_json (oe_lib oe) fresh = Inr doc"
    "cr_store ops sys creds hosts host login doc [] (Some ''oauth2'') = (Inr src, creds', hosts', sys')"
    "so_client_id fresh = so_client_id stored" "so_token_endpoint fresh = so_token_endpoint stored"
proof -
  from assms obtain tokens s1 where t: "refresh_in_thread oe stored host login base s = (Inr tokens, s1)"
    by (auto simp: refresh_blocking_def split: prod.splits sum.splits)
  from assms t obtain doc where d: "to_json (oe_lib oe) fresh = Inr doc"
    "from_response (oe_lib oe) tokens (so_client_id stored) (so_token_endpoint stored) (oe_now oe) = Some fresh"
    by (auto simp: refresh_blocking_def split: option.splits sum.splits prod.splits)
  obtain r c1 h1 sy1 where cs: "cr_store ops sys creds hosts host login doc [] (Some ''oauth2'') = (r, c1, h1, sy1)"
    by (metis prod_cases4)
  from assms t d cs obtain src where r: "r = Inr src" by (cases r) (auto simp: refresh_blocking_def)
  have "sys_save sy1 h1 = (Inr (), h1, sy1)" using cr_store_clean cs r by (blast intro: sys_save_noop)
  then have "creds' = c1 \<and> hosts' = h1 \<and> sys' = sy1" using assms t d cs r by (simp add: refresh_blocking_def)
  moreover have "so_client_id fresh = so_client_id stored \<and> so_token_endpoint fresh = so_token_endpoint stored"
    using d(2) by (auto simp: from_response_def)
  ultimately show thesis using that d(1) cs r by blast
qed

text \<open>A refused renewal cannot name the account: the client of the renewal has no login.\<close>

lemma refused_renewal_names_nobody:
  assumes "build transport (builder base_url (http_creds_new AuthNone) version) = Inr c"
  shows "\<exists>h reason. err_kind (refused lib c FailRefresh resp) = OauthRefreshFailed h [] reason"
proof -
  have "cl_login c = None" using assms by (auto simp: build_def builder_def res_bind_eq_Inr res_map_eq_Inr)
  then show ?thesis by (simp add: refused_def error_new_def Let_def)
qed

text \<open>An answer to a renewal that cannot be read is reported as a failed exchange.\<close>

lemma unreadable_renewal_is_exchange:
  "ol_token_parse lib (raw_body resp) = Inl e \<Longrightarrow>
   accepted lib c resp = Inl (error_new (OauthTokenExchangeFailed (cl_host c) ''unreadable response'' (Some e)))"
  by (simp add: accepted_def)

subsection \<open>Properties\<close>

definition sample_oauth_lib :: oauth_lib where
  "sample_oauth_lib = \<lparr>ol_sha256 = id, ol_wire_parse = (\<lambda>_. None), ol_wire_show = (\<lambda>_. Inl ''no''),
     ol_token_parse = (\<lambda>_. Inr \<lparr>rk_access = ''acc'', rk_refresh = ''ref'', rk_expires_in = None\<rparr>), ol_error_parse = (\<lambda>_. None),
     ol_document = (\<lambda>_. Inr \<lparr>dd_authorize = Some ''https://evil.net/a'', dd_token = Some ''https://f.org.evil.net/t''\<rparr>),
     ol_add_secs = (\<lambda>t n. Some (t + n * 1000000000))\<rparr>"




text \<open>A renewal on a machine without a keyring, as the witness.\<close>

definition sample_session :: stored_oauth where
  "sample_session = \<lparr>so_access = ''old'', so_refresh = ''r0'', so_expires_at = 0, so_client_id = ''cid'',
     so_token_endpoint = ''https://f.org/login/oauth/access_token''\<rparr>"

definition renewed_session :: stored_oauth where
  "renewed_session = sample_session\<lparr>so_access := ''acc'', so_refresh := ''ref'', so_expires_at := 3600000000000\<rparr>"

definition sample_oauth_env :: "nat oauth_env" where
  "sample_oauth_env = \<lparr>oe_lib = sample_oauth_lib\<lparr>
       ol_wire_show := (\<lambda>w. if w = wire_of renewed_session then Inr [CHR 0x7B, CHR ''j''] else Inl ''no''),
       ol_wire_parse := (\<lambda>j. if j = [CHR 0x7B, CHR ''j''] then Some (wire_of renewed_session) else None)\<rparr>,
     oe_wire = sample_wire (\<lambda>_. 200), oe_transport = Inr (), oe_version = ''1'', oe_joined = True, oe_now = 0\<rparr>"

lemma sample_oauth_faithful: "json_faithful (oe_lib sample_oauth_env)"
  by (auto simp: json_faithful_def sample_oauth_env_def split: if_splits)

lemma sample_renewal:
  "\<exists>s'. refresh_in_thread sample_oauth_env sample_session host login ''https://f.org'' sample_net
     = (Inr \<lparr>tr_access = ''acc'', tr_refresh = ''ref'', tr_expires_in = 3600\<rparr>, s')"
proof -
  have "normalize_base ''https://f.org'' = Inr (''https://f.org/api/v1'', ''https://f.org'')" by code_simp
  then obtain c where c: "build (Inr ()) (builder ''https://f.org'' (http_creds_new AuthNone) ''1'') = Inr c"
    "cl_web_base c = ''https://f.org''" by (simp add: build_def builder_def)
  let ?url = "''https://f.org/login/oauth/access_token''"
  have "\<not> isl (web_request (anonymous c) POST ?url)" using c(2) by (simp add: web_request_isl strip_prefix_def)
  then obtain req0 where w: "web_request (anonymous c) POST ?url = Inr req0" by (cases "web_request (anonymous c) POST ?url") simp_all
  let ?pairs = "[(''grant_type'', ''refresh_token''), (''client_id'', ''cid''), (''refresh_token'', ''r0'')]"
  let ?req = "req0\<lparr>req_accept := AcceptJson, req_body := BodyForm ?pairs\<rparr>"
  have f: "web_form_request (anonymous c) ?url ?pairs = Inr ?req" using w by (simp add: web_form_request_def)
  have "req_extra_headers ?req = []" using request_extras [OF w] by simp
  then obtain http where h: "prepare (sample_wire (\<lambda>_. 200)) (anonymous c) ?req (Some ?url) = Inr http" by (rule sample_prepare)
  have "dispatch (sample_wire (\<lambda>_. 200)) (anonymous c) ?req (Some ?url) sample_net
    = (Inr \<lparr>wr_status = 200, wr_headers = [], wr_body = Inr []\<rparr>, sample_net\<lparr>net_world := Suc (net_world sample_net)\<rparr>)"
    using sample_dispatch [OF h] by simp
  then have "web_form_raw (sample_wire (\<lambda>_. 200)) (anonymous c) ?url ?pairs sample_net
    = (Inr \<lparr>raw_status = 200, raw_headers = [], raw_body = []\<rparr>, sample_net\<lparr>net_world := Suc (net_world sample_net)\<rparr>)"
    using f by (simp add: web_form_raw_def fix_path_def raw_of_def)
  then show ?thesis using c(1)
    by (simp add: refresh_in_thread_def sample_oauth_env_def sample_session_def refresh_def post_token_def is_success_def
        accepted_def sample_oauth_lib_def DEFAULT_EXPIRES_IN_def)
qed


end
