(* ===== verification/Runtime.thy ===== *)
theory Runtime
  imports Oauth Config Context
begin

text \<open>
  What a command starts from: the global flags (\<open>crates/fjo/src/global.rs\<close>) and the runtime
  assembled from them (\<open>crates/fjo/src/runtime.rs\<close>).

  \<open>clap\<close> and the terminal are arguments.  The state a start meets and changes (files, keyring,
  network) is passed through; a start ends in a runtime, in an error, or, where computing an expiry
  panics, in \<open>None\<close>.
\<close>

subsection \<open>Global flags\<close>

record global_opts =
  gl_host :: "str option"
  gl_login :: "str option"
  gl_repo :: "repo_ref option"
  gl_json :: "str option"
  gl_jq :: "str option"
  gl_template :: "str option"
  gl_color :: "color_pref option"
  gl_sudo :: "str option"
  gl_otp :: "str option"
  gl_debug :: bool
  gl_no_retry :: bool
  gl_max_retries :: "nat option"
  gl_insecure :: bool
  gl_paginate :: bool
  gl_limit :: "nat option"
  gl_output :: "str option"
  gl_force :: bool

definition default_opts :: global_opts where
  "default_opts = \<lparr>gl_host = None, gl_login = None, gl_repo = None, gl_json = None, gl_jq = None, gl_template = None,
     gl_color = None, gl_sudo = None, gl_otp = None, gl_debug = False, gl_no_retry = False, gl_max_retries = None,
     gl_insecure = False, gl_paginate = False, gl_limit = None, gl_output = None, gl_force = False\<rparr>"

definition opt_or :: "'a option \<Rightarrow> 'a option \<Rightarrow> 'a option" where
  "opt_or a b = (case a of Some x \<Rightarrow> Some x | None \<Rightarrow> b)"

definition opts_or :: "global_opts \<Rightarrow> global_opts \<Rightarrow> global_opts" where
  "opts_or a b =
     \<lparr>gl_host = opt_or (gl_host a) (gl_host b), gl_login = opt_or (gl_login a) (gl_login b),
      gl_repo = opt_or (gl_repo a) (gl_repo b), gl_json = opt_or (gl_json a) (gl_json b),
      gl_jq = opt_or (gl_jq a) (gl_jq b), gl_template = opt_or (gl_template a) (gl_template b),
      gl_color = opt_or (gl_color a) (gl_color b), gl_sudo = opt_or (gl_sudo a) (gl_sudo b),
      gl_otp = opt_or (gl_otp a) (gl_otp b), gl_debug = (gl_debug a \<or> gl_debug b),
      gl_no_retry = (gl_no_retry a \<or> gl_no_retry b), gl_max_retries = opt_or (gl_max_retries a) (gl_max_retries b),
      gl_insecure = (gl_insecure a \<or> gl_insecure b), gl_paginate = (gl_paginate a \<or> gl_paginate b),
      gl_limit = opt_or (gl_limit a) (gl_limit b), gl_output = opt_or (gl_output a) (gl_output b),
      gl_force = (gl_force a \<or> gl_force b)\<rparr>"

text \<open>The levels of the command line, innermost first, each as the flags it was given.\<close>

definition from_chain :: "global_opts list \<Rightarrow> global_opts" where
  "from_chain levels = foldl opts_or default_opts levels"

definition wants_machine_output :: "global_opts \<Rightarrow> bool" where
  "wants_machine_output g \<longleftrightarrow> gl_json g \<noteq> None \<or> gl_jq g \<noteq> None \<or> gl_template g \<noteq> None"

text \<open>The names a global flag keeps when a command has taken some; a short name is taken as \<open>-s\<close>.\<close>

definition named :: "str \<Rightarrow> char option \<Rightarrow> str set \<Rightarrow> (str option \<times> char option) option" where
  "named long short taken =
     (let long_free = long \<notin> taken;
          short_free = (case short of Some s \<Rightarrow> [CHR ''-'', s] \<notin> taken | None \<Rightarrow> False)
      in if \<not> long_free \<and> \<not> short_free then None
         else Some (if long_free then Some long else None, if short_free then short else None))"

definition GLOBAL_NAMES :: "(str \<times> char option) list" where
  "GLOBAL_NAMES =
     [(''host'', None), (''login'', None), (''repo'', Some CHR ''R''), (''json'', None), (''jq'', Some CHR ''q''),
      (''template'', Some CHR ''t''), (''color'', None), (''sudo'', None), (''otp'', None), (''debug'', None),
      (''no-retry'', None), (''max-retries'', None), (''insecure-skip-tls-verify'', None), (''paginate'', None),
      (''limit'', None), (''output'', None), (''force'', None)]"

definition global_args :: "str set \<Rightarrow> (str option \<times> char option) list" where
  "global_args taken = List.map_filter (\<lambda>(l, s). named l s taken) GLOBAL_NAMES"

subsection \<open>Policies and texts\<close>

definition U32_MAX :: nat where
  "U32_MAX = 4294967295"

definition runtime_retry_policy :: "global_opts \<Rightarrow> retry_policy" where
  "runtime_retry_policy g =
     (if gl_no_retry g then no_retry_policy
      else (case gl_max_retries g of
              Some n \<Rightarrow> default_policy\<lparr>rp_max := min (n + 1) U32_MAX\<rparr>
            | None \<Rightarrow> default_policy))"

definition user_agent :: "str \<Rightarrow> str \<Rightarrow> str" where
  "user_agent version spec = ''fjo/'' @ version @ '' (forgejo-api '' @ spec @ '')''"

text \<open>\<open>fmt1\<close> prints the seconds of a duration with one decimal.\<close>

definition wait_line :: "(duration \<Rightarrow> str) \<Rightarrow> wait_notice \<Rightarrow> str" where
  "wait_line fmt1 n =
     (let why = (case wn_reason n of RateLimitedReason \<Rightarrow> ''rate limited''
                 | ServerErrorReason s \<Rightarrow> ''HTTP '' @ show_nat s | TransportReason \<Rightarrow> ''connection failed'')
      in wn_host n @ '' is '' @ why @ ''; waiting '' @ fmt1 (wn_after n) @ ''s before attempt ''
           @ show_nat (wn_attempt n + 1) @ '' of '' @ show_nat (wn_of n))"

fun describe_source :: "token_source option \<Rightarrow> str" where
  "describe_source None = ''none''"
| "describe_source (Some (Keyring entry)) = ''keyring entry '' @ entry"
| "describe_source (Some (File path)) = path"
| "describe_source (Some (EnvVar var)) = CHR ''$'' # var"
| "describe_source (Some Flag) = ''--token''"

text \<open>The colour of the terminal; the argument is what detecting it came to.\<close>

definition term_for :: "bool \<Rightarrow> global_opts \<Rightarrow> config \<Rightarrow> host_key \<Rightarrow> bool" where
  "term_for detected g config host =
     (case (case gl_color g of Some p \<Rightarrow> p | None \<Rightarrow> config_color config (Some (key_str host))) of
        ColorAlways \<Rightarrow> True | ColorNever \<Rightarrow> False | ColorAuto \<Rightarrow> detected)"

subsection \<open>Which host\<close>

definition host_named_explicitly :: "global_opts \<Rightarrow> env \<Rightarrow> bool" where
  "host_named_explicitly g env \<longleftrightarrow>
     gl_host g \<noteq> None \<or> env_get env ''FJO_HOST'' \<noteq> None \<or> env_get env ''FORGEJO_HOST'' \<noteq> None"

definition resolve_options_of :: "global_opts \<Rightarrow> resolve_options" where
  "resolve_options_of g = \<lparr>ro_repo = gl_repo g, ro_host = gl_host g, ro_login = gl_login g\<rparr>"

definition client_host ::
  "global_opts \<Rightarrow> hosts \<Rightarrow> 'g git_ctx \<Rightarrow> 'g \<Rightarrow> env \<Rightarrow> (error, host_key \<times> repo_context option) res" where
  "client_host g hosts gc git env =
     (if host_named_explicitly g env then res_map (\<lambda>h. (h, None)) (resolve_host hosts (gl_host g) env)
      else (case resolve_repo gc git hosts env (resolve_options_of g) of
              Inr ctx \<Rightarrow> Inr (rx_host ctx, Some ctx)
            | Inl _ \<Rightarrow> res_map (\<lambda>h. (h, None)) (resolve_host hosts (gl_host g) env)))"

definition current_branch :: "'g git_ctx \<Rightarrow> 'g \<Rightarrow> (error, str) res" where
  "current_branch gc git =
     res_bind (gc_current_branch gc git) (\<lambda>b. case b of Some b \<Rightarrow> Inr b
       | None \<Rightarrow> Inl (error_new (Usage (Fmt ''{branch} needs a checked-out branch, and HEAD is detached (or this is not a git repository); name the branch in the path instead'' []))))"

subsection \<open>Starting\<close>

record ('k, 'w) machine =
  mc_sys :: system
  mc_keyring :: 'k
  mc_net :: "'w net"

record ('k, 'g, 'w) surroundings =
  su_env :: env
  su_base :: "(str, str) res"
  su_tables :: table_lib
  su_ops :: "'k cred_ops"
  su_git :: "'g git_ctx"
  su_git_state :: 'g
  su_oauth :: "'w oauth_env"
  su_now :: int
  su_transport :: "(error, unit) res"
  su_version :: str
  su_color :: bool

record runtime =
  rt_config :: config
  rt_hosts :: hosts
  rt_host :: host_key
  rt_login :: "str option"
  rt_client :: client
  rt_color :: bool
  rt_debug :: bool
  rt_repo :: "repo_context option"
  rt_warnings :: "error_kind list"

definition runtime_login :: "global_opts \<Rightarrow> hosts \<Rightarrow> host_key \<Rightarrow> (error, str option) res" where
  "runtime_login g hosts host =
     (case gl_login g of
        Some u \<Rightarrow> res_map Some (resolve_login hosts host (Some u))
      | None \<Rightarrow> Inr (res_ok (resolve_login hosts host None)))"

definition runtime_token ::
  "'k cred_ops \<Rightarrow> env \<Rightarrow> 'k credentials \<Rightarrow> hosts \<Rightarrow> host_key \<Rightarrow> str option
   \<Rightarrow> (error, token option) res \<times> 'k credentials \<times> hosts" where
  "runtime_token ops env creds hosts host login =
     (case login of
        Some l \<Rightarrow> cr_token ops creds hosts host l
      | None \<Rightarrow> (env_store_get env host [] hosts, creds, hosts))"

text \<open>The credential to send: a session is renewed first when it is about to lapse and can be.\<close>

definition runtime_auth ::
  "('k, 'g, 'w) surroundings \<Rightarrow> token option \<Rightarrow> str option \<Rightarrow> host_key \<Rightarrow> hosts \<Rightarrow> 'k credentials \<Rightarrow> system \<Rightarrow> 'w net
   \<Rightarrow> (auth \<times> error_kind list) option \<times> hosts \<times> 'k credentials \<times> system \<times> 'w net" where
  "runtime_auth su token login host hosts creds sys s =
     (case token of
        None \<Rightarrow> (Some (AuthNone, []), hosts, creds, sys, s)
      | Some t \<Rightarrow>
          (case stored_parse (oe_lib (su_oauth su)) (tok_secret t) of
             None \<Rightarrow> (Some (AuthToken (tok_secret t), []), hosts, creds, sys, s)
           | Some stored \<Rightarrow>
               (case (login, host_get hosts host) of
                  (Some l, Some entry) \<Rightarrow>
                    if can_refresh stored \<and> is_expiring stored SKEW (su_now su) then
                      (case refresh_blocking (su_oauth su) (su_ops su) sys stored hosts host l creds (he_url entry) s of
                         (r, hosts, creds, sys, s) \<Rightarrow>
                           (case r of
                              None \<Rightarrow> None
                            | Some (Inr fresh) \<Rightarrow> Some (AuthBearer (so_access fresh), [])
                            | Some (Inl e) \<Rightarrow> Some (AuthBearer (so_access stored), [err_kind e]), hosts, creds, sys, s))
                    else (Some (AuthBearer (so_access stored), []), hosts, creds, sys, s)
                | _ \<Rightarrow> (Some (AuthBearer (so_access stored), []), hosts, creds, sys, s))))"

definition runtime_client ::
  "(error, unit) res \<Rightarrow> str \<Rightarrow> global_opts \<Rightarrow> hosts \<Rightarrow> host_key \<Rightarrow> str option \<Rightarrow> auth \<Rightarrow> token_source option \<Rightarrow> (error, client) res" where
  "runtime_client transport version g hosts host login auth source =
     (let creds = http_creds_new auth;
          creds = (case gl_sudo g of Some u \<Rightarrow> with_sudo creds u | None \<Rightarrow> creds);
          creds = (case gl_otp g of Some c \<Rightarrow> with_otp creds c | None \<Rightarrow> creds)
      in case host_get hosts host of
           None \<Rightarrow> Inl (error_new NoHostConfigured)
         | Some entry \<Rightarrow>
             let b = cb_with_on_wait (cb_with_retry (builder (he_url entry) creds version) (runtime_retry_policy g));
                 b = (case source of Some src \<Rightarrow> cb_with_token_source b src | None \<Rightarrow> b);
                 b = (case login of Some l \<Rightarrow> cb_with_login b l | None \<Rightarrow> b)
             in build transport b)"

text \<open>From the credential on: the search, saving what it cached, the client and its surroundings.\<close>

definition runtime_finish ::
  "('k, 'g, 'w) surroundings \<Rightarrow> ('k, 'w) machine \<Rightarrow> global_opts \<Rightarrow> config \<Rightarrow> error_kind list \<Rightarrow> hosts \<Rightarrow> host_key
   \<Rightarrow> repo_context option \<Rightarrow> str option \<Rightarrow> (error, runtime) res option \<times> ('k, 'w) machine" where
  "runtime_finish su mc g config warnings hosts host resolved login =
     (let creds = with_preference (credentials_new (su_env su) (mc_keyring mc)) (config_credential_store config (Some (key_str host))) in
      case runtime_token (su_ops su) (su_env su) creds hosts host login of
        (Inl e, creds, hosts) \<Rightarrow> (Some (Inl e), mc\<lparr>mc_keyring := cr_keyring creds\<rparr>)
      | (Inr token, creds, hosts) \<Rightarrow>
          (case cr_take_warnings creds of (w, creds) \<Rightarrow>
           case sys_save (mc_sys mc) hosts of (saved, hosts, sys) \<Rightarrow>
             let warnings = warnings @ w @ (case saved of Inl e \<Rightarrow> [err_kind e] | Inr _ \<Rightarrow> []) in
             (case runtime_auth su token login host hosts creds sys (mc_net mc) of
                (a, hosts, creds, sys, s) \<Rightarrow>
                  (case a of
                     None \<Rightarrow> None
                   | Some (auth, extra) \<Rightarrow>
                       Some (res_map (\<lambda>c. \<lparr>rt_config = config, rt_hosts = hosts, rt_host = host, rt_login = login, rt_client = c,
                             rt_color = term_for (su_color su) g config host, rt_debug = gl_debug g, rt_repo = resolved,
                             rt_warnings = warnings @ extra\<rparr>)
                         (runtime_client (su_transport su) (su_version su) g hosts host login auth (map_option tok_source token))),
                   \<lparr>mc_sys = sys, mc_keyring = cr_keyring creds, mc_net = s\<rparr>))))"

definition runtime_new ::
  "('k, 'g, 'w) surroundings \<Rightarrow> ('k, 'w) machine \<Rightarrow> global_opts \<Rightarrow> (error, runtime) res option \<times> ('k, 'w) machine" where
  "runtime_new su mc g =
     (if gl_insecure g then
        (Some (Inl (error_new (Usage (Fmt (''--insecure-skip-tls-verify is not supported by this build; add the instance'' @ CHR 0x27 # ''s CA certificate to your operating system trust store instead, which fjo reads'') [])))), mc)
      else
        (case config_load (su_tables su) (sys_io (mc_sys mc)) (sys_fs (mc_sys mc)) (su_env su) (su_base su) of
           Inl e \<Rightarrow> (Some (Inl e), mc)
         | Inr config \<Rightarrow>
         case load_at (sys_toml (mc_sys mc)) (sys_io (mc_sys mc)) (sys_fs (mc_sys mc)) (hosts_path config) of
           Inl e \<Rightarrow> (Some (Inl e), mc)
         | Inr hosts \<Rightarrow>
         case take_warnings hosts of (warnings, hosts) \<Rightarrow>
         case adopt_env_host hosts (gl_host g) (su_env su) of
           Inl e \<Rightarrow> (Some (Inl e), mc)
         | Inr (_, hosts) \<Rightarrow>
         case client_host g hosts (su_git su) (su_git_state su) (su_env su) of
           Inl e \<Rightarrow> (Some (Inl e), mc)
         | Inr (host, resolved) \<Rightarrow>
         case runtime_login g hosts host of
           Inl e \<Rightarrow> (Some (Inl e), mc)
         | Inr login \<Rightarrow> runtime_finish su mc g config warnings hosts host resolved login))"

text \<open>\<open>Runtime::repo\<close>: what the start resolved, or a resolution now.\<close>

definition runtime_repo :: "('k, 'g, 'w) surroundings \<Rightarrow> runtime \<Rightarrow> global_opts \<Rightarrow> (error, repo_context) res" where
  "runtime_repo su rt g =
     (case rt_repo rt of
        Some ctx \<Rightarrow> Inr ctx
      | None \<Rightarrow> resolve_repo (su_git su) (su_git_state su) (rt_hosts rt) (su_env su) (resolve_options_of g))"

subsection \<open>Lemmas\<close>

lemma pref_given: "map_option fst (pref_of opts env) = given_host (ro_host opts) env"
  by (auto simp: pref_of_def given_host_def split: option.splits)

lemma explicit_given: "host_named_explicitly g env \<longleftrightarrow> given_host (gl_host g) env \<noteq> None"
  by (auto simp: host_named_explicitly_def given_host_def split: option.splits)

lemma resolve_options_simps [simp]:
  "ro_host (resolve_options_of g) = gl_host g" "ro_repo (resolve_options_of g) = gl_repo g" "ro_login (resolve_options_of g) = gl_login g"
  by (simp_all add: resolve_options_of_def)

text \<open>A preference and the resolution of the host without a repository pick the same host.\<close>

lemma pref_resolve_host:
  assumes "pref_of (resolve_options_of g) env = Some (h, label)" "resolve_host hosts (gl_host g) env = Inr k"
  shows "host_key_parse h = Inr k \<and> host_contains hosts k"
proof -
  have "given_host (gl_host g) env = Some h" using pref_given [of "resolve_options_of g" env] assms(1) by simp
  then show ?thesis using assms(2) by (auto simp: resolve_host_def res_bind_eq_Inr split: if_splits)
qed

lemma client_host_explicit:
  assumes "client_host g hosts gc git env = Inr (k, resolved)" "host_named_explicitly g env"
  shows "resolved = None \<and> resolve_host hosts (gl_host g) env = Inr k
    \<and> (\<exists>h label. pref_of (resolve_options_of g) env = Some (h, label) \<and> host_key_parse h = Inr k)"
proof -
  have r: "resolved = None" "resolve_host hosts (gl_host g) env = Inr k" using assms by (auto simp: client_host_def res_map_eq_Inr)
  obtain h where "given_host (gl_host g) env = Some h" using assms(2) by (auto simp: explicit_given)
  then obtain label where "pref_of (resolve_options_of g) env = Some (h, label)"
    using pref_given [of "resolve_options_of g" env] by auto
  then show ?thesis using r pref_resolve_host [OF _ r(2)] by blast
qed

lemma host_from_pref_explicit:
  "host_key_parse h = Inr k \<Longrightarrow> host_from_pref gc git hosts (Some (h, label)) env = Inr x \<Longrightarrow> x = k"
  by (auto simp: host_from_pref_def split: if_splits)

lemma explicit_or_explicit: "host_key_parse h = Inr k \<Longrightarrow> explicit_or hosts (Some (h, label)) m = Inr x \<Longrightarrow> x = k"
  by (auto simp: explicit_or_def split: if_splits)

text \<open>With a host named outright, a repository that does not name one itself is on that host.\<close>

lemma resolve_repo_explicit:
  assumes "resolve_repo gc git hosts env opts = Inr ctx" "pref_of opts env = Some (h, label)" "host_key_parse h = Inr k"
    "rx_source ctx = SrcFlag \<or> (\<exists>name score. rx_source ctx = SrcRemote name score)
      \<or> (\<exists>v r. rx_source ctx = SrcEnv v \<and> named_ref opts env = Some r \<and> ref_host r = None)"
  shows "rx_host ctx = k"
  using assms(1)
proof (cases rule: resolve_repo_cases)
  case (flag r)
  then show ?thesis using assms(2,3) finish_Inr host_from_pref_explicit
    by (fastforce simp: resolve_flag_def res_bind_eq_Inr split: option.splits if_splits)
next
  case (env r v)
  then have "ref_host r = None" using assms(4) by auto
  then show ?thesis using env(4) assms(2,3) finish_Inr host_from_pref_explicit by fastforce
next
  case (config dir remotes configured tried)
  then show ?thesis using assms(4) resolve_configured_source by fastforce
next
  case (scored dir remotes configured tried tried' tried2)
  from scored(7) show ?thesis
    by (rule resolve_scored_Inr) (use assms(2,3) finish_Inr explicit_or_explicit in fastforce)
qed

text \<open>What a successful start went through.\<close>

lemma runtime_finish_Inr:
  assumes "runtime_finish su mc g config warnings hosts host resolved login = (Some (Inr rt), mc')"
  shows "rt_host rt = host \<and> rt_repo rt = resolved \<and> rt_login rt = login \<and> rt_config rt = config"
  using assms by (auto simp: runtime_finish_def Let_def res_map_eq_Inr split: prod.splits sum.splits option.splits)

lemma runtime_new_Inr:
  assumes "runtime_new su mc g = (Some (Inr rt), mc')"
  obtains config hosts0 adopted hosts resolved login where
    "config_load (su_tables su) (sys_io (mc_sys mc)) (sys_fs (mc_sys mc)) (su_env su) (su_base su) = Inr config"
    "load_at (sys_toml (mc_sys mc)) (sys_io (mc_sys mc)) (sys_fs (mc_sys mc)) (hosts_path config) = Inr hosts0"
    "adopt_env_host (hosts0\<lparr>hs_warnings := []\<rparr>) (gl_host g) (su_env su) = Inr (adopted, hosts)"
    "client_host g hosts (su_git su) (su_git_state su) (su_env su) = Inr (rt_host rt, resolved)"
    "runtime_login g hosts (rt_host rt) = Inr login" "rt_repo rt = resolved"
    "runtime_finish su mc g config (hs_warnings hosts0) hosts (rt_host rt) resolved login = (Some (Inr rt), mc')"
proof -
  from assms have i: "\<not> gl_insecure g" by (auto simp: runtime_new_def)
  from assms i obtain config where c: "config_load (su_tables su) (sys_io (mc_sys mc)) (sys_fs (mc_sys mc)) (su_env su) (su_base su) = Inr config"
    by (auto simp: runtime_new_def split: sum.splits)
  from assms i c obtain hosts0 where l: "load_at (sys_toml (mc_sys mc)) (sys_io (mc_sys mc)) (sys_fs (mc_sys mc)) (hosts_path config) = Inr hosts0"
    by (auto simp: runtime_new_def split: sum.splits)
  from assms i c l obtain adopted hosts where a: "adopt_env_host (hosts0\<lparr>hs_warnings := []\<rparr>) (gl_host g) (su_env su) = Inr (adopted, hosts)"
    by (auto simp: runtime_new_def take_warnings_def split: sum.splits)
  from assms i c l a obtain host resolved where h: "client_host g hosts (su_git su) (su_git_state su) (su_env su) = Inr (host, resolved)"
    by (auto simp: runtime_new_def take_warnings_def split: sum.splits)
  from assms i c l a h obtain login where n: "runtime_login g hosts host = Inr login"
    by (auto simp: runtime_new_def take_warnings_def split: sum.splits)
  have f: "runtime_finish su mc g config (hs_warnings hosts0) hosts host resolved login = (Some (Inr rt), mc')"
    using assms i c l a h n by (simp add: runtime_new_def take_warnings_def)
  note r = runtime_finish_Inr [OF f]
  show thesis using that [OF c l a _ _ _ _] h n f r by simp
qed

text \<open>A host taken from the environment has no login, and a search without one reads nothing but it.\<close>

lemma load_at_clean: "load_at lib io fs path = Inr h \<Longrightarrow> \<not> hs_dirty h"
  by (auto simp: load_at_def split: option.splits sum.splits prod.splits)

lemma adopted_entry:
  assumes "adopt_env_host h flag env = Inr (adopted, h')" "given_host flag env = Some given" "host_key_parse given = Inr key"
    "\<not> host_contains h key" "host_contains h' key"
  shows "\<exists>entry. host_get h' key = Some entry \<and> he_logins entry = [] \<and> he_active_login entry = None \<and> hs_dirty h' = hs_dirty h"
proof -
  have ne: "h' \<noteq> h" using assms(4,5) by auto
  from assms(1-4) ne obtain entry where e: "from_input given = Inr entry"
    and h': "h' = with_hosts h (host_list h @ [entry\<lparr>he_active_login := None, he_store := Some StoreEnv\<rparr>])"
    by (auto simp: adopt_env_host_def res_map_eq_Inr split: if_splits)
  have n: "he_name entry = key" "he_logins entry = []" using from_input_entry [OF e] assms(3) by auto
  let ?e = "entry\<lparr>he_active_login := None, he_store := Some StoreEnv\<rparr>"
  have "List.find (\<lambda>x. he_name x = key) (host_list h) = None"
    using assms(4) by (auto simp: host_contains_def host_get_def find_by_def)
  then have "host_get h' key = Some ?e" using n(1)
    by (simp add: h' host_get_def find_by_def with_hosts_def host_list_def find_snoc)
  then show ?thesis using n(2) by (simp add: h' with_hosts_def)
qed

lemma runtime_auth_no_login:
  "runtime_auth su token None host hosts creds sys s = (r, hosts', creds', sys', s') \<Longrightarrow>
   hosts' = hosts \<and> creds' = creds \<and> sys' = sys \<and> s' = s
   \<and> (\<forall>t. token = Some t \<longrightarrow> (\<exists>a w. r = Some (a, w) \<and> a \<noteq> AuthNone))"
  by (auto simp: runtime_auth_def split: option.splits)

lemma runtime_client_Inr:
  assumes "runtime_client transport version g hosts host login auth source = Inr c"
  shows "hc_auth (cl_creds c) = auth \<and> cl_login c = login \<and> cl_token_source c = source
    \<and> cl_retry c = runtime_retry_policy g
    \<and> (\<exists>entry api web. host_get hosts host = Some entry \<and> normalize_base (he_url entry) = Inr (api, web)
        \<and> cl_api_base c = api \<and> cl_web_base c = web)"
  using assms
  by (cases "gl_sudo g"; cases "gl_otp g"; cases source; cases login)
    (auto simp: runtime_client_def Let_def build_def builder_def res_bind_eq_Inr res_map_eq_Inr http_creds_new_def with_sudo_def
      with_otp_def cb_with_on_wait_def cb_with_retry_def cb_with_token_source_def cb_with_login_def split: option.splits)

subsection \<open>Properties\<close>

lemma adopted_run:
  assumes "runtime_new su mc g = (Some (Inr rt), mc')"
    "config_load (su_tables su) (sys_io (mc_sys mc)) (sys_fs (mc_sys mc)) (su_env su) (su_base su) = Inr config"
    "load_at (sys_toml (mc_sys mc)) (sys_io (mc_sys mc)) (sys_fs (mc_sys mc)) (hosts_path config) = Inr hosts0"
    "given_host (gl_host g) (su_env su) = Some given" "host_key_parse given = Inr key" "\<not> host_contains hosts0 key"
  obtains hosts creds where "rt_host rt = key" "rt_login rt = None" "\<not> hs_dirty hosts"
    "runtime_finish su mc g config (hs_warnings hosts0) hosts key None None = (Some (Inr rt), mc')"
proof -
  from assms(1) obtain config' hosts0' adopted hosts resolved login where
      n: "config_load (su_tables su) (sys_io (mc_sys mc)) (sys_fs (mc_sys mc)) (su_env su) (su_base su) = Inr config'"
    "load_at (sys_toml (mc_sys mc)) (sys_io (mc_sys mc)) (sys_fs (mc_sys mc)) (hosts_path config') = Inr hosts0'"
    "adopt_env_host (hosts0'\<lparr>hs_warnings := []\<rparr>) (gl_host g) (su_env su) = Inr (adopted, hosts)"
    "client_host g hosts (su_git su) (su_git_state su) (su_env su) = Inr (rt_host rt, resolved)"
    "runtime_login g hosts (rt_host rt) = Inr login" "rt_repo rt = resolved"
    "runtime_finish su mc g config' (hs_warnings hosts0') hosts (rt_host rt) resolved login = (Some (Inr rt), mc')"
    by (rule runtime_new_Inr)
  have e: "config' = config" "hosts0' = hosts0" using n(1,2) assms(2,3) by auto
  have ex: "host_named_explicitly g (su_env su)" using assms(4) by (simp add: explicit_given)
  note ch = client_host_explicit [OF n(4) ex]
  then have k: "rt_host rt = key" "host_contains hosts key"
    using assms(4,5) by (auto simp: resolve_host_def res_bind_eq_Inr split: if_splits)
  have "\<not> host_contains (hosts0\<lparr>hs_warnings := []\<rparr>) key" using assms(6) by (simp add: host_contains_def host_get_def host_list_def)
  then obtain entry where en: "host_get hosts key = Some entry" "he_logins entry = []" "he_active_login entry = None"
    "hs_dirty hosts = hs_dirty (hosts0\<lparr>hs_warnings := []\<rparr>)"
    using adopted_entry [OF n(3) assms(4,5) _ k(2)] e(2) by blast
  have "\<not> hs_dirty hosts" using en(4) load_at_clean [OF assms(3)] by simp
  moreover have "resolve_login hosts key r = Inl x \<or> (\<exists>e. resolve_login hosts key r = Inl e)" for r x
    using en by (cases r) (auto simp: resolve_login_def he_login_def find_by_def)
  then have "login = None" using n(5) k(1)
    by (cases "gl_login g") (auto simp: runtime_login_def res_map_eq_Inr, (metis res_ok_simps sum.distinct(1))+)
  ultimately show thesis using that n(7) ch k e runtime_finish_Inr [OF n(7)] by simp
qed

text \<open>With \<open>$FJO_REPO\<close> naming a host of its own, \<open>--host\<close> decides where the client speaks to and the
  variable where the repository is: the two may differ in one run.\<close>

lemma env_repo_ignores_host:
  assumes "gl_host g = Some h" "host_key_parse h = Inr k" "host_contains hosts k"
    "gl_repo g = None" "env_get env ''FJO_REPO'' = Some v" "repo_ref_from_str v = Inr r" "ref_host r = Some h'"
    "host_key_parse h' = Inr k'" "resolve_repo gc git hosts env (resolve_options_of g) = Inr ctx"
  shows "client_host g hosts gc git env = Inr (k, None) \<and> rx_host ctx = k'"
proof -
  have n: "named_ref (resolve_options_of g) env = Some r" using assms(4-6) by (simp add: named_ref_def res_ok_def)
  have "client_host g hosts gc git env = Inr (k, None)"
    using assms(1-3) by (simp add: client_host_def host_named_explicitly_def resolve_host_def given_host_def res_bind_def res_map_def)
  moreover from assms(9) have "rx_host ctx = k'"
  proof (cases rule: resolve_repo_cases)
    case (env r v)
    then show ?thesis using n assms(7,8) finish_Inr by fastforce
  qed (use n assms(4) in simp_all)
  ultimately show ?thesis by simp
qed

subsection \<open>A sample start\<close>

text \<open>A run in CI: the environment names the host and carries the token, \<open>-R\<close> the repository.\<close>

definition sample_machine :: "(fake_keyring, nat) machine" where
  "sample_machine = \<lparr>mc_sys = sample_system, mc_keyring = fake_new, mc_net = sample_net\<rparr>"

definition ci_env :: env where
  "ci_env = (\<lambda>v. if v = ''FORGEJO_HOST'' then Some ''ci.org'' else if v = ''FORGEJO_TOKEN'' then Some ''tok'' else None)"

definition ci_surroundings :: "(fake_keyring, fake_git, nat) surroundings" where
  "ci_surroundings = \<lparr>su_env = ci_env, su_base = Inr ''/c'', su_tables = sample_table_lib, su_ops = fake_ops,
     su_git = git_fake, su_git_state = sample_git, su_oauth = sample_oauth_env, su_now = 0, su_transport = Inr (),
     su_version = ''1'', su_color = False\<rparr>"

definition ci_opts :: global_opts where
  "ci_opts = default_opts\<lparr>gl_repo := Some \<lparr>ref_host = None, ref_slug = slug_new ''them'' ''proj''\<rparr>\<rparr>"

definition ci_config :: config where
  "ci_config = config_at ''/c/fjo'' []"

definition ci_key :: host_key where
  "ci_key = HostKey ''ci.org''"

definition ci_hosts :: hosts where
  "ci_hosts = with_hosts (empty_at (hosts_path ci_config))
     [\<lparr>he_name = ci_key, he_url = ''https://ci.org'', he_active_login = None, he_store = Some StoreEnv, he_logins = []\<rparr>]"

definition ci_ctx :: repo_context where
  "ci_ctx = \<lparr>rx_host = ci_key, rx_login = None, rx_slug = slug_new ''them'' ''proj'', rx_source = SrcFlag\<rparr>"

lemma ci_simps:
  "su_env ci_surroundings = ci_env" "su_base ci_surroundings = Inr ''/c''" "su_tables ci_surroundings = sample_table_lib"
  "su_ops ci_surroundings = fake_ops" "su_git ci_surroundings = git_fake" "su_git_state ci_surroundings = sample_git"
  "su_transport ci_surroundings = Inr ()" "mc_sys sample_machine = sample_system" "mc_net sample_machine = sample_net"
  "mc_keyring sample_machine = fake_new"
  "gl_host ci_opts = None" "gl_login ci_opts = None" "\<not> gl_insecure ci_opts" "gl_sudo ci_opts = None" "gl_otp ci_opts = None"
  by (simp_all add: ci_surroundings_def sample_machine_def ci_opts_def default_opts_def)

lemma ci_config: "config_load sample_table_lib (sys_io sample_system) (sys_fs sample_system) ci_env (Inr ''/c'') = Inr ci_config"
  by (simp add: config_load_def config_dir_def env_get_def path_join_def load_from_dir_def sample_system_def ci_env_def ci_config_def)

lemma ci_load: "load_at (sys_toml sample_system) (sys_io sample_system) (sys_fs sample_system) (hosts_path ci_config) = Inr (empty_at (hosts_path ci_config))"
  by (simp add: load_at_def empty_at_def sample_system_def)

lemma ci_adopt: "adopt_env_host ((empty_at (hosts_path ci_config))\<lparr>hs_warnings := []\<rparr>) None ci_env = Inr (Some ci_key, ci_hosts)"
  by code_simp

lemma ci_host: "client_host ci_opts ci_hosts git_fake sample_git ci_env = Inr (ci_key, None)"
  by code_simp

lemma ci_resolve: "resolve_repo git_fake sample_git ci_hosts ci_env (resolve_options_of ci_opts) = Inr ci_ctx"
  by code_simp

lemma ci_token: "env_token ci_env TOKEN_VARS = Some \<lparr>tok_secret = ''tok'', tok_source = EnvVar ''FORGEJO_TOKEN''\<rparr>"
  by code_simp
lemma ci_session: "stored_parse (oe_lib sample_oauth_env) ''tok'' = None"
  by code_simp
lemma ci_base: "normalize_base ''https://ci.org'' = Inr (''https://ci.org/api/v1'', ''https://ci.org'')"
  by code_simp
lemma ci_entry: "map_option he_url (host_get ci_hosts ci_key) = Some ''https://ci.org''" "\<not> hs_dirty ci_hosts"
  by code_simp+

lemma ci_login: "runtime_login ci_opts ci_hosts ci_key = Inr None"
proof -
  have "res_ok (resolve_login ci_hosts ci_key None) = None" by code_simp
  then show ?thesis by (simp add: runtime_login_def ci_simps)
qed

lemma ci_client: "\<exists>c. runtime_client (Inr ()) v ci_opts ci_hosts ci_key None auth source = Inr c"
proof -
  obtain entry where "host_get ci_hosts ci_key = Some entry" "he_url entry = ''https://ci.org''"
    using ci_entry(1) by auto
  then show ?thesis
    by (cases source) (simp_all add: runtime_client_def ci_simps Let_def build_def builder_def ci_base res_bind_def res_map_def
      cb_with_on_wait_def cb_with_retry_def cb_with_token_source_def)
qed

lemma ci_start:
  "\<exists>rt mc'. runtime_new ci_surroundings sample_machine ci_opts = (Some (Inr rt), mc')
    \<and> runtime_repo ci_surroundings rt ci_opts = Inr ci_ctx"
proof -
  let ?t = "\<lparr>tok_secret = ''tok'', tok_source = EnvVar ''FORGEJO_TOKEN''\<rparr>"
  obtain c where c: "runtime_client (Inr ()) (su_version ci_surroundings) ci_opts ci_hosts ci_key None (AuthToken ''tok'')
      (Some (EnvVar ''FORGEJO_TOKEN'')) = Inr c" using ci_client by blast
  have tk: "runtime_token fake_ops ci_env creds ci_hosts ci_key None = (Inr (Some ?t), creds, ci_hosts)" for creds
    by (simp add: runtime_token_def env_store_get_def ci_token)
  have au: "runtime_auth ci_surroundings (Some ?t) None ci_key ci_hosts creds sys s = (Some (AuthToken ''tok'', []), ci_hosts, creds, sys, s)"
    for creds sys s
  proof -
    have "oe_lib (su_oauth ci_surroundings) = oe_lib sample_oauth_env" by (simp add: ci_surroundings_def)
    then show ?thesis by (simp add: runtime_auth_def ci_session)
  qed
  have "\<exists>rt mc'. runtime_finish ci_surroundings sample_machine ci_opts ci_config [] ci_hosts ci_key None None = (Some (Inr rt), mc')
      \<and> rt_hosts rt = ci_hosts \<and> rt_repo rt = None"
    by (simp add: runtime_finish_def Let_def ci_simps tk au c sys_save_noop ci_entry(2) res_map_def cr_take_warnings_def)
  moreover have "runtime_new ci_surroundings sample_machine ci_opts
      = runtime_finish ci_surroundings sample_machine ci_opts ci_config [] ci_hosts ci_key None None"
    by (simp add: runtime_new_def ci_simps ci_config ci_load ci_adopt ci_host ci_login take_warnings_def)
      (simp add: empty_at_def ci_adopt [unfolded empty_at_def, simplified] ci_host ci_login)
  ultimately show ?thesis by (auto simp: runtime_repo_def ci_resolve ci_simps)
qed



text \<open>C14. A run on a host that only the environment names leaves no trace: with a token in the
  environment and a host that is not in the hosts file, a start succeeds without a login, uses a
  credential, and the files, the keyring and the network are as before.\<close>

theorem adopted_run_writes_nothing:
  assumes "runtime_new su mc g = (Some (Inr rt), mc')"
    "config_load (su_tables su) (sys_io (mc_sys mc)) (sys_fs (mc_sys mc)) (su_env su) (su_base su) = Inr config"
    "load_at (sys_toml (mc_sys mc)) (sys_io (mc_sys mc)) (sys_fs (mc_sys mc)) (hosts_path config) = Inr hosts0"
    "given_host (gl_host g) (su_env su) = Some given" "host_key_parse given = Inr key" "\<not> host_contains hosts0 key"
    "env_token (su_env su) TOKEN_VARS = Some t"
  shows "mc' = mc \<and> rt_host rt = key \<and> rt_login rt = None \<and> has_credential (hc_auth (cl_creds (rt_client rt)))
    \<and> cl_token_source (rt_client rt) = Some (tok_source t)"
proof -
  from adopted_run [OF assms(1-6)] obtain hosts where
    h: "rt_host rt = key" "rt_login rt = None" "\<not> hs_dirty hosts"
    and f: "runtime_finish su mc g config (hs_warnings hosts0) hosts key None None = (Some (Inr rt), mc')" by metis
  let ?creds = "with_preference (credentials_new (su_env su) (mc_keyring mc)) (config_credential_store config (Some (key_str key)))"
  have tk: "runtime_token (su_ops su) (su_env su) ?creds hosts key None = (Inr (Some t), ?creds, hosts)"
    using assms(7) by (simp add: runtime_token_def env_store_get_def)
  have sv: "sys_save (mc_sys mc) hosts = (Inr (), hosts, mc_sys mc)" by (rule sys_save_noop [OF h(3)])
  obtain r hosts' creds' sys' s' where a: "runtime_auth su (Some t) None key hosts (snd (cr_take_warnings ?creds)) (mc_sys mc) (mc_net mc)
      = (r, hosts', creds', sys', s')" by (metis prod_cases5)
  note an = runtime_auth_no_login [OF a]
  then obtain au w where r: "r = Some (au, w)" "au \<noteq> AuthNone" by blast
  have kr: "cr_keyring (snd (cr_take_warnings ?creds)) = mc_keyring mc"
    by (simp add: cr_take_warnings_def with_preference_def credentials_new_def Let_def split: option.splits)
  have "mc' = \<lparr>mc_sys = mc_sys mc, mc_keyring = mc_keyring mc, mc_net = mc_net mc\<rparr>
    \<and> runtime_client (su_transport su) (su_version su) g hosts key None au (Some (tok_source t)) = Inr (rt_client rt)"
    using f tk sv a an r kr by (auto simp: runtime_finish_def Let_def res_map_eq_Inr cr_take_warnings_def)
  then show ?thesis using h(1,2) r(2) runtime_client_Inr [of "su_transport su"] by (cases mc) (fastforce simp: has_credential_def)
qed

theorem adopted_run_writes_nothing_witness:
  "\<exists>rt. runtime_new ci_surroundings sample_machine ci_opts = (Some (Inr rt), sample_machine)
     \<and> cl_token_source (rt_client rt) = Some (EnvVar ''FORGEJO_TOKEN'')"
proof -
  obtain rt mc' where s: "runtime_new ci_surroundings sample_machine ci_opts = (Some (Inr rt), mc')"
    using ci_start by blast
  have k: "host_key_parse ''ci.org'' = Inr ci_key" "given_host None ci_env = Some ''ci.org''" by code_simp+
  show ?thesis
    using adopted_run_writes_nothing [OF s, of ci_config "empty_at (hosts_path ci_config)"] k ci_config ci_load ci_token s
    by (simp add: ci_simps host_contains_def host_get_def find_by_def host_list_def empty_at_def hosts_file_default_def)
qed

end
