(* ===== verification/Tty.thy ===== *)
theory Tty
  imports Rust_Str Host_Key
begin

text \<open>
  \<open>crates/fjo/src/output/tty.rs\<close>: what the renderers know about where output goes.  The answers
  of the operating system (is standard output a terminal, how wide is it) are arguments; \<open>None\<close>
  is the addition that overflows a \<open>usize\<close>, which stops a build with overflow checks.
\<close>

subsection \<open>The terminal\<close>

definition DEFAULT_WIDTH :: nat where
  "DEFAULT_WIDTH = 80"

definition USIZE_MAX :: nat where
  "USIZE_MAX = 18446744073709551615"

record term_info =
  tm_tty :: bool
  tm_width :: nat
  tm_color :: bool
  tm_hyperlinks :: bool

definition term_default :: term_info where
  "term_default = \<lparr>tm_tty = False, tm_width = DEFAULT_WIDTH, tm_color = False, tm_hyperlinks = False\<rparr>"

definition term_piped :: term_info where
  "term_piped = term_default"

definition term_tty :: "nat \<Rightarrow> term_info" where
  "term_tty width = \<lparr>tm_tty = True, tm_width = width, tm_color = False, tm_hyperlinks = False\<rparr>"

subsection \<open>Detection\<close>

datatype force_tty = ForceWidth nat | ForcePercent nat | ForcePlain

definition force_tty_of :: "env \<Rightarrow> force_tty option" where
  "force_tty_of env =
     (case env ''FJO_FORCE_TTY'' of
        None \<Rightarrow> None
      | Some raw \<Rightarrow>
          let v = trim raw in
          if v = [] then None
          else (case strip_suffix v ''%'' of
                  Some pct \<Rightarrow> (case parse_unsigned 32 (trim pct) of Some p \<Rightarrow> Some (ForcePercent p) | None \<Rightarrow> Some ForcePlain)
                | None \<Rightarrow> (case parse_unsigned 64 v of Some w \<Rightarrow> Some (ForceWidth w) | None \<Rightarrow> Some ForcePlain)))"

definition percent_of :: "nat \<Rightarrow> nat \<Rightarrow> nat option" where
  "percent_of width pct =
     (let scaled = min (width * pct) USIZE_MAX
      in if USIZE_MAX < scaled + 50 then None else Some (max ((scaled + 50) div 100) 1))"

definition color_disabled :: "env \<Rightarrow> bool" where
  "color_disabled env \<longleftrightarrow>
     (case env ''NO_COLOR'' of Some v \<Rightarrow> v \<noteq> [] | None \<Rightarrow> False) \<or> env ''CLICOLOR'' = Some ''0''"

definition color_forced :: "env \<Rightarrow> bool" where
  "color_forced env \<longleftrightarrow> (case env ''CLICOLOR_FORCE'' of Some v \<Rightarrow> v \<noteq> [] \<and> v \<noteq> ''0'' | None \<Rightarrow> False)"

definition hyperlink_capable :: "env \<Rightarrow> bool" where
  "hyperlink_capable env \<longleftrightarrow>
     (if env ''FORCE_HYPERLINK'' = Some ''1'' then True
      else if (case env ''WT_SESSION'' of Some v \<Rightarrow> v \<noteq> [] | None \<Rightarrow> False) then True
      else if (case env ''VTE_VERSION'' of
                 Some v \<Rightarrow> (case parse_unsigned 32 (trim v) of Some n \<Rightarrow> 5000 \<le> n | None \<Rightarrow> False)
               | None \<Rightarrow> False) then True
      else (case env ''TERM_PROGRAM'' of
              Some p \<Rightarrow> List.member [''iTerm.app'', ''WezTerm'', ''kitty'', ''vscode'', ''Hyper''] p
            | None \<Rightarrow> False))"

definition columns_env :: "env \<Rightarrow> nat option" where
  "columns_env env =
     (case env ''COLUMNS'' of
        None \<Rightarrow> None
      | Some v \<Rightarrow> (case parse_unsigned 64 (trim v) of Some w \<Rightarrow> if 0 < w then Some w else None | None \<Rightarrow> None))"

definition detect_with :: "env \<Rightarrow> bool \<Rightarrow> nat option \<Rightarrow> term_info option" where
  "detect_with env real_tty real_width =
     (let natural_width = (case real_width of Some w \<Rightarrow> w
            | None \<Rightarrow> (case columns_env env of Some w \<Rightarrow> w | None \<Rightarrow> DEFAULT_WIDTH))
      in case (case force_tty_of env of
                 Some (ForceWidth w) \<Rightarrow> Some (True, w)
               | Some (ForcePercent p) \<Rightarrow> map_option (\<lambda>w. (True, w)) (percent_of natural_width p)
               | Some ForcePlain \<Rightarrow> Some (True, natural_width)
               | None \<Rightarrow> Some (real_tty, natural_width)) of
           None \<Rightarrow> None
         | Some (tty, width) \<Rightarrow>
             Some \<lparr>tm_tty = tty, tm_width = max width 1,
               tm_color = (color_forced env \<or> (\<not> color_disabled env \<and> tty)),
               tm_hyperlinks = (tty \<and> hyperlink_capable env)\<rparr>)"

subsection \<open>Lemmas\<close>

lemma percent_of_positive: "percent_of w p = Some n \<Longrightarrow> 1 \<le> n"
  by (auto simp: percent_of_def Let_def split: if_splits)

text \<open>A width is never zero, so the layout arithmetic never divides a row into nothing.\<close>

lemma detect_width_positive: "detect_with env real w = Some t \<Longrightarrow> 1 \<le> tm_width t"
  by (auto simp: detect_with_def Let_def split: option.splits prod.splits)

text \<open>With a terminal of any width and a percentage, the arithmetic stays within a \<open>usize\<close>.\<close>

lemma percent_of_defined: "w < 2 ^ 16 \<Longrightarrow> p < 2 ^ 32 \<Longrightarrow> percent_of w p \<noteq> None"
proof -
  assume a: "w < 2 ^ 16" "p < 2 ^ 32"
  have "w * p \<le> 2 ^ 16 * 2 ^ 32" using a by (intro mult_mono) simp_all
  then show ?thesis by (simp add: percent_of_def Let_def USIZE_MAX_def min_def)
qed

lemma plain_pipe:
  "force_tty_of env = None \<Longrightarrow> \<not> color_forced env \<Longrightarrow> detect_with env False w = Some t \<Longrightarrow>
   \<not> tm_tty t \<and> \<not> tm_color t \<and> \<not> tm_hyperlinks t"
  by (auto simp: detect_with_def Let_def)

end
