(* ===== verification/Ansi.thy ===== *)
theory Ansi
  imports Tty Errors
begin

text \<open>
  \<open>crates/fjo/src/output/color.rs\<close>: styles by name, and the measures every layout rests on
  (visible width, removal of escapes, truncation).  What the \<open>anstyle\<close> crate writes for a style
  and the column width of a character (\<open>unicode-width\<close>) are parameters.  A scan is \<open>None\<close>
  where the slice \<open>&s[i..]\<close> would begin inside a character, which panics.
\<close>

subsection \<open>Styles\<close>

datatype ansi_color = Black | Red | Green | Yellow | Blue | Magenta | Cyan | White
  | BrightBlack | BrightRed | BrightGreen | BrightYellow | BrightBlue | BrightMagenta | BrightCyan | BrightWhite

record style =
  sy_fg :: "ansi_color option"
  sy_bold :: bool
  sy_dim :: bool
  sy_italic :: bool
  sy_underline :: bool

definition style_new :: style where
  "style_new = \<lparr>sy_fg = None, sy_bold = False, sy_dim = False, sy_italic = False, sy_underline = False\<rparr>"

text \<open>The crates: the column width of a character, and the escapes that switch a style on and off.\<close>

record text_lib =
  tx_width :: "str \<Rightarrow> nat option"
  tx_render :: "style \<Rightarrow> str"
  tx_render_reset :: "style \<Rightarrow> str"

definition header_style :: style where
  "header_style = style_new\<lparr>sy_dim := True, sy_underline := True\<rparr>"

definition STYLE_NAMES :: "str list" where
  "STYLE_NAMES =
     [''black'', ''red'', ''green'', ''yellow'', ''blue'', ''magenta'', ''cyan'', ''white'', ''gray'', ''grey'',
      ''bright-black'', ''bright-red'', ''bright-green'', ''bright-yellow'', ''bright-blue'', ''bright-magenta'',
      ''bright-cyan'', ''bright-white'', ''bold'', ''dim'', ''italic'', ''underline'']"

definition color_by_name :: "str \<Rightarrow> ansi_color option" where
  "color_by_name lower =
     map_of [(''black'', Black), (''red'', Red), (''green'', Green), (''yellow'', Yellow), (''blue'', Blue),
       (''magenta'', Magenta), (''cyan'', Cyan), (''white'', White),
       (''gray'', BrightBlack), (''grey'', BrightBlack), (''bright-black'', BrightBlack), (''brightblack'', BrightBlack),
       (''bright-red'', BrightRed), (''brightred'', BrightRed), (''bright-green'', BrightGreen), (''brightgreen'', BrightGreen),
       (''bright-yellow'', BrightYellow), (''brightyellow'', BrightYellow), (''bright-blue'', BrightBlue),
       (''brightblue'', BrightBlue), (''bright-magenta'', BrightMagenta), (''brightmagenta'', BrightMagenta),
       (''bright-cyan'', BrightCyan), (''brightcyan'', BrightCyan), (''bright-white'', BrightWhite),
       (''brightwhite'', BrightWhite)] lower"

definition attribute_by_name :: "str \<Rightarrow> style \<Rightarrow> style option" where
  "attribute_by_name lower st =
     (if lower = ''bold'' then Some (st\<lparr>sy_bold := True\<rparr>)
      else if List.member [''dim'', ''dimmed'', ''faint''] lower then Some (st\<lparr>sy_dim := True\<rparr>)
      else if lower = ''italic'' then Some (st\<lparr>sy_italic := True\<rparr>)
      else if List.member [''underline'', ''underlined''] lower then Some (st\<lparr>sy_underline := True\<rparr>)
      else None)"

fun style_parts :: "str list \<Rightarrow> style \<Rightarrow> style option" where
  "style_parts [] st = Some st"
| "style_parts (part # parts) st =
     (let lower = to_ascii_lowercase part in
      case color_by_name lower of
        Some c \<Rightarrow> style_parts parts (st\<lparr>sy_fg := Some c\<rparr>)
      | None \<Rightarrow> (case attribute_by_name lower st of Some st \<Rightarrow> style_parts parts st | None \<Rightarrow> None))"

text \<open>The parts between \<open>+\<close>, spaces and commas.\<close>

definition style_split :: "str \<Rightarrow> str list" where
  "style_split spec =
     filter (\<lambda>p. p \<noteq> []) (concat (map (\<lambda>p. concat (map (\<lambda>q. split_c q CHR '','') (split_c p CHR '' ''))) (split_c spec CHR ''+'')))"

definition style_by_name :: "str \<Rightarrow> style option" where
  "style_by_name spec =
     (case style_parts (style_split spec) style_new of
        None \<Rightarrow> None
      | Some st \<Rightarrow> if style_split spec \<noteq> [] then Some st else None)"

definition autocolor_style :: "str \<Rightarrow> style option" where
  "autocolor_style state =
     (let s = to_ascii_lowercase (trim state);
          in_color = (\<lambda>c. Some (style_new\<lparr>sy_fg := Some c\<rparr>))
      in if List.member [''open'', ''success''] s then in_color Green
         else if List.member [''closed'', ''failure''] s then in_color Red
         else if s = ''merged'' then in_color Magenta
         else if List.member [''pending'', ''running''] s then in_color Yellow
         else if List.member [''draft'', ''wip'', ''skipped'', ''cancelled'', ''canceled''] s
              then Some (style_new\<lparr>sy_dim := True\<rparr>)
         else None)"

definition paint :: "text_lib \<Rightarrow> term_info \<Rightarrow> style \<Rightarrow> str \<Rightarrow> str" where
  "paint lib t st text =
     (if \<not> tm_color t \<or> st = style_new \<or> text = [] then text
      else tx_render lib st @ text @ tx_render_reset lib st)"

definition autocolor :: "text_lib \<Rightarrow> term_info \<Rightarrow> str \<Rightarrow> str" where
  "autocolor lib t text = (case autocolor_style text of Some st \<Rightarrow> paint lib t st text | None \<Rightarrow> text)"

definition ESC :: char where
  "ESC = CHR 0x1B"

definition BACKSLASH :: char where
  "BACKSLASH = CHR 0x5C"

definition hyperlink :: "term_info \<Rightarrow> str \<Rightarrow> str \<Rightarrow> str" where
  "hyperlink t url text =
     (if \<not> tm_hyperlinks t \<or> url = [] then text
      else ESC # '']8;;'' @ url @ [ESC, BACKSLASH] @ text @ ESC # '']8;;'' @ [ESC, BACKSLASH])"

subsection \<open>Escapes\<close>

definition csi_final :: "char \<Rightarrow> bool" where
  "csi_final c \<longleftrightarrow> 64 \<le> byte c \<and> byte c \<le> 126"

text \<open>How far an OSC sequence reaches past its introducer.\<close>

fun osc_len :: "str \<Rightarrow> nat" where
  "osc_len [] = 0"
| "osc_len (c # s) =
     (if byte c = 7 then 1
      else if c = ESC \<and> (case s of d # _ \<Rightarrow> d = BACKSLASH | [] \<Rightarrow> False) then 2
      else Suc (osc_len s))"

text \<open>\<open>escape_len(s, start)\<close>, of the bytes from \<open>start\<close> on.\<close>

definition escape_len :: "str \<Rightarrow> nat option" where
  "escape_len s =
     (case s of
        [] \<Rightarrow> None
      | c # t \<Rightarrow>
          if c \<noteq> ESC then None
          else (case t of
                  [] \<Rightarrow> Some 1
                | d # u \<Rightarrow>
                    if d = CHR ''['' then Some (min (length (takeWhile (\<lambda>x. \<not> csi_final x) u) + 3) (length s))
                    else if d = CHR '']'' then Some (2 + osc_len u)
                    else Some 2))"

lemma escape_len_pos [termination_simp]: "escape_len s = Some n \<Longrightarrow> 0 < n \<and> s \<noteq> []"
  by (auto simp: escape_len_def split: list.splits if_splits)

text \<open>\<open>s[i..].chars().next()\<close>: a panic (\<open>None\<close>) unless \<open>i\<close> is at the beginning of a character.\<close>

definition first_char :: "str \<Rightarrow> str option" where
  "first_char s = (case s of [] \<Rightarrow> None | c # cs \<Rightarrow> if is_cont c then None else Some (c # takeWhile is_cont cs))"

lemma first_char_Some [termination_simp]:
  "first_char s = Some c \<Longrightarrow> c \<noteq> [] \<and> (\<exists>t. s = c @ t)"
  by (auto simp: first_char_def split: list.splits if_splits) (metis takeWhile_dropWhile_id)

subsection \<open>Measures\<close>

function display_width :: "text_lib \<Rightarrow> str \<Rightarrow> nat option" where
  "display_width lib s =
     (if s = [] then Some 0
      else case escape_len s of
        Some n \<Rightarrow> display_width lib (drop n s)
      | None \<Rightarrow>
          (case first_char s of
             None \<Rightarrow> None
           | Some c \<Rightarrow> map_option (\<lambda>w. (case tx_width lib c of Some k \<Rightarrow> k | None \<Rightarrow> 0) + w) (display_width lib (drop (length c) s))))"
  by pat_completeness auto
termination
  by (relation "measure (\<lambda>(lib, s). length s)") (use escape_len_pos first_char_Some in fastforce)+

function strip_ansi :: "str \<Rightarrow> str option" where
  "strip_ansi s =
     (if s = [] then Some []
      else case escape_len s of
        Some n \<Rightarrow> strip_ansi (drop n s)
      | None \<Rightarrow> (case first_char s of None \<Rightarrow> None | Some c \<Rightarrow> map_option (\<lambda>r. c @ r) (strip_ansi (drop (length c) s))))"
  by pat_completeness auto
termination
  by (relation "measure length") (use escape_len_pos first_char_Some in fastforce)+

declare display_width.simps [simp del] strip_ansi.simps [simp del]

definition ELLIPSIS :: str where
  "ELLIPSIS = [CHR 0xE2, CHR 0x80, CHR 0xA6]"

definition RESET :: str where
  "RESET = ESC # ''[0m''"

text \<open>The loop of \<open>truncate_visible\<close>: what is kept from here on, and whether an escape was.\<close>

definition char_boundary :: "str \<Rightarrow> bool" where
  "char_boundary s \<longleftrightarrow> (case s of [] \<Rightarrow> True | c # _ \<Rightarrow> \<not> is_cont c)"

function truncate_loop :: "text_lib \<Rightarrow> nat \<Rightarrow> str \<Rightarrow> nat \<Rightarrow> bool \<Rightarrow> (str \<times> bool) option" where
  "truncate_loop lib budget s w styled =
     (if s = [] then Some ([], styled)
      else case escape_len s of
        Some n \<Rightarrow>
          (if \<not> char_boundary (drop n s) then None
           else map_option (\<lambda>(out, st). (take n s @ out, st)) (truncate_loop lib budget (drop n s) w True))
      | None \<Rightarrow>
          (case first_char s of
             None \<Rightarrow> None
           | Some c \<Rightarrow>
               let cw = (case tx_width lib c of Some k \<Rightarrow> k | None \<Rightarrow> 0) in
               if budget < w + cw then Some ([], styled)
               else map_option (\<lambda>(out, st). (c @ out, st)) (truncate_loop lib budget (drop (length c) s) (w + cw) styled)))"
  by pat_completeness auto
termination
  by (relation "measure (\<lambda>(lib, budget, s, w, styled). length s)") (use escape_len_pos first_char_Some in fastforce)+

declare truncate_loop.simps [simp del]

definition truncate_visible :: "text_lib \<Rightarrow> str \<Rightarrow> nat \<Rightarrow> str option" where
  "truncate_visible lib s max_cols =
     (case display_width lib s of
        None \<Rightarrow> None
      | Some n \<Rightarrow>
          if n \<le> max_cols then Some s
          else if max_cols = 0 then Some []
          else map_option (\<lambda>(out, styled). out @ ELLIPSIS @ (if styled then RESET else []))
                 (truncate_loop lib (max_cols - 1) s 0 False))"

subsection \<open>Lemmas\<close>

lemma osc_len_le: "osc_len u \<le> length u"
  by (induction u rule: osc_len.induct) (auto split: list.splits)

lemma osc_len_complete: "osc_len u < length u \<Longrightarrow> osc_len (take (osc_len u) u @ x) = osc_len u"
proof (induction u rule: osc_len.induct)
  case (2 c s)
  consider "byte c = 7" | "byte c \<noteq> 7" "c = ESC" "\<exists>t. s = BACKSLASH # t"
    | "byte c \<noteq> 7" "\<not> (c = ESC \<and> (case s of d # _ \<Rightarrow> d = BACKSLASH | [] \<Rightarrow> False))"
    by (cases s) auto
  then show ?case
  proof cases
    case 3
    have l: "osc_len (c # s) = Suc (osc_len s)" by (simp only: osc_len.simps if_not_P [OF 3(1)] if_not_P [OF 3(2)])
    then have lt: "osc_len s < length s" using 2(2) by simp
    then obtain d t where s: "s = d # t" by (cases s) auto
    have e: "osc_len (c # d # y) = Suc (osc_len (d # y))" for y
      using 3 by (subst osc_len.simps(2)) (auto simp: s simp del: osc_len.simps)
    have "0 < osc_len (d # t)" by simp
    then obtain k where k: "osc_len (d # t) = Suc k" by (cases "osc_len (d # t)") (simp_all del: osc_len.simps)
    show ?thesis using 2(1) [OF 3 lt] l k e [of "take k t @ x"] by (simp add: s del: osc_len.simps)
  qed auto
qed simp

lemma takeWhile_complete: "length (takeWhile P u) < length u \<Longrightarrow> takeWhile P (take (Suc (length (takeWhile P u))) u @ x) = takeWhile P u"
  by (induction u) auto

text \<open>An escape that ends before the string does is an escape of the same length whatever follows it.\<close>

lemma escape_len_complete:
  assumes "escape_len s = Some n" "n < length s"
  shows "escape_len (take n s @ x) = Some n"
proof -
  obtain d u where s: "s = ESC # d # u" using assms by (auto simp: escape_len_def split: list.splits if_splits)
  consider "d = CHR ''[''" | "d = CHR '']''" | "d \<noteq> CHR ''[''" "d \<noteq> CHR '']''" by blast
  then show ?thesis
  proof cases
    case 1
    let ?k = "length (takeWhile (\<lambda>x. \<not> csi_final x) u)"
    have n: "n = ?k + 3" "?k < length u" using assms 1 by (auto simp: s escape_len_def)
    have "take n s = ESC # d # take (Suc ?k) u" using n by (simp add: s numeral_3_eq_3)
    then show ?thesis using 1 n takeWhile_complete [OF n(2), of x] by (simp add: escape_len_def)
  next
    case 2
    have n: "n = 2 + osc_len u" "osc_len u < length u" using assms 2 by (auto simp: s escape_len_def)
    then show ?thesis using 2 osc_len_complete [OF n(2), of x] by (simp add: s escape_len_def)
  next
    case 3
    then show ?thesis using assms by (auto simp: s escape_len_def)
  qed
qed

lemma char_boundary_simps [simp]:
  "char_boundary []" "char_boundary (c # s) \<longleftrightarrow> \<not> is_cont c"
  by (simp_all add: char_boundary_def)

lemma first_char_append: "first_char s = Some c \<Longrightarrow> char_boundary x \<Longrightarrow> first_char (c @ x) = Some c"
  by (cases x) (auto simp: first_char_def takeWhile_append takeWhile_no_match dest: set_takeWhileD split: list.splits if_splits)

lemma char_boundary_append: "char_boundary s \<Longrightarrow> s \<noteq> [] \<Longrightarrow> char_boundary (s @ x)"
  by (cases s) auto

lemma first_char_boundary: "first_char s = Some c \<Longrightarrow> c \<noteq> [] \<and> char_boundary c"
  by (auto simp: first_char_def split: list.splits if_splits)

lemma escape_first: "escape_len s = Some n \<Longrightarrow> s \<noteq> [] \<and> hd s = ESC \<and> 0 < n"
  by (auto simp: escape_len_def split: list.splits if_splits)

lemma ESC_not_cont [simp]: "\<not> is_cont ESC"
  by (simp add: is_cont_def ESC_def byte_def)

lemma escape_boundary: "escape_len s = Some n \<Longrightarrow> take n s \<noteq> [] \<and> char_boundary (take n s)"
  using escape_first [of s n] by (cases s; cases n) auto

lemma escape_len_None: "escape_len s = None \<longleftrightarrow> s = [] \<or> hd s \<noteq> ESC"
  by (auto simp: escape_len_def split: list.splits if_splits)

lemma first_char_escape: "first_char s = Some c \<Longrightarrow> escape_len s = None \<Longrightarrow> escape_len (c @ x) = None"
  by (auto simp: escape_len_None first_char_def split: list.splits if_splits)

lemma display_width_Nil [simp]: "display_width lib [] = Some 0"
  by (simp add: display_width.simps)

lemma display_width_escape:
  assumes "escape_len s = Some n"
  shows "display_width lib s = display_width lib (drop n s)"
  using assms escape_first [OF assms] by (subst display_width.simps) simp

lemma display_width_char:
  assumes "escape_len s = None" "first_char s = Some c"
  shows "display_width lib s
    = map_option (\<lambda>w. (case tx_width lib c of Some k \<Rightarrow> k | None \<Rightarrow> 0) + w) (display_width lib (drop (length c) s))"
  using assms first_char_Some [OF assms(2)] by (subst display_width.simps) auto

lemma display_width_escape_append:
  "escape_len s = Some n \<Longrightarrow> n < length s \<Longrightarrow> display_width lib (take n s @ x) = display_width lib x"
  by (subst display_width_escape [OF escape_len_complete]) auto

lemma display_width_char_append:
  assumes "escape_len s = None" "first_char s = Some c" "char_boundary x"
  shows "display_width lib (c @ x) = map_option (\<lambda>w. (case tx_width lib c of Some k \<Rightarrow> k | None \<Rightarrow> 0) + w) (display_width lib x)"
  by (subst display_width_char [OF first_char_escape [OF assms(2,1)] first_char_append [OF assms(2,3)]]) simp

text \<open>The scan of a string goes on exactly when the rest of it begins a character.\<close>

lemma display_width_boundary: "display_width lib s \<noteq> None \<Longrightarrow> char_boundary s"
proof (cases s)
  case (Cons c t)
  assume "display_width lib s \<noteq> None"
  then show ?thesis unfolding Cons
    by (subst (asm) display_width.simps) (auto simp: first_char_def dest: escape_first split: option.splits if_splits)
qed simp

lemma truncate_loop_fits:
  assumes "display_width lib s = Some n" "budget < w + n" "w \<le> budget"
  shows "\<exists>out st k. truncate_loop lib budget s w styled = Some (out, st) \<and> char_boundary out \<and> w + k \<le> budget
    \<and> (\<forall>x. char_boundary x \<longrightarrow> display_width lib (out @ x) = map_option ((+) k) (display_width lib x))"
  using assms
proof (induction lib budget s w styled arbitrary: n rule: truncate_loop.induct)
  case (1 lib budget s w styled)
  show ?case
  proof (cases "s = []")
    case True
    then show ?thesis using 1 by simp
  next
    case False
    show ?thesis
    proof (cases "escape_len s")
      case (Some m)
      have d: "display_width lib (drop m s) = Some n" using 1(3) display_width_escape [OF Some] by simp
      have b: "char_boundary (drop m s)" using d display_width_boundary by fastforce
      have "n \<noteq> 0" using 1(4,5) by simp
      then have m: "m < length s" using d by (cases "m < length s") auto
      obtain out st k where
        r: "truncate_loop lib budget (drop m s) w True = Some (out, st)" "char_boundary out" "w + k \<le> budget"
        "\<And>x. char_boundary x \<Longrightarrow> display_width lib (out @ x) = map_option ((+) k) (display_width lib x)"
        using 1(2) [OF False Some, of n] d 1(4,5) b by auto
      have "truncate_loop lib budget s w styled = Some (take m s @ out, st)"
        using False Some b r(1) by (subst truncate_loop.simps) simp
      moreover have "char_boundary (take m s @ out)" using escape_boundary [OF Some] char_boundary_append by blast
      moreover have "display_width lib ((take m s @ out) @ x) = map_option ((+) k) (display_width lib x)" if "char_boundary x" for x
        using display_width_escape_append [OF Some m, of lib "out @ x"] r(4) [OF that] by simp
      ultimately show ?thesis using r(3) by blast
    next
      case None
      then obtain c where c: "first_char s = Some c"
        using 1(3) False by (subst (asm) display_width.simps) (auto split: option.splits)
      define cw where "cw = (case tx_width lib c of Some k \<Rightarrow> k | None \<Rightarrow> 0)"
      obtain n' where n': "display_width lib (drop (length c) s) = Some n'" "n = cw + n'"
        using 1(3) display_width_char [OF None c, of lib] by (auto simp: cw_def)
      show ?thesis
      proof (cases "budget < w + cw")
        case True
        then have "truncate_loop lib budget s w styled = Some ([], styled)"
          using False None c by (subst truncate_loop.simps) (simp add: cw_def Let_def)
        then show ?thesis using 1(5) by (intro exI [of _ "[]"] exI [of _ styled] exI [of _ 0]) (simp add: option.map_ident map_option_cong)
      next
        case less: False
        obtain out st k where
          r: "truncate_loop lib budget (drop (length c) s) (w + cw) styled = Some (out, st)" "char_boundary out" "w + cw + k \<le> budget"
          "\<And>x. char_boundary x \<Longrightarrow> display_width lib (out @ x) = map_option ((+) k) (display_width lib x)"
          using 1(1) [OF False None c cw_def, of n'] less 1(4) n' by (auto simp: add.assoc)
        have "truncate_loop lib budget s w styled = Some (c @ out, st)"
          using False None c less r(1) by (subst truncate_loop.simps) (simp add: cw_def Let_def)
        moreover have "char_boundary (c @ out)" using first_char_boundary [OF c] char_boundary_append by blast
        moreover have "display_width lib ((c @ out) @ x) = map_option ((+) (cw + k)) (display_width lib x)" if "char_boundary x" for x
        proof -
          have "char_boundary (out @ x)" using r(2) that by (cases out) auto
          then show ?thesis using display_width_char_append [OF None c, of "out @ x" lib] r(4) [OF that]
            by (cases "display_width lib x") (simp_all add: cw_def)
        qed
        moreover have "w + (cw + k) \<le> budget" using r(3) by simp
        ultimately show ?thesis by blast
      qed
    qed
  qed
qed

lemma strip_ansi_Nil [simp]: "strip_ansi [] = Some []"
  by (simp add: strip_ansi.simps)

lemma strip_ansi_escape:
  assumes "escape_len s = Some n"
  shows "strip_ansi s = strip_ansi (drop n s)"
  using assms escape_first [OF assms] by (subst strip_ansi.simps) simp

lemma strip_ansi_char:
  assumes "escape_len s = None" "first_char s = Some c"
  shows "strip_ansi s = map_option (\<lambda>r. c @ r) (strip_ansi (drop (length c) s))"
  using assms first_char_Some [OF assms(2)] by (subst strip_ansi.simps) auto

lemma ESC_not_in_char: "first_char s = Some c \<Longrightarrow> escape_len s = None \<Longrightarrow> ESC \<notin> set c"
  by (auto simp: escape_len_None first_char_def split: list.splits if_splits) (metis ESC_not_cont set_takeWhileD)

text \<open>What is left has no escapes, begins characters where the text does, and is as wide.\<close>

lemma strip_ansi_Some:
  "strip_ansi s = Some t \<Longrightarrow> ESC \<notin> set t \<and> char_boundary t \<and> display_width lib t = display_width lib s
    \<and> strip_ansi t = Some t \<and> set t \<subseteq> set s"
proof (induction s arbitrary: t rule: strip_ansi.induct)
  case (1 s)
  show ?case
  proof (cases "s = []")
    case False
    show ?thesis
    proof (cases "escape_len s")
      case (Some n)
      then show ?thesis using 1(2) [OF False Some, of t] 1(3) strip_ansi_escape [OF Some] display_width_escape [OF Some]
        by (auto dest: in_set_dropD)
    next
      case None
      then obtain c where c: "first_char s = Some c" using 1(3) False by (subst (asm) strip_ansi.simps) (auto split: option.splits)
      obtain r where r: "strip_ansi (drop (length c) s) = Some r" "t = c @ r"
        using 1(3) strip_ansi_char [OF None c] by auto
      have ih: "ESC \<notin> set r" "char_boundary r" "display_width lib r = display_width lib (drop (length c) s)"
          "strip_ansi r = Some r" "set r \<subseteq> set s"
        using 1(1) [OF False None c r(1)] by (auto dest: in_set_dropD)
      have f: "escape_len (c @ r) = None" "first_char (c @ r) = Some c"
        using first_char_escape [OF c None] first_char_append [OF c ih(2)] by auto
      have "set c \<subseteq> set s" using first_char_Some [OF c] by auto
      then show ?thesis
        using ih r(2) ESC_not_in_char [OF c None] first_char_boundary [OF c] char_boundary_append [of c r]
          display_width_char [OF None c, of lib] display_width_char [OF f, of lib] strip_ansi_char [OF f]
        by auto
    qed
  qed (use 1 in simp)
qed

text \<open>
  Where every scan succeeds: no continuation byte after an ASCII one (which is so in all UTF-8) and
  no escape character right before a character that is not ASCII.
\<close>

fun text_ok :: "str \<Rightarrow> bool" where
  "text_ok (c # d # s) \<longleftrightarrow> (is_cont d \<longrightarrow> \<not> is_ascii c) \<and> (c = ESC \<longrightarrow> is_ascii d) \<and> text_ok (d # s)"
| "text_ok _ \<longleftrightarrow> True"

lemma text_ok_drop: "text_ok s \<Longrightarrow> text_ok (drop n s)"
proof (induction n arbitrary: s)
  case (Suc n)
  then show ?case by (cases s rule: text_ok.cases) auto
qed simp

lemma text_ok_boundary: "text_ok (a @ c # s) \<Longrightarrow> is_ascii c \<Longrightarrow> char_boundary s"
proof -
  assume a: "text_ok (a @ c # s)" "is_ascii c"
  then have "text_ok (c # s)" using text_ok_drop [OF a(1), of "length a"] by simp
  then show ?thesis using a(2) by (cases s) auto
qed

lemma csi_final_ascii: "csi_final c \<Longrightarrow> is_ascii c"
  by (simp add: csi_final_def is_ascii_def)

lemma osc_end: "osc_len u < length u \<Longrightarrow> \<exists>a c. take (osc_len u) u = a @ [c] \<and> is_ascii c"
proof (induction u rule: osc_len.induct)
  case (2 c s)
  consider "byte c = 7" | "byte c \<noteq> 7" "c = ESC" "\<exists>t. s = BACKSLASH # t"
    | "byte c \<noteq> 7" "\<not> (c = ESC \<and> (case s of d # _ \<Rightarrow> d = BACKSLASH | [] \<Rightarrow> False))"
    by (cases s) auto
  then show ?case
  proof cases
    case 1
    then show ?thesis by (auto simp: is_ascii_def)
  next
    case 2
    then show ?thesis by (auto simp: is_ascii_def byte_def BACKSLASH_def intro: exI [of _ "[ESC]"])
  next
    case 3
    have l: "osc_len (c # s) = Suc (osc_len s)" by (simp only: osc_len.simps if_not_P [OF 3(1)] if_not_P [OF 3(2)])
    then obtain a d where "take (osc_len s) s = a @ [d]" "is_ascii d" using 2(1) [OF 3] 2(2) by auto
    then show ?thesis using l by (intro exI [of _ "c # a"] exI [of _ d]) simp
  qed
qed simp

lemma escape_boundary_after:
  assumes "escape_len s = Some n" "text_ok s"
  shows "char_boundary (drop n s)"
proof (cases "n < length s")
  case True
  obtain d u where s: "s = ESC # d # u" using assms True by (auto simp: escape_len_def split: list.splits if_splits)
  have "\<exists>a c. take n s = a @ [c] \<and> is_ascii c"
  proof -
    consider "d = CHR ''[''" | "d = CHR '']''" | "d \<noteq> CHR ''[''" "d \<noteq> CHR '']''" by blast
    then show ?thesis
    proof cases
      case 1
      let ?k = "length (takeWhile (\<lambda>x. \<not> csi_final x) u)"
      have n: "n = ?k + 3" "?k < length u" using assms 1 True by (auto simp: s escape_len_def)
      have "take n s = ESC # d # take ?k u @ [u ! ?k]" using n by (simp add: s take_Suc_conv_app_nth numeral_3_eq_3)
      moreover have "is_ascii (u ! ?k)" using n(2) nth_length_takeWhile [OF n(2)] csi_final_ascii by blast
      ultimately show ?thesis by (intro exI [of _ "ESC # d # take ?k u"]) simp
    next
      case 2
      have n: "n = 2 + osc_len u" "osc_len u < length u" using assms 2 True by (auto simp: s escape_len_def)
      then obtain a c where "take (osc_len u) u = a @ [c]" "is_ascii c" using osc_end by blast
      then show ?thesis using n by (intro exI [of _ "ESC # d # a"] exI [of _ c]) (simp add: s)
    next
      case 3
      then have "n = 2" using assms by (auto simp: s escape_len_def)
      moreover have "is_ascii d" using assms(2) by (simp add: s)
      ultimately show ?thesis by (intro exI [of _ "[ESC]"] exI [of _ d]) (simp add: s)
    qed
  qed
  then obtain a c where "take n s = a @ [c]" "is_ascii c" by blast
  then show ?thesis using text_ok_boundary [of a c "drop n s"] assms(2) append_take_drop_id [of n s] by simp
qed simp

lemma first_char_rest: "first_char s = Some c \<Longrightarrow> char_boundary (drop (length c) s)"
proof -
  assume "first_char s = Some c"
  then obtain a t where s: "s = a # t" "c = a # takeWhile is_cont t" by (auto simp: first_char_def split: list.splits if_splits)
  then have "drop (length c) s = dropWhile is_cont t" by (simp add: dropWhile_eq_drop)
  then show ?thesis by (metis char_boundary_def hd_dropWhile list.case_eq_if list.exhaust_sel)
qed

lemma display_width_defined: "text_ok s \<Longrightarrow> char_boundary s \<Longrightarrow> display_width lib s \<noteq> None"
proof (induction lib s rule: display_width.induct)
  case (1 lib s)
  show ?case
  proof (cases "s = []")
    case False
    show ?thesis
    proof (cases "escape_len s")
      case (Some n)
      then show ?thesis using 1(2) [OF False Some] 1(3) text_ok_drop escape_boundary_after [OF Some 1(3)]
        by (simp add: display_width_escape [OF Some])
    next
      case None
      obtain c where c: "first_char s = Some c" using 1(4) False by (cases s) (auto simp: first_char_def)
      then show ?thesis using 1(1) [OF False None c] 1(3) text_ok_drop first_char_rest [OF c]
        by (simp add: display_width_char [OF None c])
    qed
  qed simp
qed

lemma strip_ansi_defined: "display_width lib s \<noteq> None \<longleftrightarrow> strip_ansi s \<noteq> None"
proof (induction s rule: strip_ansi.induct)
  case (1 s)
  show ?case
  proof (cases "s = []")
    case False
    show ?thesis
    proof (cases "escape_len s")
      case (Some n)
      then show ?thesis using 1(2) [OF False Some] by (simp add: display_width_escape [OF Some] strip_ansi_escape [OF Some])
    next
      case None
      show ?thesis
      proof (cases "first_char s")
        case c: (Some c)
        then show ?thesis using 1(1) [OF False None c] by (simp add: display_width_char [OF None c] strip_ansi_char [OF None c])
      next
        case c: None
        then show ?thesis using None False by (subst display_width.simps, subst strip_ansi.simps) simp
      qed
    qed
  qed simp
qed

text \<open>A title with a stray escape character before a letter with an accent: measuring it panics.\<close>

lemma escape_splits_char: "display_width lib [ESC, CHR 0xC3, CHR 0xA9] = None"
  by (subst display_width.simps, simp add: escape_len_def ESC_def, subst display_width.simps)
    (simp add: escape_len_def ESC_def first_char_def is_cont_def byte_def)

text \<open>A truncated text is as wide as it may be, and ends with an ellipsis.\<close>

lemma truncate_visible_fits:
  assumes "display_width lib s = Some n" "tx_width lib ELLIPSIS = Some 1"
  shows "\<exists>t m. truncate_visible lib s max_cols = Some t \<and> display_width lib t = Some m \<and> m \<le> max_cols
    \<and> (n \<le> max_cols \<longrightarrow> t = s) \<and> (max_cols < n \<and> 0 < max_cols \<longrightarrow> (\<exists>out rest. t = out @ ELLIPSIS @ rest))"
proof (cases "n \<le> max_cols \<or> max_cols = 0")
  case True
  then show ?thesis using assms(1) by (auto simp: truncate_visible_def)
next
  case False
  then have "max_cols - 1 < 0 + n" by linarith
  then obtain out st k where r: "truncate_loop lib (max_cols - 1) s 0 False = Some (out, st)" "0 + k \<le> max_cols - 1"
    "\<And>x. char_boundary x \<Longrightarrow> display_width lib (out @ x) = map_option ((+) k) (display_width lib x)"
    using truncate_loop_fits [OF assms(1), of "max_cols - 1" 0 False] by fastforce
  define tail where "tail = (if st then RESET else [])"
  have e: "escape_len (ELLIPSIS @ x) = None" "first_char (ELLIPSIS @ tail) = Some ELLIPSIS" "char_boundary (ELLIPSIS @ x)" for x
    by (simp_all add: escape_len_def ELLIPSIS_def tail_def RESET_def ESC_def first_char_def is_cont_def byte_def)
  have "escape_len RESET = Some 4" by (simp add: escape_len_def RESET_def ESC_def csi_final_def byte_def)
  then have "display_width lib tail = Some 0"
    by (simp add: tail_def display_width_escape) (simp add: RESET_def)
  moreover have "drop (length ELLIPSIS) (ELLIPSIS @ tail) = tail" by simp
  ultimately have "display_width lib (ELLIPSIS @ tail) = Some 1"
    using display_width_char [OF e(1,2), of lib] assms(2) by simp
  then have "display_width lib (out @ ELLIPSIS @ tail) = Some (k + 1)" using r(3) [OF e(3)] by simp
  moreover have "truncate_visible lib s max_cols = Some (out @ ELLIPSIS @ tail)"
    using False assms(1) r(1) by (simp add: truncate_visible_def tail_def)
  ultimately show ?thesis using r(2) False by fastforce
qed

subsection \<open>Properties\<close>

definition sample_text_lib :: text_lib where
  "sample_text_lib = \<lparr>tx_width = (\<lambda>_. Some 1), tx_render = (\<lambda>_. ESC # ''[32m''), tx_render_reset = (\<lambda>_. RESET)\<rparr>"



end
