(* ===== verification/Tables.thy ===== *)
theory Tables
  imports Ansi
begin

text \<open>
  \<open>crates/fjo/src/output/table.rs\<close>: the one table renderer.  Writing into a buffer does not fail,
  so rendering gives the text, or \<open>None\<close> where the code panics: a scan that splits a character
  (\<open>Ansi\<close>) or a \<open>usize\<close> subtraction below zero in a build with overflow checks.
\<close>

subsection \<open>The table\<close>

definition GUTTER :: nat where
  "GUTTER = 2"

record table =
  tb_term :: term_info
  tb_headers :: "str list"
  tb_rows :: "str list list"
  tb_banner :: "str option"

definition table_new :: "term_info \<Rightarrow> table" where
  "table_new t = \<lparr>tb_term = t, tb_headers = [], tb_rows = [], tb_banner = None\<rparr>"

definition with_headers :: "str list \<Rightarrow> table \<Rightarrow> table" where
  "with_headers hs t = t\<lparr>tb_headers := hs\<rparr>"

definition add_row :: "str list \<Rightarrow> table \<Rightarrow> table" where
  "add_row cells t = t\<lparr>tb_rows := tb_rows t @ [cells]\<rparr>"

definition with_banner :: "str \<Rightarrow> table \<Rightarrow> table" where
  "with_banner text t = t\<lparr>tb_banner := Some text\<rparr>"

definition table_is_empty :: "table \<Rightarrow> bool" where
  "table_is_empty t \<longleftrightarrow> tb_rows t = []"

fun opt_list :: "'a option list \<Rightarrow> 'a list option" where
  "opt_list [] = Some []"
| "opt_list (x # xs) = (case x of None \<Rightarrow> None | Some y \<Rightarrow> map_option ((#) y) (opt_list xs))"

definition nth_or :: "nat \<Rightarrow> str list \<Rightarrow> str" where
  "nth_or i xs = (if i < length xs then xs ! i else [])"

subsection \<open>The machine-readable form\<close>

definition tsv_blank :: "char \<Rightarrow> bool" where
  "tsv_blank c \<longleftrightarrow> c = CHR 0x09 \<or> c = CHR 0x0A \<or> c = CHR 0x0D"

definition tsv_cell :: "str \<Rightarrow> str option" where
  "tsv_cell cell = map_option (map (\<lambda>c. if tsv_blank c then CHR '' '' else c)) (strip_ansi cell)"

definition tsv_row :: "str list \<Rightarrow> str option" where
  "tsv_row row = map_option (\<lambda>cells. join [CHR 0x09] cells @ [CHR 0x0A]) (opt_list (map tsv_cell row))"

definition render_tsv :: "table \<Rightarrow> str option" where
  "render_tsv t = map_option concat (opt_list (map tsv_row (tb_rows t)))"

subsection \<open>Widths\<close>

definition column_count :: "table \<Rightarrow> nat" where
  "column_count t = Max (set (length (tb_headers t) # map length (tb_rows t)))"

definition natural_widths :: "text_lib \<Rightarrow> table \<Rightarrow> nat \<Rightarrow> nat list option" where
  "natural_widths lib t cols =
     opt_list (map (\<lambda>i. map_option (\<lambda>ws. Max (set ws))
       (opt_list (display_width lib (nth_or i (tb_headers t)) # map (\<lambda>row. display_width lib (nth_or i row)) (tb_rows t))))
       [0..<cols])"

definition checked_sub :: "nat \<Rightarrow> nat \<Rightarrow> nat option" where
  "checked_sub a b = (if b \<le> a then Some (a - b) else None)"

text \<open>The proportional division among the columns \<open>idxs\<close> that want more than an equal share.\<close>

fun hand_out :: "nat list \<Rightarrow> nat \<Rightarrow> nat \<Rightarrow> nat \<Rightarrow> nat list \<Rightarrow> nat option list \<Rightarrow> nat option list option" where
  "hand_out natural remaining wide_sum handed [] assigned = Some assigned"
| "hand_out natural remaining wide_sum handed [i] assigned =
     map_option (\<lambda>w. assigned[i := Some (max w 1)]) (checked_sub remaining handed)"
| "hand_out natural remaining wide_sum handed (i # idxs) assigned =
     (let w = max (natural ! i * remaining div wide_sum) 1
      in hand_out natural remaining wide_sum (handed + w) idxs (assigned[i := Some (max w 1)]))"

fun give_natural :: "nat list \<Rightarrow> nat list \<Rightarrow> nat option list \<Rightarrow> nat \<Rightarrow> (nat option list \<times> nat) option" where
  "give_natural natural [] assigned remaining = Some (assigned, remaining)"
| "give_natural natural (i # idxs) assigned remaining =
     (case checked_sub remaining (natural ! i) of
        None \<Rightarrow> None
      | Some r \<Rightarrow> give_natural natural idxs (assigned[i := Some (natural ! i)]) r)"

definition open_columns :: "nat option list \<Rightarrow> nat list" where
  "open_columns assigned = filter (\<lambda>i. assigned ! i = None) [0..<length assigned]"

lemma give_natural_length: "give_natural natural idxs assigned r = Some (a, r') \<Longrightarrow> length a = length assigned"
  by (induction natural idxs assigned r rule: give_natural.induct) (auto split: option.splits)

lemma give_natural_keeps:
  "give_natural natural idxs assigned r = Some (a, r') \<Longrightarrow> i \<notin> set idxs \<Longrightarrow> a ! i = assigned ! i"
  by (induction natural idxs assigned r rule: give_natural.induct) (auto split: option.splits)

lemma give_natural_gives:
  "give_natural natural idxs assigned r = Some (a, r') \<Longrightarrow> distinct idxs \<Longrightarrow> i \<in> set idxs \<Longrightarrow> i < length assigned
   \<Longrightarrow> a ! i = Some (natural ! i)"
proof (induction natural idxs assigned r rule: give_natural.induct)
  case (2 natural j idxs assigned r)
  then show ?case using give_natural_keeps [of natural idxs "assigned[j := Some (natural ! j)]"]
    by (auto split: option.splits)
qed simp

lemma open_fewer:
  assumes "give_natural natural (filter P (open_columns assigned)) assigned r = Some (a, r')"
    "filter P (open_columns assigned) \<noteq> []"
  shows "length (open_columns a) < length (open_columns assigned)"
proof -
  let ?F = "filter P (open_columns assigned)"
  have d: "distinct ?F" by (simp add: open_columns_def)
  have l: "length a = length assigned" by (rule give_natural_length [OF assms(1)])
  have "set (open_columns a) \<subseteq> set (open_columns assigned) - set ?F"
  proof
    fix i assume i: "i \<in> set (open_columns a)"
    then have n: "i < length assigned" "a ! i = None" by (auto simp: open_columns_def l)
    then have "i \<notin> set ?F" using give_natural_gives [OF assms(1) d] by force
    then show "i \<in> set (open_columns assigned) - set ?F"
      using n give_natural_keeps [OF assms(1)] by (simp add: open_columns_def)
  qed
  moreover obtain j where "j \<in> set ?F" using assms(2) by (cases ?F) auto
  moreover have "set ?F \<subseteq> set (open_columns assigned)" by auto
  ultimately have "card (set (open_columns a)) < card (set (open_columns assigned))"
    by (intro psubset_card_mono) auto
  then show ?thesis by (simp add: open_columns_def distinct_card [symmetric])
qed

function fit_loop :: "nat list \<Rightarrow> nat option list \<Rightarrow> nat \<Rightarrow> nat option list option" where
  "fit_loop natural assigned remaining =
     (let open_cols = open_columns assigned in
      if open_cols = [] then Some assigned
      else
        let fitting = filter (\<lambda>i. natural ! i \<le> remaining div length open_cols) open_cols in
        if fitting = []
        then hand_out natural remaining (sum_list (map ((!) natural) open_cols)) 0 open_cols assigned
        else (case give_natural natural fitting assigned remaining of
                None \<Rightarrow> None
              | Some (assigned, remaining) \<Rightarrow> fit_loop natural assigned remaining))"
  by pat_completeness auto
termination
  by (relation "measure (\<lambda>(natural, assigned, remaining). length (open_columns assigned))")
    (simp, metis in_measure open_fewer case_prod_conv)

declare fit_loop.simps [simp del]

definition fit :: "nat list \<Rightarrow> nat \<Rightarrow> nat list option" where
  "fit natural width =
     (let n = length natural in
      if n = 0 then Some []
      else
        let gutters = GUTTER * (n - 1) in
        if sum_list natural + gutters \<le> width then Some natural
        else
          let avail = max (width - gutters) n in
          map_option (map (\<lambda>w. max (case w of Some k \<Rightarrow> k | None \<Rightarrow> 1) 1)) (fit_loop natural (replicate n None) avail))"

subsection \<open>The padded form\<close>

definition spaces :: "nat \<Rightarrow> str" where
  "spaces n = replicate n CHR '' ''"

text \<open>One past the last cell that is not empty.\<close>

definition last_cell :: "str list \<Rightarrow> nat" where
  "last_cell cells = length (dropWhile (\<lambda>c. c = []) (rev cells))"

text \<open>The cells up to there, each but the last one padded to its width.\<close>

fun padded_cells :: "text_lib \<Rightarrow> str list \<Rightarrow> nat list \<Rightarrow> str option" where
  "padded_cells lib [] ws = Some []"
| "padded_cells lib [cell] ws = Some cell"
| "padded_cells lib (cell # cells) ws =
     (case (display_width lib cell, padded_cells lib cells (tl ws)) of
        (Some w, Some rest) \<Rightarrow> Some (cell @ spaces (hd ws - w) @ spaces GUTTER @ rest)
      | _ \<Rightarrow> None)"

definition padded_row :: "text_lib \<Rightarrow> str list \<Rightarrow> nat list \<Rightarrow> str option" where
  "padded_row lib cells ws =
     map_option (\<lambda>line. trim_end line @ [CHR 0x0A]) (padded_cells lib (take (last_cell cells) cells) ws)"

definition row_cells :: "text_lib \<Rightarrow> nat \<Rightarrow> nat list \<Rightarrow> str list \<Rightarrow> str list option" where
  "row_cells lib cols ws row = opt_list (map (\<lambda>i. truncate_visible lib (nth_or i row) (ws ! i)) [0..<cols])"

definition header_cells :: "text_lib \<Rightarrow> term_info \<Rightarrow> nat \<Rightarrow> nat list \<Rightarrow> str list \<Rightarrow> str list option" where
  "header_cells lib t cols ws headers = map_option (map (paint lib t header_style)) (row_cells lib cols ws headers)"

definition render_padded :: "text_lib \<Rightarrow> table \<Rightarrow> str option" where
  "render_padded lib t =
     (let top = (case tb_banner t of Some b \<Rightarrow> b @ [CHR 0x0A, CHR 0x0A] | None \<Rightarrow> []) in
      if tb_rows t = [] \<and> tb_headers t = [] then Some top
      else
        let cols = column_count t in
        case Option.bind (natural_widths lib t cols) (\<lambda>natural. fit natural (tm_width (tb_term t))) of
          None \<Rightarrow> None
        | Some ws \<Rightarrow>
            let head = (if tb_headers t = [] then Some []
                        else Option.bind (header_cells lib (tb_term t) cols ws (tb_headers t)) (\<lambda>cells. padded_row lib cells ws));
                lines = opt_list (map (\<lambda>row. Option.bind (row_cells lib cols ws row) (\<lambda>cells. padded_row lib cells ws)) (tb_rows t))
            in (case (head, lines) of (Some h, Some ls) \<Rightarrow> Some (top @ h @ concat ls) | _ \<Rightarrow> None))"

definition render_to_string :: "text_lib \<Rightarrow> table \<Rightarrow> str option" where
  "render_to_string lib t = (if tm_tty (tb_term t) then render_padded lib t else render_tsv t)"

subsection \<open>Lemmas\<close>

lemma opt_list_Some: "opt_list xs = Some ys \<longleftrightarrow> xs = map Some ys"
  by (induction xs arbitrary: ys) (auto split: option.splits)

lemma opt_list_map_Some:
  "opt_list (map f xs) = Some ys \<longleftrightarrow> length ys = length xs \<and> (\<forall>i<length xs. f (xs ! i) = Some (ys ! i))"
  by (auto simp: opt_list_Some list_eq_iff_nth_eq)

text \<open>A cell of a machine-readable table has no separator in it and no escape.\<close>

lemma tsv_cell_plain:
  assumes "tsv_cell c = Some p" "x \<in> set p"
  shows "x \<noteq> CHR 0x09 \<and> x \<noteq> CHR 0x0A \<and> x \<noteq> CHR 0x0D \<and> x \<noteq> ESC"
proof -
  obtain s where s: "strip_ansi c = Some s" "p = map (\<lambda>c. if tsv_blank c then CHR '' '' else c) s"
    using assms(1) by (auto simp: tsv_cell_def)
  then obtain y where y: "y \<in> set s" "x = (if tsv_blank y then CHR '' '' else y)" using assms(2) by auto
  have "y \<noteq> ESC" using strip_ansi_Some [OF s(1), of undefined] y(1) by auto
  then show ?thesis using y(2) by (auto simp: tsv_blank_def ESC_def split: if_splits)
qed

lemma split_lines: "\<forall>l\<in>set ls. c \<notin> set l \<Longrightarrow> split_c (concat (map (\<lambda>l. l @ [c]) ls)) c = ls @ [[]]"
  by (induction ls) (simp_all add: split_c_append)

lemma set_join: "set (join sep xs) \<subseteq> set sep \<union> \<Union> (set ` set xs)"
  by (induction sep xs rule: join.induct) auto

subsection \<open>Lemmas on widths\<close>

lemma hand_out_keeps:
  "hand_out natural r S h idxs a = Some b \<Longrightarrow> length b = length a \<and> (\<forall>i. i \<notin> set idxs \<longrightarrow> b ! i = a ! i)"
  by (induction natural r S h idxs a rule: hand_out.induct) (auto simp: Let_def)

lemma hand_out_gives:
  "hand_out natural r S h idxs a = Some b \<Longrightarrow> distinct idxs \<Longrightarrow> \<forall>i\<in>set idxs. i < length a \<Longrightarrow> i \<in> set idxs
   \<Longrightarrow> \<exists>k. b ! i = Some k \<and> 1 \<le> k"
proof (induction natural r S h idxs a rule: hand_out.induct)
  case (3 natural r S h j v va a)
  show ?case
  proof (cases "i = j")
    case True
    then show ?thesis using 3(2-5) hand_out_keeps by (fastforce simp: Let_def)
  next
    case False
    then show ?thesis using 3(1) [OF refl] 3(2-5) by (simp add: Let_def)
  qed
qed auto

lemma hand_out_sum:
  "hand_out natural r S h idxs a = Some b \<Longrightarrow> distinct idxs \<Longrightarrow> \<forall>i\<in>set idxs. i < length a \<Longrightarrow> idxs \<noteq> [] \<Longrightarrow>
   h \<le> r \<and> h + (\<Sum>i\<in>set idxs. the (b ! i)) \<le> r + 1"
proof (induction natural r S h idxs a rule: hand_out.induct)
  case (2 natural r S h i a)
  then show ?case by (auto simp: checked_sub_def split: if_splits)
next
  case (3 natural r S h j v va a)
  define w where "w = max (natural ! j * r div S) 1"
  have o: "hand_out natural r S (h + w) (v # va) (a[j := Some (max w 1)]) = Some b" using 3(2) by (simp add: w_def Let_def)
  have "h + w \<le> r \<and> h + w + (\<Sum>i\<in>set (v # va). the (b ! i)) \<le> r + 1"
    using 3(1) [OF w_def o] 3(3,4) by simp
  moreover have "b ! j = Some (max w 1)" using hand_out_keeps [OF o] 3(3,4) by auto
  moreover have "max w 1 = w" by (simp add: w_def)
  ultimately show ?case using 3(3) by simp
qed simp

lemma give_natural_sum:
  "give_natural natural idxs a r = Some (b, r') \<Longrightarrow> distinct idxs \<Longrightarrow> r = r' + (\<Sum>i\<in>set idxs. natural ! i)"
  by (induction natural idxs a r rule: give_natural.induct) (auto simp: checked_sub_def split: option.splits if_splits)

lemma set_open_columns: "set (open_columns a) = {i. i < length a \<and> a ! i = None}"
  by (auto simp: open_columns_def)

lemma distinct_open_columns [simp]: "distinct (open_columns a)"
  by (simp add: open_columns_def)

lemma open_after:
  assumes "give_natural natural F a r = Some (b, r')" "set F \<subseteq> set (open_columns a)" "distinct F"
  shows "set (open_columns a) = set F \<union> set (open_columns b)" "set F \<inter> set (open_columns b) = {}"
  using assms give_natural_length [OF assms(1)] give_natural_keeps [OF assms(1)] give_natural_gives [OF assms(1) assms(3)]
  unfolding set_open_columns by (fastforce, fastforce)

text \<open>What the loop assigns: a column that is narrow enough its natural width, the rest at least one.\<close>

lemma fit_loop_result:
  assumes "fit_loop natural a r = Some b"
  shows "length b = length a \<and> (\<forall>i<length a. a ! i \<noteq> None \<longrightarrow> b ! i = a ! i)
    \<and> (\<forall>i\<in>set (open_columns a). \<exists>k. b ! i = Some k \<and> (k = natural ! i \<or> 1 \<le> k))
    \<and> (\<Sum>i\<in>set (open_columns a). the (b ! i)) \<le> r + 1
    \<and> (\<forall>i\<in>set (open_columns a). natural ! i \<le> r div length (open_columns a) \<longrightarrow> b ! i = Some (natural ! i))"
  using assms
proof (induction natural a r rule: fit_loop.induct)
  case (1 natural a r)
  let ?O = "open_columns a"
  let ?F = "filter (\<lambda>i. natural ! i \<le> r div length ?O) ?O"
  show ?case
  proof (cases "?O = []")
    case True
    then show ?thesis using 1(2) by (subst (asm) fit_loop.simps) simp
  next
    case ne: False
    show ?thesis
    proof (cases "?F = []")
      case True
      then have o: "hand_out natural r (sum_list (map ((!) natural) ?O)) 0 ?O a = Some b"
        using ne 1(2) by (subst (asm) fit_loop.simps) (simp add: Let_def)
      have lt: "\<forall>i\<in>set ?O. i < length a" by (simp add: set_open_columns)
      have "\<forall>i\<in>set ?O. \<not> natural ! i \<le> r div length ?O" using True by (metis filter_empty_conv)
      then show ?thesis using hand_out_keeps [OF o] hand_out_gives [OF o _ lt] hand_out_sum [OF o _ lt ne]
        by (simp add: set_open_columns) blast
    next
      case False
      then have "fit_loop natural a r = (case give_natural natural ?F a r of None \<Rightarrow> None | Some (x, y) \<Rightarrow> fit_loop natural x y)"
        using ne by (subst fit_loop.simps) (simp add: Let_def)
      then obtain a' r' where g: "give_natural natural ?F a r = Some (a', r')" and l: "fit_loop natural a' r' = Some b"
        using 1(2) by (auto split: option.splits)
      note ih = 1(1) [OF refl ne refl False g refl l]
      have sub: "set ?F \<subseteq> set ?O" and d: "distinct ?F" by auto
      note oa = open_after [OF g sub d]
      have la: "length a' = length a" by (rule give_natural_length [OF g])
      have fb: "b ! i = Some (natural ! i)" if i: "i \<in> set ?F" for i
      proof -
        have "i < length a" using i by (auto simp: set_open_columns)
        then show ?thesis using give_natural_gives [OF g d i] ih la by simp
      qed
      have "(\<Sum>i\<in>set ?O. the (b ! i)) = (\<Sum>i\<in>set ?F. the (b ! i)) + (\<Sum>i\<in>set (open_columns a'). the (b ! i))"
        unfolding oa(1) by (rule sum.union_disjoint) (use oa(2) in auto)
      also have "(\<Sum>i\<in>set ?F. the (b ! i)) = (\<Sum>i\<in>set ?F. natural ! i)" by (rule sum.cong) (simp_all only: fb option.sel)
      also have "\<dots> + (\<Sum>i\<in>set (open_columns a'). the (b ! i)) \<le> r + 1"
        using ih give_natural_sum [OF g d] by linarith
      finally have s: "(\<Sum>i\<in>set ?O. the (b ! i)) \<le> r + 1" .
      have k: "b ! i = a ! i" if "i < length a" "a ! i \<noteq> None" for i
      proof -
        have "i \<notin> set ?F" using that by (simp add: set_open_columns)
        then show ?thesis using give_natural_keeps [OF g] that ih la by simp
      qed
      have n: "\<exists>k. b ! i = Some k \<and> (k = natural ! i \<or> 1 \<le> k)" if "i \<in> set ?O" for i
        using that fb ih unfolding oa(1) by (metis (no_types, lifting) Un_iff)
      have m: "b ! i = Some (natural ! i)" if "i \<in> set ?O" "natural ! i \<le> r div length ?O" for i
        using fb that by simp
      have lb: "length b = length a" using ih la by simp
      show ?thesis using s lb by (intro conjI allI ballI impI k n m) simp_all
    qed
  qed
qed

lemma fit_sum_list:
  assumes "fit_loop natural (replicate (length natural) None) avail = Some b" "natural \<noteq> []" "\<forall>x\<in>set natural. 1 \<le> x"
  defines "ws \<equiv> map (\<lambda>w. max (case w of Some k \<Rightarrow> k | None \<Rightarrow> 1) 1) b"
  shows "length ws = length natural \<and> sum_list ws \<le> avail + 1
    \<and> (\<forall>i<length natural. natural ! i \<le> avail div length natural \<longrightarrow> ws ! i = natural ! i)"
proof -
  let ?a = "replicate (length natural) None"
  have o: "set (open_columns ?a) = {..<length natural}" "length (open_columns ?a) = length natural"
    by (auto simp: set_open_columns) (simp add: open_columns_def)
  note r = fit_loop_result [OF assms(1), unfolded o]
  then have l: "length ws = length natural" by (simp add: ws_def)
  have w: "ws ! i = the (b ! i)" if i: "i < length natural" for i
  proof -
    obtain k where k: "b ! i = Some k" "k = natural ! i \<or> 1 \<le> k" using r i by blast
    moreover have "1 \<le> natural ! i" using assms(3) i by simp
    ultimately show ?thesis using i r by (auto simp: ws_def)
  qed
  have "sum_list ws = (\<Sum>i\<in>{..<length natural}. the (b ! i))"
    using w l by (simp add: sum_list_sum_nth atLeast0LessThan)
  then show ?thesis using r l w by simp
qed

subsection \<open>Lemmas on rows\<close>

text \<open>A text whose last escape is complete, so that what follows it is not swallowed.\<close>

function whole :: "str \<Rightarrow> bool" where
  "whole s \<longleftrightarrow>
     (if s = [] then True
      else case escape_len s of
        Some n \<Rightarrow> escape_len (take n s @ [CHR ''x'']) = Some n \<and> whole (drop n s)
      | None \<Rightarrow> (case first_char s of None \<Rightarrow> False | Some c \<Rightarrow> whole (drop (length c) s)))"
  by pat_completeness auto
termination
  by (relation "measure length") (use escape_len_pos first_char_Some in fastforce)+

declare whole.simps [simp del]

lemma whole_Nil [simp]: "whole []"
  by (simp add: whole.simps)

lemma whole_escape: "escape_len s = Some n \<Longrightarrow> whole s \<longleftrightarrow> escape_len (take n s @ [CHR ''x'']) = Some n \<and> whole (drop n s)"
  using escape_first [of s n] by (subst whole.simps) simp

lemma whole_char: "escape_len s = None \<Longrightarrow> first_char s = Some c \<Longrightarrow> whole s \<longleftrightarrow> whole (drop (length c) s)"
  using first_char_Some [of s c] by (subst whole.simps) auto

lemma escape_len_le: "escape_len s = Some n \<Longrightarrow> n \<le> length s"
  using osc_len_le by (auto simp: escape_len_def split: list.splits if_splits)

lemma escape_whole_append:
  assumes "escape_len s = Some n" "escape_len (take n s @ [CHR ''x'']) = Some n"
  shows "escape_len (take n s @ x) = Some n"
  using escape_len_complete [OF assms(2), of x] escape_len_le [OF assms(1)] by simp

lemma whole_append:
  "whole s \<Longrightarrow> char_boundary x \<Longrightarrow>
   display_width lib (s @ x) = Option.bind (display_width lib s) (\<lambda>n. map_option ((+) n) (display_width lib x))
   \<and> (whole x \<longrightarrow> whole (s @ x)) \<and> display_width lib s \<noteq> None \<and> char_boundary s"
proof (induction s rule: whole.induct)
  case (1 s)
  show ?case
  proof (cases "s = []")
    case True
    then show ?thesis by (cases "display_width lib x") auto
  next
    case False
    show ?thesis
    proof (cases "escape_len s")
      case (Some n)
      have w: "escape_len (take n s @ [CHR ''x'']) = Some n" "whole (drop n s)" using 1(3) whole_escape [OF Some] by auto
      have e: "escape_len (take n s @ y) = Some n" for y by (rule escape_whole_append [OF Some w(1)])
      have l: "n \<le> length s" by (rule escape_len_le [OF Some])
      have ih: "display_width lib (drop n s @ x) = Option.bind (display_width lib (drop n s)) (\<lambda>n. map_option ((+) n) (display_width lib x))"
        "whole x \<longrightarrow> whole (drop n s @ x)" "display_width lib (drop n s) \<noteq> None"
        using 1(2) [OF False Some w(2) 1(4)] by auto
      have es: "escape_len (s @ x) = Some n" using e [of "drop n s @ x"] by (simp flip: append_assoc)
      have "display_width lib (s @ x) = display_width lib (drop n s @ x)" using display_width_escape [OF es] l by simp
      moreover have "whole (s @ x) \<longleftrightarrow> whole (drop n s @ x)" using whole_escape [OF es] w(1) l by simp
      ultimately show ?thesis using ih display_width_escape [OF Some, of lib] escape_boundary [OF Some]
        char_boundary_append [of "take n s" "drop n s"] by auto
    next
      case None
      obtain c where c: "first_char s = Some c" using 1(3) False None by (subst (asm) whole.simps) (auto split: option.splits)
      have w: "whole (drop (length c) s)" using 1(3) whole_char [OF None c] by simp
      have ih: "display_width lib (drop (length c) s @ x) = Option.bind (display_width lib (drop (length c) s)) (\<lambda>n. map_option ((+) n) (display_width lib x))"
        "whole x \<longrightarrow> whole (drop (length c) s @ x)" "display_width lib (drop (length c) s) \<noteq> None" "char_boundary (drop (length c) s)"
        using 1(1) [OF False None c w 1(4)] by auto
      obtain t where t: "s = c @ t" using first_char_Some [OF c] by blast
      then have d: "drop (length c) s = t" by simp
      have b: "char_boundary (t @ x)" using ih(4) 1(4) d by (cases t) auto
      have f: "escape_len (c @ t @ x) = None" "first_char (c @ t @ x) = Some c"
        using first_char_escape [OF c None] first_char_append [OF c b] by auto
      then show ?thesis
        using ih display_width_char [OF f, of lib] display_width_char [OF None c, of lib] whole_char [OF f]
          first_char_boundary [OF c] char_boundary_append [of c t]
        by (cases "display_width lib x"; auto simp: t d split: option.splits)
    qed
  qed
qed

lemma truncate_loop_whole:
  "truncate_loop lib budget s w styled = Some (out, st) \<Longrightarrow> whole s \<Longrightarrow> whole out \<and> char_boundary out"
proof (induction lib budget s w styled arbitrary: out st rule: truncate_loop.induct)
  case (1 lib budget s w styled)
  show ?case
  proof (cases "s = []")
    case True
    then show ?thesis using 1(3) by (subst (asm) truncate_loop.simps) simp
  next
    case False
    show ?thesis
    proof (cases "escape_len s")
      case (Some n)
      then obtain o' st' where r: "truncate_loop lib budget (drop n s) w True = Some (o', st')" "out = take n s @ o'"
        using 1(3) False by (subst (asm) truncate_loop.simps) (auto split: if_splits)
      have b: "char_boundary (drop n s)" using 1(3) False Some by (subst (asm) truncate_loop.simps) (auto split: if_splits)
      have w: "escape_len (take n s @ [CHR ''x'']) = Some n" "whole (drop n s)" using 1(4) whole_escape [OF Some] by auto
      have ih: "whole o'" "char_boundary o'" using 1(2) [OF False Some _ r(1) w(2)] b by auto
      have e: "escape_len (take n s @ o') = Some n" by (rule escape_whole_append [OF Some w(1)])
      then show ?thesis using whole_escape [OF e] w(1) ih escape_len_le [OF Some] escape_boundary [OF Some]
        char_boundary_append [of "take n s" o'] by (simp add: r(2))
    next
      case None
      obtain c where c: "first_char s = Some c" using 1(4) False None by (subst (asm) whole.simps) (auto split: option.splits)
      define cw where "cw = (case tx_width lib c of Some k \<Rightarrow> k | None \<Rightarrow> 0)"
      show ?thesis
      proof (cases "budget < w + cw")
        case True
        then show ?thesis using 1(3) False None c by (subst (asm) truncate_loop.simps) (simp add: cw_def Let_def)
      next
        case less: False
        then obtain o' st' where r: "truncate_loop lib budget (drop (length c) s) (w + cw) styled = Some (o', st')" "out = c @ o'"
          using 1(3) False None c by (subst (asm) truncate_loop.simps) (auto simp: cw_def Let_def)
        have ih: "whole o'" "char_boundary o'"
          using 1(1) [OF False None c cw_def less r(1)] 1(4) whole_char [OF None c] by auto
        have f: "escape_len (c @ o') = None" "first_char (c @ o') = Some c"
          using first_char_escape [OF c None] first_char_append [OF c ih(2)] by auto
        then show ?thesis using whole_char [OF f] ih first_char_boundary [OF c] char_boundary_append [of c o'] by (simp add: r(2))
      qed
    qed
  qed
qed

lemma whole_tail: "whole (ELLIPSIS @ (if st then RESET else []))"
proof -
  have "escape_len RESET = Some 4" by (simp add: escape_len_def RESET_def ESC_def csi_final_def byte_def)
  moreover have "escape_len (take 4 RESET @ [CHR ''x'']) = Some 4"
    by (simp add: escape_len_def RESET_def ESC_def csi_final_def byte_def)
  ultimately have "whole RESET" by (simp add: whole_escape) (simp add: RESET_def)
  moreover have "escape_len (ELLIPSIS @ x) = None" for x by (simp add: escape_len_def ELLIPSIS_def ESC_def)
  moreover have "first_char (ELLIPSIS @ (if st then RESET else [])) = Some ELLIPSIS"
    by (simp add: ELLIPSIS_def RESET_def ESC_def first_char_def is_cont_def byte_def)
  ultimately show ?thesis using whole_char [of "ELLIPSIS @ (if st then RESET else [])" ELLIPSIS] by simp
qed

lemma truncate_visible_cases:
  assumes "truncate_visible lib s m = Some t"
  shows "t = s \<or> t = [] \<or> (\<exists>out st. truncate_loop lib (m - 1) s 0 False = Some (out, st)
    \<and> t = out @ ELLIPSIS @ (if st then RESET else []))"
proof (cases "truncate_loop lib (m - 1) s 0 False")
  case None
  then show ?thesis using assms by (auto simp: truncate_visible_def split: option.splits if_splits)
next
  case (Some p)
  then show ?thesis using assms by (cases p) (auto simp: truncate_visible_def split: option.splits if_splits)
qed

lemma truncate_visible_whole:
  assumes "truncate_visible lib s m = Some t" "whole s"
  shows "whole t"
proof (cases "t = s \<or> t = []")
  case False
  then obtain out st where r: "truncate_loop lib (m - 1) s 0 False = Some (out, st)"
    "t = out @ ELLIPSIS @ (if st then RESET else [])"
    using truncate_visible_cases [OF assms(1)] by blast
  have "char_boundary (ELLIPSIS @ (if st then RESET else []))" by (simp add: ELLIPSIS_def is_cont_def byte_def)
  then show ?thesis using whole_append [of out] truncate_loop_whole [OF r(1) assms(2)] whole_tail [of st] r(2) by blast
qed (use assms in auto)

lemma whole_spaces: "tx_width lib '' '' = Some 1 \<Longrightarrow> display_width lib (spaces n) = Some n \<and> whole (spaces n) \<and> char_boundary (spaces n)"
proof (induction n)
  case (Suc n)
  have e: "escape_len (CHR '' '' # x) = None" for x by (simp add: escape_len_def ESC_def)
  have c: "first_char (CHR '' '' # spaces n) = Some '' ''"
    by (cases n) (simp_all add: first_char_def spaces_def is_cont_def byte_def)
  have s: "spaces (Suc n) = CHR '' '' # spaces n" by (simp add: spaces_def)
  show ?case using Suc display_width_char [OF e c, of lib] whole_char [OF e c]
    by (simp add: s is_cont_def byte_def)
qed (simp add: spaces_def)

text \<open>Where a column begins.\<close>

definition column_start :: "nat list \<Rightarrow> nat \<Rightarrow> nat" where
  "column_start ws j = sum_list (map (\<lambda>w. w + GUTTER) (take j ws))"

lemma padded_cells_column:
  assumes "padded_cells lib cells ws = Some line" "length cells \<le> length ws"
    "\<forall>i<length cells. whole (cells ! i) \<and> (\<exists>w. display_width lib (cells ! i) = Some w \<and> w \<le> ws ! i)"
    "tx_width lib '' '' = Some 1" "j < length cells"
  shows "\<exists>pre rest. line = pre @ cells ! j @ rest \<and> display_width lib pre = Some (column_start ws j) \<and> whole pre"
  using assms
proof (induction lib cells ws arbitrary: j line rule: padded_cells.induct)
  case (2 lib cell ws)
  then show ?case by (auto simp: column_start_def intro: exI [of _ "[]"])
next
  case (3 lib cell c cells ws)
  obtain k rest where r: "display_width lib cell = Some k" "padded_cells lib (c # cells) (tl ws) = Some rest"
    "line = cell @ spaces (hd ws - k) @ spaces GUTTER @ rest"
    using 3(2) by (auto split: option.splits)
  obtain w ws' where ws: "ws = w # ws'" using 3(3) by (cases ws) auto
  have cw: "whole cell" "k \<le> w" using 3(4) r(1) ws by fastforce+
  show ?case
  proof (cases j)
    case 0
    then show ?thesis using r(3) by (intro exI [of _ "[]"] exI [of _ "spaces (hd ws - k) @ spaces GUTTER @ rest"]) (simp add: column_start_def)
  next
    case (Suc i)
    have c': "\<forall>i<length (c # cells). whole ((c # cells) ! i) \<and> (\<exists>w. display_width lib ((c # cells) ! i) = Some w \<and> w \<le> tl ws ! i)"
    proof (intro allI impI)
      fix i assume "i < length (c # cells)"
      then show "whole ((c # cells) ! i) \<and> (\<exists>w. display_width lib ((c # cells) ! i) = Some w \<and> w \<le> tl ws ! i)"
        using 3(4) [rule_format, of "Suc i"] ws by simp
    qed
    obtain pre rest' where p: "rest = pre @ (c # cells) ! i @ rest'" "display_width lib pre = Some (column_start (tl ws) i)" "whole pre"
      using 3(1) [OF r(2) _ c' 3(5), of i] 3(3,6) ws Suc by fastforce
    let ?pre = "cell @ spaces (w - k) @ spaces GUTTER @ pre"
    have pb: "char_boundary pre" using whole_append [OF p(3), of "[]"] by simp
    have w3: "display_width lib (spaces GUTTER @ pre) = Some (GUTTER + column_start (tl ws) i) \<and> whole (spaces GUTTER @ pre) \<and> char_boundary (spaces GUTTER @ pre)"
      using whole_append [of "spaces GUTTER" pre lib] whole_spaces [OF 3(5), of GUTTER] p pb
      by (auto simp: GUTTER_def spaces_def numeral_2_eq_2)
    have b2: "char_boundary (spaces (w - k) @ spaces GUTTER @ pre)" using whole_spaces [OF 3(5), of "w - k"] w3
      by (cases "w - k") (auto simp: spaces_def)
    have "display_width lib (spaces (w - k) @ spaces GUTTER @ pre) = Some (w - k + (GUTTER + column_start (tl ws) i))
      \<and> whole (spaces (w - k) @ spaces GUTTER @ pre)"
      using whole_append [of "spaces (w - k)" "spaces GUTTER @ pre" lib] whole_spaces [OF 3(5), of "w - k"] w3 by auto
    then have "display_width lib ?pre = Some (k + (w - k + (GUTTER + column_start (tl ws) i))) \<and> whole ?pre"
      using whole_append [OF cw(1) b2, of lib] r(1) by auto
    moreover have "k + (w - k + (GUTTER + column_start (tl ws) i)) = column_start ws j"
      using cw(2) by (simp add: column_start_def ws Suc)
    ultimately show ?thesis using r(3) p(1) Suc ws by (intro exI [of _ ?pre] exI [of _ rest']) auto
  qed
qed simp

text \<open>Two rows of widths that a \<open>usize\<close> subtraction stops: the columns after a very wide one
  each take one column more than there is.\<close>

lemma fit_underflow: "fit [100, 3, 3, 3] 14 = None"
  by code_simp

text \<open>And two that overflow the terminal by a column: an empty column, and a last column with nothing left.\<close>

lemma fit_empty_column: "fit [0, 100] 10 = Some [1, 8]"
  by code_simp

lemma fit_last_column: "fit [100, 2, 2] 7 = Some [2, 1, 1] \<and> 2 + 1 + 1 + 2 * GUTTER = 8"
  by code_simp

subsection \<open>Properties\<close>

text \<open>C38. The machine-readable table can be read back: splitting the output at line feeds and tabs
  gives every row with all its cells in their places, empty ones included, each one the cell
  without its escapes and with its tabs and line breaks as spaces.\<close>

theorem tsv_reads_back:
  assumes "\<not> tm_tty (tb_term t)" "render_to_string lib t = Some out" "[] \<notin> set (tb_rows t)"
  shows "\<exists>cells. map Some cells = map (\<lambda>row. opt_list (map tsv_cell row)) (tb_rows t)
    \<and> map (\<lambda>line. split_c line CHR 0x09) (butlast (split_c out CHR 0x0A)) = cells \<and> ESC \<notin> set out"
proof -
  obtain rows where r: "map tsv_row (tb_rows t) = map Some rows" "out = concat rows"
    using assms(1,2) by (auto simp: render_to_string_def render_tsv_def opt_list_Some)
  define cells where "cells = map (\<lambda>row. the (opt_list (map tsv_cell row))) (tb_rows t)"
  have c: "opt_list (map tsv_cell row) = Some (the (opt_list (map tsv_cell row)))" if "row \<in> set (tb_rows t)" for row
  proof -
    have "tsv_row row \<in> Some ` set rows" using r(1) that by (metis imageI list.set_map)
    then show ?thesis by (auto simp: tsv_row_def)
  qed
  then have cs: "map Some cells = map (\<lambda>row. opt_list (map tsv_cell row)) (tb_rows t)" by (simp add: cells_def)
  have plain: "x \<noteq> CHR 0x09 \<and> x \<noteq> CHR 0x0A \<and> x \<noteq> ESC" if rc: "row \<in> set cells" "p \<in> set row" "x \<in> set p" for row p x
  proof -
    obtain raw where "raw \<in> set (tb_rows t)" "row = the (opt_list (map tsv_cell raw))"
      using rc(1) by (auto simp: cells_def)
    then have "map tsv_cell raw = map Some row" using c by (simp add: opt_list_Some)
    then obtain q where "tsv_cell q = Some p" using rc(2) by (metis (no_types, lifting) imageE imageI list.set_map)
    then show ?thesis using tsv_cell_plain rc(3) by blast
  qed
  have ne: "[] \<notin> set cells"
  proof
    assume "[] \<in> set cells"
    then obtain row where w: "row \<in> set (tb_rows t)" "[] = the (opt_list (map tsv_cell row))" by (auto simp: cells_def)
    then have "map tsv_cell row = []" using c [OF w(1)] by (simp add: opt_list_Some)
    then show False using w(1) assms(3) by simp
  qed
  have "map tsv_row (tb_rows t) = map (\<lambda>row. Some (join [CHR 0x09] row @ [CHR 0x0A])) cells"
    using c by (auto simp: cells_def tsv_row_def)
  then have "map Some rows = map Some (map (\<lambda>row. join [CHR 0x09] row @ [CHR 0x0A]) cells)" using r(1) by simp
  then have "rows = map (\<lambda>row. join [CHR 0x09] row @ [CHR 0x0A]) cells" by (simp only: inj_map_eq_map [OF inj_Some])
  then have out: "out = concat (map (\<lambda>l. l @ [CHR 0x0A]) (map (join [CHR 0x09]) cells))" using r(2) by (simp add: comp_def)
  have nl: "CHR 0x0A \<notin> set (join [CHR 0x09] row)" "ESC \<notin> set (join [CHR 0x09] row)" if "row \<in> set cells" for row
    using set_join [of "[CHR 0x09]" row] plain [OF that] by (auto simp: ESC_def)
  have "split_c out CHR 0x0A = map (join [CHR 0x09]) cells @ [[]]"
    unfolding out by (rule split_lines) (use nl in auto)
  moreover have "split_c (join [CHR 0x09] row) CHR 0x09 = row" if "row \<in> set cells" for row
    by (rule split_c_join) (use ne plain that in auto)
  ultimately have "map (\<lambda>line. split_c line CHR 0x09) (butlast (split_c out CHR 0x0A)) = cells"
    by (simp add: map_idI)
  moreover have "ESC \<notin> set out" using nl by (auto simp: out ESC_def)
  ultimately show ?thesis using cs by blast
qed

definition sample_table :: table where
  "sample_table = add_row [''22'', [], ''two'' @ [CHR 0x0A] @ ''lines''] (add_row [''1'', ESC # ''[32mopen'' @ RESET, ''a'' @ [CHR 0x09] @ ''b'']
     (table_new term_piped))"

theorem tsv_reads_back_witness:
  "\<exists>out. render_to_string sample_text_lib sample_table = Some out
    \<and> map (\<lambda>line. split_c line CHR 0x09) (butlast (split_c out CHR 0x0A)) = [[''1'', ''open'', ''a b''], [''22'', [], ''two lines'']]"
proof -
  have "render_to_string sample_text_lib sample_table \<noteq> None" by code_simp
  then obtain out where o: "render_to_string sample_text_lib sample_table = Some out" by blast
  have "\<not> tm_tty (tb_term sample_table)" "[] \<notin> set (tb_rows sample_table)" by code_simp+
  moreover have "map (\<lambda>row. opt_list (map tsv_cell row)) (tb_rows sample_table)
    = map Some [[''1'', ''open'', ''a b''], [''22'', [], ''two lines'']]" by code_simp
  ultimately obtain cells where "map Some cells = map Some [[''1'', ''open'', ''a b''], [''22'', [], ''two lines'']]"
    "map (\<lambda>line. split_c line CHR 0x09) (butlast (split_c out CHR 0x0A)) = cells"
    using tsv_reads_back [of sample_table sample_text_lib out] o by metis
  then show ?thesis using o by (metis inj_Some inj_map_eq_map)
qed

text \<open>The widths of a table fit the terminal: when the natural widths fit they are kept; otherwise
  every column has at least one column of content, one that is no wider than an equal share keeps
  its natural width, and the row is at most one column wider than the terminal (or than one column
  each, where the terminal is narrower than that).\<close>

theorem widths_fit:
  assumes "fit natural cols = Some ws" "\<forall>x\<in>set natural. 1 \<le> x" "natural \<noteq> []"
  defines "gutters \<equiv> GUTTER * (length natural - 1)"
  defines "avail \<equiv> max (cols - gutters) (length natural)"
  shows "length ws = length natural \<and> (\<forall>w\<in>set ws. 1 \<le> w) \<and> (sum_list natural + gutters \<le> cols \<longrightarrow> ws = natural)
    \<and> sum_list ws \<le> avail + 1 \<and> (\<forall>i<length natural. natural ! i \<le> avail div length natural \<longrightarrow> ws ! i = natural ! i)"
proof (cases "sum_list natural + gutters \<le> cols")
  case True
  then have "ws = natural" using assms(1,3) by (simp add: fit_def gutters_def)
  then show ?thesis using True assms(2) by (simp add: avail_def)
next
  case False
  then obtain b where b: "fit_loop natural (replicate (length natural) None) avail = Some b"
    "ws = map (\<lambda>w. max (case w of Some k \<Rightarrow> k | None \<Rightarrow> 1) 1) b"
    using assms(1,3) by (auto simp: fit_def gutters_def avail_def Let_def)
  then show ?thesis using fit_sum_list [OF b(1) assms(3,2)] False by auto
qed

theorem widths_fit_witness: "\<exists>ws. fit [2, 6, 60] 40 = Some ws \<and> ws ! 0 = 2 \<and> ws ! 1 = 6 \<and> sum_list ws \<le> 37"
proof -
  have "fit [2, 6, 60] 40 \<noteq> None" by code_simp
  then obtain ws where w: "fit [2, 6, 60] 40 = Some ws" by blast
  have p: "\<forall>x\<in>set [2, 6, 60 :: nat]. 1 \<le> x" by simp
  have "ws ! 0 = 2" "ws ! 1 = 6" "sum_list ws \<le> 37"
    using widths_fit [OF w p] by (auto simp: GUTTER_def dest: spec [of _ 0] spec [of _ 1])
  then show ?thesis using w by blast
qed

text \<open>Columns line up: in a padded row every cell begins at the column that the widths alone
  determine, so it is the same in all rows, and no cell is wider than its column, whatever
  escapes, wide characters and truncations the cells have (as long as no cell ends inside an
  escape, which would swallow the padding).\<close>

theorem columns_line_up:
  assumes "row_cells lib (length ws) ws row = Some cells" "padded_row lib cells ws = Some line" "\<forall>c\<in>set row. whole c"
    "tx_width lib ELLIPSIS = Some 1" "tx_width lib '' '' = Some 1" "j < last_cell cells"
  shows "\<exists>pre rest w. line = trim_end (pre @ cells ! j @ rest) @ [CHR 0x0A]
    \<and> display_width lib pre = Some (column_start ws j) \<and> display_width lib (cells ! j) = Some w \<and> w \<le> ws ! j"
proof -
  have lc: "last_cell cells \<le> length cells" by (simp add: last_cell_def) (metis length_dropWhile_le length_rev)
  have n: "length cells = length ws" and t: "\<forall>i<length ws. truncate_visible lib (nth_or i row) (ws ! i) = Some (cells ! i)"
    using assms(1) by (auto simp: row_cells_def opt_list_map_Some)
  have c: "whole (cells ! i) \<and> (\<exists>w. display_width lib (cells ! i) = Some w \<and> w \<le> ws ! i)" if i: "i < length ws" for i
  proof -
    have w: "whole (nth_or i row)" using assms(3) by (auto simp: nth_or_def)
    then obtain k where "display_width lib (nth_or i row) = Some k" using whole_append [OF w, of "[]" lib] by auto
    then obtain m where "display_width lib (cells ! i) = Some m" "m \<le> ws ! i"
      using truncate_visible_fits [OF _ assms(4), of "nth_or i row" k "ws ! i"] t i by auto
    then show ?thesis using truncate_visible_whole [OF _ w] t i by blast
  qed
  obtain full where f: "padded_cells lib (take (last_cell cells) cells) ws = Some full" "line = trim_end full @ [CHR 0x0A]"
    using assms(2) by (auto simp: padded_row_def)
  have "\<exists>pre rest. full = pre @ take (last_cell cells) cells ! j @ rest \<and> display_width lib pre = Some (column_start ws j) \<and> whole pre"
    by (rule padded_cells_column [OF f(1) _ _ assms(5)]) (use lc n c assms(6) in auto)
  then show ?thesis using f(2) c [of j] assms(6) lc n by fastforce
qed

definition sample_cells :: "str list" where
  "sample_cells = [''7'', ESC # ''[32mopen'' @ RESET, ''a long title'']"

theorem columns_line_up_witness:
  "\<exists>cells line pre rest. row_cells sample_text_lib 3 [2, 6, 5] sample_cells = Some cells
    \<and> padded_row sample_text_lib cells [2, 6, 5] = Some line
    \<and> line = trim_end (pre @ cells ! 2 @ rest) @ [CHR 0x0A] \<and> display_width sample_text_lib pre = Some 12"
proof -
  have "row_cells sample_text_lib 3 [2, 6, 5] sample_cells \<noteq> None" by code_simp
  then obtain cells where c3: "row_cells sample_text_lib 3 [2, 6, 5] sample_cells = Some cells" by auto
  then have c: "row_cells sample_text_lib (length [2, 6, 5 :: nat]) [2, 6, 5] sample_cells = Some cells" by (simp add: numeral_3_eq_3)
  have "Option.bind (row_cells sample_text_lib 3 [2, 6, 5] sample_cells) (\<lambda>cells. padded_row sample_text_lib cells [2, 6, 5]) \<noteq> None"
    by code_simp
  then obtain line where l: "padded_row sample_text_lib cells [2, 6, 5] = Some line" using c3 by auto
  have "map_option last_cell (row_cells sample_text_lib 3 [2, 6, 5] sample_cells) = Some 3" by code_simp
  then have "last_cell cells = 3" using c3 by simp
  moreover have "\<forall>c\<in>set sample_cells. whole c" by code_simp
  moreover have "tx_width sample_text_lib ELLIPSIS = Some 1" "tx_width sample_text_lib '' '' = Some 1" by (simp_all add: sample_text_lib_def)
  ultimately obtain pre rest where "line = trim_end (pre @ cells ! 2 @ rest) @ [CHR 0x0A]"
    "display_width sample_text_lib pre = Some (column_start [2, 6, 5] 2)"
    using columns_line_up [OF c l, of 2] by auto
  then show ?thesis using c3 l by (auto simp: column_start_def GUTTER_def)
qed

end
