(* ===== verification/Project.thy ===== *)
theory Project
  imports Tables Classify
begin

text \<open>
  \<open>crates/fjo/src/output/project.rs\<close>: the fields that \<open>--json\<close> selects, the suggestion for a
  misspelt one, the list of fields, and the projection of a document.  A document is a value of
  \<open>Classify\<close>'s \<open>json\<close>; an object keeps the order of its keys (\<open>preserve_order\<close>).
\<close>

subsection \<open>Fields\<close>

datatype field_spec = FieldSpec (fs_name: str) (fs_kind: field_kind) (fs_doc: str)
and field_kind = FkBool | FkInt | FkFloat | FkStr | FkDateTime | FkEnum "str list" | FkObject "field_spec list"
  | FkArray field_kind | FkMap field_kind | FkJson

fun label :: "field_kind \<Rightarrow> str" where
  "label FkBool = ''bool''"
| "label FkInt = ''int''"
| "label FkFloat = ''float''"
| "label FkStr = ''string''"
| "label FkDateTime = ''datetime''"
| "label (FkEnum values) = ''enum('' @ join ''|'' values @ '')''"
| "label (FkObject _) = ''object''"
| "label (FkArray inner) = ''['' @ label inner @ '']''"
| "label (FkMap inner) = ''map['' @ label inner @ '']''"
| "label FkJson = ''json''"

datatype selection = Discover | Fields "str list"

subsection \<open>The nearest name\<close>

text \<open>
  One row of the table: from the row above (\<open>prev\<close>) and the entry to the left, the entries for the
  characters of \<open>b\<close>.
\<close>

fun lev_row :: "'c \<Rightarrow> 'c list \<Rightarrow> nat list \<Rightarrow> nat \<Rightarrow> nat list" where
  "lev_row ca (cb # bs) (p # q # ps) left =
     (let v = min (min (p + (if ca \<noteq> cb then 1 else 0)) (q + 1)) (left + 1)
      in v # lev_row ca bs (q # ps) v)"
| "lev_row ca _ _ left = []"

fun lev_rows :: "'c list \<Rightarrow> 'c list \<Rightarrow> nat \<Rightarrow> nat list \<Rightarrow> nat list" where
  "lev_rows [] bs i prev = prev"
| "lev_rows (ca # as) bs i prev = lev_rows as bs (Suc i) ((i + 1) # lev_row ca bs prev (i + 1))"

definition levenshtein :: "str \<Rightarrow> str \<Rightarrow> nat" where
  "levenshtein a b =
     (let b_chars = chars b
      in lev_rows (chars a) b_chars 0 [0..<Suc (length b_chars)] ! length b_chars)"

text \<open>\<open>min_by_key\<close>: the first of the least.\<close>

fun min_by_fst :: "(nat \<times> 'a) list \<Rightarrow> (nat \<times> 'a) option" where
  "min_by_fst [] = None"
| "min_by_fst ((d, x) # xs) =
     (case min_by_fst xs of None \<Rightarrow> Some (d, x) | Some (e, y) \<Rightarrow> if d \<le> e then Some (d, x) else Some (e, y))"

definition suggest :: "str \<Rightarrow> str list \<Rightarrow> str option" where
  "suggest given available =
     (let g = to_ascii_lowercase given in
      map_option snd (min_by_fst (List.map_filter
        (\<lambda>name. let d = levenshtein g (to_ascii_lowercase name) in if d \<le> 1 then Some (d, name) else None) available)))"

subsection \<open>The selection\<close>

definition unknown_field :: "str \<Rightarrow> field_spec list \<Rightarrow> error" where
  "unknown_field given available =
     (let names = map fs_name available
      in error_new (UnknownJsonField given names (suggest given names)))"

fun resolve_parts :: "str \<Rightarrow> field_spec list \<Rightarrow> str list \<Rightarrow> str list \<Rightarrow> (error, str list) res" where
  "resolve_parts raw available [] acc = Inr acc"
| "resolve_parts raw available (part # parts) acc =
     (let name = trim part in
      if name = []
      then Inl (error_new (Usage (Fmt ''--json got an empty field name in {raw:?}; separate names with a single comma'' [raw])))
      else if \<not> list_ex (\<lambda>f. fs_name f = name) available then Inl (unknown_field name available)
      else resolve_parts raw available parts (if List.member acc name then acc else acc @ [name]))"

definition resolve_fields :: "str \<Rightarrow> field_spec list \<Rightarrow> (error, selection) res" where
  "resolve_fields raw available =
     (if trim raw = [] then Inr Discover
      else res_map Fields (resolve_parts raw available (split_c raw CHR '','') []))"

definition write_field_list :: "text_lib \<Rightarrow> field_spec list \<Rightarrow> term_info \<Rightarrow> str option" where
  "write_field_list lib specs t =
     (if \<not> tm_tty t then Some (concat (map (\<lambda>f. fs_name f @ [CHR 0x0A]) specs))
      else render_to_string lib
        (foldl (\<lambda>tb f. add_row [fs_name f, label (fs_kind f), fs_doc f] tb) (table_new t) specs))"

subsection \<open>The projection\<close>

fun type_name :: "json \<Rightarrow> str" where
  "type_name JNull = ''null''"
| "type_name (JBool _) = ''a boolean''"
| "type_name (JNum _) = ''a number''"
| "type_name (JStr _) = ''a string''"
| "type_name (JArr _) = ''an array''"
| "type_name (JObj _) = ''an object''"

text \<open>\<open>Map::insert\<close>: a key that is there keeps its place.\<close>

fun obj_insert :: "str \<Rightarrow> json \<Rightarrow> (str \<times> json) list \<Rightarrow> (str \<times> json) list" where
  "obj_insert k v [] = [(k, v)]"
| "obj_insert k v ((k', v') # m) = (if k' = k then (k, v) # m else (k', v') # obj_insert k v m)"

definition project_object :: "json \<Rightarrow> str list \<Rightarrow> (error, json) res" where
  "project_object v names =
     (case v of
        JObj m \<Rightarrow> Inr (JObj (foldl (\<lambda>out name. obj_insert name (case map_of m name of Some x \<Rightarrow> x | None \<Rightarrow> JNull) out) [] names))
      | _ \<Rightarrow> Inl (error_new (Usage (Fmt ''--json selects fields from objects, but an array element was {}; use --jq to reach into it instead''
               [type_name v]))))"

definition project :: "json \<Rightarrow> str list \<Rightarrow> (error, json) res" where
  "project v names =
     (case v of
        JArr items \<Rightarrow> res_map JArr (res_list (\<lambda>item. project_object item names) items)
      | JObj _ \<Rightarrow> project_object v names
      | _ \<Rightarrow> Inl (error_new (Usage (Fmt ''--json needs an object or an array of objects to select fields from, but the response was {}; use --jq to reach into it instead''
               [type_name v]))))"

subsection \<open>What the distance is\<close>

text \<open>Turning one text into another with \<open>k\<close> replacements, removals and insertions.\<close>

inductive edits :: "nat \<Rightarrow> 'c list \<Rightarrow> 'c list \<Rightarrow> bool" where
  same: "edits 0 [] []"
| keep: "edits k xs ys \<Longrightarrow> edits k (x # xs) (x # ys)"
| change: "edits k xs ys \<Longrightarrow> edits (Suc k) (x # xs) (y # ys)"
| remove: "edits k xs ys \<Longrightarrow> edits (Suc k) (x # xs) ys"
| insrt: "edits k xs ys \<Longrightarrow> edits (Suc k) xs (y # ys)"

fun dist :: "'c list \<Rightarrow> 'c list \<Rightarrow> nat" where
  "dist [] ys = length ys"
| "dist xs [] = length xs"
| "dist (x # xs) (y # ys) =
     min (min (dist xs ys + (if x \<noteq> y then 1 else 0)) (dist xs (y # ys) + 1)) (dist (x # xs) ys + 1)"

lemma dist_Nil [simp]: "dist xs [] = length xs"
  by (cases xs) auto

lemma edits_dist: "edits (dist xs ys) xs ys"
proof (induction xs ys rule: dist.induct)
  case (1 ys)
  then show ?case by (induction ys) (auto intro: edits.intros)
next
  case (2 x xs)
  have "edits (length zs) zs []" for zs :: "'a list" by (induction zs) (auto intro: edits.intros)
  then show ?case by (metis dist.simps(2))
next
  case (3 x xs y ys)
  then show ?case by (auto simp: min_def intro: edits.intros)
qed

lemma dist_edits: "edits k xs ys \<Longrightarrow> dist xs ys \<le> k"
proof (induction rule: edits.induct)
  case (remove k xs ys x)
  then show ?case by (cases ys) auto
next
  case (insrt k xs ys y)
  then show ?case by (cases xs) auto
qed auto

lemma edits_snoc:
  "edits k xs ys \<Longrightarrow> edits k (xs @ [x]) (ys @ [x])"
  "edits k xs ys \<Longrightarrow> edits (Suc k) (xs @ [x]) (ys @ [y])"
  "edits k xs ys \<Longrightarrow> edits (Suc k) (xs @ [x]) ys"
  "edits k xs ys \<Longrightarrow> edits (Suc k) xs (ys @ [y])"
  by (induction rule: edits.induct) (auto intro: edits.intros)

lemma edits_rev: "edits k xs ys \<Longrightarrow> edits k (rev xs) (rev ys)"
  by (induction rule: edits.induct) (auto intro: edits.intros edits_snoc)

lemma dist_rev: "dist (rev xs) (rev ys) = dist xs ys"
  by (metis dist_edits edits_dist edits_rev nle_le rev_rev_ident)

text \<open>A row of the table: the distances of a prefix to the prefixes of the other text.\<close>

definition lev_table_row :: "'c list \<Rightarrow> 'c list \<Rightarrow> nat \<Rightarrow> nat list" where
  "lev_table_row as bs j = map (\<lambda>i. dist (rev as) (rev (take i bs))) [j..<Suc (length bs)]"

lemma lev_table_row_Cons:
  "j \<le> length bs \<Longrightarrow> lev_table_row as bs j = dist (rev as) (rev (take j bs)) # lev_table_row as bs (Suc j)"
  by (simp add: lev_table_row_def upt_conv_Cons del: upt_Suc)

lemma lev_row_correct:
  assumes "j \<le> length bs"
  shows "lev_row a (drop j bs) (lev_table_row as bs j) (dist (a # rev as) (rev (take j bs)))
    = lev_table_row (as @ [a]) bs (Suc j)"
  using assms
proof (induction "length bs - j" arbitrary: j)
  case 0
  then have "j = length bs" by simp
  then show ?case by (simp add: lev_table_row_def)
next
  case (Suc n)
  then have j: "j < length bs" by simp
  have d: "drop j bs = bs ! j # drop (Suc j) bs" using j by (simp add: Cons_nth_drop_Suc)
  have t: "rev (take (Suc j) bs) = bs ! j # rev (take j bs)" using j by (simp add: take_Suc_conv_app_nth)
  have r: "lev_table_row as bs j = dist (rev as) (rev (take j bs)) # lev_table_row as bs (Suc j)"
    "lev_table_row as bs (Suc j) = dist (rev as) (rev (take (Suc j) bs)) # lev_table_row as bs (Suc (Suc j))"
    "lev_table_row (as @ [a]) bs (Suc j) = dist (a # rev as) (rev (take (Suc j) bs)) # lev_table_row (as @ [a]) bs (Suc (Suc j))"
    using j lev_table_row_Cons [of j bs as] lev_table_row_Cons [of "Suc j" bs] by simp_all
  have "lev_row a (drop (Suc j) bs) (lev_table_row as bs (Suc j)) (dist (a # rev as) (rev (take (Suc j) bs)))
    = lev_table_row (as @ [a]) bs (Suc (Suc j))" by (rule Suc(1)) (use Suc(2) j in simp_all)
  then show ?case by (simp add: d r(1) r(3)) (simp add: r(2) Let_def t)
qed

lemma lev_rows_correct:
  "lev_rows as' bs (length as) (lev_table_row as bs 0) = lev_table_row (as @ as') bs 0"
proof (induction as' arbitrary: as)
  case (Cons a as')
  have "(length as + 1) # lev_row a bs (lev_table_row as bs 0) (length as + 1) = lev_table_row (as @ [a]) bs 0"
    using lev_row_correct [of 0 bs a as] lev_table_row_Cons [of 0 bs "as @ [a]"] by simp
  then show ?case using Cons [of "as @ [a]"] by simp
qed simp

lemma levenshtein_dist: "levenshtein a b = dist (chars a) (chars b)"
proof -
  have "[0..<Suc (length (chars b))] = lev_table_row [] (chars b) 0"
    by (simp add: lev_table_row_def del: upt_Suc) (rule nth_equalityI; simp del: upt_Suc)
  then show ?thesis using lev_rows_correct [of "chars a" "chars b" "[]"]
    by (simp add: levenshtein_def Let_def lev_table_row_def dist_rev del: upt_Suc)
qed

subsection \<open>Lemmas on selections\<close>

lemma resolve_parts_Inr:
  "resolve_parts raw available parts acc = Inr names \<Longrightarrow> distinct acc \<Longrightarrow> set acc \<subseteq> fs_name ` set available \<Longrightarrow>
   distinct names \<and> set names \<subseteq> fs_name ` set available \<and> set names = set acc \<union> trim ` set parts"
proof (induction raw available parts acc rule: resolve_parts.induct)
  case (2 raw available part parts acc)
  define name where "name = trim part"
  have n: "name \<noteq> []" "name \<in> fs_name ` set available"
    using 2(2) by (auto simp: name_def Let_def list_ex_iff split: if_splits) (metis image_eqI)+
  define acc' where "acc' = (if List.member acc name then acc else acc @ [name])"
  have r: "resolve_parts raw available parts acc' = Inr names"
    using 2(2) by (auto simp: name_def acc'_def Let_def split: if_splits)
  have a: "distinct acc'" "set acc' \<subseteq> fs_name ` set available" "set acc' = insert name (set acc)"
    using 2(3,4) n by (auto simp: acc'_def)
  have e: "\<not> \<not> list_ex (\<lambda>f. fs_name f = name) available" using n(2) by (auto simp: list_ex_iff)
  have "distinct names \<and> set names \<subseteq> fs_name ` set available \<and> set names = set acc' \<union> trim ` set parts"
    unfolding acc'_def by (rule 2(1) [OF name_def n(1) e r [unfolded acc'_def] a(1,2) [unfolded acc'_def]])
  then show ?case using a(3) by (auto simp: name_def)
qed auto

lemma obj_insert_new: "k \<notin> fst ` set m \<Longrightarrow> obj_insert k v m = m @ [(k, v)]"
  by (induction k v m rule: obj_insert.induct) auto

lemma foldl_obj_insert:
  "distinct names \<Longrightarrow> fst ` set out \<inter> set names = {} \<Longrightarrow>
   foldl (\<lambda>out name. obj_insert name (f name) out) out names = out @ map (\<lambda>name. (name, f name)) names"
proof (induction names arbitrary: out)
  case (Cons n names)
  then show ?case using obj_insert_new [of n out "f n"] by auto
qed simp

text \<open>The object with exactly the named keys, in the order asked for.\<close>

definition selected :: "str list \<Rightarrow> (str \<times> json) list \<Rightarrow> json" where
  "selected names m = JObj (map (\<lambda>name. (name, case map_of m name of Some x \<Rightarrow> x | None \<Rightarrow> JNull)) names)"

lemma project_object_Inr:
  "distinct names \<Longrightarrow> project_object v names = Inr w \<Longrightarrow> \<exists>m. v = JObj m \<and> w = selected names m"
  by (auto simp: project_object_def selected_def foldl_obj_insert split: json.splits)

lemma res_list_Inr: "res_list f xs = Inr ys \<longleftrightarrow> map f xs = map Inr ys"
proof (induction xs arbitrary: ys)
  case (Cons x xs)
  show ?case by (cases "f x"; cases "res_list f xs"; cases ys) (auto simp flip: Cons.IH)
qed auto

subsection \<open>Properties\<close>

text \<open>C39. The distance that decides a suggestion is the edit distance: \<open>levenshtein\<close>, which keeps only
  two rows of the table, gives the least number of replacements, removals and insertions of
  characters that turn one name into the other.\<close>

theorem levenshtein_is_least:
  "edits (levenshtein a b) (chars a) (chars b) \<and> (\<forall>k. edits k (chars a) (chars b) \<longrightarrow> levenshtein a b \<le> k)"
  using edits_dist dist_edits by (auto simp: levenshtein_dist)

theorem levenshtein_is_least_witness: "levenshtein ''htmlurl'' ''html_url'' \<le> 1"
proof -
  have "chars ''htmlurl'' = map (\<lambda>c. [c]) ''htmlurl''" "chars ''html_url'' = map (\<lambda>c. [c]) ''html_url''" by code_simp+
  then have "edits (Suc 0) (chars ''htmlurl'') (chars ''html_url'')"
    by (simp only: list.map) (intro keep insrt same)
  then show ?thesis using levenshtein_is_least [of "''htmlurl''" "''html_url''"] by simp
qed

text \<open>What \<open>--json\<close> prints has the shape that was asked for: every field accepted is a field of
  the resource and is listed once, and of an array of objects each object that is printed has
  exactly these fields in this order, each with its value or null, so the columns are the same
  in every row.\<close>

theorem projection_shape:
  assumes "resolve_fields raw available = Inr (Fields names)" "project v names = Inr w"
  shows "distinct names \<and> set names \<subseteq> fs_name ` set available \<and> names \<noteq> []
    \<and> (case v of JArr items \<Rightarrow> \<exists>ms. items = map JObj ms \<and> w = JArr (map (selected names) ms)
       | JObj m \<Rightarrow> w = selected names m | _ \<Rightarrow> False)"
proof -
  have r: "resolve_parts raw available (split_c raw CHR '','') [] = Inr names"
    using assms(1) by (auto simp: resolve_fields_def res_map_eq_Inr split: if_splits)
  have n: "distinct names" "set names \<subseteq> fs_name ` set available" "set names = trim ` set (split_c raw CHR '','')"
    using resolve_parts_Inr [OF r] by auto
  have ne: "names \<noteq> []" using n(3) split_c_not_Nil by fastforce
  have "case v of JArr items \<Rightarrow> \<exists>ms. items = map JObj ms \<and> w = JArr (map (selected names) ms)
       | JObj m \<Rightarrow> w = selected names m | _ \<Rightarrow> False"
  proof (cases v)
    case (JArr items)
    then obtain ws where w: "w = JArr ws" "map (\<lambda>item. project_object item names) items = map Inr ws"
      using assms(2) by (auto simp: project_def res_map_eq_Inr res_list_Inr)
    from w(2) have "\<exists>ms. items = map JObj ms \<and> ws = map (selected names) ms"
    proof (induction items arbitrary: ws)
      case (Cons item items)
      obtain x xs where x: "ws = x # xs" "project_object item names = Inr x" "map (\<lambda>item. project_object item names) items = map Inr xs"
        using Cons(2) by (cases ws) auto
      obtain m where m: "item = JObj m" "x = selected names m" using project_object_Inr [OF n(1) x(2)] by blast
      obtain ms where "items = map JObj ms \<and> xs = map (selected names) ms" using Cons(1) [OF x(3)] by blast
      then show ?case using m x(1) by (intro exI [of _ "m # ms"]) simp
    qed simp
    then show ?thesis using JArr w(1) by auto
  next
    case (JObj m)
    then show ?thesis using assms(2) project_object_Inr [OF n(1), of v w] by (auto simp: project_def)
  qed (use assms(2) in \<open>simp_all add: project_def\<close>)
  then show ?thesis using n ne by simp
qed

definition sample_fields :: "field_spec list" where
  "sample_fields = [FieldSpec ''number'' FkInt ''Index'', FieldSpec ''title'' FkStr ''Title'', FieldSpec ''merged_at'' FkDateTime ''When'']"

theorem projection_shape_witness:
  "project (JArr [JObj [(''title'', JStr ''fix''), (''body'', JNull), (''number'', JNum ''7'')]]) [''number'', ''merged_at'']
    = Inr (JArr [JObj [(''number'', JNum ''7''), (''merged_at'', JNull)]])"
proof -
  let ?m = "[(''title'', JStr ''fix''), (''body'', JNull), (''number'', JNum ''7'')]"
  have a: "resolve_fields ''number, merged_at,number'' sample_fields = Inr (Fields [''number'', ''merged_at''])" by code_simp
  have "\<not> isl (project (JArr [JObj ?m]) [''number'', ''merged_at''])" by code_simp
  then obtain w where w: "project (JArr [JObj ?m]) [''number'', ''merged_at''] = Inr w" by (cases "project (JArr [JObj ?m]) [''number'', ''merged_at'']") auto
  have "w = JArr [selected [''number'', ''merged_at''] ?m]" using projection_shape [OF a w] by auto
  then show ?thesis using w by (simp add: selected_def)
qed

end
