(* ===== verification/Template_Lex.thy ===== *)
theory Template_Lex
  imports Rust_Str Errors
begin

text \<open>
  \<open>crates/fjo/src/output/template/lex.rs\<close>: a \<open>--template\<close> split into literal text and the tokens
  of its actions.  What Rust's standard library knows beyond ASCII and about floating point is a
  parameter: which characters are letters or digits, and \<open>f64\<close> as a type \<open>'f\<close> with its parser.
\<close>

subsection \<open>Tokens\<close>

text \<open>
  \<open>fl_integral x\<close> is \<open>Some n\<close> when \<open>x\<close> has no fraction and is below 9e15 in magnitude, \<open>n\<close> then
  being \<open>x as i64\<close>; \<open>fl_json x\<close> is the JSON text of a finite \<open>x\<close>.
\<close>

record 'f float_lib =
  fl_parse :: "str \<Rightarrow> 'f option"
  fl_integral :: "'f \<Rightarrow> int option"
  fl_json :: "'f \<Rightarrow> str option"
  fl_alphabetic :: "str \<Rightarrow> bool"
  fl_numeric :: "str \<Rightarrow> bool"

datatype 'f token = TIdent str | TField "str list" | TVar str "str list" | TStr str | TNum 'f
  | TPipe | TLParen | TRParen | TComma | TDefine

datatype 'f item = TextItem str | Action "'f token list" nat

definition template_err :: "nat \<Rightarrow> str \<Rightarrow> str list \<Rightarrow> error" where
  "template_err line template args = error_new (Template (Fmt template args) line)"

subsection \<open>Characters\<close>

definition is_alphabetic :: "'f float_lib \<Rightarrow> str \<Rightarrow> bool" where
  "is_alphabetic lib c = (case c of [b] \<Rightarrow> is_ascii_upper b \<or> is_ascii_lower b | _ \<Rightarrow> fl_alphabetic lib c)"

definition is_alphanumeric :: "'f float_lib \<Rightarrow> str \<Rightarrow> bool" where
  "is_alphanumeric lib c \<longleftrightarrow> is_alphabetic lib c \<or> (case c of [b] \<Rightarrow> is_ascii_digit b | _ \<Rightarrow> fl_numeric lib c)"

definition is_digit_char :: "str \<Rightarrow> bool" where
  "is_digit_char c = (case c of [b] \<Rightarrow> is_ascii_digit b | _ \<Rightarrow> False)"

definition tpl_blank :: "char \<Rightarrow> bool" where
  "tpl_blank c \<longleftrightarrow> List.member [CHR '' '', CHR 0x09, CHR 0x0D, CHR 0x0A] c"

text \<open>\<open>char::from_u32\<close> followed by \<open>push\<close>, for a value of four hexadecimal digits.\<close>

definition utf8_of :: "nat \<Rightarrow> str option" where
  "utf8_of n =
     (if n < 128 then Some [chr n]
      else if n < 2048 then Some [chr (192 + n div 64), chr (128 + n mod 64)]
      else if 55296 \<le> n \<and> n < 57344 then None
      else Some [chr (224 + n div 4096), chr (128 + n div 64 mod 64), chr (128 + n mod 64)])"

definition hex_digit :: "char \<Rightarrow> nat option" where
  "hex_digit c =
     (if is_ascii_digit c then Some (byte c - 48)
      else if 97 \<le> byte c \<and> byte c \<le> 102 then Some (byte c - 87)
      else if 65 \<le> byte c \<and> byte c \<le> 70 then Some (byte c - 55)
      else None)"

fun hex_digits :: "str \<Rightarrow> nat \<Rightarrow> nat option" where
  "hex_digits [] n = Some n"
| "hex_digits (c # s) n = (case hex_digit c of None \<Rightarrow> None | Some d \<Rightarrow> hex_digits s (16 * n + d))"

text \<open>\<open>u32::from_str_radix(s, 16)\<close>: an optional \<open>+\<close> and at least one digit.\<close>

definition from_str_radix16 :: "str \<Rightarrow> nat option" where
  "from_str_radix16 s =
     (let ds = (case s of c # t \<Rightarrow> if c = CHR ''+'' then t else s | [] \<Rightarrow> [])
      in if ds = [] then None else hex_digits ds 0)"

subsection \<open>Tokens of an action\<close>

text \<open>Each reader takes the characters from its position on and gives what it read and the rest.\<close>

definition lex_ident :: "'f float_lib \<Rightarrow> str list \<Rightarrow> str \<times> str list" where
  "lex_ident lib cs =
     (let word = (\<lambda>c. is_alphanumeric lib c \<or> c = ''_'')
      in (concat (takeWhile word cs), dropWhile word cs))"

lemma lex_ident_shorter:
  "lex_ident lib cs = (name, rest) \<Longrightarrow> length rest \<le> length cs"
  by (auto simp: lex_ident_def Let_def length_dropWhile_le)

function path_loop :: "'f float_lib \<Rightarrow> str list \<Rightarrow> str list \<times> str list" where
  "path_loop lib cs =
     (case cs of
        [] \<Rightarrow> ([], [])
      | c # t \<Rightarrow>
          if is_alphanumeric lib c \<or> c = ''_'' then
            (case lex_ident lib (c # t) of
               (name, rest) \<Rightarrow>
                 (case rest of
                    [] \<Rightarrow> ([name], [])
                  | d # rest' \<Rightarrow>
                      if d = ''.'' then (case path_loop lib rest' of (path, rest'') \<Rightarrow> (name # path, rest''))
                      else ([name], d # rest')))
          else ([], c # t))"
  by pat_completeness auto
termination
  by (relation "measure (\<lambda>(lib, cs). length cs)") (auto dest!: sym [of "(_, _)"] lex_ident_shorter)

declare path_loop.simps [simp del]

text \<open>\<open>lex_path\<close> starts at the leading dot, which \<open>cs\<close> is after.\<close>

definition lex_path :: "'f float_lib \<Rightarrow> str list \<Rightarrow> str list \<times> str list" where
  "lex_path lib cs = path_loop lib cs"

definition simple_escape :: "str \<Rightarrow> char option" where
  "simple_escape esc =
     map_of [(''n'', CHR 0x0A), (''t'', CHR 0x09), (''r'', CHR 0x0D), (''0'', CHR 0x00),
       ([CHR 0x5C], CHR 0x5C), ([CHR 0x22], CHR 0x22)] esc"

text \<open>The characters of a string after its opening quote.\<close>

fun lex_quoted :: "nat \<Rightarrow> str list \<Rightarrow> str \<Rightarrow> (error, str \<times> str list) res" where
  "lex_quoted line [] out = Inl (template_err line ''unterminated string'' [])"
| "lex_quoted line (c # cs) out =
     (if c = [CHR 0x22] then Inr (out, cs)
      else if c = [CHR 0x5C] then
        (case cs of
           [] \<Rightarrow> Inl (template_err line ''unterminated string'' [])
         | esc # rest \<Rightarrow>
             (case simple_escape esc of
                Some ch \<Rightarrow> lex_quoted line rest (out @ [ch])
              | None \<Rightarrow>
             if esc = ''u'' then
               (let hex = (if 4 \<le> length rest then concat (take 4 rest) else []) in
                case Option.bind (from_str_radix16 hex) utf8_of of
                  None \<Rightarrow> Inl (template_err line ''bad {backslash}u escape: {backslash}u{hex}'' [hex])
                | Some ch \<Rightarrow> lex_quoted line (drop 4 rest) (out @ ch))
             else Inl (template_err line ''unknown escape {backslash}{other}'' [esc])))
      else lex_quoted line cs (out @ c))"

text \<open>The rest of a number after its first character, given the character before.\<close>

fun number_rest :: "str \<Rightarrow> str list \<Rightarrow> str list" where
  "number_rest prev [] = []"
| "number_rest prev (c # cs) =
     (if is_digit_char c \<or> c = ''.'' \<or> c = ''e'' \<or> c = ''E'' \<or> ((c = ''-'' \<or> c = ''+'') \<and> (prev = ''e'' \<or> prev = ''E''))
      then c # number_rest c cs else [])"

definition starts_number :: "str \<Rightarrow> str list \<Rightarrow> bool" where
  "starts_number c cs \<longleftrightarrow> is_digit_char c \<or> c = ''-'' \<and> (case cs of d # _ \<Rightarrow> is_digit_char d | [] \<Rightarrow> False)"

text \<open>The position of the closing mark of a raw string.\<close>

definition raw_string :: "str list \<Rightarrow> (str \<times> str list) option" where
  "raw_string cs =
     (if List.member cs [CHR 0x60]
      then Some (concat (takeWhile (\<lambda>c. c \<noteq> [CHR 0x60]) cs), tl (dropWhile (\<lambda>c. c \<noteq> [CHR 0x60]) cs)) else None)"

text \<open>One step: the next token, if the character is not white space, and the rest.\<close>

definition next_token :: "'f float_lib \<Rightarrow> nat \<Rightarrow> str \<Rightarrow> str \<Rightarrow> str list \<Rightarrow> (error, 'f token option \<times> str list) res" where
  "next_token lib line body c cs =
     (if is_whitespace c then Inr (None, cs)
      else if c = ''|'' then Inr (Some TPipe, cs)
      else if c = ''('' then Inr (Some TLParen, cs)
      else if c = '')'' then Inr (Some TRParen, cs)
      else if c = '','' then Inr (Some TComma, cs)
      else if c = '':'' then
        (case cs of
           d # rest \<Rightarrow> if d = ''='' then Inr (Some TDefine, rest)
                       else Inl (template_err line ''`:` is only valid as part of `:=`'' [])
         | [] \<Rightarrow> Inl (template_err line ''`:` is only valid as part of `:=`'' []))
      else if c = [CHR 0x22] then res_map (\<lambda>(s, rest). (Some (TStr s), rest)) (lex_quoted line cs [])
      else if c = [CHR 0x60] then
        (case raw_string cs of
           Some (s, rest) \<Rightarrow> Inr (Some (TStr s), rest)
         | None \<Rightarrow> Inl (template_err line ''unterminated ` raw string'' []))
      else if c = ''$'' then
        (case lex_ident lib cs of
           (name, rest) \<Rightarrow>
             (case rest of
                d # rest' \<Rightarrow>
                  if d = ''.'' then (case lex_path lib rest' of (path, rest'') \<Rightarrow> Inr (Some (TVar name path), rest''))
                  else Inr (Some (TVar name []), d # rest')
              | [] \<Rightarrow> Inr (Some (TVar name []), [])))
      else if c = ''.'' then (case lex_path lib cs of (path, rest) \<Rightarrow> Inr (Some (TField path), rest))
      else if starts_number c cs then
        (let text = concat (c # number_rest c cs) in
         case fl_parse lib text of
           Some n \<Rightarrow> Inr (Some (TNum n), drop (length (number_rest c cs)) cs)
         | None \<Rightarrow> Inl (template_err line ''{text:?} is not a number'' [text]))
      else if is_alphabetic lib c \<or> c = ''_'' then
        (case lex_ident lib (c # cs) of (name, rest) \<Rightarrow> Inr (Some (TIdent name), rest))
      else Inl (template_err line ''unexpected character {other:?} in `{{{body}}}`'' [c, body]))"

lemma path_loop_shorter: "path_loop lib cs = (path, rest) \<Longrightarrow> length rest \<le> length cs"
proof (induction lib cs arbitrary: path rest rule: path_loop.induct)
  case (1 lib cs)
  show ?case
  proof (cases cs)
    case (Cons c t)
    obtain name r where l: "lex_ident lib (c # t) = (name, r)" by fastforce
    note s = lex_ident_shorter [OF l]
    show ?thesis
    proof (cases "(is_alphanumeric lib c \<or> c = ''_'') \<and> r \<noteq> [] \<and> hd r = ''.''")
      case True
      then obtain r' where r: "r = ''.'' # r'" by (cases r) auto
      obtain p q where p: "path_loop lib r' = (p, q)" by fastforce
      have "length q \<le> length r'" by (rule 1(1) [OF Cons _ l [symmetric] r refl p]) (use True in simp)
      then show ?thesis using 1(2) True l r p s Cons by (subst (asm) path_loop.simps) auto
    next
      case False
      then show ?thesis using 1(2) l s Cons by (subst (asm) path_loop.simps) (auto split: list.splits if_splits)
    qed
  qed (use 1(2) in \<open>simp add: path_loop.simps\<close>)
qed

lemma lex_quoted_shorter: "lex_quoted line cs out = Inr (s, rest) \<Longrightarrow> length rest < length cs"
proof (induction line cs out arbitrary: s rest rule: lex_quoted.induct)
  case (2 line c cs out)
  show ?case
  proof (cases "c = [CHR 0x22] \<or> c \<noteq> [CHR 0x5C]")
    case True
    then show ?thesis using 2(3,4) by (auto split: if_splits)
  next
    case False
    then obtain esc r where cs: "cs = esc # r" using 2(4) by (cases cs) auto
    show ?thesis
    proof (cases "simple_escape esc")
      case (Some ch)
      then show ?thesis using 2(2) [OF _ _ cs Some, of s rest] 2(4) False cs by simp
    next
      case None
      then have u: "esc = ''u''" using 2(4) False cs by (auto split: if_splits)
      define hex where "hex = (if 4 \<le> length r then concat (take 4 r) else [])"
      obtain ch where ch: "Option.bind (from_str_radix16 hex) utf8_of = Some ch" "lex_quoted line (drop 4 r) (out @ ch) = Inr (s, rest)"
        using 2(4) False cs None u by (auto simp: Let_def hex_def split: option.splits)
      have "length rest < length (drop 4 r)" by (rule 2(1) [OF _ _ cs None u hex_def ch]) (use False in auto)
      then show ?thesis by (simp add: cs)
    qed
  qed
qed simp

lemma raw_string_shorter: "raw_string cs = Some (s, rest) \<Longrightarrow> length rest \<le> length cs"
  by (auto simp: raw_string_def split: if_splits) (metis diff_le_self le_trans length_dropWhile_le)

lemma next_token_shorter: "next_token lib line body c cs = Inr (t, rest) \<Longrightarrow> length rest \<le> length cs"
proof -
  assume a: "next_token lib line body c cs = Inr (t, rest)"
  have q: "length r \<le> length cs" if "lex_quoted line cs [] = Inr (s, r)" for s r
    using lex_quoted_shorter [OF that] by simp
  have i: "length r \<le> length cs" if "lex_ident lib (c # cs) = (s, r)" "is_alphabetic lib c \<or> c = ''_''" for s r
    using that by (auto simp: lex_ident_def Let_def is_alphanumeric_def length_dropWhile_le)
  have p: "length r \<le> length cs" if "lex_ident lib cs = (s, d # r')" "lex_path lib r' = (q, r)" for s d r' q r
    using lex_ident_shorter [OF that(1)] path_loop_shorter that(2) by (fastforce simp: lex_path_def)
  have p2: "length r \<le> length cs" if "lex_path lib cs = (q, r)" for q r
    using path_loop_shorter that by (fastforce simp: lex_path_def)
  note f = lex_ident_shorter [of lib cs] raw_string_shorter [of cs]
  define Q where "Q r \<longleftrightarrow> (\<forall>t rest. r = Inr (t, rest) \<longrightarrow> length rest \<le> length cs)"
    for r :: "(error, 'a token option \<times> str list) res"
  have Q: "Q (Inl e)" "length r \<le> length cs \<Longrightarrow> Q (Inr (x, r))" "(b \<Longrightarrow> Q y) \<Longrightarrow> (\<not> b \<Longrightarrow> Q z) \<Longrightarrow> Q (if b then y else z)"
    for e r x b y z by (auto simp: Q_def)
  have "Q (next_token lib line body c cs)"
    unfolding next_token_def Let_def
    by (intro Q(3); (simp only: Q(1,2) le_refl)?)
      (use q p p2 i lex_ident_shorter [of lib cs] raw_string_shorter [of cs] in
        \<open>auto simp: Q_def res_map_eq_Inr split: list.splits option.splits prod.splits if_splits\<close>)
  then show ?thesis using a by (simp add: Q_def)
qed

function tokenize :: "'f float_lib \<Rightarrow> nat \<Rightarrow> str \<Rightarrow> str list \<Rightarrow> (error, 'f token list) res" where
  "tokenize lib line body cs =
     (case cs of
        [] \<Rightarrow> Inr []
      | c # cs' \<Rightarrow>
          (case next_token lib line body c cs' of
             Inl e \<Rightarrow> Inl e
           | Inr (t, rest) \<Rightarrow>
               res_map (\<lambda>ts. case t of Some t \<Rightarrow> t # ts | None \<Rightarrow> ts) (tokenize lib line body rest)))"
  by pat_completeness auto
termination
  by (relation "measure (\<lambda>(lib, line, body, cs). length cs)") (auto dest: next_token_shorter)

declare tokenize.simps [simp del]

subsection \<open>Text and actions\<close>

definition newlines :: "str \<Rightarrow> nat" where
  "newlines s = length (filter (\<lambda>c. c = CHR 0x0A) s)"

definition push_text :: "str \<Rightarrow> bool \<Rightarrow> bool \<Rightarrow> 'f item list" where
  "push_text text trim_first trim_last =
     (let t = (if trim_first then dropWhile tpl_blank text else text);
          t = (if trim_last then rev (dropWhile tpl_blank (rev t)) else t)
      in if t \<noteq> [] then [TextItem t] else [])"

text \<open>\<open>{{-\<close> and \<open>-}}\<close>, which count only next to white space.\<close>

definition open_trim :: "str \<Rightarrow> bool \<times> str" where
  "open_trim body_start =
     (case strip_prefix body_start ''-'' of
        Some after_dash \<Rightarrow> if after_dash \<noteq> [] \<and> tpl_blank (hd after_dash) then (True, after_dash) else (False, body_start)
      | None \<Rightarrow> (False, body_start))"

definition close_trim :: "str \<Rightarrow> bool \<times> str" where
  "close_trim body =
     (case strip_suffix body ''-'' of
        Some before \<Rightarrow> if before \<noteq> [] \<and> tpl_blank (last before) then (True, before) else (False, body)
      | None \<Rightarrow> (False, body))"

lemma split_once_shorter: "split_once s p = Some (a, b) \<Longrightarrow> p \<noteq> [] \<Longrightarrow> length b < length s"
  by (cases p) (auto simp: split_once_def split: option.splits dest!: str_find_bound)

lemma open_trim_shorter: "open_trim s = (x, b) \<Longrightarrow> length b \<le> length s"
  by (auto simp: open_trim_def strip_prefix_def split: if_splits)

text \<open>One round of the loop: the items up to and with the next action, and where it goes on.\<close>

definition next_action ::
  "'f float_lib \<Rightarrow> str \<Rightarrow> nat \<Rightarrow> bool \<Rightarrow> (error, 'f item list \<times> (str \<times> nat \<times> bool) option) res" where
  "next_action lib rest line trim_next =
     (case split_once rest ''{{'' of
        None \<Rightarrow> Inr (push_text rest trim_next False, None)
      | Some (text, after) \<Rightarrow>
          (let line = line + newlines text; (trim_prev, body_start) = open_trim after in
           case split_once body_start ''}}'' of
             None \<Rightarrow> Inl (template_err line ''unclosed `{{`; add the matching `}}`'' [])
           | Some (body, after_close) \<Rightarrow>
               (let (trim_after, body) = close_trim body in
                case tokenize lib line body (chars body) of
                  Inl e \<Rightarrow> Inl e
                | Inr tokens \<Rightarrow>
                    Inr (push_text text trim_next trim_prev @ [Action tokens line],
                      Some (after_close, line + newlines body, trim_after)))))"

lemma next_action_shorter:
  assumes "next_action lib rest line trim_next = Inr (items, Some (rest', line', trim'))"
  shows "length rest' < length rest"
proof -
  obtain txt0 after where a: "split_once rest ''{{'' = Some (txt0, after)"
    using assms by (auto simp: next_action_def split: option.splits)
  obtain t body_start where b: "open_trim after = (t, body_start)" by fastforce
  obtain body after_close where c: "split_once body_start ''}}'' = Some (body, after_close)"
    using assms a b by (auto simp: next_action_def Let_def split: option.splits)
  have "rest' = after_close" using assms a b c by (auto simp: next_action_def Let_def split: prod.splits sum.splits)
  then show ?thesis using split_once_shorter [OF a] open_trim_shorter [OF b] split_once_shorter [OF c] by simp
qed

function lex_loop :: "'f float_lib \<Rightarrow> str \<Rightarrow> nat \<Rightarrow> bool \<Rightarrow> (error, 'f item list) res" where
  "lex_loop lib rest line trim_next =
     (case next_action lib rest line trim_next of
        Inl e \<Rightarrow> Inl e
      | Inr (items, next) \<Rightarrow>
          (case next of
             None \<Rightarrow> Inr items
           | Some (rest, line, trim_next) \<Rightarrow> res_map ((@) items) (lex_loop lib rest line trim_next)))"
  by pat_completeness auto
termination
  by (relation "measure (\<lambda>(lib, rest, line, trim_next). length rest)") (auto dest: next_action_shorter)

declare lex_loop.simps [simp del]

definition lex :: "'f float_lib \<Rightarrow> str \<Rightarrow> (error, 'f item list) res" where
  "lex lib src = lex_loop lib src 1 False"

subsection \<open>Lemmas\<close>

text \<open>Text without an action is one item, itself.\<close>

lemma lex_text: "\<not> contains src ''{{'' \<Longrightarrow> lex lib src = Inr (if src = [] then [] else [TextItem src])"
  by (simp add: lex_def lex_loop.simps next_action_def split_once_def contains_def push_text_def)

end
