(* ===== verification/Template_Parse.thy ===== *)
theory Template_Parse
  imports Template_Lex Classify
begin

text \<open>
  \<open>crates/fjo/src/output/template/parse.rs\<close>: the recursive-descent parser of \<open>--template\<close>.  A
  cursor is the list of the tokens (or items) from its position on.  The mutually recursive
  routines take fuel; \<open>None\<close> is running out of it, and \<open>parse_total\<close> shows that the fuel that
  \<open>pipeline\<close> and \<open>parse\<close> give is always enough.  The \<open>Debug\<close> form of a token is left out of the
  messages.
\<close>

subsection \<open>The tree\<close>

datatype expr = ERoot | EField "str list" | EVar str | EAccess expr "str list" | ELit json
  | ECall str "expr list" nat | EPipe expr expr

datatype node = NText str | NEmit expr nat | NIf expr "node list" "node list" nat
  | NRange expr "str option" "str option" "node list" "node list" nat | NAssign str expr nat

type_synonym terminator = "(str \<times> nat) option"

text \<open>Results that may be absent: when fuel runs out, and in \<open>Template_Eval\<close> when the code panics.\<close>

definition obind :: "(error, 'a) res option \<Rightarrow> ('a \<Rightarrow> (error, 'b) res option) \<Rightarrow> (error, 'b) res option" where
  "obind r f = (case r of None \<Rightarrow> None | Some (Inl e) \<Rightarrow> Some (Inl e) | Some (Inr x) \<Rightarrow> f x)"

subsection \<open>Expressions\<close>

definition number :: "'f float_lib \<Rightarrow> 'f \<Rightarrow> json" where
  "number lib x =
     (case fl_integral lib x of
        Some n \<Rightarrow> JNum (show_int n)
      | None \<Rightarrow> (case fl_json lib x of Some t \<Rightarrow> JNum t | None \<Rightarrow> JNull))"

fun describe :: "expr \<Rightarrow> str" where
  "describe ERoot = ''`$`''"
| "describe (EField _) = ''a field''"
| "describe (EVar _) = ''a variable''"
| "describe (EAccess _ _) = ''a field''"
| "describe (ELit _) = ''a literal''"
| "describe (ECall _ _ _) = ''a function''"
| "describe (EPipe _ _) = ''a pipeline''"

definition ident_expr :: "str \<Rightarrow> nat \<Rightarrow> expr" where
  "ident_expr name line =
     (if name = ''true'' then ELit (JBool True)
      else if name = ''false'' then ELit (JBool False)
      else if name = ''nil'' \<or> name = ''null'' then ELit JNull
      else ECall name [] line)"

definition var_expr :: "str \<Rightarrow> str list \<Rightarrow> expr" where
  "var_expr name path =
     (let base = (if name = [] then ERoot else EVar name) in if path = [] then base else EAccess base path)"

text \<open>The arguments go to a function that has none yet.\<close>

definition apply_args :: "nat \<Rightarrow> expr \<Rightarrow> expr list \<Rightarrow> (error, expr) res" where
  "apply_args line e args =
     (if args = [] then Inr e
      else (case e of
              ECall name existing l \<Rightarrow>
                if existing = [] then Inr (ECall name args l)
                else Inl (template_err line ''{} cannot take arguments; only functions can'' [describe e])
            | _ \<Rightarrow> Inl (template_err line ''{} cannot take arguments; only functions can'' [describe e])))"

definition ends_command :: "'f token list \<Rightarrow> bool" where
  "ends_command ts = (case ts of [] \<Rightarrow> True | TPipe # _ \<Rightarrow> True | TRParen # _ \<Rightarrow> True | TComma # _ \<Rightarrow> True | _ \<Rightarrow> False)"

text \<open>
  The routines of the cursor.  \<open>sub\<close> parses what is in parentheses; the fuel of the loops counts
  operands and commands, that of \<open>p_pipeline\<close> the nesting of parentheses.
\<close>

definition p_operand ::
  "('f token list \<Rightarrow> (error, expr \<times> 'f token list) res option) \<Rightarrow> 'f float_lib \<Rightarrow> nat \<Rightarrow> 'f token list
   \<Rightarrow> (error, expr \<times> 'f token list) res option" where
  "p_operand sub lib line ts =
     (case ts of
        [] \<Rightarrow> Some (Inl (template_err line ''expected a value but the action ended'' []))
      | t # ts' \<Rightarrow>
          (case t of
             TField path \<Rightarrow> Some (Inr (EField path, ts'))
           | TVar name path \<Rightarrow> Some (Inr (var_expr name path, ts'))
           | TStr s \<Rightarrow> Some (Inr (ELit (JStr s), ts'))
           | TNum x \<Rightarrow> Some (Inr (ELit (number lib x), ts'))
           | TIdent name \<Rightarrow> Some (Inr (ident_expr name line, ts'))
           | TLParen \<Rightarrow>
               obind (sub ts') (\<lambda>(inner, ts).
                 (case ts of
                    TRParen # ts'' \<Rightarrow> Some (Inr (inner, ts''))
                  | _ \<Rightarrow> Some (Inl (template_err line ''missing `)`'' []))))
           | _ \<Rightarrow> Some (Inl (template_err line ''unexpected {other:?}'' []))))"

fun p_args ::
  "nat \<Rightarrow> ('f token list \<Rightarrow> (error, expr \<times> 'f token list) res option) \<Rightarrow> 'f float_lib \<Rightarrow> nat \<Rightarrow> 'f token list
   \<Rightarrow> (error, expr list \<times> 'f token list) res option" where
  "p_args 0 sub lib line ts = None"
| "p_args (Suc n) sub lib line ts =
     (if ends_command ts then Some (Inr ([], ts))
      else obind (p_operand sub lib line ts) (\<lambda>(a, ts).
           obind (p_args n sub lib line ts) (\<lambda>(args, ts). Some (Inr (a # args, ts)))))"

definition p_command ::
  "('f token list \<Rightarrow> (error, expr \<times> 'f token list) res option) \<Rightarrow> 'f float_lib \<Rightarrow> nat \<Rightarrow> 'f token list
   \<Rightarrow> (error, expr \<times> 'f token list) res option" where
  "p_command sub lib line ts =
     obind (p_operand sub lib line ts) (\<lambda>(first, ts).
     obind (p_args (Suc (length ts)) sub lib line ts) (\<lambda>(args, ts).
       Some (res_map (\<lambda>e. (e, ts)) (apply_args line first args))))"

fun p_pipe_loop ::
  "nat \<Rightarrow> ('f token list \<Rightarrow> (error, expr \<times> 'f token list) res option) \<Rightarrow> 'f float_lib \<Rightarrow> nat \<Rightarrow> expr \<Rightarrow> 'f token list
   \<Rightarrow> (error, expr \<times> 'f token list) res option" where
  "p_pipe_loop 0 sub lib line e ts = None"
| "p_pipe_loop (Suc n) sub lib line e ts =
     (case ts of
        TPipe # ts' \<Rightarrow> obind (p_command sub lib line ts') (\<lambda>(rhs, ts). p_pipe_loop n sub lib line (EPipe e rhs) ts)
      | _ \<Rightarrow> Some (Inr (e, ts)))"

fun p_pipeline :: "nat \<Rightarrow> 'f float_lib \<Rightarrow> nat \<Rightarrow> 'f token list \<Rightarrow> (error, expr \<times> 'f token list) res option" where
  "p_pipeline 0 lib line ts = None"
| "p_pipeline (Suc n) lib line ts =
     obind (p_command (p_pipeline n lib line) lib line ts) (\<lambda>(e, ts).
       p_pipe_loop (Suc (length ts)) (p_pipeline n lib line) lib line e ts)"

definition pipeline :: "'f float_lib \<Rightarrow> 'f token list \<Rightarrow> nat \<Rightarrow> (error, expr) res option" where
  "pipeline lib tokens line =
     obind (p_pipeline (Suc (length tokens)) lib line tokens) (\<lambda>(e, ts).
       if ts \<noteq> [] then Some (Inl (template_err line ''unexpected {:?}'' [])) else Some (Inr e))"

subsection \<open>Actions\<close>

definition assignment :: "'f float_lib \<Rightarrow> 'f token list \<Rightarrow> nat \<Rightarrow> (error, node option) res option" where
  "assignment lib tokens line =
     (case tokens of
        TVar name path # TDefine # rest \<Rightarrow>
          if name \<noteq> [] \<and> path = []
          then obind (pipeline lib rest line) (\<lambda>v. Some (Inr (Some (NAssign name v line))))
          else Some (Inr None)
      | _ \<Rightarrow> Some (Inr None))"

fun decl_names :: "'f token list \<Rightarrow> nat \<Rightarrow> (error, str list) res" where
  "decl_names [] line = Inr []"
| "decl_names (t # ts) line =
     (case t of
        TVar name path \<Rightarrow>
          if name \<noteq> [] \<and> path = [] then res_map ((#) name) (decl_names ts line)
          else Inl (template_err line ''`range` variables must be `$name`, got {other:?}'' [])
      | TComma \<Rightarrow> decl_names ts line
      | _ \<Rightarrow> Inl (template_err line ''`range` variables must be `$name`, got {other:?}'' []))"

definition is_define :: "'f token \<Rightarrow> bool" where
  "is_define t = (case t of TDefine \<Rightarrow> True | _ \<Rightarrow> False)"

definition range_decls :: "'f token list \<Rightarrow> nat \<Rightarrow> (error, str option \<times> str option \<times> 'f token list) res" where
  "range_decls rest line =
     (if \<not> list_ex is_define rest then Inr (None, None, rest)
      else res_bind (decl_names (takeWhile (\<lambda>t. \<not> is_define t) rest) line) (\<lambda>names.
        let after = tl (dropWhile (\<lambda>t. \<not> is_define t) rest) in
        case names of
          [v] \<Rightarrow> Inr (None, Some v, after)
        | [k, v] \<Rightarrow> Inr (Some k, Some v, after)
        | _ \<Rightarrow> Inl (template_err line ''`range` declares one or two variables'' [])))"

definition is_kw :: "str \<Rightarrow> 'f token list \<Rightarrow> bool" where
  "is_kw kw tokens = (case tokens of TIdent name # _ \<Rightarrow> name = kw | _ \<Rightarrow> False)"

text \<open>\<open>block\<close> and \<open>control\<close>; the result of a block is its nodes, how it ended, and the items after it.\<close>

definition control ::
  "('f item list \<Rightarrow> (error, node list \<times> terminator \<times> 'f item list) res option) \<Rightarrow> 'f float_lib \<Rightarrow> 'f token list \<Rightarrow> nat
   \<Rightarrow> bool \<Rightarrow> 'f item list \<Rightarrow> (error, node \<times> 'f item list) res option" where
  "control sub lib tokens line is_range items =
     (let kw = (if is_range then ''range'' else ''if''); rest = tl tokens in
      if rest = [] then Some (Inl (template_err line ''`{kw}` needs an expression'' [kw]))
      else
        obind (Some (if is_range then range_decls rest line else Inr (None, None, rest))) (\<lambda>(key, val, expr_tokens).
        obind (pipeline lib expr_tokens line) (\<lambda>head.
        obind (sub items) (\<lambda>(body, terminator, items).
        obind (case terminator of
            Some (t, _) \<Rightarrow> if t = ''else'' then sub items else Some (Inr ([], terminator, items))
          | None \<Rightarrow> Some (Inr ([], terminator, items))) (\<lambda>(otherwise, terminator, items).
        case terminator of
          Some (t, _) \<Rightarrow>
            if t = ''end''
            then Some (Inr (if is_range then NRange head key val body otherwise line else NIf head body otherwise line, items))
            else Some (Inl (template_err line ''`{kw}` without a matching `{{end}}`'' [kw]))
        | None \<Rightarrow> Some (Inl (template_err line ''`{kw}` without a matching `{{end}}`'' [kw])))))))"

definition action_node :: "'f float_lib \<Rightarrow> 'f token list \<Rightarrow> nat \<Rightarrow> (error, node) res option" where
  "action_node lib tokens line =
     obind (assignment lib tokens line) (\<lambda>a.
       case a of
         Some node \<Rightarrow> Some (Inr node)
       | None \<Rightarrow> obind (pipeline lib tokens line) (\<lambda>e. Some (Inr (NEmit e line))))"

fun block :: "nat \<Rightarrow> 'f float_lib \<Rightarrow> 'f item list \<Rightarrow> (error, node list \<times> terminator \<times> 'f item list) res option" where
  "block 0 lib items = None"
| "block (Suc n) lib items =
     (case items of
        [] \<Rightarrow> Some (Inr ([], None, []))
      | item # items \<Rightarrow>
          (case item of
             TextItem t \<Rightarrow> obind (block n lib items) (\<lambda>(nodes, r). Some (Inr (NText t # nodes, r)))
           | Action tokens line \<Rightarrow>
               if tokens = [] then block n lib items
               else if is_kw ''end'' tokens then Some (Inr ([], Some (''end'', line), items))
               else if is_kw ''else'' tokens then Some (Inr ([], Some (''else'', line), items))
               else
                 obind (if is_kw ''if'' tokens \<or> is_kw ''range'' tokens
                            then control (block n lib) lib tokens line (is_kw ''range'' tokens) items
                            else obind (action_node lib tokens line) (\<lambda>node. Some (Inr (node, items)))) (\<lambda>(node, items).
                 obind (block n lib items) (\<lambda>(nodes, r). Some (Inr (node # nodes, r))))))"

definition parse :: "'f float_lib \<Rightarrow> str \<Rightarrow> (error, node list) res option" where
  "parse lib src =
     obind (Some (lex lib src)) (\<lambda>items.
     obind (block (Suc (length items)) lib items) (\<lambda>(nodes, terminator, _).
       case terminator of
         Some (kw, line) \<Rightarrow> Some (Inl (template_err line ''`{kw}` without a matching `if` or `range`'' [kw]))
       | None \<Rightarrow> Some (Inr nodes)))"

subsection \<open>Results\<close>

lemma obind_Inr: "obind r f = Some (Inr y) \<longleftrightarrow> (\<exists>x. r = Some (Inr x) \<and> f x = Some (Inr y))"
  by (auto simp: obind_def split: option.splits sum.splits)

lemma obind_Inl: "obind r f = Some (Inl e) \<longleftrightarrow> r = Some (Inl e) \<or> (\<exists>x. r = Some (Inr x) \<and> f x = Some (Inl e))"
  by (auto simp: obind_def split: option.splits sum.splits)

lemma obind_None: "obind r f = None \<longleftrightarrow> r = None \<or> (\<exists>x. r = Some (Inr x) \<and> f x = None)"
  by (auto simp: obind_def split: option.splits sum.splits)

lemma obind_simps [simp]:
  "obind None f = None" "obind (Some (Inl e)) f = Some (Inl e)" "obind (Some (Inr x)) f = f x"
  by (simp_all add: obind_def)

lemma obind_assoc: "obind (obind r f) g = obind r (\<lambda>x. obind (f x) g)"
  by (auto simp: obind_def split: option.splits sum.splits)

subsection \<open>The fuel is enough\<close>

text \<open>A result that is there and, if it is a success, leaves at most \<open>m\<close> tokens (or items) to read.\<close>

definition leaves :: "nat \<Rightarrow> ('b \<Rightarrow> 'a list) \<Rightarrow> (error, 'b) res option \<Rightarrow> bool" where
  "leaves m rest r \<longleftrightarrow> r \<noteq> None \<and> (\<forall>y. r = Some (Inr y) \<longrightarrow> length (rest y) \<le> m)"

lemma leaves_simps [simp]:
  "leaves m rest (Some (Inl e))" "leaves m rest (Some (Inr y)) \<longleftrightarrow> length (rest y) \<le> m"
  by (simp_all add: leaves_def)

lemma leaves_bind:
  "leaves m rest r \<Longrightarrow> (\<And>x. r = Some (Inr x) \<Longrightarrow> length (rest x) \<le> m \<Longrightarrow> leaves k rest' (f x)) \<Longrightarrow> leaves k rest' (obind r f)"
  by (auto simp: leaves_def obind_def split: option.splits sum.splits)

lemma leaves_mono: "leaves m rest r \<Longrightarrow> m \<le> k \<Longrightarrow> leaves k rest r"
  by (fastforce simp: leaves_def)

lemma leaves_not_None: "leaves m rest r \<Longrightarrow> r \<noteq> None"
  by (simp add: leaves_def)

lemma p_operand_leaves:
  fixes sub :: "'f token list \<Rightarrow> (error, expr \<times> 'f token list) res option"
  assumes "\<And>ts. length ts < n \<Longrightarrow> leaves (length ts - 1) snd (sub ts)" "length ts \<le> n"
  shows "leaves (length ts - 1) snd (p_operand sub lib line ts)"
proof (cases ts)
  case (Cons t ts')
  have "leaves (length ts') snd (obind (sub ts') (\<lambda>(inner, ts).
      case ts of TRParen # ts'' \<Rightarrow> Some (Inr (inner, ts'')) | _ \<Rightarrow> Some (Inl (template_err line ''missing `)`'' []))))"
    if "t = TLParen"
    by (rule leaves_bind [OF assms(1)]) (use assms(2) Cons in \<open>auto split: list.split token.split\<close>)
  then show ?thesis by (auto simp: p_operand_def Cons split: token.split)
qed (simp add: p_operand_def)

lemma p_args_leaves:
  fixes sub :: "'f token list \<Rightarrow> (error, expr \<times> 'f token list) res option"
  assumes "\<And>ts. length ts < n \<Longrightarrow> leaves (length ts - 1) snd (sub ts)" "length ts \<le> n" "length ts < m"
  shows "leaves (length ts) snd (p_args m sub lib line ts)"
  using assms(2,3)
proof (induction m arbitrary: ts)
  case (Suc m)
  show ?case
  proof (cases "ends_command ts")
    case False
    then have "ts \<noteq> []" by (auto simp: ends_command_def)
    have "leaves (length ts) snd (obind (p_operand sub lib line ts) (\<lambda>(a, ts).
        obind (p_args m sub lib line ts) (\<lambda>(args, ts). Some (Inr (a # args, ts)))))"
    proof (rule leaves_bind [OF p_operand_leaves [OF assms(1) Suc(2)]])
      fix x :: "expr \<times> 'f token list" assume x: "length (snd x) \<le> length ts - 1"
      have "leaves (length (snd x)) snd (p_args m sub lib line (snd x))"
        by (rule Suc(1)) (use x Suc(2,3) \<open>ts \<noteq> []\<close> in \<open>cases ts; simp\<close>)+
      with x show "leaves (length ts) snd (case x of (a, ts) \<Rightarrow>
          obind (p_args m sub lib line ts) (\<lambda>(args, ts). Some (Inr (a # args, ts))))"
        by (auto simp: case_prod_unfold intro!: leaves_bind)
    qed
    then show ?thesis using False by simp
  qed simp
qed simp

lemma p_command_leaves:
  fixes sub :: "'f token list \<Rightarrow> (error, expr \<times> 'f token list) res option"
  assumes "\<And>ts. length ts < n \<Longrightarrow> leaves (length ts - 1) snd (sub ts)" "length ts \<le> n"
  shows "leaves (length ts - 1) snd (p_command sub lib line ts)"
  unfolding p_command_def
proof (rule leaves_bind [OF p_operand_leaves [OF assms]])
  fix x :: "expr \<times> 'f token list" assume x: "length (snd x) \<le> length ts - 1"
  have "leaves (length (snd x)) snd (p_args (Suc (length (snd x))) sub lib line (snd x))"
    by (rule p_args_leaves [OF assms(1)]) (use x assms(2) in auto)
  moreover have "leaves (length ts - 1) snd (Some (res_map (\<lambda>e. (e, r)) q))" if "length r \<le> length ts - 1"
    for r :: "'f token list" and q :: "(error, expr) res" using that by (cases q) (simp_all add: res_map_def)
  ultimately show "leaves (length ts - 1) snd (case x of (first, ts) \<Rightarrow>
      obind (p_args (Suc (length ts)) sub lib line ts) (\<lambda>(args, ts). Some (res_map (\<lambda>e. (e, ts)) (apply_args line first args))))"
    using x by (auto simp: case_prod_unfold simp del: p_args.simps intro!: leaves_bind)
qed

lemma p_pipe_loop_leaves:
  fixes sub :: "'f token list \<Rightarrow> (error, expr \<times> 'f token list) res option"
  assumes "\<And>ts. length ts < n \<Longrightarrow> leaves (length ts - 1) snd (sub ts)" "length ts \<le> n" "length ts < m"
  shows "leaves (length ts) snd (p_pipe_loop m sub lib line e ts)"
  using assms(2,3)
proof (induction m arbitrary: e ts)
  case (Suc m)
  have "leaves (length ts) snd (obind (p_command sub lib line ts') (\<lambda>(rhs, ts). p_pipe_loop m sub lib line (EPipe e rhs) ts))"
    if ts: "ts = TPipe # ts'" for ts'
  proof (rule leaves_bind [OF p_command_leaves [OF assms(1)]])
    fix x :: "expr \<times> 'f token list" assume x: "length (snd x) \<le> length ts' - 1"
    have "leaves (length (snd x)) snd (p_pipe_loop m sub lib line (EPipe e (fst x)) (snd x))"
      by (rule Suc(1)) (use x Suc(2,3) ts in auto)
    then show "leaves (length ts) snd (case x of (rhs, ts) \<Rightarrow> p_pipe_loop m sub lib line (EPipe e rhs) ts)"
      using x ts by (auto simp: case_prod_unfold intro: leaves_mono)
  qed (use Suc(2) ts in auto)
  then show ?case by (auto split: list.split token.split)
qed simp

lemma p_pipeline_leaves: "length ts < n \<Longrightarrow> leaves (length ts - 1) snd (p_pipeline n lib line ts)"
proof (induction n arbitrary: ts)
  case (Suc n)
  have "leaves (length ts - 1) snd (case x of (e, ts) \<Rightarrow> p_pipe_loop (Suc (length ts)) (p_pipeline n lib line) lib line e ts)"
    if x: "length (snd x) \<le> length ts - 1" for x
  proof -
    have "leaves (length (snd x)) snd (p_pipe_loop (Suc (length (snd x))) (p_pipeline n lib line) lib line (fst x) (snd x))"
      by (rule p_pipe_loop_leaves [OF Suc(1)]) (use x Suc(2) in auto)
    then show ?thesis using x by (simp add: case_prod_unfold leaves_mono del: p_pipe_loop.simps)
  qed
  moreover have "length ts \<le> n" using Suc(2) by simp
  ultimately show ?case by (auto simp del: p_pipe_loop.simps intro!: leaves_bind [OF p_command_leaves [OF Suc(1)]])
qed simp

lemma pipeline_Some: "pipeline lib ts line \<noteq> None"
  using leaves_not_None [OF p_pipeline_leaves [of ts "Suc (length ts)" lib line]]
  by (auto simp: pipeline_def obind_None simp del: p_pipeline.simps)

lemma action_node_Some: "action_node lib ts line \<noteq> None"
  by (auto simp: action_node_def assignment_def obind_None pipeline_Some iff del: not_None_eq split: option.splits list.splits token.splits)

lemma control_leaves:
  assumes sub: "\<And>items. length items < n \<Longrightarrow> leaves (length items) (\<lambda>y. snd (snd y)) (sub items)" and l: "length items < n"
  shows "leaves (length items) snd (control sub lib tokens line is_range items)"
proof -
  let ?m = "length items" and ?rest = "\<lambda>y :: node list \<times> terminator \<times> 'a item list. snd (snd y)"
  have more: "leaves ?m ?rest (case t of
      Some (t', _) \<Rightarrow> if t' = ''else'' then sub r else Some (Inr ([], t, r)) | None \<Rightarrow> Some (Inr ([], t, r)))" if "length r \<le> ?m" for t r
    using that leaves_mono [OF sub [of r] that] l by (auto split: option.split)
  have tail: "leaves ?m snd (obind (sub items) (\<lambda>(body, t, r).
      obind (case t of Some (t', _) \<Rightarrow> if t' = ''else'' then sub r else Some (Inr ([], t, r)) | None \<Rightarrow> Some (Inr ([], t, r)))
        (\<lambda>(otherwise, t, r). g body otherwise t r)))"
    if "\<And>body otherwise t r. length r \<le> ?m \<Longrightarrow> leaves ?m snd (g body otherwise t r)"
    for g :: "node list \<Rightarrow> node list \<Rightarrow> terminator \<Rightarrow> 'a item list \<Rightarrow> (error, node \<times> 'a item list) res option"
    by (rule leaves_bind [OF sub [OF l]]) (auto intro!: leaves_bind [OF more] that)
  have pipe: "leaves ?m snd (obind (pipeline lib ts line) f)" if "\<And>x. leaves ?m snd (f x)"
    for f :: "expr \<Rightarrow> (error, node \<times> 'a item list) res option" and ts
    using pipeline_Some [of lib ts line] that by (cases "pipeline lib ts line") (auto simp: obind_def split: sum.split)
  have opt: "leaves ?m snd (obind (Some q) f)" if "\<And>x. leaves ?m snd (f x)"
    for f :: "'c \<Rightarrow> (error, node \<times> 'a item list) res option" and q using that by (cases q) auto
  show ?thesis
    unfolding control_def Let_def
    by (auto intro!: opt pipe tail split: option.split)
qed

lemma block_leaves: "length items < n \<Longrightarrow> leaves (length items) (\<lambda>y. snd (snd y)) (block n lib items)"
proof (induction n arbitrary: items)
  case (Suc n)
  have nodes: "leaves k (\<lambda>y. snd (snd y)) (obind (block n lib is) (\<lambda>(nodes, r). Some (Inr (x # nodes, r))))"
    if "length is < n" "length is \<le> k" for x "is" k
    by (rule leaves_bind [OF Suc(1) [OF that(1)]]) (use that in auto)
  show ?case
  proof (cases items)
    case (Cons item "is")
    then have l: "length is < n" using Suc(2) by simp
    have act: "leaves (length is) snd (if p then control (block n lib) lib tokens line q is
        else obind (action_node lib tokens line) (\<lambda>node. Some (Inr (node, is))))" for p q tokens line
      using control_leaves [OF Suc(1) l] action_node_Some [of lib tokens line]
      by (auto simp: obind_def leaves_def split: sum.splits)
    have "leaves (length items) (\<lambda>y. snd (snd y)) (obind (if p then control (block n lib) lib tokens line q is
        else obind (action_node lib tokens line) (\<lambda>node. Some (Inr (node, is))))
        (\<lambda>(node, items). obind (block n lib items) (\<lambda>(nodes, r). Some (Inr (node # nodes, r)))))" for p q tokens line
      by (rule leaves_bind [OF act]) (use l Cons in \<open>auto intro!: nodes\<close>)
    moreover have "leaves (Suc (length is)) (\<lambda>y. snd (snd y)) (block n lib is)" using leaves_mono [OF Suc(1) [OF l]] by simp
    ultimately show ?thesis using nodes l Cons by (auto split: item.split simp del: if_split)
  qed simp
qed simp

lemma parse_Some: "parse lib src \<noteq> None"
  using leaves_not_None [OF block_leaves [OF lessI]]
  by (auto simp: parse_def obind_None simp del: block.simps not_None_eq split: option.splits)

text \<open>
  C0.  Parsing a template always ends: the fuel given to the recursive descent, one more than the
  tokens of an action and than the items of the template, is never exhausted, whatever the text.
\<close>

theorem parse_total: "parse lib src \<noteq> None"
  by (rule parse_Some)

end
