(* ===== verification/Template_Eval.thy ===== *)
theory Template_Eval
  imports Template_Parse Tables Compat
begin

text \<open>
  \<open>crates/fjo/src/output/template/eval.rs\<close> and \<open>funcs.rs\<close>: rendering a parsed template over a
  document.  The state of a render is threaded; a result is \<open>None\<close> where the code panics
  (\<open>Tables\<close>, \<open>Ansi\<close>).  What the libraries know is a parameter: numbers of \<open>serde_json\<close> read as
  \<open>i64\<close> and \<open>f64\<close>, instants and their printing by \<open>jiff\<close>, the time of day.
\<close>

subsection \<open>The state\<close>

text \<open>
  Of a number in JSON: \<open>as_i64\<close>; whether \<open>as_f64\<close> is not zero; \<open>as_f64\<close> without a fraction, as
  \<open>i64\<close>; \<open>as_f64\<close> with six decimals.  Of a text: \<open>f64\<close> with six decimals; the instant it
  denotes (nanoseconds), its year in UTC and its second; \<open>te_strftime\<close> prints it in the local zone.
\<close>

record template_env =
  te_text :: text_lib
  te_term :: term_info
  te_json :: json_lib
  te_i64 :: "str \<Rightarrow> int option"
  te_nonzero :: "str \<Rightarrow> bool"
  te_integral :: "str \<Rightarrow> int option"
  te_fixed6 :: "str \<Rightarrow> str option"
  te_parse_fixed6 :: "str \<Rightarrow> str option"
  te_instant :: "str \<Rightarrow> int option"
  te_year :: "int \<Rightarrow> int"
  te_second :: "int \<Rightarrow> int"
  te_strftime :: "str \<Rightarrow> int \<Rightarrow> str"
  te_now :: int

record tctx =
  cx_root :: json
  cx_vars :: "(str \<times> json) list"
  cx_table :: table

definition ctx_new :: "json \<Rightarrow> term_info \<Rightarrow> tctx" where
  "ctx_new root t = \<lparr>cx_root = root, cx_vars = [], cx_table = table_new t\<rparr>"

definition flush_table :: "template_env \<Rightarrow> tctx \<Rightarrow> (str \<times> tctx) option" where
  "flush_table env ctx =
     (if table_is_empty (cx_table ctx) then Some ([], ctx)
      else map_option (\<lambda>s. (s, ctx\<lparr>cx_table := table_new (te_term env)\<rparr>)) (render_to_string (te_text env) (cx_table ctx)))"

subsection \<open>Values\<close>

fun lookup_path :: "json \<Rightarrow> str list \<Rightarrow> json" where
  "lookup_path v [] = v"
| "lookup_path v (s # path) =
     (case v of
        JObj m \<Rightarrow> (case map_of m s of Some w \<Rightarrow> lookup_path w path | None \<Rightarrow> JNull)
      | JArr items \<Rightarrow>
          (case parse_unsigned 64 s of
             Some i \<Rightarrow> if i < length items then lookup_path (items ! i) path else JNull
           | None \<Rightarrow> JNull)
      | _ \<Rightarrow> JNull)"

fun truthy :: "template_env \<Rightarrow> json \<Rightarrow> bool" where
  "truthy env JNull = False"
| "truthy env (JBool b) = b"
| "truthy env (JNum n) = te_nonzero env n"
| "truthy env (JStr s) = (s \<noteq> [])"
| "truthy env (JArr a) = (a \<noteq> [])"
| "truthy env (JObj m) = (m \<noteq> [])"

fun iterate :: "json \<Rightarrow> (json \<times> json) list" where
  "iterate (JArr items) = zip (map (\<lambda>i. JNum (show_nat i)) [0..<length items]) items"
| "iterate (JObj m) = map (\<lambda>(k, v). (JStr k, v)) m"
| "iterate _ = []"

fun to_text :: "template_env \<Rightarrow> json \<Rightarrow> str" where
  "to_text env JNull = []"
| "to_text env (JBool b) = (if b then ''true'' else ''false'')"
| "to_text env (JNum n) = n"
| "to_text env (JStr s) = s"
| "to_text env v = js_show (te_json env) v"

fun items_of :: "json \<Rightarrow> json list" where
  "items_of (JArr a) = a"
| "items_of JNull = []"
| "items_of v = [v]"

subsection \<open>Functions\<close>

definition FUNCTIONS :: "str list" where
  "FUNCTIONS = [''autocolor'', ''color'', ''hyperlink'', ''join'', ''pluck'', ''printf'', ''tablerender'', ''tablerow'',
     ''timeago'', ''timefmt'', ''truncate'']"

text \<open>The least and, if there is one, the greatest number of arguments.\<close>

definition arity :: "str \<Rightarrow> json list \<Rightarrow> nat \<Rightarrow> nat option \<Rightarrow> nat \<Rightarrow> (error, unit) res" where
  "arity func args lo hi line =
     (let n = length args in
      if lo \<le> n \<and> (case hi of Some h \<Rightarrow> n \<le> h | None \<Rightarrow> True) then Inr ()
      else
        let expected = (case hi of
              Some h \<Rightarrow> if lo = h then show_nat lo else show_nat lo @ '' to '' @ show_nat h
            | None \<Rightarrow> ''at least '' @ show_nat lo)
        in Inl (template_err line ''{func} takes {expected} argument(s), got {n}'' [func, expected, show_nat n]))"

definition as_usize :: "template_env \<Rightarrow> json \<Rightarrow> str \<Rightarrow> nat \<Rightarrow> (error, nat) res" where
  "as_usize env v func line =
     (case (case v of JNum t \<Rightarrow> te_i64 env t | JStr s \<Rightarrow> parse_i64 s | _ \<Rightarrow> None) of
        Some n \<Rightarrow> if 0 \<le> n then Inr (nat n)
                  else Inl (template_err line ''{func} needs a non-negative number, got {v}'' [func, js_show (te_json env) v])
      | None \<Rightarrow> Inl (template_err line ''{func} needs a non-negative number, got {v}'' [func, js_show (te_json env) v]))"

definition tpl_as_i64 :: "template_env \<Rightarrow> json \<Rightarrow> int option" where
  "tpl_as_i64 env v =
     (case v of
        JNum t \<Rightarrow> (case te_i64 env t of Some n \<Rightarrow> Some n | None \<Rightarrow> te_integral env t)
      | JStr s \<Rightarrow> parse_i64 (trim s)
      | _ \<Rightarrow> None)"

definition tpl_fixed6 :: "template_env \<Rightarrow> json \<Rightarrow> str option" where
  "tpl_fixed6 env v = (case v of JNum t \<Rightarrow> te_fixed6 env t | JStr s \<Rightarrow> te_parse_fixed6 env (trim s) | _ \<Rightarrow> None)"

datatype piece = Lit str | Verb char

definition PRINTF_VERBS :: "str list" where
  "PRINTF_VERBS = [''%v'', ''%s'', ''%d'', ''%f'', ''%q'', ''%%'']"

definition is_verb :: "str \<Rightarrow> bool" where
  "is_verb c \<longleftrightarrow> List.member [''v'', ''s'', ''d'', ''f'', ''q''] c"

definition flush_lit :: "str \<Rightarrow> piece list" where
  "flush_lit lit = (if lit \<noteq> [] then [Lit lit] else [])"

fun format_pieces :: "str \<Rightarrow> nat \<Rightarrow> str list \<Rightarrow> str \<Rightarrow> (error, piece list) res" where
  "format_pieces fmt line [] lit = Inr (flush_lit lit)"
| "format_pieces fmt line (c # cs) lit =
     (if c \<noteq> ''%'' then format_pieces fmt line cs (lit @ c)
      else (case cs of
              [] \<Rightarrow> Inl (template_err line ''printf format {format:?} ends with a lone `%`; write `%%` for a literal percent sign'' [fmt])
            | verb # cs' \<Rightarrow>
                if verb = ''%'' then format_pieces fmt line cs' (lit @ ''%'')
                else if \<not> is_verb verb
                then Inl (template_err line ''printf does not support `%{verb}`; supported verbs are {} (width, precision, and flags such as `%-10s` or `%.2f` are not supported)''
                       [verb, join '', '' PRINTF_VERBS])
                else res_map (\<lambda>ps. flush_lit lit @ Verb (hd verb) # ps) (format_pieces fmt line cs' [])))"

definition parse_format :: "str \<Rightarrow> nat \<Rightarrow> (error, piece list) res" where
  "parse_format fmt line = format_pieces fmt line (chars fmt) []"

definition verb_mismatch :: "template_env \<Rightarrow> char \<Rightarrow> str \<Rightarrow> json \<Rightarrow> nat \<Rightarrow> error" where
  "verb_mismatch env verb wanted arg line =
     template_err line ''printf `%{verb}` needs {wanted}, got {arg}'' [[verb], wanted, js_show (te_json env) arg]"

definition format_verb :: "template_env \<Rightarrow> char \<Rightarrow> json \<Rightarrow> nat \<Rightarrow> (error, str) res" where
  "format_verb env verb arg line =
     (if verb = CHR ''v'' \<or> verb = CHR ''s'' then Inr (to_text env arg)
      else if verb = CHR ''d'' then
        (case tpl_as_i64 env arg of Some n \<Rightarrow> Inr (show_int n) | None \<Rightarrow> Inl (verb_mismatch env verb ''an integer'' arg line))
      else if verb = CHR ''f'' then
        (case tpl_fixed6 env arg of Some t \<Rightarrow> Inr t | None \<Rightarrow> Inl (verb_mismatch env verb ''a number'' arg line))
      else if verb = CHR ''q'' then Inr (js_show (te_json env) (JStr (to_text env arg)))
      else Inl (template_err line ''printf does not support `%{other}`'' [[verb]]))"

definition is_verb_piece :: "piece \<Rightarrow> bool" where
  "is_verb_piece p = (case p of Verb _ \<Rightarrow> True | Lit _ \<Rightarrow> False)"

fun print_pieces :: "template_env \<Rightarrow> piece list \<Rightarrow> json list \<Rightarrow> nat \<Rightarrow> (error, str) res" where
  "print_pieces env [] args line = Inr []"
| "print_pieces env (Lit s # ps) args line = res_map ((@) s) (print_pieces env ps args line)"
| "print_pieces env (Verb v # ps) args line =
     res_bind (format_verb env v (hd args) line) (\<lambda>s. res_map ((@) s) (print_pieces env ps (tl args) line))"

definition printf :: "template_env \<Rightarrow> str \<Rightarrow> json list \<Rightarrow> nat \<Rightarrow> (error, str) res" where
  "printf env fmt args line =
     res_bind (parse_format fmt line) (\<lambda>pieces.
       let verbs = length (filter is_verb_piece pieces) in
       if verbs \<noteq> length args
       then Inl (template_err line ''printf format {format:?} has {verbs} verb(s) but got {} argument(s)''
              [fmt, show_nat verbs, show_nat (length args)])
       else print_pieces env pieces args line)"

subsection \<open>Time\<close>

definition LAYOUTS :: "(str \<times> str) list" where
  "LAYOUTS =
     [(''2006-01-02'', ''%Y-%m-%d''), (''2006-01-02 15:04:05'', ''%Y-%m-%d %H:%M:%S''), (''15:04'', ''%H:%M''),
      (''RFC3339'', ''%Y-%m-%dT%H:%M:%S%:z''), (''RFC1123'', ''%a, %d %b %Y %H:%M:%S %Z''), (''Kitchen'', ''%-I:%M%p''),
      (''DateOnly'', ''%Y-%m-%d''), (''TimeOnly'', ''%H:%M:%S'')]"

definition parse_timestamp :: "template_env \<Rightarrow> str \<Rightarrow> int option" where
  "parse_timestamp env value =
     (let trimmed = trim value in
      if trimmed = [] then None
      else (case te_instant env trimmed of None \<Rightarrow> None | Some ts \<Rightarrow> if \<not> ts_is_unset (te_year env) (te_second env) ts then Some ts else None))"

definition timefmt :: "template_env \<Rightarrow> str \<Rightarrow> str \<Rightarrow> nat \<Rightarrow> (error, str) res" where
  "timefmt env layout value line =
     (case map_of LAYOUTS layout of
        None \<Rightarrow> Inl (template_err line ''timefmt layout {layout:?} is not supported; use one of: {}'' [layout, join '', '' (map fst LAYOUTS)])
      | Some f \<Rightarrow> Inr (case parse_timestamp env value of Some ts \<Rightarrow> te_strftime env f ts | None \<Rightarrow> []))"

definition plural_units :: "nat \<Rightarrow> str \<Rightarrow> str" where
  "plural_units n unit = (if n = 1 then ''1 '' @ unit else show_nat n @ '' '' @ unit @ ''s'')"

text \<open>The whole seconds of a difference, rounded towards zero, and their phrase.\<close>

definition whole_seconds :: "int \<Rightarrow> nat" where
  "whole_seconds d = nat (\<bar>d\<bar> div 1000000000)"

definition ago_phrase :: "nat \<Rightarrow> str" where
  "ago_phrase s =
     (if s < 60 then ''less than a minute''
      else if s < 2700 then plural_units (s div 60) ''minute''
      else if s < 5400 then ''about 1 hour''
      else if s < 86400 then ''about '' @ plural_units (s div 3600) ''hour''
      else if s < 2592000 then plural_units (s div 86400) ''day''
      else if s < 31536000 then plural_units (s div 2592000) ''month''
      else plural_units (s div 31536000) ''year'')"

definition timeago_between :: "int \<Rightarrow> int \<Rightarrow> str" where
  "timeago_between now before =
     (let s = whole_seconds (now - before); future = now < before \<and> 0 < s
      in if future then ''in '' @ ago_phrase s else ago_phrase s @ '' ago'')"

definition timeago :: "template_env \<Rightarrow> str \<Rightarrow> str" where
  "timeago env value = (case parse_timestamp env value of Some ts \<Rightarrow> timeago_between (te_now env) ts | None \<Rightarrow> [])"


subsection \<open>Calls\<close>

text \<open>A call that leaves the state as it is.\<close>

definition pure_call :: "tctx \<Rightarrow> (error, json) res \<Rightarrow> (error, json \<times> tctx) res option" where
  "pure_call ctx r = Some (res_map (\<lambda>v. (v, ctx)) r)"

definition checked_call ::
  "(error, unit) res \<Rightarrow> (error, json \<times> tctx) res option \<Rightarrow> (error, json \<times> tctx) res option" where
  "checked_call a r = obind (Some a) (\<lambda>_. r)"

definition call :: "template_env \<Rightarrow> tctx \<Rightarrow> str \<Rightarrow> json list \<Rightarrow> nat \<Rightarrow> (error, json \<times> tctx) res option" where
  "call env ctx name args line =
     (let txt = to_text env; a0 = args ! 0; a1 = args ! 1 in
      if name = ''tablerow'' then
        checked_call (arity name args 1 None line)
          (Some (Inr (JStr [], ctx\<lparr>cx_table := add_row (map txt args) (cx_table ctx)\<rparr>)))
      else if name = ''tablerender'' then
        checked_call (arity name args 0 (Some 0) line)
          (map_option (\<lambda>(s, ctx). Inr (JStr s, ctx)) (flush_table env ctx))
      else if name = ''timeago'' then
        checked_call (arity name args 1 (Some 1) line) (pure_call ctx (Inr (JStr (timeago env (txt a0)))))
      else if name = ''timefmt'' then
        checked_call (arity name args 2 (Some 2) line) (pure_call ctx (res_map JStr (timefmt env (txt a0) (txt a1) line)))
      else if name = ''truncate'' then
        checked_call (arity name args 2 (Some 2) line)
          (obind (Some (as_usize env a0 name line)) (\<lambda>n.
             map_option (\<lambda>s. Inr (JStr s, ctx)) (truncate_visible (te_text env) (txt a1) n)))
      else if name = ''color'' then
        checked_call (arity name args 2 (Some 2) line)
          (pure_call ctx (case style_by_name (txt a0) of
              Some st \<Rightarrow> Inr (JStr (paint (te_text env) (te_term env) st (txt a1)))
            | None \<Rightarrow> Inl (template_err line ''color {spec:?} is not one of: {}'' [txt a0, join '', '' STYLE_NAMES])))
      else if name = ''autocolor'' then
        checked_call (arity name args 1 (Some 2) line)
          (pure_call ctx (Inr (JStr
             (if length args = 1 then autocolor (te_text env) (te_term env) (txt a0)
              else (case style_by_name (txt a0) of
                      Some st \<Rightarrow> paint (te_text env) (te_term env) st (txt a1) | None \<Rightarrow> txt a1)))))
      else if name = ''join'' then
        checked_call (arity name args 2 (Some 2) line) (pure_call ctx (Inr (JStr (join (txt a0) (map txt (items_of a1))))))
      else if name = ''pluck'' then
        checked_call (arity name args 2 (Some 2) line)
          (pure_call ctx (Inr (JArr (map (\<lambda>v. case json_get v (txt a0) of Some w \<Rightarrow> w | None \<Rightarrow> JNull) (items_of a1)))))
      else if name = ''printf'' then
        checked_call (arity name args 1 None line) (pure_call ctx (res_map JStr (printf env (txt a0) (tl args) line)))
      else if name = ''hyperlink'' then
        checked_call (arity name args 1 (Some 2) line)
          (pure_call ctx (Inr (JStr (hyperlink (te_term env) (txt a0) (if length args = 2 then txt a1 else txt a0)))))
      else Some (Inl (template_err line ''unknown function {other:?}; available: {}'' [name, join '', '' FUNCTIONS])))"

subsection \<open>Evaluation\<close>

fun line_of :: "expr \<Rightarrow> nat" where
  "line_of (ECall _ _ line) = line"
| "line_of _ = 0"

definition lookup_var :: "tctx \<Rightarrow> str \<Rightarrow> json" where
  "lookup_var ctx name = (case map_of (rev (cx_vars ctx)) name of Some v \<Rightarrow> v | None \<Rightarrow> JNull)"

fun eval :: "template_env \<Rightarrow> json \<Rightarrow> tctx \<Rightarrow> expr \<Rightarrow> (error, json \<times> tctx) res option"
and eval_args :: "template_env \<Rightarrow> json \<Rightarrow> tctx \<Rightarrow> expr list \<Rightarrow> (error, json list \<times> tctx) res option" where
  "eval env dot ctx ERoot = Some (Inr (cx_root ctx, ctx))"
| "eval env dot ctx (EField path) = Some (Inr (lookup_path dot path, ctx))"
| "eval env dot ctx (EVar name) = Some (Inr (lookup_var ctx name, ctx))"
| "eval env dot ctx (EAccess base path) = obind (eval env dot ctx base) (\<lambda>(v, ctx). Some (Inr (lookup_path v path, ctx)))"
| "eval env dot ctx (ELit v) = Some (Inr (v, ctx))"
| "eval env dot ctx (ECall name args line) =
     obind (eval_args env dot ctx args) (\<lambda>(values, ctx). call env ctx name values line)"
| "eval env dot ctx (EPipe lhs rhs) =
     obind (eval env dot ctx lhs) (\<lambda>(piped, ctx).
       case rhs of
         ECall name args line \<Rightarrow>
           obind (eval_args env dot ctx args) (\<lambda>(values, ctx). call env ctx name (values @ [piped]) line)
       | other \<Rightarrow> Some (Inl (template_err (line_of other) ''the right side of `|` must be a function'' [])))"
| "eval_args env dot ctx [] = Some (Inr ([], ctx))"
| "eval_args env dot ctx (a # args) =
     obind (eval env dot ctx a) (\<lambda>(v, ctx). obind (eval_args env dot ctx args) (\<lambda>(vs, ctx). Some (Inr (v # vs, ctx))))"

definition push_var :: "str option \<Rightarrow> json \<Rightarrow> tctx \<Rightarrow> tctx" where
  "push_var name v ctx = (case name of Some n \<Rightarrow> ctx\<lparr>cx_vars := cx_vars ctx @ [(n, v)]\<rparr> | None \<Rightarrow> ctx)"

definition truncate_vars :: "nat \<Rightarrow> tctx \<Rightarrow> tctx" where
  "truncate_vars depth ctx = ctx\<lparr>cx_vars := take depth (cx_vars ctx)\<rparr>"

text \<open>A block whose bindings end with it.\<close>

definition scoped :: "tctx \<Rightarrow> (error, str \<times> tctx) res option \<Rightarrow> (error, str \<times> tctx) res option" where
  "scoped ctx r = obind r (\<lambda>(out, ctx'). Some (Inr (out, truncate_vars (length (cx_vars ctx)) ctx')))"

fun each_pair :: "(json \<Rightarrow> json \<Rightarrow> tctx \<Rightarrow> (error, str \<times> tctx) res option) \<Rightarrow> (json \<times> json) list \<Rightarrow> tctx \<Rightarrow> (error, str \<times> tctx) res option" where
  "each_pair f [] ctx = Some (Inr ([], ctx))"
| "each_pair f ((k, v) # pairs) ctx =
     obind (f k v ctx) (\<lambda>(out, ctx). obind (each_pair f pairs ctx) (\<lambda>(out', ctx). Some (Inr (out @ out', ctx))))"

fun walk_node :: "template_env \<Rightarrow> json \<Rightarrow> tctx \<Rightarrow> node \<Rightarrow> (error, str \<times> tctx) res option"
and walk :: "template_env \<Rightarrow> json \<Rightarrow> tctx \<Rightarrow> node list \<Rightarrow> (error, str \<times> tctx) res option" where
  "walk_node env dot ctx (NText t) = Some (Inr (t, ctx))"
| "walk_node env dot ctx (NEmit e line) = obind (eval env dot ctx e) (\<lambda>(v, ctx). Some (Inr (to_text env v, ctx)))"
| "walk_node env dot ctx (NAssign name e line) =
     obind (eval env dot ctx e) (\<lambda>(v, ctx). Some (Inr ([], push_var (Some name) v ctx)))"
| "walk_node env dot ctx (NIf cond yes no line) =
     obind (eval env dot ctx cond) (\<lambda>(v, ctx).
       if truthy env v then scoped ctx (walk env dot ctx yes) else scoped ctx (walk env dot ctx no))"
| "walk_node env dot ctx (NRange over key val body otherwise line) =
     obind (eval env dot ctx over) (\<lambda>(subject, ctx).
       if iterate subject = [] then scoped ctx (walk env dot ctx otherwise)
       else each_pair (\<lambda>k v ctx. scoped ctx (walk env v (push_var val v (push_var key k ctx)) body)) (iterate subject) ctx)"
| "walk env dot ctx [] = Some (Inr ([], ctx))"
| "walk env dot ctx (n # ns) =
     obind (walk_node env dot ctx n) (\<lambda>(out, ctx). obind (walk env dot ctx ns) (\<lambda>(out', ctx). Some (Inr (out @ out', ctx))))"

definition render :: "template_env \<Rightarrow> node list \<Rightarrow> json \<Rightarrow> (error, str) res option" where
  "render env nodes data =
     obind (walk env data (ctx_new data (te_term env)) nodes) (\<lambda>(out, ctx).
       map_option (\<lambda>(s, _). Inr (out @ s)) (flush_table env ctx))"

subsection \<open>What a render leaves alone\<close>

text \<open>What evaluation leaves alone: the document and the bindings.\<close>

definition same_scope :: "tctx \<Rightarrow> tctx \<Rightarrow> bool" where
  "same_scope ctx ctx' \<longleftrightarrow> cx_root ctx' = cx_root ctx \<and> cx_vars ctx' = cx_vars ctx"

lemma same_scope_refl [simp]: "same_scope ctx ctx"
  by (simp add: same_scope_def)

lemma same_scope_trans: "same_scope a b \<Longrightarrow> same_scope b c \<Longrightarrow> same_scope a c"
  by (simp add: same_scope_def)

lemma pure_call_Inr: "pure_call ctx r = Some (Inr (v, ctx')) \<Longrightarrow> ctx' = ctx"
  by (auto simp: pure_call_def res_map_eq_Inr)

lemma flush_table_scope: "flush_table env ctx = Some (s, ctx') \<Longrightarrow> same_scope ctx ctx'"
  by (auto simp: flush_table_def same_scope_def split: if_splits)

lemma call_scope: "call env ctx name args line = Some (Inr (v, ctx')) \<Longrightarrow> same_scope ctx ctx'"
  unfolding call_def Let_def checked_call_def
  by (auto simp: obind_Inr dest!: pure_call_Inr flush_table_scope split: if_splits)
    (simp_all add: same_scope_def)

lemma eval_scope:
  "eval env dot ctx e = Some (Inr (v, ctx')) \<Longrightarrow> same_scope ctx ctx'"
  "eval_args env dot ctx es = Some (Inr (vs, ctx')) \<Longrightarrow> same_scope ctx ctx'"
proof (induction env dot ctx e and env dot ctx es arbitrary: v ctx' and vs ctx' rule: eval_eval_args.induct)
  case (6 env dot ctx name args line)
  then show ?case by (auto simp: obind_Inr) (blast intro: same_scope_trans call_scope)
next
  case (7 env dot ctx lhs rhs)
  then obtain piped c where l: "eval env dot ctx lhs = Some (Inr (piped, c))" by (auto simp: obind_Inr)
  then obtain name args line where r: "rhs = ECall name args line" using 7(3) by (cases rhs) auto
  then obtain vals c' where a: "eval_args env dot c args = Some (Inr (vals, c'))"
    "call env c' name (vals @ [piped]) line = Some (Inr (v, ctx'))" using 7(3) l by (auto simp: obind_Inr)
  show ?case using 7(1) [OF l] 7(2) [OF r a(1)] call_scope [OF a(2)] by (blast intro: same_scope_trans)
next
  case (9 env dot ctx a args)
  then show ?case by (auto simp: obind_Inr) (blast intro: same_scope_trans)
qed (auto simp: obind_Inr)

text \<open>The names that the assignments of a list of nodes bind.\<close>

fun assigned :: "node \<Rightarrow> str list" where
  "assigned (NAssign name _ _) = [name]"
| "assigned _ = []"

definition bound_by :: "tctx \<Rightarrow> str list \<Rightarrow> tctx \<Rightarrow> bool" where
  "bound_by ctx names ctx' \<longleftrightarrow>
     cx_root ctx' = cx_root ctx \<and> (\<exists>bs. cx_vars ctx' = cx_vars ctx @ bs \<and> map fst bs = names)"

lemma bound_by_scope: "same_scope ctx ctx' \<Longrightarrow> bound_by ctx [] ctx'"
  by (simp add: same_scope_def bound_by_def)

lemma bound_by_trans: "bound_by a xs b \<Longrightarrow> bound_by b ys c \<Longrightarrow> bound_by a (xs @ ys) c"
  by (fastforce simp: bound_by_def)

lemma scoped_scope:
  "scoped ctx r = Some (Inr (out, ctx'')) \<Longrightarrow> (\<And>out c. r = Some (Inr (out, c)) \<Longrightarrow> \<exists>bs. cx_root c = cx_root ctx \<and> cx_vars c = cx_vars ctx @ bs)
   \<Longrightarrow> same_scope ctx ctx''"
  by (fastforce simp: scoped_def obind_Inr truncate_vars_def same_scope_def)

lemma each_pair_scope:
  "each_pair f pairs ctx = Some (Inr (out, ctx')) \<Longrightarrow>
   (\<And>k v c out c'. f k v c = Some (Inr (out, c')) \<Longrightarrow> same_scope c c') \<Longrightarrow> same_scope ctx ctx'"
  by (induction f pairs ctx arbitrary: out ctx' rule: each_pair.induct) (auto simp: obind_Inr, blast intro: same_scope_trans)

lemma push_var_bound: "cx_root (push_var name v ctx) = cx_root ctx \<and> (\<exists>bs. cx_vars (push_var name v ctx) = cx_vars ctx @ bs)"
  by (cases name) (auto simp: push_var_def)

lemma walk_bound:
  "walk_node env dot ctx n = Some (Inr (out, ctx')) \<Longrightarrow> bound_by ctx (assigned n) ctx'"
  "walk env dot ctx ns = Some (Inr (out, ctx')) \<Longrightarrow> bound_by ctx (concat (map assigned ns)) ctx'"
proof (induction env dot ctx n and env dot ctx ns arbitrary: out ctx' and out ctx' rule: walk_node_walk.induct)
  case (1 env dot ctx t)
  then show ?case by (simp add: bound_by_def)
next
  case (2 env dot ctx e line)
  then show ?case by (auto simp: obind_Inr dest!: eval_scope(1) intro: bound_by_scope)
next
  case (3 env dot ctx name e line)
  then obtain v c where "eval env dot ctx e = Some (Inr (v, c))" "ctx' = push_var (Some name) v c" by (auto simp: obind_Inr)
  then show ?case using eval_scope(1) by (fastforce simp: bound_by_def same_scope_def push_var_def)
next
  case (4 env dot ctx cond yes no line)
  then obtain v c where e: "eval env dot ctx cond = Some (Inr (v, c))"
    and w: "(if truthy env v then scoped c (walk env dot c yes) else scoped c (walk env dot c no)) = Some (Inr (out, ctx'))"
    by (auto simp: obind_Inr)
  have "same_scope c ctx'"
  proof (cases "truthy env v")
    case True
    then have "scoped c (walk env dot c yes) = Some (Inr (out, ctx'))" using w by simp
    then show ?thesis by (rule scoped_scope) (use 4(1) [OF True] in \<open>fastforce simp: bound_by_def\<close>)
  next
    case False
    then have "scoped c (walk env dot c no) = Some (Inr (out, ctx'))" using w by simp
    then show ?thesis by (rule scoped_scope) (use 4(2) [OF False] in \<open>fastforce simp: bound_by_def\<close>)
  qed
  then show ?case using eval_scope(1) [OF e] by (auto intro: bound_by_scope same_scope_trans)
next
  case (5 env dot ctx over key val body otherwise line)
  then obtain subject c where e: "eval env dot ctx over = Some (Inr (subject, c))"
    and w: "(if iterate subject = [] then scoped c (walk env dot c otherwise)
       else each_pair (\<lambda>k v ctx. scoped ctx (walk env v (push_var val v (push_var key k ctx)) body)) (iterate subject) c) = Some (Inr (out, ctx'))"
    by (auto simp: obind_Inr)
  have "same_scope c ctx'"
  proof (cases "iterate subject = []")
    case True
    then have "scoped c (walk env dot c otherwise) = Some (Inr (out, ctx'))" using w by simp
    then show ?thesis by (rule scoped_scope) (use 5(1) [OF True] in \<open>fastforce simp: bound_by_def\<close>)
  next
    case False
    have "same_scope c1 c2" if "scoped c1 (walk env v (push_var val v (push_var key k c1)) body) = Some (Inr (o1, c2))" for k v c1 o1 c2
      using that
    proof (rule scoped_scope)
      fix o2 c3 assume "walk env v (push_var val v (push_var key k c1)) body = Some (Inr (o2, c3))"
      then have "bound_by (push_var val v (push_var key k c1)) (concat (map assigned body)) c3" by (rule 5(2) [OF False])
      then show "\<exists>bs. cx_root c3 = cx_root c1 \<and> cx_vars c3 = cx_vars c1 @ bs"
        using push_var_bound [of val v "push_var key k c1"] push_var_bound [of key k c1] by (fastforce simp: bound_by_def)
    qed
    then show ?thesis using w False each_pair_scope by (metis (no_types, lifting))
  qed
  then show ?case using eval_scope(1) [OF e] by (auto intro: bound_by_scope same_scope_trans)
next
  case (6 env dot ctx)
  then show ?case by (simp add: bound_by_def)
next
  case (7 env dot ctx n ns)
  then obtain o1 c o2 where w: "walk_node env dot ctx n = Some (Inr (o1, c))" "walk env dot c ns = Some (Inr (o2, ctx'))"
    by (auto simp: obind_Inr)
  show ?case using bound_by_trans [OF 7(1) [OF w(1)] 7(2) [OF w(2)]] by simp
qed

text \<open>Walking a list of nodes, in two parts.\<close>

lemma walk_append:
  "walk env dot ctx (xs @ ys) = obind (walk env dot ctx xs) (\<lambda>(out, ctx). obind (walk env dot ctx ys) (\<lambda>(out', ctx). Some (Inr (out @ out', ctx))))"
proof (induction xs arbitrary: ctx)
  case Nil
  have "r = obind r (\<lambda>(out', ctx). Some (Inr (out', ctx)))" for r :: "(error, str \<times> tctx) res option"
    by (auto simp: obind_def split: option.splits sum.splits)
  then show ?case by simp
next
  case (Cons x xs)
  show ?case by (simp add: Cons obind_assoc case_prod_unfold)
qed

subsection \<open>Templates that cannot fail\<close>

text \<open>
  What can be checked of a template without a document: every function exists and has as many
  arguments as it takes, the right side of a pipe is a function, and the first argument of
  \<open>timefmt\<close>, \<open>color\<close>, \<open>truncate\<close> and \<open>printf\<close> is a literal that they accept (\<open>printf\<close> with
  the verbs that take any value).
\<close>

definition literal :: "expr list \<Rightarrow> json option" where
  "literal args = (case args of ELit v # _ \<Rightarrow> Some v | _ \<Rightarrow> None)"

definition any_verb :: "piece \<Rightarrow> bool" where
  "any_verb p = (case p of Lit _ \<Rightarrow> True | Verb c \<Rightarrow> c = CHR ''v'' \<or> c = CHR ''s'' \<or> c = CHR ''q'')"

definition first_ok :: "template_env \<Rightarrow> str \<Rightarrow> json \<Rightarrow> nat \<Rightarrow> nat \<Rightarrow> bool" where
  "first_ok env name v n line =
     (if name = ''timefmt'' then n = 2 \<and> map_of LAYOUTS (to_text env v) \<noteq> None
      else if name = ''color'' then n = 2 \<and> style_by_name (to_text env v) \<noteq> None
      else if name = ''truncate'' then n = 2 \<and> \<not> isl (as_usize env v name line)
      else if name = ''printf'' then
        (case parse_format (to_text env v) line of
           Inr ps \<Rightarrow> n = Suc (length (filter is_verb_piece ps)) \<and> list_all any_verb ps
         | Inl _ \<Rightarrow> False)
      else False)"

definition call_ok :: "template_env \<Rightarrow> str \<Rightarrow> expr list \<Rightarrow> nat \<Rightarrow> nat \<Rightarrow> bool" where
  "call_ok env name args n line \<longleftrightarrow>
     name = ''tablerow'' \<and> 1 \<le> n \<or> name = ''tablerender'' \<and> n = 0 \<or> name = ''timeago'' \<and> n = 1
     \<or> (name = ''hyperlink'' \<or> name = ''autocolor'') \<and> (n = 1 \<or> n = 2) \<or> (name = ''join'' \<or> name = ''pluck'') \<and> n = 2
     \<or> (case literal args of Some v \<Rightarrow> first_ok env name v n line | None \<Rightarrow> False)"

fun safe_expr :: "template_env \<Rightarrow> expr \<Rightarrow> bool" where
  "safe_expr env (EAccess base _) = safe_expr env base"
| "safe_expr env (ECall name args line) \<longleftrightarrow> call_ok env name args (length args) line \<and> (\<forall>a\<in>set args. safe_expr env a)"
| "safe_expr env (EPipe lhs rhs) \<longleftrightarrow> safe_expr env lhs \<and>
     (case rhs of
        ECall name args line \<Rightarrow> call_ok env name args (Suc (length args)) line \<and> (\<forall>a\<in>set args. safe_expr env a)
      | _ \<Rightarrow> False)"
| "safe_expr env _ = True"

fun safe_node :: "template_env \<Rightarrow> node \<Rightarrow> bool" where
  "safe_node env (NText _) = True"
| "safe_node env (NEmit e _) = safe_expr env e"
| "safe_node env (NAssign _ e _) = safe_expr env e"
| "safe_node env (NIf cond yes no _) \<longleftrightarrow> safe_expr env cond \<and> (\<forall>n\<in>set yes. safe_node env n) \<and> (\<forall>n\<in>set no. safe_node env n)"
| "safe_node env (NRange over _ _ body otherwise _) \<longleftrightarrow>
     safe_expr env over \<and> (\<forall>n\<in>set body. safe_node env n) \<and> (\<forall>n\<in>set otherwise. safe_node env n)"

lemma print_pieces_any: "list_all any_verb ps \<Longrightarrow> print_pieces env ps args line \<noteq> Inl e"
  by (induction env ps args line arbitrary: e rule: print_pieces.induct)
    (auto simp: res_map_def res_bind_def any_verb_def format_verb_def split: sum.splits if_splits)

text \<open>The functions, one by one.\<close>

lemma call_simps:
  "call env ctx ''tablerow'' args line = checked_call (arity ''tablerow'' args 1 None line)
     (Some (Inr (JStr [], ctx\<lparr>cx_table := add_row (map (to_text env) args) (cx_table ctx)\<rparr>)))"
  "call env ctx ''tablerender'' args line = checked_call (arity ''tablerender'' args 0 (Some 0) line)
     (map_option (\<lambda>(s, ctx). Inr (JStr s, ctx)) (flush_table env ctx))"
  "call env ctx ''timeago'' args line = checked_call (arity ''timeago'' args 1 (Some 1) line)
     (pure_call ctx (Inr (JStr (timeago env (to_text env (args ! 0))))))"
  "call env ctx ''timefmt'' args line = checked_call (arity ''timefmt'' args 2 (Some 2) line)
     (pure_call ctx (res_map JStr (timefmt env (to_text env (args ! 0)) (to_text env (args ! 1)) line)))"
  "call env ctx ''truncate'' args line = checked_call (arity ''truncate'' args 2 (Some 2) line)
     (obind (Some (as_usize env (args ! 0) ''truncate'' line)) (\<lambda>n.
        map_option (\<lambda>s. Inr (JStr s, ctx)) (truncate_visible (te_text env) (to_text env (args ! 1)) n)))"
  "call env ctx ''color'' args line = checked_call (arity ''color'' args 2 (Some 2) line)
     (pure_call ctx (case style_by_name (to_text env (args ! 0)) of
         Some st \<Rightarrow> Inr (JStr (paint (te_text env) (te_term env) st (to_text env (args ! 1))))
       | None \<Rightarrow> Inl (template_err line ''color {spec:?} is not one of: {}'' [to_text env (args ! 0), join '', '' STYLE_NAMES])))"
  "call env ctx ''join'' args line = checked_call (arity ''join'' args 2 (Some 2) line)
     (pure_call ctx (Inr (JStr (join (to_text env (args ! 0)) (map (to_text env) (items_of (args ! 1)))))))"
  "call env ctx ''printf'' args line = checked_call (arity ''printf'' args 1 None line)
     (pure_call ctx (res_map JStr (printf env (to_text env (args ! 0)) (tl args) line)))"
  by (simp_all add: call_def Let_def del: One_nat_def split del: option.split)

lemma call_simps_no_error:
  "length args = 2 \<Longrightarrow> call env ctx ''pluck'' args line \<noteq> Some (Inl e)"
  "length args = 1 \<or> length args = 2 \<Longrightarrow> call env ctx ''hyperlink'' args line \<noteq> Some (Inl e)"
  "length args = 1 \<or> length args = 2 \<Longrightarrow> call env ctx ''autocolor'' args line \<noteq> Some (Inl e)"
  by (auto simp: call_def Let_def checked_call_def arity_def pure_call_def)

lemma first_ok_call:
  assumes "first_ok env name (args ! 0) (length args) line"
  shows "call env ctx name args line \<noteq> Some (Inl e)"
proof -
  consider "name = ''timefmt''" | "name = ''color''" | "name = ''truncate''" | "name = ''printf''"
    using assms by (auto simp: first_ok_def split: if_splits)
  then show ?thesis
  proof cases
    case 4
    then obtain ps where p: "parse_format (to_text env (args ! 0)) line = Inr ps"
      "length args = Suc (length (filter is_verb_piece ps))" "list_all any_verb ps"
      using assms by (auto simp: first_ok_def split: sum.splits)
    then show ?thesis using print_pieces_any [OF p(3)]
      by (auto simp: call_simps 4 checked_call_def arity_def pure_call_def printf_def res_map_def res_bind_def split: sum.splits)
  next
    case 3
    then show ?thesis using assms by (auto simp: call_simps first_ok_def checked_call_def arity_def obind_Inl)
  qed (use assms in \<open>auto simp: call_simps first_ok_def checked_call_def arity_def pure_call_def timefmt_def\<close>)
qed

lemma call_ok_call:
  assumes "call_ok env name es (length args) line" "\<forall>v. literal es = Some v \<longrightarrow> args ! 0 = v"
  shows "call env ctx name args line \<noteq> Some (Inl e)"
proof (cases "case literal es of Some v \<Rightarrow> first_ok env name v (length args) line | None \<Rightarrow> False")
  case True
  then show ?thesis using assms(2) first_ok_call by (auto split: option.splits)
next
  case False
  have "name = ''tablerow'' \<and> 1 \<le> length args \<or> name = ''tablerender'' \<and> length args = 0 \<or> name = ''timeago'' \<and> length args = 1
     \<or> (name = ''hyperlink'' \<or> name = ''autocolor'') \<and> (length args = 1 \<or> length args = 2) \<or> (name = ''join'' \<or> name = ''pluck'') \<and> length args = 2"
    using assms(1) False by (simp only: call_ok_def simp_thms)
  then show ?thesis
    by (elim disjE conjE)
      (simp_all add: call_simps call_simps_no_error checked_call_def arity_def pure_call_def map_option_case split: option.split)
qed

lemma eval_args_length:
  "eval_args env dot ctx es = Some (Inr (vs, ctx')) \<Longrightarrow> length vs = length es \<and> (\<forall>v. literal es = Some v \<longrightarrow> es \<noteq> [] \<and> vs ! 0 = v)"
proof (induction es arbitrary: ctx vs)
  case (Cons a es)
  then obtain v c ws where "eval env dot ctx a = Some (Inr (v, c))" "eval_args env dot c es = Some (Inr (ws, ctx'))" "vs = v # ws"
    by (auto simp: obind_Inr)
  then show ?case using Cons(1) by (auto simp: literal_def split: expr.splits)
qed (simp add: literal_def)

lemma eval_safe:
  "safe_expr env e \<Longrightarrow> eval env dot ctx e \<noteq> Some (Inl err)"
  "\<forall>a\<in>set es. safe_expr env a \<Longrightarrow> eval_args env dot ctx es \<noteq> Some (Inl err)"
proof (induction env dot ctx e and env dot ctx es arbitrary: err and err rule: eval_eval_args.induct)
  case (6 env dot ctx name args line)
  show ?case
  proof
    assume "eval env dot ctx (ECall name args line) = Some (Inl err)"
    moreover have "eval_args env dot ctx args \<noteq> Some (Inl err)" using 6 by simp
    ultimately obtain vals c where a: "eval_args env dot ctx args = Some (Inr (vals, c))" "call env c name vals line = Some (Inl err)"
      by (auto simp: obind_Inl)
    then show False using call_ok_call [of env name args vals line c err] eval_args_length [OF a(1)] 6(2) by simp
  qed
next
  case (7 env dot ctx lhs rhs)
  obtain name args line where r: "rhs = ECall name args line" using 7(3) by (cases rhs) auto
  show ?case
  proof
    assume "eval env dot ctx (EPipe lhs rhs) = Some (Inl err)"
    moreover have "eval env dot ctx lhs \<noteq> Some (Inl err)" using 7(1,3) by simp
    ultimately obtain piped c where l: "obind (eval_args env dot c args) (\<lambda>(vals, ctx). call env ctx name (vals @ [piped]) line) = Some (Inl err)"
      by (auto simp: obind_Inl r)
    moreover have "eval_args env dot c args \<noteq> Some (Inl err)" using 7(2) [OF r] 7(3) r by simp
    ultimately obtain vals c' where a: "eval_args env dot c args = Some (Inr (vals, c'))" "call env c' name (vals @ [piped]) line = Some (Inl err)"
      by (auto simp: obind_Inl)
    have "literal args = Some v \<longrightarrow> (vals @ [piped]) ! 0 = v" for v
      using eval_args_length [OF a(1)] by (auto simp: nth_append)
    then show False using call_ok_call [of env name args "vals @ [piped]" line c' err] eval_args_length [OF a(1)] 7(3) r a(2) by simp
  qed
qed (auto simp: obind_Inl)

lemma each_pair_safe:
  "(\<And>k v c e. f k v c \<noteq> Some (Inl e)) \<Longrightarrow> each_pair f pairs ctx \<noteq> Some (Inl e)"
  by (induction f pairs ctx arbitrary: e rule: each_pair.induct) (auto simp: obind_Inl)

lemma scoped_safe: "(\<And>e. r \<noteq> Some (Inl e)) \<Longrightarrow> scoped ctx r \<noteq> Some (Inl e)"
  by (auto simp: scoped_def obind_Inl)

lemma walk_safe:
  "safe_node env n \<Longrightarrow> walk_node env dot ctx n \<noteq> Some (Inl err)"
  "\<forall>n\<in>set ns. safe_node env n \<Longrightarrow> walk env dot ctx ns \<noteq> Some (Inl err)"
proof (induction env dot ctx n and env dot ctx ns arbitrary: err and err rule: walk_node_walk.induct)
  case (4 env dot ctx cond yes no line)
  then show ?case using eval_safe(1) [of env cond] by (auto simp: obind_Inl scoped_safe)
next
  case (5 env dot ctx over key val body otherwise line)
  then show ?case using eval_safe(1) [of env over] by (auto simp: obind_Inl scoped_safe each_pair_safe)
qed (auto simp: obind_Inl eval_safe(1))

subsection \<open>Properties\<close>

text \<open>
  C0.  Bindings are scoped: walking a list of nodes leaves the document as it was and keeps
  every binding there was, and adds at the end the bindings of exactly the assignments that stand
  at the top level of the list, in their order: what an \<open>if\<close> or a \<open>range\<close> binds ends with it.
\<close>

theorem bindings_scoped:
  assumes "walk env dot ctx nodes = Some (Inr (out, ctx'))"
  shows "cx_root ctx' = cx_root ctx
    \<and> (\<exists>bs. cx_vars ctx' = cx_vars ctx @ bs \<and> map fst bs = concat (map assigned nodes))"
  using walk_bound(2) [OF assms] by (simp add: bound_by_def)

definition sample_env :: template_env where
  "sample_env = \<lparr>te_text = sample_text_lib, te_term = term_piped, te_json = \<lparr>js_parse = (\<lambda>_. None), js_show = (\<lambda>_. []), js_lossy = id\<rparr>,
     te_i64 = (\<lambda>_. None), te_nonzero = (\<lambda>t. t \<noteq> ''0''), te_integral = (\<lambda>_. None), te_fixed6 = (\<lambda>_. None),
     te_parse_fixed6 = (\<lambda>_. None), te_instant = (\<lambda>_. None), te_year = (\<lambda>_. 1970), te_second = (\<lambda>_. 0),
     te_strftime = (\<lambda>_ _. []), te_now = 0\<rparr>"

definition sample_nodes :: "node list" where
  "sample_nodes =
     [NAssign ''x'' (EField [''a'']) 1,
      NRange (EField [''l'']) (Some ''k'') (Some ''v'') [NAssign ''y'' (EVar ''v'') 2, NEmit (EVar ''y'') 2, NText '',''] [] 2,
      NIf (EField [''none'']) [] [NEmit (EPipe (EVar ''x'') (ECall ''printf'' [ELit (JStr ''<%s>'')] 3)) 3] 3]"

definition sample_data :: json where
  "sample_data = JObj [(''a'', JStr ''A''), (''l'', JArr [JNum ''1'', JNum ''2''])]"


lemma sample_walk:
  "walk sample_env sample_data (ctx_new sample_data term_piped) sample_nodes
     = Some (Inr (''1,2,<A>'', (ctx_new sample_data term_piped)\<lparr>cx_vars := [(''x'', JStr ''A'')]\<rparr>))"
  by code_simp

lemma bindings_scoped_witness:
  "\<exists>out ctx'. walk sample_env sample_data (ctx_new sample_data term_piped) sample_nodes = Some (Inr (out, ctx'))
     \<and> cx_root ctx' = sample_data \<and> (\<exists>bs. cx_vars ctx' = bs \<and> map fst bs = [''x''])"
  using sample_walk bindings_scoped [OF sample_walk] by (simp add: sample_nodes_def ctx_new_def)



text \<open>The verbs \<open>%d\<close> and \<open>%f\<close>, and \<open>truncate\<close> of a field, are the exceptions: there a missing field is an error.\<close>

lemma missing_number_error:
  "\<exists>e. render sample_env [NEmit (ECall ''printf'' [ELit (JStr ''%d''), EField [''missing'']] 1) 1] (JObj []) = Some (Inl e)"
proof -
  have "isl (the (render sample_env [NEmit (ECall ''printf'' [ELit (JStr ''%d''), EField [''missing'']] 1) 1] (JObj [])))
     \<and> render sample_env [NEmit (ECall ''printf'' [ELit (JStr ''%d''), EField [''missing'']] 1) 1] (JObj []) \<noteq> None" by code_simp
  then show ?thesis by (auto simp: isl_def)
qed

text \<open>
  C0.  A table that a template leaves unrendered is printed at its end, exactly as if the template
  ended with \<open>tablerender\<close>.
\<close>

theorem autoflush:
  "render env (nodes @ [NEmit (ECall ''tablerender'' [] line) line]) data = render env nodes data"
proof -
  have again: "flush_table env ctx' = Some ([], ctx')" if "flush_table env ctx = Some (s, ctx')" for ctx ctx' s
    using that by (auto simp: flush_table_def table_is_empty_def table_new_def split: if_splits)
  have tail: "walk env data ctx [NEmit (ECall ''tablerender'' [] line) line] = map_option Inr (flush_table env ctx)" for ctx
    by (cases "flush_table env ctx") (auto simp: call_simps checked_call_def arity_def)
  show ?thesis
  proof (cases "walk env data (ctx_new data (te_term env)) nodes")
    case (Some r)
    show ?thesis
    proof (cases r)
      case (Inr p)
      then show ?thesis using again
        by (cases "flush_table env (snd p)") (auto simp: render_def walk_append tail Some case_prod_unfold simp del: walk.simps)
    qed (simp add: render_def walk_append Some)
  qed (simp add: render_def walk_append)
qed

end
