(* ===== verification/Render.thy ===== *)
theory Render
  imports Ansi Git_Spec
begin

text \<open>
  \<open>crates/forgejo-core/src/error/render.rs\<close>, the diagnostic that every failure prints: a headline,
  the facts, and what to do; and \<open>warn\<close> of \<open>crates/fjo/src/exit.rs\<close>.  The advice of each variant is
  a definition of its own, in the order of the source.  The builder's calls \<open>fact\<close>, \<open>cont\<close> and
  \<open>todo\<close> become the lists they append to.
\<close>

subsection \<open>Parts of a diagnostic\<close>

datatype color = Never | Always

text \<open>\<open>set\<close> asks the environment for a variable that is there, not empty and not \<open>0\<close>.\<close>

definition env_set :: "(str \<Rightarrow> str option) \<Rightarrow> str \<Rightarrow> bool" where
  "env_set env k = (case env k of Some v \<Rightarrow> v \<noteq> [] \<and> v \<noteq> ''0'' | None \<Rightarrow> False)"

definition from_tty :: "(str \<Rightarrow> str option) \<Rightarrow> bool \<Rightarrow> color" where
  "from_tty env tty =
     (if env_set env ''CLICOLOR_FORCE'' then Always
      else if \<not> tty \<or> env_set env ''NO_COLOR'' then Never
      else Always)"

text \<open>
  What is printed by a library: the escapes (\<open>text_lib\<close>), a \<open>Duration\<close> in its \<open>Debug\<close> form with
  one decimal, an \<open>io::Error\<close>, and a message that the model keeps as template and values.
\<close>

record render_lib =
  rl_text :: text_lib
  rl_duration :: "duration \<Rightarrow> str"
  rl_io :: "io_error \<Rightarrow> str"
  rl_msg :: "msg \<Rightarrow> str"

definition color_paint :: "render_lib \<Rightarrow> color \<Rightarrow> str \<Rightarrow> style \<Rightarrow> str" where
  "color_paint lib c s st =
     (case c of Never \<Rightarrow> s | Always \<Rightarrow> tx_render (rl_text lib) st @ s @ tx_render_reset (rl_text lib) st)"

definition bold_red :: style where
  "bold_red = style_new\<lparr>sy_bold := True, sy_fg := Some Red\<rparr>"

definition bold_style :: style where
  "bold_style = style_new\<lparr>sy_bold := True\<rparr>"

definition command_style :: style where
  "command_style = style_new\<lparr>sy_fg := Some Cyan\<rparr>"

definition url_style :: style where
  "url_style = style_new\<lparr>sy_underline := True\<rparr>"

datatype frag = Plain str | Cmd str | Url str

datatype line = Line (frags: "frag list") (hang_of: nat)

definition line_text :: "str \<Rightarrow> line" where
  "line_text s = Line [Plain s] 0"

definition line_step :: "nat \<Rightarrow> str \<Rightarrow> line" where
  "line_step n cmd = Line [Plain (show_nat n @ ''. ''), Cmd cmd] 0"

definition line_note :: "str \<Rightarrow> line" where
  "line_note s = Line [Plain (''note: '' @ s)] 6"

definition and_text :: "str \<Rightarrow> line \<Rightarrow> line" where
  "and_text s l = Line (frags l @ [Plain s]) (hang_of l)"

definition and_cmd :: "str \<Rightarrow> line \<Rightarrow> line" where
  "and_cmd s l = Line (frags l @ [Cmd s]) (hang_of l)"

definition and_url :: "str \<Rightarrow> line \<Rightarrow> line" where
  "and_url s l = Line (frags l @ [Url s]) (hang_of l)"

definition hang :: "nat \<Rightarrow> line \<Rightarrow> line" where
  "hang n l = Line (frags l) n"

definition has_command :: "line \<Rightarrow> bool" where
  "has_command l = list_ex (\<lambda>f. case f of Cmd _ \<Rightarrow> True | _ \<Rightarrow> False) (frags l)"

definition frag_text :: "render_lib \<Rightarrow> color \<Rightarrow> frag \<Rightarrow> str" where
  "frag_text lib c f =
     (case f of Plain s \<Rightarrow> s | Cmd s \<Rightarrow> color_paint lib c s command_style | Url s \<Rightarrow> color_paint lib c s url_style)"

definition line_render :: "render_lib \<Rightarrow> color \<Rightarrow> line \<Rightarrow> str" where
  "line_render lib c l = concat (map (frag_text lib c) (frags l))"

definition WRAP :: nat where
  "WRAP = 80"

text \<open>The greedy loop, from the line being filled.\<close>

fun wrap_loop :: "nat \<Rightarrow> str \<Rightarrow> str list \<Rightarrow> str list" where
  "wrap_loop width cur [] = (if cur \<noteq> [] then [cur] else [])"
| "wrap_loop width cur (word # words) =
     (if cur = [] then wrap_loop width word words
      else if length (chars cur) + 1 + length (chars word) \<le> width
      then wrap_loop width (cur @ '' '' @ word) words
      else cur # wrap_loop width word words)"

definition wrap :: "str \<Rightarrow> nat \<Rightarrow> str list" where
  "wrap s width = (if length (chars s) \<le> width then [s] else wrap_loop width [] (split_c s CHR '' ''))"

definition is_prose :: "line \<Rightarrow> bool" where
  "is_prose l = list_all (\<lambda>f. case f of Plain _ \<Rightarrow> True | _ \<Rightarrow> False) (frags l)"

definition line_lines :: "render_lib \<Rightarrow> color \<Rightarrow> line \<Rightarrow> str list" where
  "line_lines lib c l =
     (let txt = line_render lib c l in
      if \<not> is_prose l then split_c txt NL
      else concat (map (\<lambda>part. wrap part (WRAP - (2 + hang_of l))) (split_c txt NL)))"

datatype advice = Advice (ad_facts: "(str \<times> str) list") (ad_todo: "line list")

definition fact :: "str \<Rightarrow> str \<Rightarrow> (str \<times> str) list" where
  "fact key v = (if trim v \<noteq> [] then [(key, v)] else [])"

definition cont :: "str \<Rightarrow> (str \<times> str) list" where
  "cont v = [([], v)]"

text \<open>A list of facts: the first has the key, the others are aligned under it.\<close>

definition listed :: "str \<Rightarrow> str list \<Rightarrow> (str \<times> str) list" where
  "listed key vs = (case vs of [] \<Rightarrow> [] | v # vs \<Rightarrow> fact key v @ concat (map cont vs))"

definition opt_text :: "str option \<Rightarrow> str" where
  "opt_text s = (case s of Some t \<Rightarrow> t | None \<Rightarrow> [])"

definition or_text :: "str \<Rightarrow> str option \<Rightarrow> str" where
  "or_text d s = (case s of Some t \<Rightarrow> t | None \<Rightarrow> d)"

subsection \<open>The headline\<close>

definition first_words :: "str \<Rightarrow> str" where
  "first_words command =
     (let words = take 3 (split_whitespace command) in
      if 3 < length (split_whitespace command) then join '' '' words @ '' '' @ ELLIPSIS else join '' '' words)"

text \<open>The headlines of the failures of the network, of the login and of the local machine.\<close>

definition headline :: "render_lib \<Rightarrow> error_kind \<Rightarrow> str" where
  "headline lib kind =
     (case kind of
        Dns host \<Rightarrow> (''cannot resolve hostname '' @ host)
      | Connect host _ _ _ _ \<Rightarrow> (''cannot connect to '' @ host)
      | Tls host _ _ \<Rightarrow> (''TLS connection to '' @ host @ '' failed'')
      | Timeout host _ _ \<Rightarrow> (''timed out waiting for '' @ host)
      | Proxy proxy _ \<Rightarrow> (''proxy '' @ proxy @ '' rejected the request'')
      | NoHostConfigured \<Rightarrow> ''no Forgejo host configured''
      | UnknownHost given _ \<Rightarrow> (''host '' @ given @ '' is not configured'')
      | NotAuthenticated host \<Rightarrow> (''you are not logged in to '' @ host)
      | TokenRejected host _ _ \<Rightarrow> (host @ '' refused your token (HTTP 401)'')
      | InsufficientScope _ _ _ _ \<Rightarrow> ''token is missing a required scope (HTTP 403)''
      | TwoFactorRequired host \<Rightarrow> (host @ '' requires a two-factor code'')
      | KeyringUnavailable _ \<Rightarrow> ''OS keyring is unavailable''
      | CredFilePermissions _ _ \<Rightarrow> ''your credentials file can be read by other users''
      | OauthNotSupported host _ \<Rightarrow> (host @ '' does not offer OAuth login'')
      | OauthAuthorizationDenied host _ _ \<Rightarrow> (host @ '' did not authorize fjo'')
      | OauthStateMismatch host \<Rightarrow> (''the OAuth reply from '' @ host @ '' did not match the request'')
      | OauthCallbackUnavailable _ _ reason \<Rightarrow>
          (case reason of
             CbTimeout secs \<Rightarrow> (''nothing came back from your browser within '' @ show_nat secs @ ''s'')
           | Bind _ \<Rightarrow> ''fjo could not listen for the OAuth reply'')
      | OauthTokenExchangeFailed host _ _ \<Rightarrow> (host @ '' refused the OAuth code'')
      | OauthRefreshFailed host _ _ \<Rightarrow> (''your OAuth session for '' @ host @ '' has expired'')
      | OauthEntropyUnavailable _ \<Rightarrow> ''could not generate a secure random value for the login''
      | NotAGitRepo \<Rightarrow> ''not in a Git checkout; specify a repository with -R''
      | RepoNotResolved _ \<Rightarrow> ''could not determine the repository''
      | AmbiguousRemote _ \<Rightarrow> ''multiple Git remotes match; select a repository''
      | RemoteHostUnknown remote host \<Rightarrow> (''remote '' @ remote @ '' uses unconfigured host '' @ host)
      | RepoNotFound slug host _ probed _ \<Rightarrow>
          (if probed then (''could not find the repository '' @ slug @ '' on '' @ host @ '' (HTTP 404)'')
           else (''repository or resource not found under '' @ slug @ '' on '' @ host @ '' (HTTP 404)''))
      | ResourceNotFound kd ident slug _ \<Rightarrow>
          (if ident = []
           then (case slug of
                   Some s \<Rightarrow> (''referenced resource not found in '' @ s @ '' (HTTP 404)'')
                 | None \<Rightarrow> ''referenced resource not found (HTTP 404)'')
           else (''there is no '' @ kd @ '' '' @ ident @ '' (HTTP 404)''))
      | RouteNotFound _ _ _ \<Rightarrow> ''API endpoint not found (HTTP 404)''
      | Conflict _ \<Rightarrow> ''request conflicts with the current state (HTTP 409)''
      | Validation _ _ \<Rightarrow> ''the server rejected the values in this request (HTTP 422)''
      | QuotaExceeded _ _ \<Rightarrow> ''the storage quota is full (HTTP 413)''
      | Archived slug _ \<Rightarrow> (slug @ '' is archived and read-only (HTTP 423)'')
      | StateConflict resource state _ \<Rightarrow>
          (let what = or_text ''that resource'' resource in
           case map_option trim state of
             Some s \<Rightarrow> if s \<noteq> [] then (''operation unavailable: '' @ what @ '' is '' @ s)
                       else (''operation unavailable in the current state of '' @ what)
           | None \<Rightarrow> (''operation unavailable in the current state of '' @ what))
      | ChecksPending _ pr _ \<Rightarrow> (''checks are pending on pull request '' @ pr)
      | ChecksFailed _ pr failed \<Rightarrow>
          (if length failed = 1 then (''a check on pull request '' @ pr @ '' failed'')
           else if length failed = 0 then (''the checks on pull request '' @ pr @ '' did not pass'')
           else (show_nat (length failed) @ '' checks on pull request '' @ pr @ '' failed''))
      | RunFailed _ run conclusion _ _ \<Rightarrow>
          (if trim conclusion = [] then (''workflow run '' @ run @ '' did not succeed'')
           else (''workflow run '' @ run @ '' ended in '' @ trim conclusion))
      | PaginationDidNotTerminate pages _ \<Rightarrow> (''pagination stopped after '' @ show_nat pages @ '' pages without reaching the end'')
      | RateLimited host _ \<Rightarrow> (''rate limit reached on '' @ host @ '' (HTTP 429)'')
      | Forbidden _ \<Rightarrow> ''permission denied (HTTP 403)''
      | ServerError status _ \<Rightarrow> (''server error (HTTP '' @ show_nat status @ '')'')
      | UnexpectedStatus status _ \<Rightarrow> (''unexpected HTTP status '' @ show_nat status)
      | Decode _ _ _ \<Rightarrow> ''unexpected API response format''
      | Usage m \<Rightarrow> rl_msg lib m
      | UnknownJsonField given _ _ \<Rightarrow> (''unknown --json field: '' @ given)
      | JqCompile _ _ _ \<Rightarrow> ''invalid --jq expression''
      | Template _ _ \<Rightarrow> ''invalid --template syntax''
      | PathNotFound path what \<Rightarrow> (''there is no '' @ what @ '' at '' @ path)
      | GitFailed command _ _ \<Rightarrow> (''Git command failed: '' @ first_words command)
      | AgitRefused refspec _ _ \<Rightarrow> (''the AGit push to '' @ refspec @ '' was refused'')
      | Io e \<Rightarrow> (''a local file operation failed: '' @ rl_io lib e)
      | Cancelled \<Rightarrow> ''cancelled'')"

subsection \<open>Facts of the request\<close>

definition oauth_reason :: "str \<Rightarrow> str option \<Rightarrow> str" where
  "oauth_reason err description =
     (case description of Some d \<Rightarrow> if trim d \<noteq> [] then d else err | None \<Rightarrow> err)"

definition request_line :: "request_ctx \<Rightarrow> str option" where
  "request_line ctx =
     map_option (\<lambda>path. case ctx_method ctx of Some m \<Rightarrow> m @ '' '' @ path | None \<Rightarrow> path) (ctx_path ctx)"

definition token_source_line :: "request_ctx \<Rightarrow> str option" where
  "token_source_line ctx =
     map_option (\<lambda>src. case src of
         Keyring entry \<Rightarrow> (''the OS keyring, entry '' @ entry)
       | File path \<Rightarrow> (''the file '' @ path)
       | EnvVar var \<Rightarrow> (''the environment variable '' @ var)
       | Flag \<Rightarrow> ''a command-line flag'') (ctx_token_source ctx)"

definition credential_relevant :: "error_kind \<Rightarrow> bool" where
  "credential_relevant kind =
     (case kind of
        TokenRejected _ _ _ \<Rightarrow> True | InsufficientScope _ _ _ _ \<Rightarrow> True | NotAuthenticated _ \<Rightarrow> True
      | TwoFactorRequired _ \<Rightarrow> True | Forbidden _ \<Rightarrow> True | RepoNotFound _ _ _ _ _ \<Rightarrow> True
      | OauthStateMismatch _ \<Rightarrow> True | OauthCallbackUnavailable _ _ _ \<Rightarrow> True
      | OauthTokenExchangeFailed _ _ _ \<Rightarrow> True | OauthRefreshFailed _ _ _ \<Rightarrow> True
      | _ \<Rightarrow> False)"

definition api_command :: "request_ctx \<Rightarrow> str" where
  "api_command ctx =
     (case ctx_path ctx of
        None \<Rightarrow> ''fjo auth status''
      | Some path \<Rightarrow>
          let rel = trim_start_c (case split_once path ''/api/v1/'' of Some (_, r) \<Rightarrow> r | None \<Rightarrow> path) CHR ''/'' in
          case ctx_method ctx of
            None \<Rightarrow> (''fjo api '' @ rel)
          | Some m \<Rightarrow> if m = ''GET'' then (''fjo api '' @ rel) else (''fjo api -X '' @ m @ '' '' @ rel))"

definition web_base :: "request_ctx \<Rightarrow> str" where
  "web_base ctx = (case ctx_host ctx of Some h \<Rightarrow> (''https://'' @ h) | None \<Rightarrow> ''https://your-instance'')"

definition settings_hint :: "request_ctx \<Rightarrow> str" where
  "settings_hint ctx = web_base ctx @ ''/user/settings/applications''"

definition quoted :: "str \<Rightarrow> str" where
  "quoted m = (if trim m = [] then ''(the server sent no message)'' else trim m)"

definition join_scopes :: "str list \<Rightarrow> str" where
  "join_scopes v = join '', '' v"

definition scopes_or_unknown :: "str list \<Rightarrow> str" where
  "scopes_or_unknown v = (if v = [] then ''the scope for this route (fjo could not determine it)'' else join_scopes v)"

definition attempts :: "render_lib \<Rightarrow> attempt list \<Rightarrow> (str \<times> str) list" where
  "attempts lib tried = listed ''tried'' (map (\<lambda>a. (att_what a @ '' '' @ [CHR 0xE2, CHR 0x80, CHR 0x94] @ '' '' @ rl_msg lib (att_outcome a))) tried)"

definition fields_facts :: "field_error list \<Rightarrow> (str \<times> str) list" where
  "fields_facts fs =
     concat (map (\<lambda>f. fact (case fe_field f of Some name \<Rightarrow> name | None \<Rightarrow> ''problem'') (fe_message f)) fs)"

definition scope_flag :: "str option \<Rightarrow> str" where
  "scope_flag slug = (case slug of Some s \<Rightarrow> ('' -R '' @ s) | None \<Rightarrow> [])"

definition list_command :: "str \<Rightarrow> str option \<Rightarrow> str" where
  "list_command kd slug =
     (let scope = scope_flag slug in
      if kd = ''pull request'' then (''fjo pr list --state all'' @ scope)
      else if kd = ''issue'' then (''fjo issue list --state all'' @ scope)
      else if kd = ''release'' then (''fjo release list'' @ scope)
      else if kd = ''label'' then (''fjo label list'' @ scope)
      else if kd = ''milestone'' then (''fjo milestone list'' @ scope)
      else if kd = ''workflow run'' then (''fjo run list'' @ scope)
      else if kd = ''team'' then ''fjo team list''
      else if kd = ''user'' then (''fjo api users/search --jq '' @ [CHR 0x27] @ ''.data[].login'' @ [CHR 0x27])
      else if kd = ''organization'' then ''fjo org list''
      else (case slug of Some s \<Rightarrow> (''fjo api repos/'' @ s) | None \<Rightarrow> ''fjo auth status''))"

subsection \<open>Advice: the network\<close>

definition advise_dns :: "str \<Rightarrow> advice" where
  "advise_dns host = Advice (fact ''host'' host)
     [line_text ''check the hostname and your DNS connection.'',
      line_text ''1. check the hostname and port'',
      and_text ''  (configured hosts)'' (line_step 2 ''fjo auth status''),
      hang 3 (line_text ''3. if the instance is only reachable on a private network, connect to it first'')]"

definition advise_connect :: "str \<Rightarrow> nat \<Rightarrow> str \<Rightarrow> str \<Rightarrow> bool \<Rightarrow> advice" where
  "advise_connect host port cause scheme looks_like_plaintext =
     (let facts = fact ''host'' host @ fact ''port'' (if port = 0 then [] else show_nat port) @ fact ''cause'' cause;
          with_port = (if port = 0 then host else (host @ '':'' @ show_nat port)) in
      if looks_like_plaintext
      then Advice facts
        [line_text ''the server replied with HTTP, but fjo used HTTPS.'',
         hang 3 (line_text ''1. use an explicit HTTP address:''),
         and_cmd (''fjo auth login --host http://'' @ with_port) (line_text ''   ''),
         hang 3 (line_text ''2. check the server response:''),
         and_cmd (''curl -sS -o /dev/null -w '' @ [CHR 0x27] @ ''%{http_code}'' @ [CHR 0x5C] @ ''n'' @ [CHR 0x27] @ '' http://'' @ with_port @ ''/api/v1/version'') (line_text ''   ''),
         line_note ''non-loopback hosts default to HTTPS. Use http:// only if the server requires it.'']
      else Advice facts
        [line_text ''the hostname resolved, but the connection failed.'',
         hang 3 (line_text ''1. test the same address with curl:''),
         and_cmd (''curl -sS -o /dev/null -w '' @ [CHR 0x27] @ ''%{http_code}'' @ [CHR 0x5C] @ ''n'' @ [CHR 0x27] @ '' '' @ scheme @ ''://'' @ with_port @ ''/api/v1/version'') (line_text ''   ''),
         hang 3 (line_text ''2. if the port is wrong, log in with the correct port (example: 3000):''),
         and_cmd (''fjo auth login --host '' @ scheme @ ''://'' @ host @ '':3000'') (line_text ''   ''),
         line_note ''check whether a firewall or VPN is blocking the connection.''])"

definition advise_tls :: "str \<Rightarrow> str \<Rightarrow> bool \<Rightarrow> advice" where
  "advise_tls host cause looks_like_private_ca =
     (let facts = fact ''host'' host @ fact ''cause'' cause in
      if looks_like_private_ca
      then Advice facts
        [line_text (''this machine does not trust the server'' @ [CHR 0x27] @ ''s certificate authority (CA).''),
         line_text ''1. add the CA certificate to the system trust store, then retry'',
         hang 3 (and_cmd ''SSL_CERT_FILE=/path/to/ca.pem fjo auth status'' (line_text ''2. or set the CA file for one command: '')),
         line_note ''use a trusted CA certificate. Disabling verification leaves the connection unverified.'']
      else Advice facts
        [line_text ''check for an expired certificate or a hostname mismatch.'',
         hang 3 (line_text ''1. inspect the server certificate:''),
         and_cmd (''openssl s_client -connect '' @ host @ '':443 -servername '' @ host @ '' </dev/null | head -20'') (line_text ''   ''),
         hang 3 (line_text ''2. ask the server administrator to renew or correct the certificate'')])"

definition phase_text :: "phase \<Rightarrow> str" where
  "phase_text p = (case p of
       PConnect \<Rightarrow> ''opening the connection'' | PHeaders \<Rightarrow> ''waiting for a response'' | PBody \<Rightarrow> ''reading the response body'')"

definition advise_timeout :: "render_lib \<Rightarrow> str \<Rightarrow> duration \<Rightarrow> phase \<Rightarrow> advice" where
  "advise_timeout lib host after p = Advice
     (fact ''host'' host @ fact ''phase'' (phase_text p) @ fact ''waited'' (if after = 0 then [] else rl_duration lib after))
     [line_text ''the request timed out during the phase shown above.'',
      and_text ''  (check server availability)'' (line_step 1 ''fjo api version''),
      hang 3 (line_text ''2. check the server status before retrying a long-running operation''),
      line_note (case p of
          PBody \<Rightarrow> ''the response had started. Check the result before retrying a write.''
        | _ \<Rightarrow> ''a write may have completed despite the timeout. Read-only requests are safe to retry.'')]"

definition advise_proxy :: "str \<Rightarrow> str \<Rightarrow> request_ctx \<Rightarrow> advice" where
  "advise_proxy proxy cause ctx = Advice (fact ''proxy'' proxy @ fact ''cause'' cause)
     [line_text ''check the proxy settings and access requirements.'',
      and_text ''  (proxy settings)'' (line_step 1 ''env | grep -i proxy''),
      hang 3 (and_cmd (''NO_PROXY='' @ or_text ''git.example.org'' (ctx_host ctx) @ '' fjo auth status'') (line_text ''2. exclude this host from the proxy: ''))]"

subsection \<open>Advice: configuration and login\<close>

definition advise_no_host :: advice where
  "advise_no_host = Advice []
     [line_text ''log in to your Forgejo server:'',
      line_step 1 ''fjo auth login --host git.example.org'',
      line_note ''use the server address without /api/v1.'']"

definition advise_unknown_host :: "str \<Rightarrow> str list \<Rightarrow> advice" where
  "advise_unknown_host given known = Advice
     (fact ''asked for'' given @ fact ''configured'' (if known = [] then ''(none)'' else join '', '' known))
     [and_text ''  (add it)'' (line_step 1 (''fjo auth login --host '' @ given)),
      and_text ''  (list configured hosts)'' (line_step 2 ''fjo auth status''),
      line_note ''git.example.org and www.git.example.org are separate hosts.'']"

definition advise_not_authenticated :: "str \<Rightarrow> request_ctx \<Rightarrow> advice" where
  "advise_not_authenticated host ctx = Advice (fact ''host'' host)
     [line_text ''this endpoint requires authentication.'',
      hang 3 (and_url (settings_hint ctx) (line_text ''1. create a token at '')),
      line_step 2 (''fjo auth login --host '' @ host),
      line_note ''in CI, set FJO_TOKEN or FORGEJO_TOKEN instead of logging in.'']"

definition advise_token_rejected :: "str \<Rightarrow> str option \<Rightarrow> str \<Rightarrow> request_ctx \<Rightarrow> advice" where
  "advise_token_rejected host login settings_url ctx =
     (let facts = fact ''host'' host @ fact ''login'' (opt_text login) in
      if ctx_credential_kind ctx = Some Oauth2
      then Advice facts
        [line_text ''your OAuth session has expired or been revoked.'',
         line_step 1 (''fjo auth login --host '' @ host @ '' --web''),
         line_step 2 (''fjo auth login --host '' @ host),
         line_note ''OAuth sessions lapse after about 30 days; a token made in the web UI does not.'']
      else Advice facts
        [line_text ''the token may be expired, revoked, or from another server.'',
         hang 3 (and_url settings_url (line_text ''1. create a new token at '')),
         line_step 2 (''fjo auth login --host '' @ host),
         line_note ''replacing a token requires creating a new one.''])"

definition advise_oauth_not_supported :: "str \<Rightarrow> str list \<Rightarrow> advice" where
  "advise_oauth_not_supported host tried = Advice (fact ''host'' host @ fact ''tried'' (join '', '' tried))
     [line_text ''this instance answered nothing at its OAuth2 endpoints.'',
      line_step 1 (''fjo auth login --host '' @ host),
      line_step 2 ''fjo api version'',
      line_note ''an administrator can switch the built-in OAuth applications off with [oauth2] DEFAULT_APPLICATIONS.'']"

definition advise_oauth_denied :: "str \<Rightarrow> str \<Rightarrow> str option \<Rightarrow> advice" where
  "advise_oauth_denied host err description = Advice (fact ''reason'' (oauth_reason err description) @ fact ''code'' err)
     [line_text ''the browser came back without authorizing fjo.'',
      line_step 1 (''fjo auth login --host '' @ host @ '' --web''),
      line_step 2 (''fjo auth login --host '' @ host),
      line_note ''access_denied usually means the Authorize button was not clicked.'']"

definition advise_oauth_state :: "str \<Rightarrow> advice" where
  "advise_oauth_state host = Advice (fact ''host'' host)
     [line_text ''the reply did not carry the value fjo sent, so no code was exchanged.'',
      line_step 1 (''fjo auth login --host '' @ host @ '' --web''),
      line_note ''this can mean two logins were running at once; run one at a time.'']"

definition advise_oauth_callback :: "str \<Rightarrow> nat option \<Rightarrow> callback_failure \<Rightarrow> advice" where
  "advise_oauth_callback host port reason =
     (let (facts, todo) = (case reason of
          CbTimeout _ \<Rightarrow>
            (fact ''listening on'' (case port of Some p \<Rightarrow> (''http://127.0.0.1:'' @ show_nat p) | None \<Rightarrow> ''127.0.0.1''),
             line_text ''the browser never reached fjo.'')
        | Bind cause \<Rightarrow>
            (fact ''cause'' cause, line_text ''fjo could not open a socket on 127.0.0.1 to receive the reply.''))
      in Advice facts
        [todo,
         line_step 1 (''fjo auth login --host '' @ host @ '' --web --no-browser''),
         line_step 2 (''fjo auth login --host '' @ host @ '' --with-token''),
         line_note ''over SSH, forward the port with ssh -L, or use --no-browser and paste the reply back.''])"

definition advise_oauth_exchange :: "str \<Rightarrow> str \<Rightarrow> str option \<Rightarrow> advice" where
  "advise_oauth_exchange host err description = Advice (fact ''reason'' (oauth_reason err description) @ fact ''code'' err)
     [line_text ''the authorization code was refused.'',
      line_step 1 (''fjo auth login --host '' @ host @ '' --web''),
      line_step 2 (''fjo auth login --host '' @ host),
      line_note ''if this instance registers its own application, pass its --client-id.'']"

definition advise_oauth_refresh :: "str \<Rightarrow> str \<Rightarrow> str option \<Rightarrow> advice" where
  "advise_oauth_refresh host login reason = Advice
     (fact ''login'' login @ fact ''reason'' (or_text ''the refresh token was not accepted'' reason))
     [line_text ''OAuth sessions last about 30 days and cannot be renewed once they lapse.'',
      line_step 1 (''fjo auth login --host '' @ host @ '' --web''),
      line_step 2 (''fjo auth login --host '' @ host),
      line_note ''a token created in the web UI never expires, which is what CI should use.'']"

definition advise_oauth_entropy :: "str \<Rightarrow> advice" where
  "advise_oauth_entropy cause = Advice (fact ''cause'' cause)
     [line_text ''a browser login needs unguessable values, and the OS random source refused.'',
      line_step 1 ''fjo auth login --with-token'',
      line_note ''this usually means a restricted sandbox or a seccomp filter blocking getrandom.'']"

definition advise_scope :: "str \<Rightarrow> str list \<Rightarrow> str list option \<Rightarrow> str \<Rightarrow> advice" where
  "advise_scope host needed have settings_url = Advice
     (fact ''needs'' (scopes_or_unknown needed)
      @ fact ''token has'' (case have of
          Some h \<Rightarrow> if h \<noteq> [] then join_scopes h else (''unknown (Forgejo does not report a token'' @ [CHR 0x27] @ ''s scopes)'')
        | None \<Rightarrow> (''unknown (Forgejo does not report a token'' @ [CHR 0x27] @ ''s scopes)'')))
     [line_text ''create a token with the required scopes; existing token scopes cannot be changed.'',
      hang 3 (line_text (''1. create a token with '' @ scopes_or_unknown needed @ '' at'')),
      and_url settings_url (line_text ''   ''),
      line_step 2 (''fjo auth login --host '' @ host),
      line_note ''Forgejo scopes use read:<area> and write:<area>.'']"

definition advise_two_factor :: "str \<Rightarrow> advice" where
  "advise_two_factor host = Advice (fact ''host'' host)
     [line_text ''password authentication requires a two-factor code for this account.'',
      and_text ''  (the current code)'' (line_step 1 ''fjo --otp 123456 <command>''),
      and_text ''  (store a token instead)'' (line_step 2 (''fjo auth login --host '' @ host)),
      line_note ''API tokens do not require a two-factor code.'']"

definition keyring_cause_text :: "keyring_cause \<Rightarrow> str" where
  "keyring_cause_text cause =
     (case cause of
        NoBackend \<Rightarrow> ''no credential backend answered (on Linux, usually no D-Bus session)''
      | Locked \<Rightarrow> ''the keyring is locked''
      | Denied \<Rightarrow> ''access was denied''
      | KTimeout \<Rightarrow> ''the keyring did not answer in time''
      | KOther m \<Rightarrow> m)"

definition advise_keyring :: "keyring_cause \<Rightarrow> advice" where
  "advise_keyring cause = Advice (fact ''cause'' (keyring_cause_text cause))
     [line_text ''unlock or enable the keyring, or use one of these alternatives:'',
      hang 3 (and_text ''  (a 0600 file)'' (line_step 1 ''fjo auth login --host git.example.org --insecure-storage'')),
      and_text ''  (environment only)'' (line_step 2 ''FJO_TOKEN=<token> fjo auth status''),
      line_note ''set FJO_CREDENTIAL_STORE to env, file, or keyring to select a storage backend.'']"

text \<open>\<open>{:04o}\<close>\<close>

fun show_octal :: "nat \<Rightarrow> str" where
  "show_octal n = (if n < 8 then [digit_char n] else show_octal (n div 8) @ [digit_char (n mod 8)])"

definition octal4 :: "nat \<Rightarrow> str" where
  "octal4 n = replicate (4 - length (show_octal n)) CHR ''0'' @ show_octal n"

definition advise_cred_file :: "str \<Rightarrow> nat \<Rightarrow> advice" where
  "advise_cred_file path mode = Advice (fact ''file'' path @ fact ''mode'' (octal4 mode))
     [line_text ''restrict the token file to your account:'',
      line_step 1 (''chmod 600 '' @ path),
      line_note ''fjo will not read the file until its permissions are restricted.'']"

subsection \<open>Advice: the checkout\<close>

definition advise_not_git :: advice where
  "advise_not_git = Advice []
     [line_text ''specify a repository or run the command from a Git checkout.'',
      and_text ''  (name it explicitly)'' (line_step 1 ''fjo <command> -R owner/name''),
      line_text ''2. or cd into a clone and try again'',
      line_note ''FJO_REPO=owner/name works too, for a shell session or a CI job.'']"

definition advise_repo_not_resolved :: "render_lib \<Rightarrow> attempt list \<Rightarrow> advice" where
  "advise_repo_not_resolved lib tried = Advice (attempts lib tried)
     [line_text ''specify a repository or save a default for this checkout.'',
      line_step 1 ''fjo <command> -R owner/name'',
      and_text ''  (remember it for this checkout)'' (line_step 2 ''fjo repo set-default''),
      line_note ''-R also accepts host/owner/name and a full URL.'']"

definition advise_ambiguous :: "remote_candidate list \<Rightarrow> advice" where
  "advise_ambiguous candidates = Advice
     (listed ''remotes'' (map (\<lambda>c. (rc_remote c @ '' '' @ [CHR 0xE2, CHR 0x86, CHR 0x92] @ '' '' @ rc_host c @ ''/'' @ rc_slug c)) candidates))
     [line_text ''choose which remote repository to use.'',
      and_text ''  (save the choice in Git config)'' (line_step 1 ''fjo repo set-default''),
      and_text ''  (choose for one command)'' (line_step 2 ''fjo <command> -R owner/name'')]"

definition advise_remote_host :: "str \<Rightarrow> str \<Rightarrow> advice" where
  "advise_remote_host remote host = Advice (fact ''remote'' remote @ fact ''host'' host)
     [line_text ''log in to the remote host, or select another repository.'',
      line_step 1 (''fjo auth login --host '' @ host),
      and_text ''  (select a repository explicitly)'' (line_step 2 ''fjo repo set-default''),
      line_note ''SSH Host aliases are not supported. Use fjo repo set-default instead.'']"

subsection \<open>Advice: answers of the instance\<close>

definition advise_repo_unchecked :: "str \<Rightarrow> str \<Rightarrow> str option \<Rightarrow> str option \<Rightarrow> advice" where
  "advise_repo_unchecked slug host login server_message = Advice
     (fact ''repository'' (slug @ ''  (not checked)'') @ fact ''host'' host
      @ fact ''logged in as'' (or_text ''(not logged in)'' login) @ fact ''server says'' (opt_text server_message))
     [line_text ''the repository check was disabled or failed. The repository or a referenced resource may be missing.'',
      and_text ''  (check repository access)'' (line_step 1 (''fjo api repos/'' @ slug)),
      hang 3 (line_text ''2. another 404 may mean the repository is missing, private with a token''),
      and_cmd ''fjo auth status'' (line_text ''   that lacks read:repository, or on another server. Check: ''),
      hang 3 (line_text ''3. if it succeeds, check the resources referenced by the request:''),
      line_text ''   branch, tag, or user names'']"

definition advise_repo_missing :: "str \<Rightarrow> str \<Rightarrow> str option \<Rightarrow> str option \<Rightarrow> request_ctx \<Rightarrow> advice" where
  "advise_repo_missing slug host login server_message ctx = Advice
     (fact ''repository'' slug @ fact ''host'' host
      @ fact ''logged in as'' (or_text ''(not logged in)'' login) @ fact ''server says'' (opt_text server_message))
     [line_text ''check these possible causes:'',
      hang 3 (line_text ''1. check the owner and repository name; the repository may have been''),
      line_text ''   renamed, transferred, or deleted'',
      hang 3 (line_text ''2. for a private repository, check account access and read:repository.''),
      line_text ''   if the scope is missing, create a new token at'',
      and_url (settings_hint ctx) (line_text ''   ''),
      hang 3 (and_cmd ''fjo auth status'' (line_text ''3. check the configured server: '')),
      and_cmd (''fjo api repos/'' @ slug) (line_text ''check repository access: '')]"

definition advise_collection :: "str \<Rightarrow> str option \<Rightarrow> str option \<Rightarrow> advice" where
  "advise_collection kd slug server_message = Advice
     (fact ''repository'' (case slug of Some s \<Rightarrow> (s @ ''  (found)'') | None \<Rightarrow> []) @ fact ''server says'' (opt_text server_message))
     ([line_text (''this request has no '' @ kd @ '' identifier. Check referenced branch, tag, or user names.''),
       (case server_message of
          Some _ \<Rightarrow> hang 3 (line_text ''1. correct the value named in the server message, then retry'')
        | None \<Rightarrow> hang 3 (line_text ''1. check branch, tag, and user names in the request body''))]
      @ (case slug of
           Some s \<Rightarrow>
             [line_step 2 (''fjo api repos/'' @ s @ ''/branches --jq '' @ [CHR 0x27] @ ''.[].name'' @ [CHR 0x27]),
              line_step 3 (''fjo api repos/'' @ s @ ''/tags --jq '' @ [CHR 0x27] @ ''.[].name'' @ [CHR 0x27]),
              line_note ''when creating a pull request, check --head and --base.'']
         | None \<Rightarrow> [and_text ''  (check the selected server)'' (line_step 2 ''fjo auth status'')]))"

definition advise_resource :: "str \<Rightarrow> str \<Rightarrow> str option \<Rightarrow> str option \<Rightarrow> advice" where
  "advise_resource kd ident slug server_message = Advice
     (fact ''repository'' (case slug of Some s \<Rightarrow> (s @ ''  (found)'') | None \<Rightarrow> []) @ fact kd ident
      @ fact ''server says'' (opt_text server_message))
     [line_text (''check the '' @ kd @ '' identifier and list the available resources:''),
      line_step 1 (list_command kd slug),
      line_note ''most issue and pull request paths use the number shown in the web UI, not the database ID.'']"

definition advise_route :: "str \<Rightarrow> str \<Rightarrow> str option \<Rightarrow> request_ctx \<Rightarrow> advice" where
  "advise_route meth path inst ctx = Advice
     (fact ''endpoint'' (if request_line ctx = Some (meth @ '' '' @ path) then [] else meth @ '' '' @ path)
      @ fact ''instance'' (or_text ''unknown (/nodeinfo did not answer)'' inst))
     [line_text ''the server does not support this endpoint or HTTP method.'',
      and_text ''  (server API settings)'' (line_step 1 ''fjo api settings/api''),
      hang 3 (and_url (web_base ctx) (line_text ''2. try the web interface at '')),
      line_note ''check whether the server version supports this operation.'']"

definition advise_conflict :: "str \<Rightarrow> request_ctx \<Rightarrow> advice" where
  "advise_conflict server_message ctx = Advice (fact ''server says'' (quoted server_message))
     [line_text ''resolve the conflict described in the server message before retrying.'',
      and_text ''  (inspect the request response)'' (line_step 1 (api_command ctx)),
      line_text ''2. correct the reported conflict, then retry'']"

definition advise_validation :: "field_error list \<Rightarrow> str option \<Rightarrow> advice" where
  "advise_validation fs server_message = Advice
     (fields_facts fs @ (case server_message of Some m \<Rightarrow> fact ''server says'' (quoted m) | None \<Rightarrow> []))
     [line_text ''correct the rejected values listed above.'',
      line_text ''1. correct the values and retry'',
      and_text ''  (find the endpoint and its flags)'' (line_step 2 ''fjo raw search issue''),
      line_note ''the server may require a field that the API specification marks optional.'']"

definition advise_quota :: "str \<Rightarrow> str option \<Rightarrow> advice" where
  "advise_quota server_message uploading = Advice
     (fact ''uploading'' (opt_text uploading) @ fact ''server says'' (quoted server_message))
     [line_text ''check storage usage, including LFS objects, packages, and release assets.'',
      and_text ''  (what is using the space)'' (line_step 1 ''fjo quota''),
      hang 3 (line_text ''2. delete old release assets or package versions, or ask an admin to raise the quota''),
      line_note ''check which quota rule applies before removing data.'']"

definition advise_archived :: "str \<Rightarrow> str \<Rightarrow> advice" where
  "advise_archived slug host = Advice (fact ''repository'' slug)
     [line_text ''archived repositories are read-only.'',
      hang 3 (and_url (''https://'' @ host @ ''/'' @ slug @ ''/settings'') (line_text ''1. unarchive it at '')),
      line_text ''2. then run the command again'',
      and_cmd (''fjo issue list -R '' @ slug) (line_text ''reads still work: '')]"

definition advise_state :: "str option \<Rightarrow> str option \<Rightarrow> str \<Rightarrow> request_ctx \<Rightarrow> advice" where
  "advise_state resource state server_message ctx = Advice
     (fact ''resource'' (opt_text resource) @ fact ''state'' (opt_text state) @ fact ''server says'' (quoted server_message))
     [line_text ''the current state prevents this operation. Check the server message above.'',
      and_text ''  (read the current state)'' (line_step 1 (api_command ctx)),
      hang 3 (line_text ''2. resolve the reported state conflict, then retry''),
      line_note ''changing token scopes does not resolve a state conflict.'']"

definition advise_checks_pending :: "str option \<Rightarrow> str \<Rightarrow> str list \<Rightarrow> advice" where
  "advise_checks_pending slug pr pending = Advice
     (fact ''pull request'' pr @ fact ''repository'' (opt_text slug)
      @ fact ''still running'' (if pending = [] then [] else join '', '' pending))
     [line_text ''wait for the pending checks to finish.'',
      and_text ''  (run it again in a minute)'' (line_step 1 (''fjo pr checks '' @ pr @ scope_flag slug)),
      hang 3 (and_cmd (''fjo pr merge '' @ pr @ scope_flag slug @ '' --auto'') (line_text ''2. or enable automatic merge: '')),
      line_note ''pending checks return exit code 8. Rate limits also use this code.'']"

definition advise_checks_failed :: "str option \<Rightarrow> str \<Rightarrow> failed_check list \<Rightarrow> advice" where
  "advise_checks_failed slug pr failed = Advice
     (fact ''pull request'' pr @ fact ''repository'' (opt_text slug)
      @ listed ''failed'' (map (\<lambda>c. case fc_url c of Some u \<Rightarrow> (fc_name c @ '' '' @ [CHR 0xE2, CHR 0x80, CHR 0x94] @ '' '' @ u) | None \<Rightarrow> fc_name c) failed))
     [line_text ''inspect the failed checks listed above.'',
      (if list_ex (\<lambda>c. fc_url c \<noteq> None) failed
       then hang 3 (line_text (''1. open each failed check'' @ [CHR 0x27] @ ''s URL for details''))
       else hang 3 (line_text ''1. no URL was published; check the logs in the service that runs these checks'')),
      and_text ''  (the same checks in a browser)'' (line_step 2 (''fjo pr checks '' @ pr @ scope_flag slug @ '' --web'')),
      line_note ''checks may come from external services. For Forgejo Actions, use fjo run list.'']"

definition advise_run_failed :: "str option \<Rightarrow> str \<Rightarrow> str \<Rightarrow> str list \<Rightarrow> str option \<Rightarrow> advice" where
  "advise_run_failed slug run conclusion failed_jobs url = Advice
     (fact ''run'' run @ fact ''ended in'' conclusion @ fact ''repository'' (opt_text slug)
      @ fact ''failed jobs'' (if failed_jobs = [] then [] else join '', '' failed_jobs) @ fact ''web'' (opt_text url))
     [line_text ''inspect the workflow logs to find the cause.'',
      and_text ''  (only the steps that failed)'' (line_step 1 (''fjo run view '' @ run @ scope_flag slug @ '' --log-failed'')),
      and_text ''  (full logs)'' (line_step 2 (''fjo run logs '' @ run @ scope_flag slug)),
      line_note ''cancelled or timed-out runs may not have started. Check runner availability with fjo run runners.'']"

definition advise_pagination :: "nat \<Rightarrow> nat \<Rightarrow> request_ctx \<Rightarrow> advice" where
  "advise_pagination pages items ctx = Advice
     (fact ''pages fetched'' (show_nat pages) @ fact ''items so far'' (show_nat items))
     [line_text ''the page limit was reached before the server indicated the end of the results.'',
      line_text ''check whether the server ignores ?page or a proxy strips the Link and X-Total-Count headers.'',
      hang 3 (and_cmd (api_command ctx @ '' -i'') (line_text ''1. inspect the response headers: '')),
      hang 3 (and_cmd (api_command ctx @ '' --limit 500'') (line_text ''2. request a limited number of items: '')),
      line_text ''3. report unexpected pagination behavior to the server or proxy administrator'',
      line_note ''the request failed because the result may be incomplete.'']"

definition as_secs :: "duration \<Rightarrow> nat" where
  "as_secs d = d div 1000000000"

definition advise_rate :: "str \<Rightarrow> duration option \<Rightarrow> advice" where
  "advise_rate host retry_after = Advice
     (fact ''host'' host
      @ fact ''retry after'' (case retry_after of
          Some d \<Rightarrow> (show_nat (as_secs d) @ ''s (reported by the server)'') | None \<Rightarrow> ''not stated''))
     [line_text ''wait before sending more requests.'',
      and_text ''  then run it again'' (line_step 1 (''sleep '' @ show_nat (case retry_after of Some d \<Rightarrow> max (as_secs d) 1 | None \<Rightarrow> 60))),
      hang 3 (line_text ''2. reduce the request rate in scripts; server limits may be shared'')]"

definition advise_forbidden :: "str \<Rightarrow> advice" where
  "advise_forbidden server_message = Advice (fact ''server says'' (quoted server_message))
     [line_text ''the server denied this action. Check the message and your account permissions.'',
      and_text ''  (confirm who you are)'' (line_step 1 ''fjo api user --jq .login''),
      hang 3 (line_text ''2. ask for the access you need, or, as an instance admin, act as''),
      and_cmd ''--sudo <user>'' (line_text ''   someone who has it with '')]"

definition advise_server_error :: "nat \<Rightarrow> str \<Rightarrow> advice" where
  "advise_server_error status server_message = Advice
     (fact ''status'' (show_nat status) @ fact ''server says'' (quoted server_message))
     [line_text ''the server returned an error. Check its availability and logs.'',
      and_text ''  (is the instance up?)'' (line_step 1 ''fjo api version''),
      hang 3 (line_text ''2. if the error persists, ask the server administrator to check the logs'')]"

definition advise_unexpected :: "nat \<Rightarrow> str \<Rightarrow> request_ctx \<Rightarrow> advice" where
  "advise_unexpected status body_excerpt ctx = Advice
     (fact ''status'' (show_nat status) @ fact ''body'' (quoted body_excerpt))
     [line_text ''inspect the response for details.'',
      and_text ''  (the full response)'' (line_step 1 (api_command ctx @ '' -i'')),
      hang 3 (line_text ''2. check the server and reverse proxy logs'')]"

subsection \<open>Advice: local failures\<close>

definition advise_decode :: "str \<Rightarrow> str \<Rightarrow> str \<Rightarrow> request_ctx \<Rightarrow> advice" where
  "advise_decode pointer expected body_excerpt ctx = Advice
     (fact ''at'' pointer @ fact ''expected'' expected @ fact ''body'' (quoted body_excerpt))
     [line_text ''the response does not match the expected API format.'',
      and_text ''  (inspect the API response)'' (line_step 1 (api_command ctx)),
      line_text ''2. report the error with the field path shown above'',
      line_note ''a write may have succeeded before response decoding failed. Check before retrying.'']"

definition advise_usage :: advice where
  "advise_usage = Advice []
     [line_step 1 ''fjo --help'',
      and_text ''  (find the operation you want)'' (line_step 2 ''fjo raw search <words>'')]"

definition advise_json_field :: "str \<Rightarrow> str list \<Rightarrow> str option \<Rightarrow> advice" where
  "advise_json_field given available suggestion = Advice
     (fact ''asked for'' given @ fact ''did you mean'' (opt_text suggestion)
      @ (if available = [] then [] else fact ''available'' (join '', '' available)))
     [line_text ''use --json for top-level fields and --jq for nested fields.'',
      and_text ''  (list available fields)'' (line_step 1 ''fjo pr list --json''),
      and_text ''  (select a nested field)'' (line_step 2 (''fjo pr list --jq '' @ [CHR 0x27] @ ''.[].head.ref'' @ [CHR 0x27]))]"

definition advise_jq :: "str \<Rightarrow> str \<Rightarrow> nat option \<Rightarrow> advice" where
  "advise_jq ex message col = Advice
     (fact ''expr'' ex @ (case col of Some c \<Rightarrow> cont (replicate c CHR '' '' @ ''^'') | None \<Rightarrow> []) @ fact ''message'' message)
     [line_text ''correct the jq expression using the error above.'',
      hang 3 (and_text ''  then iterate with jq locally'' (line_step 1 ''fjo api repos/OWNER/REPO/pulls > /tmp/p.json'')),
      hang 3 (and_url ''https://jqlang.github.io/jq/manual/'' (line_text ''2. reference: ''))]"

definition advise_template :: "render_lib \<Rightarrow> msg \<Rightarrow> nat \<Rightarrow> advice" where
  "advise_template lib message line_no = Advice
     (fact ''line'' (show_nat line_no) @ fact ''message'' (rl_msg lib message))
     [line_text ''helpers are: tablerow, tablerender, timeago, timefmt, truncate, color, autocolor, join, pluck, hyperlink.'',
      hang 3 (line_text ''1. try this template:''),
      and_cmd (''fjo pr list --template '' @ [CHR 0x27] @ ''{{range .}}{{tablerow .number .title}}{{end}}{{tablerender}}'' @ [CHR 0x27]) (line_text ''   ''),
      line_note ''tablerender prints buffered rows; remaining rows are printed automatically at the end.'']"

definition advise_path :: "str \<Rightarrow> str \<Rightarrow> advice" where
  "advise_path path what = Advice (fact ''path'' path @ fact ''wanted for'' what)
     [line_text (''check the path to the '' @ what @ ''.''),
      line_step 1 (''ls -l '' @ path),
      hang 3 (line_text ''2. relative paths start at the current directory, not the repository root''),
      line_note ''check wildcard matches; some shells pass an unmatched pattern as a literal filename.'']"

definition git_says :: "str \<Rightarrow> (str \<times> str) list" where
  "git_says stderr = listed ''git says'' (filter (\<lambda>l. trim l \<noteq> []) (map trim_end (str_lines stderr)))"

definition advise_git_failed :: "str \<Rightarrow> str \<Rightarrow> int option \<Rightarrow> advice" where
  "advise_git_failed command stderr status = Advice
     (fact ''ran'' command @ fact ''exit'' (case status of Some s \<Rightarrow> show_int s | None \<Rightarrow> ''killed by a signal'') @ git_says stderr)
     [line_text (''check Git'' @ [CHR 0x27] @ ''s error above. Your Git configuration and credential helpers apply.''),
      and_text ''  (run Git directly)'' (line_step 1 command),
      hang 3 (line_text (''2. for authentication failures, check Git'' @ [CHR 0x27] @ ''s credential configuration'')),
      line_note ''fjo auth setup-git makes git use the same credential fjo does.'']"

definition advise_agit :: "str \<Rightarrow> agit_remedy \<Rightarrow> str \<Rightarrow> advice" where
  "advise_agit refspec remedy stderr = Advice (fact ''refspec'' refspec @ git_says stderr)
     (case remedy of
        ForcePush \<Rightarrow>
          [line_text ''amended or rebased commits require a force push to update the AGit pull request.'',
           line_step 1 ''fjo pr create --agit --force-push'',
           line_note ''keep the same topic to update this pull request; a new topic creates another.'']
      | PushOptionsDisabled \<Rightarrow>
          [line_text ''AGit requires Git push options, which this server has disabled.'',
           hang 3 (line_text ''1. ask the server administrator to enable Git push options''),
           and_text ''  (create from a branch instead)'' (line_step 2 ''fjo pr create --head <branch>'')]
      | TopicRequired \<Rightarrow>
          [line_text ''AGit requires a topic. Reuse it when updating the same pull request.'',
           line_step 1 ''fjo pr create --agit --topic <name>'',
           line_note ''--topic defaults to the current branch name.'']
      | Unrecognised \<Rightarrow>
          [line_text ''check the server response above for the reason.'',
           and_text ''  (if you can push a branch)'' (line_step 1 ''fjo pr create --head <branch>''),
           line_note ''if AGit is unavailable, create a pull request from a branch you can push.''])"

definition advise_io :: "render_lib \<Rightarrow> io_error \<Rightarrow> advice" where
  "advise_io lib e = Advice (fact ''cause'' (rl_io lib e))
     [line_text ''check the local path, permissions, and available disk space.'',
      and_text ''  (out of space?)'' (line_step 1 ''df -h .''),
      line_text ''2. check that the path exists and is writable by you'']"

definition advise_cancelled :: "request_ctx \<Rightarrow> advice" where
  "advise_cancelled ctx = Advice []
     [line_text (''check the operation'' @ [CHR 0x27] @ ''s result before retrying.''),
      and_text ''  (check whether the request went through)'' (line_step 1 (api_command ctx)),
      line_note ''a request already sent may still have completed on the server.'']"

definition advise :: "render_lib \<Rightarrow> error_kind \<Rightarrow> request_ctx \<Rightarrow> advice" where
  "advise lib kind ctx =
     (case kind of
        Dns host \<Rightarrow> advise_dns host
      | Connect host port cause scheme plaintext \<Rightarrow> advise_connect host port cause scheme plaintext
      | Tls host cause ca \<Rightarrow> advise_tls host cause ca
      | Timeout host after p \<Rightarrow> advise_timeout lib host after p
      | Proxy proxy cause \<Rightarrow> advise_proxy proxy cause ctx
      | NoHostConfigured \<Rightarrow> advise_no_host
      | UnknownHost given known \<Rightarrow> advise_unknown_host given known
      | NotAuthenticated host \<Rightarrow> advise_not_authenticated host ctx
      | TokenRejected host login settings_url \<Rightarrow> advise_token_rejected host login settings_url ctx
      | OauthNotSupported host tried \<Rightarrow> advise_oauth_not_supported host tried
      | OauthAuthorizationDenied host err description \<Rightarrow> advise_oauth_denied host err description
      | OauthStateMismatch host \<Rightarrow> advise_oauth_state host
      | OauthCallbackUnavailable host port reason \<Rightarrow> advise_oauth_callback host port reason
      | OauthTokenExchangeFailed host err description \<Rightarrow> advise_oauth_exchange host err description
      | OauthRefreshFailed host login reason \<Rightarrow> advise_oauth_refresh host login reason
      | OauthEntropyUnavailable cause \<Rightarrow> advise_oauth_entropy cause
      | InsufficientScope host needed have settings_url \<Rightarrow> advise_scope host needed have settings_url
      | TwoFactorRequired host \<Rightarrow> advise_two_factor host
      | KeyringUnavailable cause \<Rightarrow> advise_keyring cause
      | CredFilePermissions path mode \<Rightarrow> advise_cred_file path mode
      | NotAGitRepo \<Rightarrow> advise_not_git
      | RepoNotResolved tried \<Rightarrow> advise_repo_not_resolved lib tried
      | AmbiguousRemote candidates \<Rightarrow> advise_ambiguous candidates
      | RemoteHostUnknown remote host \<Rightarrow> advise_remote_host remote host
      | RepoNotFound slug host login probed server_message \<Rightarrow>
          (if \<not> probed then advise_repo_unchecked slug host login server_message
           else advise_repo_missing slug host login server_message ctx)
      | ResourceNotFound kd ident slug server_message \<Rightarrow>
          (if ident = [] then advise_collection kd slug server_message else advise_resource kd ident slug server_message)
      | RouteNotFound meth path inst \<Rightarrow> advise_route meth path inst ctx
      | Conflict server_message \<Rightarrow> advise_conflict server_message ctx
      | Validation fs server_message \<Rightarrow> advise_validation fs server_message
      | QuotaExceeded server_message uploading \<Rightarrow> advise_quota server_message uploading
      | Archived slug host \<Rightarrow> advise_archived slug host
      | StateConflict resource state server_message \<Rightarrow> advise_state resource state server_message ctx
      | ChecksPending slug pr pending \<Rightarrow> advise_checks_pending slug pr pending
      | ChecksFailed slug pr failed \<Rightarrow> advise_checks_failed slug pr failed
      | RunFailed slug run conclusion failed_jobs url \<Rightarrow> advise_run_failed slug run conclusion failed_jobs url
      | PaginationDidNotTerminate pages items \<Rightarrow> advise_pagination pages items ctx
      | RateLimited host retry_after \<Rightarrow> advise_rate host retry_after
      | Forbidden server_message \<Rightarrow> advise_forbidden server_message
      | ServerError status server_message \<Rightarrow> advise_server_error status server_message
      | UnexpectedStatus status body_excerpt \<Rightarrow> advise_unexpected status body_excerpt ctx
      | Decode pointer expected body_excerpt \<Rightarrow> advise_decode pointer expected body_excerpt ctx
      | Usage _ \<Rightarrow> advise_usage
      | UnknownJsonField given available suggestion \<Rightarrow> advise_json_field given available suggestion
      | JqCompile ex message col \<Rightarrow> advise_jq ex message col
      | Template message line_no \<Rightarrow> advise_template lib message line_no
      | PathNotFound path what \<Rightarrow> advise_path path what
      | GitFailed command stderr status \<Rightarrow> advise_git_failed command stderr status
      | AgitRefused refspec remedy stderr \<Rightarrow> advise_agit refspec remedy stderr
      | Io e \<Rightarrow> advise_io lib e
      | Cancelled \<Rightarrow> advise_cancelled ctx)"

subsection \<open>The diagnostic\<close>

definition all_facts :: "render_lib \<Rightarrow> error \<Rightarrow> (str \<times> str) list" where
  "all_facts lib e =
     (case request_line (err_ctx e) of Some r \<Rightarrow> [(''request'', r)] | None \<Rightarrow> [])
     @ ad_facts (advise lib (err_kind e) (err_ctx e))
     @ (case token_source_line (err_ctx e) of
          Some src \<Rightarrow> if credential_relevant (err_kind e) then [(''token from'', src)] else []
        | None \<Rightarrow> [])"

text \<open>\<open>{label:<width$}\<close> pads to a number of characters; the width is counted in bytes.\<close>

definition fact_line :: "nat \<Rightarrow> str \<times> str \<Rightarrow> str" where
  "fact_line width f =
     (let (key, v) = f; label = (if key = [] then [] else key @ '':'') in
      ''  '' @ label @ replicate (width - length (chars label)) CHR '' '' @ '' '' @ v @ [NL])"

definition facts_block :: "(str \<times> str) list \<Rightarrow> str" where
  "facts_block facts =
     (if facts = [] then []
      else let width = Max (set (map (\<lambda>(k, _). length k) facts)) + 1 in
        [NL, NL] @ concat (map (fact_line width) facts))"

definition todo_lines :: "render_lib \<Rightarrow> color \<Rightarrow> line \<Rightarrow> str" where
  "todo_lines lib c l =
     (case line_lines lib c l of
        [] \<Rightarrow> []
      | part # parts \<Rightarrow> ''  '' @ part @ [NL] @ concat (map (\<lambda>p. replicate (2 + hang_of l) CHR '' '' @ p @ [NL]) parts))"

definition todo_block :: "render_lib \<Rightarrow> color \<Rightarrow> line list \<Rightarrow> str" where
  "todo_block lib c todo =
     (if todo = [] then []
      else [NL, NL] @ color_paint lib c ''what to do:'' bold_style @ [NL] @ concat (map (todo_lines lib c) todo))"

text \<open>The newlines at the end of a block go, whatever was written before it.\<close>

definition render_error :: "render_lib \<Rightarrow> color \<Rightarrow> error \<Rightarrow> str" where
  "render_error lib c e =
     (let adv = advise lib (err_kind e) (err_ctx e);
          facts = all_facts lib e;
          out = color_paint lib c ''error:'' bold_red @ '' '' @ headline lib (err_kind e);
          out = (if facts \<noteq> [] then trim_end_c (out @ facts_block facts) NL else out)
      in if ad_todo adv \<noteq> [] then trim_end_c (out @ todo_block lib c (ad_todo adv)) NL else out)"

subsection \<open>Warnings\<close>

definition clone_kindless :: "render_lib \<Rightarrow> error_kind \<Rightarrow> error_kind" where
  "clone_kindless lib kind =
     (case kind of
        KeyringUnavailable cause \<Rightarrow> KeyringUnavailable cause
      | CredFilePermissions path mode \<Rightarrow> CredFilePermissions path mode
      | UnknownHost given known \<Rightarrow> UnknownHost given known
      | other \<Rightarrow> Usage (Fmt ''{}'' [headline lib other]))"

definition bold_yellow :: style where
  "bold_yellow = style_new\<lparr>sy_bold := True, sy_fg := Some Yellow\<rparr>"

definition warn :: "render_lib \<Rightarrow> error_kind \<Rightarrow> color \<Rightarrow> str list" where
  "warn lib kind c =
     (let label = color_paint lib c ''warning:'' bold_yellow;
          full = render_error lib c (error_new (clone_kindless lib kind));
          body = (case split_once_c full NL of Some (_, rest) \<Rightarrow> rest | None \<Rightarrow> [])
      in (label @ '' '' @ headline lib kind) # (if trim body \<noteq> [] then [trim_end body] else []))"

subsection \<open>Wrapping\<close>

lemma chars_append_le: "length (chars (a @ b)) \<le> length (chars a) + length (chars b)"
proof (induction a rule: chars.induct)
  case (2 c cs)
  show ?case
  proof (cases "dropWhile is_cont cs = []")
    case True
    then have "\<forall>x\<in>set cs. is_cont x" by (simp add: dropWhile_eq_Nil_conv)
    then have "dropWhile is_cont (cs @ b) = dropWhile is_cont b" by (simp add: dropWhile_append)
    moreover have "length (chars (dropWhile is_cont b)) \<le> length (chars b)" by (cases b) auto
    ultimately show ?thesis using True by simp
  next
    case False
    then have "\<exists>x\<in>set cs. \<not> is_cont x" by (auto simp: dropWhile_eq_Nil_conv)
    then have "dropWhile is_cont (cs @ b) = dropWhile is_cont cs @ b" by (auto simp: dropWhile_append)
    then show ?thesis using 2 by simp
  qed
qed simp

text \<open>The words of a text: what stands between its spaces.\<close>

definition words :: "str \<Rightarrow> str list" where
  "words s = filter (\<lambda>w. w \<noteq> []) (split_c s CHR '' '')"

lemma words_simps [simp]: "words [] = []" "CHR '' '' \<notin> set s \<Longrightarrow> s \<noteq> [] \<Longrightarrow> words s = [s]"
  by (simp_all add: words_def split_c_noop)

lemma words_space: "words (a @ CHR '' '' # b) = words a @ words b"
  by (simp add: words_def split_c_mid)

lemma wrap_loop_words:
  "\<forall>w\<in>set ws. CHR '' '' \<notin> set w \<Longrightarrow>
   concat (map words (wrap_loop width cur ws)) = words cur @ filter (\<lambda>w. w \<noteq> []) ws"
proof (induction width cur ws rule: wrap_loop.induct)
  case (2 width cur w ws)
  have "words w = (if w = [] then [] else [w])" using 2(4) by (cases "w = []") auto
  then show ?case using 2 by (cases "cur = []"; cases "w = []") (auto simp: words_space)
qed auto

lemma wrap_words: "concat (map words (wrap s width)) = words s"
  using wrap_loop_words [of "split_c s CHR '' ''" width "[]"] split_c_no_sep
  by (auto simp: wrap_def words_def)

lemma wrap_loop_width:
  assumes "\<forall>w\<in>set ws. CHR '' '' \<notin> set w" "length (chars cur) \<le> width \<or> CHR '' '' \<notin> set cur" "l \<in> set (wrap_loop width cur ws)"
  shows "length (chars l) \<le> width \<or> CHR '' '' \<notin> set l"
  using assms
proof (induction width cur ws rule: wrap_loop.induct)
  case (2 width cur w ws)
  have le: "length (chars (cur @ '' '' @ w)) \<le> width" if "length (chars cur) + 1 + length (chars w) \<le> width"
    using chars_append_le [of cur "'' '' @ w"] chars_append_le [of "'' ''" w] that by simp
  show ?case
  proof (cases "cur = []")
    case True
    then show ?thesis using 2 by auto
  next
    case False
    then show ?thesis using 2 le by (auto split: if_splits)
  qed
qed (auto split: if_splits)

lemma wrap_width: "l \<in> set (wrap s width) \<Longrightarrow> length (chars l) \<le> width \<or> CHR '' '' \<notin> set l"
  using wrap_loop_width [of "split_c s CHR '' ''" "[]" width l] split_c_no_sep [of _ s "CHR '' ''"]
  by (auto simp: wrap_def split: if_splits)

subsection \<open>What is printed whole\<close>

lemma sublist_split_c: "c \<notin> set w \<Longrightarrow> sublist w s \<Longrightarrow> \<exists>p\<in>set (split_c s c). sublist w p"
proof -
  have mid: "\<exists>x y zs. split_c (w @ b) c = (w @ x) # zs" if "c \<notin> set w" for w b
    using that by (induction w) (auto, metis append.simps(1) split_c_not_Nil neq_Nil_conv)
  assume w: "c \<notin> set w" and s: "sublist w s"
  then obtain a b where s: "s = a @ w @ b" by (auto simp: sublist_def)
  show ?thesis unfolding s
  proof (induction a)
    case Nil
    then show ?case using mid [OF w, of b] by (auto simp: sublist_def) (metis append_Nil list.set_intros(1))
  next
    case (Cons x a)
    then obtain p where p: "p \<in> set (split_c (a @ w @ b) c)" "sublist w p" by blast
    show ?case
    proof (cases "x = c")
      case True
      then show ?thesis using p by auto
    next
      case False
      then show ?thesis using p by (auto simp: sublist_Cons_right split: list.splits)
    qed
  qed
qed

lemma sublist_trim_end_c:
  assumes "w \<noteq> []" "last w \<noteq> c" "sublist w s"
  shows "sublist w (trim_end_c s c)"
  using assms(3)
proof (induction s rule: rev_induct)
  case (snoc x s)
  show ?case
  proof (cases "x = c")
    case True
    then have "sublist w s" using snoc.prems assms(1,2) by (auto simp: sublist_snoc suffix_snoc)
    then show ?thesis using snoc.IH True by (simp add: trim_end_c_def)
  next
    case False
    then show ?thesis using snoc.prems by (simp add: trim_end_c_def)
  qed
qed (use assms(1) in simp)

lemma chars_newline: "ch \<in> set (chars t) \<Longrightarrow> last ch = NL \<Longrightarrow> ch = [NL]"
proof (induction t rule: chars.induct)
  case (2 c cs)
  have "\<not> is_cont NL" by (simp add: NL_def is_cont_def byte_def)
  moreover have "is_cont (last (takeWhile is_cont cs))" if "takeWhile is_cont cs \<noteq> []"
    using last_in_set [OF that] by (rule set_takeWhileD [THEN conjunct2])
  ultimately show ?case using 2 by (auto split: if_splits)
qed simp

lemma last_trim: "trim s \<noteq> [] \<Longrightarrow> last (trim s) \<noteq> NL"
proof
  assume n: "trim s \<noteq> []" and l: "last (trim s) = NL"
  let ?ws = "dropWhile is_whitespace (rev (chars (trim_start s)))"
  have "trim s = concat (rev ?ws)" by (simp add: trim_def trim_end_def)
  then have w: "?ws \<noteq> []" using n by (metis concat.simps(1) rev.simps(1))
  have h: "\<not> is_whitespace (hd ?ws)" by (rule hd_dropWhile [OF w])
  have hd: "hd ?ws \<in> set (chars (trim_start s))" using w by (metis hd_in_set set_dropWhileD set_rev)
  then have "hd ?ws \<noteq> []" by (rule chars_nonempty)
  moreover have "trim s = concat (rev (tl ?ws)) @ hd ?ws" using w \<open>trim s = concat (rev ?ws)\<close>
    by (metis concat.simps concat_append append_Nil2 list.collapse rev.simps(2))
  ultimately have "last (hd ?ws) = NL" using l by simp
  then have "hd ?ws = [NL]" using hd chars_newline by blast
  then show False using h by (simp add: is_whitespace_def unicode_ws_def NL_def)
qed

lemma sublist_concat_map: "x \<in> set xs \<Longrightarrow> sublist (f x) (concat (map f xs))"
  by (induction xs) (auto intro: sublist_order.order.trans)

lemma sublist_mid: "sublist w v \<Longrightarrow> sublist w (a @ v @ b)"
  by (metis sublist_appendI sublist_order.order.trans)

lemma sublist_before: "sublist w v \<Longrightarrow> sublist w (a @ v)"
  using sublist_mid [of w v a "[]"] by simp

lemma sublist_after: "sublist w v \<Longrightarrow> sublist w (v @ b)"
  using sublist_mid [of w v "[]" b] by simp

lemma fact_line_prints: "sublist w v \<Longrightarrow> sublist w (fact_line width (k, v))"
proof -
  let ?label = "if k = [] then [] else k @ '':''"
  have "fact_line width (k, v) = (''  '' @ ?label @ replicate (width - length (chars ?label)) CHR '' '' @ '' '') @ v @ [NL]"
    by (simp add: fact_line_def Let_def)
  then show "sublist w v \<Longrightarrow> ?thesis" by (simp only: sublist_mid)
qed

lemma facts_block_prints:
  assumes "(k, v) \<in> set facts" "sublist w v"
  shows "sublist w (facts_block facts)"
proof -
  let ?width = "Max (set (map (\<lambda>(k, _). length k) facts)) + 1"
  have "sublist w (concat (map (fact_line ?width) facts))"
    using fact_line_prints [OF assms(2)] sublist_concat_map [OF assms(1)] by (rule sublist_order.order.trans)
  moreover have "facts_block facts = [NL, NL] @ concat (map (fact_line ?width) facts)"
    using assms(1) by (auto simp: facts_block_def Let_def)
  ultimately show ?thesis by (simp only: sublist_before)
qed

lemma todo_lines_prints:
  assumes "part \<in> set (line_lines lib c l)" "sublist w part"
  shows "sublist w (todo_lines lib c l)"
proof (cases "line_lines lib c l")
  case (Cons p ps)
  let ?f = "\<lambda>p. replicate (2 + hang_of l) CHR '' '' @ p @ [NL]"
  have eq: "todo_lines lib c l = (''  '' @ p @ [NL]) @ concat (map ?f ps)" by (simp add: todo_lines_def Cons)
  show ?thesis
  proof (cases "part = p")
    case True
    then show ?thesis unfolding eq by (intro sublist_after sublist_mid) (use assms(2) in simp)
  next
    case False
    then have "part \<in> set ps" using assms(1) Cons by simp
    then have "sublist w (concat (map ?f ps))"
      using sublist_order.order.trans [OF sublist_mid [OF assms(2)] sublist_concat_map [of part ps ?f]] by blast
    then show ?thesis unfolding eq by (rule sublist_before)
  qed
qed (use assms in simp)

lemma todo_block_prints:
  assumes "l \<in> set todo" "part \<in> set (line_lines lib c l)" "sublist w part"
  shows "sublist w (todo_block lib c todo)"
proof -
  have "sublist w (concat (map (todo_lines lib c) todo))"
    using todo_lines_prints [OF assms(2,3)] sublist_concat_map [OF assms(1)] by (rule sublist_order.order.trans)
  moreover have "todo_block lib c todo = ([NL, NL] @ color_paint lib c ''what to do:'' bold_style @ [NL]) @ concat (map (todo_lines lib c) todo)"
    using assms(1) by (auto simp: todo_block_def)
  ultimately show ?thesis by (simp only: sublist_before)
qed

text \<open>What a diagnostic prints: a part of a fact, and a part of a line of what to do.\<close>

lemma fact_printed:
  assumes "(k, v) \<in> set (all_facts lib e)" "sublist w v" "w \<noteq> []" "last w \<noteq> NL"
  shows "sublist w (render_error lib c e)"
proof -
  let ?out = "trim_end_c ((color_paint lib c ''error:'' bold_red @ '' '' @ headline lib (err_kind e)) @ facts_block (all_facts lib e)) NL"
  let ?todo = "ad_todo (advise lib (err_kind e) (err_ctx e))"
  have out: "sublist w ?out"
    by (intro sublist_trim_end_c sublist_before facts_block_prints) (rule assms)+
  have "sublist w (trim_end_c (?out @ todo_block lib c ?todo) NL)"
    using sublist_trim_end_c [OF assms(3,4) sublist_after [OF out]] .
  moreover have "all_facts lib e \<noteq> []" using assms(1) by auto
  ultimately show ?thesis using out by (simp add: render_error_def Let_def)
qed

lemma todo_printed:
  assumes "l \<in> set (ad_todo (advise lib (err_kind e) (err_ctx e)))" "part \<in> set (line_lines lib c l)"
    "sublist w part" "w \<noteq> []" "last w \<noteq> NL"
  shows "sublist w (render_error lib c e)"
proof -
  let ?todo = "ad_todo (advise lib (err_kind e) (err_ctx e))"
  have "sublist w (trim_end_c (out @ todo_block lib c ?todo) NL)" for out
    by (intro sublist_trim_end_c sublist_before todo_block_prints [OF assms(1-3)]) (rule assms)+
  moreover have "?todo \<noteq> []" using assms(1) by auto
  ultimately show ?thesis by (simp add: render_error_def Let_def)
qed

lemma command_in_line:
  assumes "Cmd cmd \<in> set (frags l)" "NL \<notin> set cmd"
  shows "\<exists>part\<in>set (line_lines lib c l). sublist cmd part"
proof -
  have "sublist cmd (frag_text lib c (Cmd cmd))"
    using sublist_mid [of cmd cmd] by (auto simp: frag_text_def color_paint_def split: color.split)
  then have "sublist cmd (line_render lib c l)"
    unfolding line_render_def using sublist_concat_map [OF assms(1)] by (rule sublist_order.order.trans)
  moreover have "\<not> is_prose l" unfolding is_prose_def list_all_iff using assms(1) by fastforce
  ultimately show ?thesis using sublist_split_c [OF assms(2)] by (simp add: line_lines_def Let_def)
qed

text \<open>The programs that a remedy may run, one of them with its environment.\<close>

definition PROGRAMS :: "str list" where
  "PROGRAMS = [''fjo'', ''curl'', ''openssl'', ''env'', ''chmod'', ''ls'', ''df'', ''sleep'',
     ''SSL_CERT_FILE=/path/to/ca.pem fjo'']"

definition runs :: "str \<Rightarrow> bool" where
  "runs cmd = list_ex (\<lambda>p. prefix (p @ '' '') cmd) PROGRAMS"

lemma api_command_runs: "runs (api_command ctx @ s)"
  by (simp add: api_command_def runs_def PROGRAMS_def Let_def split: option.split)

lemma list_command_runs: "runs (list_command kd slug)"
  by (simp add: list_command_def runs_def PROGRAMS_def Let_def split: option.split)

text \<open>A list of lines that has a command of a known program.\<close>

definition remedy :: "line list \<Rightarrow> bool" where
  "remedy todo = list_ex (\<lambda>l. list_ex (\<lambda>f. case f of Cmd c \<Rightarrow> runs c | _ \<Rightarrow> False) (frags l)) todo"

lemma remedy_simps [simp]:
  "remedy [] = False"
  "remedy (l # ls) \<longleftrightarrow> list_ex (\<lambda>f. case f of Cmd c \<Rightarrow> runs c | _ \<Rightarrow> False) (frags l) \<or> remedy ls"
  by (simp_all add: remedy_def)

lemma remedyD: "remedy todo \<Longrightarrow> \<exists>l cmd. l \<in> set todo \<and> Cmd cmd \<in> set (frags l) \<and> runs cmd"
proof -
  assume "remedy todo"
  then obtain l f where "l \<in> set todo" "f \<in> set (frags l)" "case f of Cmd c \<Rightarrow> runs c | _ \<Rightarrow> False"
    by (auto simp: remedy_def list_ex_iff)
  then show ?thesis by (cases f) auto
qed

lemmas line_defs = line_text_def line_step_def line_note_def and_text_def and_cmd_def and_url_def hang_def

lemma runs_word:
  "runs (''fjo '' @ s)" "runs (''curl '' @ s)" "runs (''openssl '' @ s)" "runs (''env '' @ s)" "runs (''chmod '' @ s)"
  "runs (''ls '' @ s)" "runs (''df '' @ s)" "runs (''sleep '' @ s)"
  "runs (''SSL_CERT_FILE=/path/to/ca.pem fjo '' @ s)"
  by (simp_all add: runs_def PROGRAMS_def)

lemmas runs_words [simp] = runs_word [simplified]

lemma remedy_network:
  "remedy (ad_todo (advise_dns host))" "remedy (ad_todo (advise_connect host port cause scheme pl))"
  "remedy (ad_todo (advise_tls host cause ca))" "remedy (ad_todo (advise_timeout lib host after p))"
  "remedy (ad_todo (advise_proxy proxy cause ctx))"
  by (simp_all add: line_defs advise_dns_def advise_connect_def advise_tls_def advise_timeout_def advise_proxy_def Let_def)

lemma remedy_login:
  "remedy (ad_todo advise_no_host)" "remedy (ad_todo (advise_unknown_host given known))"
  "remedy (ad_todo (advise_not_authenticated host ctx))" "remedy (ad_todo (advise_token_rejected host login url ctx))"
  "remedy (ad_todo (advise_oauth_not_supported host tried))" "remedy (ad_todo (advise_oauth_denied host err desc))"
  "remedy (ad_todo (advise_oauth_state host))" "remedy (ad_todo (advise_oauth_callback host port' reason))"
  "remedy (ad_todo (advise_oauth_exchange host err desc))" "remedy (ad_todo (advise_oauth_refresh host login' why))"
  "remedy (ad_todo (advise_oauth_entropy cause))" "remedy (ad_todo (advise_scope host needed have url))"
  "remedy (ad_todo (advise_two_factor host))" "remedy (ad_todo (advise_keyring kcause))"
  "remedy (ad_todo (advise_cred_file path mode))"
  by (simp_all add: line_defs advise_no_host_def advise_unknown_host_def advise_not_authenticated_def advise_token_rejected_def
    advise_oauth_not_supported_def advise_oauth_denied_def advise_oauth_state_def advise_oauth_callback_def
    advise_oauth_exchange_def advise_oauth_refresh_def advise_oauth_entropy_def advise_scope_def advise_two_factor_def
    advise_keyring_def advise_cred_file_def Let_def split: callback_failure.split)

lemma remedy_checkout:
  "remedy (ad_todo advise_not_git)" "remedy (ad_todo (advise_repo_not_resolved lib tried))"
  "remedy (ad_todo (advise_ambiguous candidates))" "remedy (ad_todo (advise_remote_host remote host))"
  by (simp_all add: line_defs advise_not_git_def advise_repo_not_resolved_def advise_ambiguous_def advise_remote_host_def)

lemma remedy_instance:
  "remedy (ad_todo (advise_repo_unchecked slug host login m))" "remedy (ad_todo (advise_repo_missing slug host login m ctx))"
  "remedy (ad_todo (advise_collection kd slug' m))" "remedy (ad_todo (advise_resource kd ident slug' m))"
  "remedy (ad_todo (advise_route meth path inst ctx))" "remedy (ad_todo (advise_conflict m' ctx))"
  "remedy (ad_todo (advise_validation fs m))" "remedy (ad_todo (advise_quota m' up))" "remedy (ad_todo (advise_archived slug host))"
  "remedy (ad_todo (advise_state res st m' ctx))" "remedy (ad_todo (advise_checks_pending slug' pr pending))"
  "remedy (ad_todo (advise_checks_failed slug' pr failed))" "remedy (ad_todo (advise_run_failed slug' run concl jobs url))"
  "remedy (ad_todo (advise_pagination pages items ctx))" "remedy (ad_todo (advise_rate host after))"
  "remedy (ad_todo (advise_forbidden m'))" "remedy (ad_todo (advise_server_error status m'))"
  "remedy (ad_todo (advise_unexpected status m' ctx))"
  using api_command_runs [of ctx "[]"] api_command_runs [of ctx] list_command_runs
  by (simp_all add: line_defs advise_repo_unchecked_def advise_repo_missing_def advise_collection_def advise_resource_def
    advise_route_def advise_conflict_def advise_validation_def advise_quota_def advise_archived_def advise_state_def
    advise_checks_pending_def advise_checks_failed_def advise_run_failed_def advise_pagination_def advise_rate_def
    advise_forbidden_def advise_server_error_def advise_unexpected_def split: option.split)

lemma remedy_local:
  "remedy (ad_todo (advise_decode pointer expected body ctx))" "remedy (ad_todo advise_usage)"
  "remedy (ad_todo (advise_json_field given available sugg))" "remedy (ad_todo (advise_jq ex message col))"
  "remedy (ad_todo (advise_template lib tm line_no))" "remedy (ad_todo (advise_path path what))"
  "remedy (ad_todo (advise_agit refspec remedy' stderr))" "remedy (ad_todo (advise_io lib io))" "remedy (ad_todo (advise_cancelled ctx))"
  using api_command_runs [of ctx "[]"]
  by (simp_all add: line_defs advise_decode_def advise_usage_def advise_json_field_def advise_jq_def advise_template_def
    advise_path_def advise_agit_def advise_io_def advise_cancelled_def split: agit_remedy.split)

lemma advise_remedy:
  "remedy (ad_todo (advise lib kind ctx)) \<or> (\<exists>cmd stderr status. kind = GitFailed cmd stderr status)"
  by (cases kind) (simp_all add: advise_def remedy_network remedy_login remedy_checkout remedy_instance remedy_local)

lemma advise_command:
  "\<exists>l cmd. l \<in> set (ad_todo (advise lib kind ctx)) \<and> Cmd cmd \<in> set (frags l)
     \<and> (runs cmd \<or> (\<exists>stderr status. kind = GitFailed cmd stderr status))"
proof (cases "remedy (ad_todo (advise lib kind ctx))")
  case True
  then show ?thesis using remedyD by blast
next
  case False
  then obtain cmd stderr status where "kind = GitFailed cmd stderr status" using advise_remedy by blast
  then show ?thesis
    by (intro exI [of _ "and_text ''  (run Git directly)'' (line_step 1 cmd)"] exI [of _ cmd])
      (simp add: advise_def advise_git_failed_def line_defs)
qed

lemma sublist_trim: "sublist (trim s) s"
proof -
  have a: "sublist (trim_start t) t" for t
  proof -
    have "t = concat (takeWhile is_whitespace (chars t)) @ trim_start t"
      by (simp add: trim_start_def flip: concat_append)
    then show ?thesis by (metis sublist_before sublist_order.order_refl)
  qed
  have b: "sublist (trim_end t) t" for t
  proof -
    have "t = trim_end t @ concat (rev (takeWhile is_whitespace (rev (chars t))))"
      by (simp add: trim_end_def flip: concat_append rev_append)
    then show ?thesis by (metis sublist_after sublist_order.order_refl)
  qed
  show ?thesis unfolding trim_def using a b sublist_order.order.trans by blast
qed

lemma fact_blank: "trim v \<noteq> [] \<Longrightarrow> fact k v = [(k, v)]"
  by (simp add: fact_def)

lemma quoted_trim: "trim m \<noteq> [] \<Longrightarrow> quoted m = trim m"
  by (simp add: quoted_def)

text \<open>A fact of the advice whose value is not blank is printed without the white space around it.\<close>

lemma advice_fact_printed:
  assumes "(k, v) \<in> set (ad_facts (advise lib (err_kind e) (err_ctx e)))" "trim v \<noteq> []"
  shows "sublist (trim v) (render_error lib c e)"
  using fact_printed [of k v lib e "trim v"] assms sublist_trim last_trim by (simp add: all_facts_def)

lemma validation_printed:
  assumes "err_kind e = Validation fs m" "f \<in> set fs" "trim (fe_message f) \<noteq> []"
  shows "sublist (trim (fe_message f)) (render_error lib c e)"
  by (rule advice_fact_printed [of "case fe_field f of Some name \<Rightarrow> name | None \<Rightarrow> ''problem''"])
    (use assms in \<open>auto simp: advise_def advise_validation_def fields_facts_def fact_def\<close>)

subsection \<open>Properties\<close>


definition sample_render_lib :: render_lib where
  "sample_render_lib = \<lparr>rl_text = sample_text_lib, rl_duration = (\<lambda>_. ''30.0s''),
     rl_io = (\<lambda>_. ''no space left''), rl_msg = (\<lambda>m. case m of Fmt t _ \<Rightarrow> t)\<rparr>"


text \<open>
  C0.  A line of prose keeps its words, in their order, when it is wrapped, and no line of it is
  wider than the 80 columns, its indentation included, unless it is a single word.
\<close>

theorem prose_fits:
  assumes "is_prose l" "hang_of l \<le> 78" "part \<in> set (line_lines lib c l)"
  shows "concat (map words (line_lines lib c l)) = concat (map words (split_c (line_render lib c l) NL))
    \<and> (2 + hang_of l + length (chars part) \<le> 80 \<or> CHR '' '' \<notin> set part)"
proof
  let ?w = "WRAP - (2 + hang_of l)"
  have lines: "line_lines lib c l = concat (map (\<lambda>part. wrap part ?w) (split_c (line_render lib c l) NL))"
    using assms(1) by (simp add: line_lines_def Let_def)
  have "concat (map words (concat (map (\<lambda>part. wrap part ?w) ps))) = concat (map words ps)" for ps
    by (induction ps) (simp_all add: wrap_words)
  then show "concat (map words (line_lines lib c l)) = concat (map words (split_c (line_render lib c l) NL))"
    by (simp add: lines)
  obtain p where "part \<in> set (wrap p ?w)" using assms(3) lines by auto
  then have "length (chars part) \<le> ?w \<or> CHR '' '' \<notin> set part" by (rule wrap_width)
  then show "2 + hang_of l + length (chars part) \<le> 80 \<or> CHR '' '' \<notin> set part" using assms(2) by (auto simp: WRAP_def)
qed

lemma prose_fits_witness:
  "2 + 6 + length (chars (line_lines sample_render_lib Never (line_note ''a server may require a field that the API specification marks as an optional one'') ! 0)) \<le> 80"
proof -
  let ?l = "line_note ''a server may require a field that the API specification marks as an optional one''"
  have "is_prose ?l \<and> hang_of ?l = 6 \<and> line_lines sample_render_lib Never ?l \<noteq> []
      \<and> CHR '' '' \<in> set (line_lines sample_render_lib Never ?l ! 0)" by code_simp
  then show ?thesis using prose_fits [of ?l "line_lines sample_render_lib Never ?l ! 0" sample_render_lib Never] by auto
qed

end
