(* ===== verification/Splitter.thy ===== *)
theory Splitter
  imports Rust_Str
begin

text \<open>
  Splitters of a command line into words.  The program has two of them (\<open>split\<close> of
  \<open>crates/fjo/src/cmd/alias.rs\<close> and \<open>split_command\<close> of \<open>crates/fjo/src/output/pager.rs\<close>); what both promise is the
  contract \<open>word_splitter\<close>: words written with every character escaped are read back.
\<close>

definition SQ :: str where "SQ = [CHR 0x27]"
definition DQ :: str where "DQ = [CHR 0x22]"
definition BSL :: str where "BSL = [CHR 0x5C]"

subsection \<open>Writing words\<close>

text \<open>One way to write any word: every character escaped, and quotes for the empty word.\<close>

definition written :: "str \<Rightarrow> str" where
  "written w = (if w = [] then DQ @ DQ else concat (map (\<lambda>c. BSL @ c) (chars w)))"

definition word_ok :: "str \<Rightarrow> bool" where
  "word_ok w \<longleftrightarrow> w = [] \<or> \<not> is_cont (hd w)"

lemma not_cont [simp]: "\<not> is_cont CHR 0x5C" "\<not> is_cont CHR 0x22" "\<not> is_cont CHR 0x27" "\<not> is_cont CHR 0x20"
  by (simp_all add: is_cont_def byte_def)

lemma char_listI: "\<forall>x\<in>set xs. x \<noteq> [] \<and> \<not> is_cont (hd x) \<and> (\<forall>c\<in>set (tl x). is_cont c) \<Longrightarrow> char_list xs"
  by (cases xs) (auto simp: char_list_def)

lemma concat_pairs: "concat (concat (map (\<lambda>c. [a, c]) xs)) = concat (map (\<lambda>c. a @ c) xs)"
  by (induction xs) auto

definition written_chars :: "str \<Rightarrow> str list" where
  "written_chars w = (if w = [] then [DQ, DQ] else concat (map (\<lambda>c. [BSL, c]) (chars w)))"

lemma concat_written_chars: "concat (written_chars w) = written w"
  by (simp add: written_chars_def written_def concat_pairs)

lemma char_list_append: "char_list (xs @ ys) \<longleftrightarrow> char_list xs \<and> char_list ys \<and> (xs = [] \<or> ys = [] \<or> \<not> is_cont (hd (hd ys)))"
  by (cases xs; cases ys) (auto simp: char_list_def)

lemma char_list_written: "word_ok w \<Longrightarrow> char_list (written_chars w) \<and> \<not> is_cont (hd (hd (written_chars w)))"
proof (cases w)
  case (Cons c cs)
  assume ok: "word_ok w"
  have cl: "char_list (chars w)" by (rule char_list_chars)
  have "\<forall>x\<in>set (chars w). x \<noteq> [] \<and> \<not> is_cont (hd x) \<and> (\<forall>c\<in>set (tl x). is_cont c)"
    using cl ok Cons by (auto simp: char_list_def word_ok_def)
  then have "char_list (concat (map (\<lambda>c. [BSL, c]) (chars w)))"
    by (intro char_listI) (auto simp: BSL_def)
  then show ?thesis using Cons by (auto simp: written_chars_def BSL_def)
qed (simp add: written_chars_def char_list_def DQ_def)

fun written_line :: "str list \<Rightarrow> str list" where
  "written_line [] = []"
| "written_line [w] = written_chars w"
| "written_line (w # ws) = written_chars w @ '' '' # written_line ws"

lemma char_list_written_line: "\<forall>w\<in>set ws. word_ok w \<Longrightarrow> char_list (written_line ws) \<and> (ws \<noteq> [] \<longrightarrow> \<not> is_cont (hd (hd (written_line ws))) \<and> written_line ws \<noteq> [])"
proof (induction ws rule: written_line.induct)
  case (3 w v vs)
  have "written_chars w \<noteq> []" by (cases w) (auto simp: written_chars_def)
  moreover have "written_line (w # v # vs) = written_chars w @ [[CHR 0x20]] @ written_line (v # vs)" by simp
  moreover have "char_list ([CHR 0x20] # xs)" if "char_list xs" "\<not> is_cont (hd (hd xs))" for xs
    using that by (cases xs) (auto simp: char_list_def)
  ultimately show ?case using 3 char_list_written [of w] by (auto simp: char_list_append simp del: written_line.simps)
next
  case (2 w)
  then show ?case using char_list_written [of w] by (cases w) (auto simp: written_chars_def)
qed (simp add: char_list_def)

lemma concat_written_line: "concat (written_line ws) = join '' '' (map written ws)"
  by (induction ws rule: written_line.induct) (simp_all add: concat_written_chars)

subsection \<open>The contract\<close>

text \<open>A reader of characters outside quotes, with the word being built and whether there is one.\<close>

locale word_splitter =
  fixes run :: "str list \<Rightarrow> str \<Rightarrow> bool \<Rightarrow> 'r"
    and fin :: "str list \<Rightarrow> 'r"
    and emit :: "str \<Rightarrow> 'r \<Rightarrow> 'r"
  assumes run_escape: "run (BSL # c # cs) w h = run cs (w @ c) True"
    and run_quotes: "run (DQ # DQ # cs) [] h = run cs [] True"
    and run_space: "run ('' '' # cs) w True = emit w (run cs [] False)"
    and run_word: "run [] w True = fin [w]"
    and run_none: "run [] [] False = fin []"
    and emit_fin: "emit w (fin ws) = fin (w # ws)"
begin

lemma run_escaped: "run (concat (map (\<lambda>c. [BSL, c]) cs) @ rest) w True = run rest (w @ concat cs) True"
  by (induction cs arbitrary: w) (simp_all add: run_escape)

lemma run_written: "run (written_chars w @ rest) [] False = run rest w True"
proof (cases w)
  case Nil
  then show ?thesis by (simp add: written_chars_def run_quotes)
next
  case (Cons c cs)
  then show ?thesis using run_escaped [of "tl (chars w)" rest "hd (chars w)"]
    by (simp add: written_chars_def run_escape)
qed

lemma run_line: "run (written_line ws) [] False = fin ws"
proof (induction ws rule: written_line.induct)
  case (2 w)
  then show ?case using run_written [of w "[]"] by (simp add: run_word)
next
  case (3 w v vs)
  then show ?case using run_written [of w "'' '' # written_line (v # vs)"] by (simp add: run_space emit_fin)
qed (simp add: run_none)

lemma run_joined: "list_all word_ok ws \<Longrightarrow> run (chars (join '' '' (map written ws))) [] False = fin ws"
  using run_line chars_concat [of "written_line ws"] char_list_written_line [of ws]
  by (simp add: list_all_iff flip: concat_written_line)

end

end
