(* ===== verification/Alias.thy ===== *)
theory Alias
  imports Config Splitter
begin

text \<open>
  \<open>crates/fjo/src/cmd/alias.rs\<close>: the shortcuts of \<open>config.toml\<close> and their expansion, which rewrites
  \<open>argv\<close> before anything is parsed.  \<open>commands\<close> are the names of the command tree (\<open>clap\<close>), an
  \<open>OsString\<close> is its bytes; what is printed for the user is a message.
\<close>

subsection \<open>Words\<close>


definition alias_usage :: "str \<Rightarrow> str list \<Rightarrow> error" where
  "alias_usage t args = error_new (Usage (Fmt t args))"

text \<open>The splitter, from the characters left, the word being built, whether there is one, and the open quote.\<close>

function (sequential) split_loop :: "str list \<Rightarrow> str \<Rightarrow> bool \<Rightarrow> str option \<Rightarrow> (error, str list) res" where
  "split_loop [] word have_word quote =
     (if quote \<noteq> None then Inl (alias_usage ''the expansion has an unclosed quote'' [])
      else Inr (if have_word then [word] else []))"
| "split_loop (c # cs) word have_word (Some q) =
     (if c = q then split_loop cs word have_word None
      else if q = SQ then split_loop cs (word @ c) have_word (Some q)
      else if q = DQ \<and> c = BSL then
        (case cs of
           d # cs' \<Rightarrow> if d = DQ \<or> d = BSL then split_loop cs' (word @ d) have_word (Some q)
                     else split_loop cs' (word @ BSL @ d) have_word (Some q)
         | [] \<Rightarrow> split_loop [] (word @ BSL) have_word (Some q))
      else split_loop cs (word @ c) have_word (Some q))"
| "split_loop (c # cs) word have_word None =
     (if c = SQ \<or> c = DQ then split_loop cs word True (Some c)
      else if c = BSL then
        (case cs of
           d # cs' \<Rightarrow> split_loop cs' (word @ d) True None
         | [] \<Rightarrow> Inl (alias_usage ''the expansion ends with a lone backslash'' []))
      else if is_whitespace c then
        (if have_word then res_map ((#) word) (split_loop cs [] False None) else split_loop cs word have_word None)
      else split_loop cs (word @ c) True None)"
  by pat_completeness auto
termination by (relation "measure (\<lambda>(cs, _). length cs)") auto

definition alias_split :: "str \<Rightarrow> (error, str list) res" where
  "alias_split input = split_loop (chars input) [] False None"

text \<open>\<open>$1\<close> to \<open>$9\<close>; the indices of the arguments used, the last first.\<close>

definition placeholder :: "str \<Rightarrow> nat option" where
  "placeholder d =
     (case d of [c] \<Rightarrow> if is_ascii_digit c \<and> 1 \<le> digit_val c then Some (digit_val c) else None | _ \<Rightarrow> None)"

function (sequential) subst_word :: "str \<Rightarrow> str list \<Rightarrow> str list \<Rightarrow> (error, str \<times> nat list) res" where
  "subst_word name args [] = Inr ([], [])"
| "subst_word name args (c # cs) =
     (if c \<noteq> ''$'' then res_map (\<lambda>(r, used). (c @ r, used)) (subst_word name args cs)
      else (case (case cs of [] \<Rightarrow> None | d # _ \<Rightarrow> placeholder d) of
              None \<Rightarrow> res_map (\<lambda>(r, used). (''$'' @ r, used)) (subst_word name args cs)
            | Some n \<Rightarrow>
                if n \<le> length args
                then res_map (\<lambda>(r, used). (args ! (n - 1) @ r, (n - 1) # used)) (subst_word name args (tl cs))
                else Inl (alias_usage ''alias {name:?} requires at least {n} arguments (uses ${n}); received {}''
                       [name, show_nat n, show_nat (length args)])))"
  by pat_completeness auto
termination by (relation "measure (\<lambda>(_, _, cs). length cs)") auto

fun subst_words :: "str \<Rightarrow> str list \<Rightarrow> str list \<Rightarrow> (error, str list \<times> nat list) res" where
  "subst_words name args [] = Inr ([], [])"
| "subst_words name args (w # ws) =
     res_bind (subst_word name args (chars w)) (\<lambda>(r, used).
       res_map (\<lambda>(rs, used'). (r # rs, used @ used')) (subst_words name args ws))"

definition substitute :: "str \<Rightarrow> str list \<Rightarrow> str list \<Rightarrow> (error, str list \<times> str list) res" where
  "substitute name ws args =
     res_map (\<lambda>(out, used). (out, map snd (filter (\<lambda>(i, _). i \<notin> set used) (enumerate 0 args)))) (subst_words name args ws)"

subsection \<open>Expansion\<close>

definition BUILTIN :: "(str \<times> str) list" where
  "BUILTIN = [(''pull'', ''pr''), (''labels'', ''label''), (''ms'', ''milestone''), (''login'', ''auth login''), (''whoami'', ''auth status'')]"

definition MAX_DEPTH :: nat where
  "MAX_DEPTH = 10"

definition ALIAS_VALUE_FLAGS :: "str list" where
  "ALIAS_VALUE_FLAGS = [''--host'', ''--hostname'', ''--login'', ''--repo'', ''-R'', ''--jq'', ''-q'', ''--template'', ''-t'', ''--color'',
     ''--sudo'', ''--otp'', ''--max-retries'', ''--limit'', ''--output'']"

text \<open>\<open>entry(name).or_insert_with(..)\<close> for every built-in.\<close>

definition with_builtins :: "str str_map \<Rightarrow> str str_map" where
  "with_builtins user = foldl (\<lambda>m (n, e). if map_get n m = None then map_put n e m else m) user BUILTIN"

text \<open>The tokens from a position on, with the position.\<close>

function (sequential) word_index :: "nat \<Rightarrow> bool \<Rightarrow> str list \<Rightarrow> nat option" where
  "word_index i end_of_flags [] = None"
| "word_index i end_of_flags (tok # toks) =
     (if end_of_flags \<or> tok = ''-'' \<or> \<not> starts_with tok ''-'' then Some i
      else if tok = ''--'' then word_index (Suc i) True toks
      else if \<not> List.member tok CHR ''='' \<and> utf8_valid tok \<and> List.member ALIAS_VALUE_FLAGS tok
      then word_index (i + 2) end_of_flags (tl toks)
      else word_index (Suc i) end_of_flags toks)"
  by pat_completeness auto
termination by (relation "measure (\<lambda>(_, _, toks). length toks)") auto

definition command_word_index :: "str list \<Rightarrow> nat option" where
  "command_word_index argv = word_index 1 False (tl argv)"

definition loop_error :: "str \<Rightarrow> str list \<Rightarrow> error" where
  "loop_error name seen = alias_usage ''the alias {name:?} expands in a loop: {}. Fix it with `fjo alias delete {name}` or by editing config.toml.''
     [name, join '' -> '' seen, name]"

definition too_deep :: "str \<Rightarrow> error" where
  "too_deep name = alias_usage ''the alias {name:?} expands through more than {MAX_DEPTH} other aliases; that is almost certainly a mistake''
     [name, show_nat MAX_DEPTH]"

fun expand_loop :: "nat \<Rightarrow> str \<Rightarrow> str str_map \<Rightarrow> str list \<Rightarrow> str \<Rightarrow> str list \<Rightarrow> (error, str list) res" where
  "expand_loop 0 name aliases seen head args = Inl (too_deep name)"
| "expand_loop (Suc n) name aliases seen head args =
     (if List.member seen head then Inl (loop_error name (seen @ [head]))
      else (case map_get head aliases of
              None \<Rightarrow> Inr (head # args)
            | Some expansion \<Rightarrow>
                res_bind (alias_split expansion) (\<lambda>ws.
                res_bind (substitute name ws args) (\<lambda>(substituted, leftover).
                  case substituted of
                    [] \<Rightarrow> Inl (alias_usage ''the alias {head:?} expands to nothing'' [head])
                  | h # t \<Rightarrow> expand_loop n name aliases (seen @ [head]) h (t @ leftover)))))"

definition expand_words :: "str \<Rightarrow> str list \<Rightarrow> str str_map \<Rightarrow> (error, str list) res" where
  "expand_words name args aliases = expand_loop MAX_DEPTH name aliases [] name args"

text \<open>\<open>config\<close> is what loading \<open>config.toml\<close> gave, asked for only when there is a command word.\<close>

definition alias_expand :: "(error, config) res \<Rightarrow> str list \<Rightarrow> (error, str list) res" where
  "alias_expand config argv =
     (case command_word_index argv of
        None \<Rightarrow> Inr argv
      | Some at \<Rightarrow>
          (let word = argv ! at in
           if \<not> utf8_valid word then Inr argv
           else res_bind config (\<lambda>c.
             let aliases = with_builtins (config_aliases c) in
             if map_get word aliases = None then Inr argv
             else (let tail = drop (Suc at) argv in
               if \<not> list_all utf8_valid tail
               then Inl (alias_usage ''alias {word:?} received an argument that is not valid UTF-8. Run the underlying command directly.'' [word])
               else res_map (\<lambda>ws. take at argv @ ws) (expand_words word tail aliases)))))"

subsection \<open>Setting an alias\<close>

definition check_name :: "str list \<Rightarrow> str \<Rightarrow> (error, unit) res" where
  "check_name commands name =
     (if name = [] \<or> starts_with name ''-'' \<or> length (split_whitespace name) \<noteq> 1
      then Inl (alias_usage (''{name:?} is not a usable alias name: it must be a single word that does not start with '' @ [CHR 0x27] @ ''-'' @ [CHR 0x27]) [name])
      else if List.member commands name
      then Inl (alias_usage ''{name:?} is already a real fjo command, so an alias by that name could never run; `fjo {name} --help` shows what it does. Pick another name.'' [name, name])
      else Inr ())"

text \<open>The chain of names from its last one, and the table of expansions.\<close>

fun cycle_loop :: "nat \<Rightarrow> str str_map \<Rightarrow> str list \<Rightarrow> str \<Rightarrow> str list option" where
  "cycle_loop 0 table chain head = Some chain"
| "cycle_loop (Suc n) table chain head =
     (case map_get head table of
        None \<Rightarrow> None
      | Some expansion \<Rightarrow>
          (case alias_split expansion of
             Inr (next_word # _) \<Rightarrow>
               if List.member chain next_word then Some (chain @ [next_word])
               else cycle_loop n table (chain @ [next_word]) next_word
           | _ \<Rightarrow> None))"

definition find_cycle :: "str \<Rightarrow> str str_map \<Rightarrow> str list option" where
  "find_cycle start table = cycle_loop (Suc MAX_DEPTH) table [start] start"

definition check_expansion :: "str list \<Rightarrow> str \<Rightarrow> str \<Rightarrow> str str_map \<Rightarrow> (error, unit) res" where
  "check_expansion commands name expansion existing =
     res_bind (alias_split expansion) (\<lambda>ws.
       case ws of
         [] \<Rightarrow> Inl (alias_usage ''the expansion for {name:?} is empty'' [name])
       | head # _ \<Rightarrow>
           if starts_with head ''-''
           then Inl (alias_usage ''the expansion for {name:?} starts with the flag {head:?}; it has to start with a command, because that is the word fjo will look up'' [name, head])
           else if \<not> List.member commands head
             \<and> \<not> (map_get head existing \<noteq> None \<or> List.member (map fst BUILTIN) head \<or> head = name)
           then Inl (alias_usage ''{head:?} is not a real fjo command or an existing alias, so {name:?} could never run; `fjo --help` lists the commands and `fjo raw search {head}` searches the API'' [head, name, head])
           else (case find_cycle name (map_put name expansion (with_builtins existing)) of
                   Some chain \<Rightarrow> Inl (alias_usage ''that would make an alias loop: {}. fjo would expand it forever, so it is refused.'' [join '' -> '' chain])
                 | None \<Rightarrow> Inr ()))"

text \<open>What \<open>set\<close> does to the loaded preferences, before they are saved.\<close>

definition checked_alias :: "str list \<Rightarrow> str \<Rightarrow> str \<Rightarrow> config \<Rightarrow> (error, unit) res \<times> config" where
  "checked_alias commands name expansion c =
     (case check_name commands name of
        Inl e \<Rightarrow> (Inl e, c)
      | Inr _ \<Rightarrow>
          (case check_expansion commands name expansion (config_aliases c) of
             Inl e \<Rightarrow> (Inl e, c)
           | Inr _ \<Rightarrow> set_alias c name expansion))"

definition alias_set ::
  "table_lib \<Rightarrow> io_env \<Rightarrow> (error, config) res \<Rightarrow> str list \<Rightarrow> str \<Rightarrow> str \<Rightarrow> file_system \<Rightarrow> (error, msg) res \<times> file_system" where
  "alias_set lib io config commands raw_name raw_expansion fs =
     (case config of
        Inl e \<Rightarrow> (Inl e, fs)
      | Inr c \<Rightarrow>
          (let name = trim raw_name; expansion = trim raw_expansion; replacing = config_alias c name in
           case checked_alias commands name expansion c of
             (Inl e, _) \<Rightarrow> (Inl e, fs)
           | (Inr _, c) \<Rightarrow>
               (case config_save lib io c fs of
                  (Inl e, fs) \<Rightarrow> (Inl e, fs)
                | (Inr _, fs) \<Rightarrow>
                    (Inr (case replacing of
                       Some old \<Rightarrow> if old \<noteq> expansion then Fmt ''{name} was {old:?}, now {expansion:?}'' [name, old, expansion]
                                  else Fmt ''{name} expands to {expansion:?}'' [name, expansion]
                     | None \<Rightarrow> Fmt ''{name} expands to {expansion:?}'' [name, expansion]), fs))))"

subsection \<open>Deleting and importing\<close>

definition alias_delete ::
  "table_lib \<Rightarrow> io_env \<Rightarrow> (error, config) res \<Rightarrow> str \<Rightarrow> file_system \<Rightarrow> (error, msg) res \<times> file_system" where
  "alias_delete lib io config raw_name fs =
     (case config of
        Inl e \<Rightarrow> (Inl e, fs)
      | Inr c \<Rightarrow>
          (let name = trim raw_name in
           case config_alias c name of
             None \<Rightarrow> (Inl (alias_usage ''no alias {name:?}; `fjo alias list` shows the ones you have'' [name]), fs)
           | Some expansion \<Rightarrow>
               (case config_save lib io (snd (remove_alias c name)) fs of
                  (Inl e, fs) \<Rightarrow> (Inl e, fs)
                | (Inr _, fs) \<Rightarrow> (Inr (Fmt ''deleted {name} ({expansion:?})'' [name, expansion]), fs))))"

function (sequential) unescape_basic :: "str list \<Rightarrow> str option" where
  "unescape_basic [] = Some []"
| "unescape_basic (c # cs) =
     (if c \<noteq> BSL then map_option ((@) c) (unescape_basic cs)
      else (case cs of
              [] \<Rightarrow> None
            | d # cs' \<Rightarrow>
                map_option ((@) (if d = ''n'' then [CHR 0x0A] else if d = ''t'' then [CHR 0x09] else if d = ''r'' then [CHR 0x0D] else d))
                  (unescape_basic cs')))"
  by pat_completeness auto
termination by (relation "measure length") auto

definition unquote :: "str \<Rightarrow> str option" where
  "unquote v =
     (case Option.bind (strip_prefix v SQ) (\<lambda>r. strip_suffix r SQ) of
        Some inner \<Rightarrow> Some inner
      | None \<Rightarrow> Option.bind (Option.bind (strip_prefix v DQ) (\<lambda>r. strip_suffix r DQ)) (\<lambda>inner. unescape_basic (chars inner)))"

text \<open>The lines of a file with their numbers; \<open>lines()\<close> is \<open>str_lines\<close> of the caller.\<close>

fun import_lines :: "nat \<Rightarrow> str list \<Rightarrow> str str_map \<Rightarrow> (error, str str_map) res" where
  "import_lines at [] out = Inr out"
| "import_lines at (l # ls) out =
     (let line = trim l in
      if line = [] \<or> starts_with line ''#'' then import_lines (Suc at) ls out
      else (case Option.bind (strip_prefix line ''['') (\<lambda>r. strip_suffix r '']'') of
        Some header \<Rightarrow>
          if trim header = ''aliases'' then import_lines (Suc at) ls out
          else Inl (alias_usage ''line {at}: only an [aliases] table is understood here, not [{}]'' [show_nat at, trim header])
      | None \<Rightarrow>
          (case split_once_c line CHR ''='' of
             None \<Rightarrow> Inl (alias_usage (''line {at}: expected `name = '' @ [CHR 0x5C, CHR 0x22] @ ''command'' @ [CHR 0x5C, CHR 0x22] @ ''`, got {line:?}'') [show_nat at, line])
           | Some (n, v) \<Rightarrow>
               (case unquote (trim v) of
                  None \<Rightarrow> Inl (alias_usage ''line {at}: an alias expansion has to be a quoted string, and {:?} is not'' [show_nat at, trim v])
                | Some txt \<Rightarrow>
                    if trim n = [] then Inl (alias_usage (''line {at}: no alias name before the '' @ [CHR 0x27] @ ''='' @ [CHR 0x27]) [show_nat at])
                    else import_lines (Suc at) ls (map_put (trim n) txt out)))))"

definition parse_import :: "str list \<Rightarrow> (error, str str_map) res" where
  "parse_import ls =
     res_bind (import_lines 1 ls []) (\<lambda>out.
       if out = [] then Inl (alias_usage (''no aliases in that file; it should hold `name = '' @ [CHR 0x5C, CHR 0x22] @ ''command'' @ [CHR 0x5C, CHR 0x22] @ ''` lines, optionally under an [aliases] table'') [])
       else Inr out)"

text \<open>The entries in turn; an entry that is refused is skipped with its reason.\<close>

fun import_entries ::
  "str list \<Rightarrow> bool \<Rightarrow> (str \<times> str) list \<Rightarrow> config \<Rightarrow> (error, nat \<times> (str \<times> error option) list) res \<times> config" where
  "import_entries commands clobber [] c = (Inr (0, []), c)"
| "import_entries commands clobber ((name, expansion) # rest) c =
     (let existing = config_aliases c in
      if map_get name existing \<noteq> None \<and> \<not> clobber then
        (case import_entries commands clobber rest c of
           (r, c) \<Rightarrow> (res_map (\<lambda>(added, skipped). (added, (name, None) # skipped)) r, c))
      else (case res_bind (check_name commands name) (\<lambda>_. check_expansion commands name expansion existing) of
        Inl e \<Rightarrow>
          (case import_entries commands clobber rest c of
             (r, c) \<Rightarrow> (res_map (\<lambda>(added, skipped). (added, (name, Some e) # skipped)) r, c))
      | Inr _ \<Rightarrow>
          (case set_alias c name expansion of
             (Inl e, c) \<Rightarrow> (Inl e, c)
           | (Inr _, c) \<Rightarrow>
               (case import_entries commands clobber rest c of
                  (r, c) \<Rightarrow> (res_map (\<lambda>(added, skipped). (Suc added, skipped)) r, c)))))"

text \<open>
  \<open>text\<close> is what reading the file or stdin gave; the result is what the user is told: how many
  entries of how many were added, and the ones that were skipped.
\<close>

definition alias_import ::
  "table_lib \<Rightarrow> io_env \<Rightarrow> (error, config) res \<Rightarrow> str list \<Rightarrow> bool \<Rightarrow> (error, str list) res \<Rightarrow> file_system
   \<Rightarrow> (error, nat \<times> nat \<times> (str \<times> error option) list) res \<times> file_system" where
  "alias_import lib io config commands clobber input fs =
     (case res_bind input parse_import of
        Inl e \<Rightarrow> (Inl e, fs)
      | Inr incoming \<Rightarrow>
          (case config of
             Inl e \<Rightarrow> (Inl e, fs)
           | Inr c \<Rightarrow>
               (case import_entries commands clobber incoming c of
                  (Inl e, _) \<Rightarrow> (Inl e, fs)
                | (Inr (added, skipped), c) \<Rightarrow>
                    (case (if 0 < added then config_save lib io c fs else (Inr (), fs)) of
                       (Inl e, fs) \<Rightarrow> (Inl e, fs)
                     | (Inr _, fs) \<Rightarrow> (Inr (added, length incoming, skipped), fs)))))"

subsection \<open>Lemmas: words\<close>

interpretation alias_words: word_splitter "\<lambda>cs w h. split_loop cs w h None" "Inr" "\<lambda>w. res_map ((#) w)"
proof unfold_locales
  have "is_whitespace '' ''" by (simp add: is_whitespace_def unicode_ws_def)
  then show "split_loop ('' '' # cs) w True None = res_map ((#) w) (split_loop cs [] False None)" for cs w
    by (simp add: SQ_def DQ_def BSL_def)
  show "split_loop (DQ # DQ # cs) [] h None = split_loop cs [] True None" for cs h
    by (simp add: SQ_def DQ_def BSL_def)
  show "split_loop (BSL # c # cs) w h None = split_loop cs (w @ c) True None" for c cs w h
    by (simp add: SQ_def DQ_def BSL_def)
qed (simp_all add: res_map_def)

lemma alias_split_written: "list_all word_ok ws \<Longrightarrow> alias_split (join '' '' (map written ws)) = Inr ws"
  unfolding alias_split_def by (rule alias_words.run_joined)

subsection \<open>Lemmas: arguments\<close>

text \<open>A word without a dollar stays as it is.\<close>

lemma subst_word_plain: "''$'' \<notin> set cs \<Longrightarrow> subst_word name args cs = Inr (concat cs, [])"
  by (induction cs) (auto simp: res_map_def)

definition plain_word :: "str \<Rightarrow> bool" where
  "plain_word w \<longleftrightarrow> ''$'' \<notin> set (chars w)"

lemma subst_words_plain: "list_all plain_word ws \<Longrightarrow> subst_words name args ws = Inr (ws, [])"
  by (induction ws) (auto simp: plain_word_def subst_word_plain res_bind_def res_map_def)

lemma substitute_plain: "list_all plain_word ws \<Longrightarrow> substitute name ws args = Inr (ws, args)"
proof -
  have "map snd (filter (\<lambda>(i, _). True) (enumerate 0 args)) = args" by (simp add: case_prod_unfold)
  then show "list_all plain_word ws \<Longrightarrow> ?thesis" by (simp add: substitute_def subst_words_plain res_map_def)
qed

definition plain_table :: "str str_map \<Rightarrow> bool" where
  "plain_table t \<longleftrightarrow> (\<forall>h e ws. map_get h t = Some e \<and> alias_split e = Inr ws \<longrightarrow> list_all plain_word ws)"

lemma expand_loop_plain:
  assumes "plain_table t"
  shows "expand_loop n name t seen head (ys @ args) = res_map (\<lambda>ws. ws @ args) (expand_loop n name t seen head ys)"
proof (induction n arbitrary: seen head ys)
  case (Suc n)
  show ?case
  proof (cases "map_get head t")
    case (Some e)
    show ?thesis
    proof (cases "alias_split e")
      case (Inr ws)
      then have p: "list_all plain_word ws" using assms Some by (auto simp: plain_table_def)
      show ?thesis
      proof (cases ws)
        case Nil
        then show ?thesis using substitute_plain [OF p] by (simp add: Some Inr res_map_def res_bind_def)
      next
        case (Cons a as)
        then show ?thesis using Suc [of "seen @ [head]" a "as @ ys"] substitute_plain [OF p]
          by (simp add: Some Inr res_map_def res_bind_def)
      qed
    qed (simp add: Some res_bind_def res_map_def)
  qed (simp add: res_map_def)
qed (simp add: res_map_def)


subsection \<open>Lemmas: chains of aliases\<close>

text \<open>The chain of first words that starts at a name comes to an end.\<close>

definition next_head :: "str str_map \<Rightarrow> str \<Rightarrow> str \<Rightarrow> bool" where
  "next_head t h w \<longleftrightarrow> (\<exists>e ws. map_get h t = Some e \<and> alias_split e = Inr (w # ws))"

inductive ends :: "str str_map \<Rightarrow> str \<Rightarrow> bool" for t where
  ends_stop: "\<nexists>w. next_head t h w \<Longrightarrow> ends t h"
| ends_next: "next_head t h w \<Longrightarrow> ends t w \<Longrightarrow> ends t h"

lemma next_head_unique: "next_head t h v \<Longrightarrow> next_head t h w \<Longrightarrow> v = w"
  by (auto simp: next_head_def)

lemma ends_acyclic: "ends t h \<Longrightarrow> \<not> (next_head t)\<^sup>+\<^sup>+ h h"
proof (induction rule: ends.induct)
  case (ends_stop h)
  then show ?case by (auto dest: tranclpD)
next
  case (ends_next h w)
  show ?case
  proof
    assume "(next_head t)\<^sup>+\<^sup>+ h h"
    then obtain v where "next_head t h v" "(next_head t)\<^sup>*\<^sup>* v h" by (auto dest: tranclpD)
    then have "(next_head t)\<^sup>*\<^sup>* w h" using ends_next(1) next_head_unique by blast
    then have "(next_head t)\<^sup>+\<^sup>+ w w" using ends_next(1) by (rule rtranclp_into_tranclp1)
    then show False using ends_next by blast
  qed
qed

lemma cycle_loop_ends: "cycle_loop n t chain h = None \<Longrightarrow> ends t h"
proof (induction n arbitrary: chain h)
  case (Suc n)
  show ?case
  proof (cases "\<exists>w. next_head t h w")
    case True
    then obtain e w ws where e: "map_get h t = Some e" "alias_split e = Inr (w # ws)" by (auto simp: next_head_def)
    then have "cycle_loop n t (chain @ [w]) w = None" using Suc(2) by (auto split: if_splits)
    then show ?thesis using Suc(1) e by (auto simp: next_head_def intro: ends_next)
  qed (auto intro: ends_stop)
qed simp

lemma ends_change:
  assumes "ends t h" "\<And>j. j \<noteq> k \<Longrightarrow> map_get j t' = map_get j t" "ends t' k"
  shows "ends t' h"
  using assms(1)
proof (induction rule: ends.induct)
  case (ends_stop h)
  show ?case
  proof (cases "h = k")
    case False
    then have "next_head t' h = next_head t h" using assms(2) by (auto simp: next_head_def fun_eq_iff)
    then show ?thesis using ends_stop by (auto intro: ends.ends_stop)
  qed (use assms(3) in simp)
next
  case (ends_next h w)
  show ?case
  proof (cases "h = k")
    case False
    then have "next_head t' h = next_head t h" using assms(2) by (auto simp: next_head_def fun_eq_iff)
    then show ?thesis using ends_next by (auto intro: ends.ends_next)
  qed (use assms(3) in simp)
qed

text \<open>An expansion along a chain that ends never runs in a loop, when its first words are plain.\<close>

definition plain_heads :: "str str_map \<Rightarrow> bool" where
  "plain_heads t \<longleftrightarrow> (\<forall>h w. next_head t h w \<longrightarrow> plain_word w)"

lemma substitute_head:
  assumes "substitute name (w # ws) args = Inr (out, left)" "plain_word w"
  shows "\<exists>out'. out = w # out'"
  using assms subst_word_plain [of "chars w" name args]
  by (auto simp: substitute_def plain_word_def res_map_eq_Inr res_bind_eq_Inr)

lemma split_loop_error: "split_loop cs word have_word quote = Inl err \<Longrightarrow> err \<noteq> loop_error name trace"
  by (induction cs word have_word quote arbitrary: rule: split_loop.induct)
    (auto simp: alias_usage_def loop_error_def error_new_def res_map_def split: if_splits list.splits sum.splits)

lemma subst_word_error: "subst_word name args cs = Inl err \<Longrightarrow> err \<noteq> loop_error name' trace"
  by (induction name args cs rule: subst_word.induct)
    (auto simp: alias_usage_def loop_error_def error_new_def res_map_def split: if_splits option.splits sum.splits)

lemma subst_words_error: "subst_words name args ws = Inl err \<Longrightarrow> err \<noteq> loop_error name' trace"
  by (induction ws) (auto simp: res_bind_def res_map_def split: sum.splits dest: subst_word_error)

lemma substitute_error: "substitute name ws args = Inl err \<Longrightarrow> err \<noteq> loop_error name' trace"
  by (auto simp: substitute_def res_map_def split: sum.splits dest: subst_words_error)

lemma expand_loop_no_loop:
  assumes "plain_heads t" "ends t head" "\<And>s. s \<in> set seen \<Longrightarrow> (next_head t)\<^sup>+\<^sup>+ s head"
  shows "expand_loop n name t seen head args \<noteq> Inl (loop_error name' trace)"
  using assms(2,3)
proof (induction n arbitrary: seen head args)
  case 0
  then show ?case by (simp add: too_deep_def loop_error_def alias_usage_def error_new_def)
next
  case (Suc n)
  have fresh: "head \<notin> set seen" using ends_acyclic [OF Suc(2)] Suc(3) by blast
  show ?case
  proof (cases "map_get head t")
    case (Some e)
    show ?thesis
    proof (cases "alias_split e")
      case (Inl err)
      then show ?thesis using fresh split_loop_error [of "chars e" "[]" False None err]
        by (auto simp: Some res_bind_def alias_split_def)
    next
      case (Inr ws)
      show ?thesis
      proof (cases ws)
        case Nil
        then show ?thesis using fresh
          by (simp add: Some Inr res_bind_def substitute_def res_map_def alias_usage_def loop_error_def error_new_def)
      next
        case (Cons w ws')
        have nh: "next_head t head w" using Some Inr Cons by (simp add: next_head_def)
        then have pw: "plain_word w" using assms(1) by (auto simp: plain_heads_def)
        have ew: "ends t w" using Suc(2) nh by (cases rule: ends.cases) (auto dest: next_head_unique)
        have seen: "(next_head t)\<^sup>+\<^sup>+ s w" if "s \<in> set (seen @ [head])" for s
          using that Suc(3) nh by (auto intro: tranclp.intros)
        show ?thesis
        proof (cases "substitute name ws args")
          case (Inl err)
          then show ?thesis using fresh substitute_error [of name ws args err]
            by (auto simp: Some Inr res_bind_def)
        next
          case sub: (Inr p)
          obtain out left where p: "p = (out, left)" by (cases p)
          obtain out' where out: "out = w # out'" using substitute_head [of name w ws' args out left] sub p Cons pw by auto
          have "expand_loop n name t (seen @ [head]) w (out' @ left) \<noteq> Inl (loop_error name' trace)"
            by (rule Suc(1) [OF ew]) (fact seen)
          then show ?thesis using fresh by (simp add: Some Inr res_bind_def sub p out)
        qed
      qed
    qed
  qed (use fresh in simp)
qed


subsection \<open>Lemmas: lookups in the table of aliases\<close>

lemma map_get_filter:
  "keys_ok t \<Longrightarrow> map_get h (List.map_filter (\<lambda>(k, v). map_option (\<lambda>s. (k, s)) (f v)) t) = Option.bind (map_get h t) f"
proof (induction t)
  case (Cons x t)
  obtain k v where x: "x = (k, v)" by (cases x)
  have "map_get k t = None" using Cons(2) in_keys [of t k] by (auto simp: x keys_ok_def)
  then show ?case using Cons
    by (cases "f v") (auto simp: x keys_ok_def map_get_def find_by_def List.map_filter_simps)
qed (simp add: List.map_filter_simps)

lemma keys_ok_filter: "keys_ok t \<Longrightarrow> keys_ok (List.map_filter (\<lambda>(k, v). map_option (\<lambda>s. (k, s)) (f v)) t)"
proof -
  have "map fst (List.map_filter (\<lambda>(k, v). map_option (\<lambda>s. (k, s)) (f v)) t) = map fst (filter (\<lambda>(k, v). f v \<noteq> None) t)"
    by (induction t) (auto simp: List.map_filter_simps split: option.splits)
  then show "keys_ok t \<Longrightarrow> ?thesis" by (simp add: keys_ok_def distinct_map_filter)
qed

lemma alias_table_at: "alias_table c = table_at ''aliases'' (cf_table c)"
  by (simp add: alias_table_def table_at_def)

lemma config_aliases_get: "table_ok (cf_table c) \<Longrightarrow> map_get h (config_aliases c) = config_alias c h"
  using table_okD(4) [of "cf_table c"]
  by (auto simp: config_aliases_def config_alias_def alias_table_at map_get_filter split: option.splits)

lemma config_aliases_keys: "table_ok (cf_table c) \<Longrightarrow> keys_ok (config_aliases c)"
  using table_okD(4) [of "cf_table c"] by (auto simp: config_aliases_def alias_table_at keys_ok_filter split: option.splits)

definition builtin_get :: "str \<Rightarrow> str option" where
  "builtin_get h = map_of BUILTIN h"

lemma with_builtins_get_aux:
  "keys_ok u \<Longrightarrow> keys_ok (foldl (\<lambda>m (n, e). if map_get n m = None then map_put n e m else m) u bs)
     \<and> map_get h (foldl (\<lambda>m (n, e). if map_get n m = None then map_put n e m else m) u bs)
       = (case map_get h u of None \<Rightarrow> map_of bs h | e \<Rightarrow> e)"
  by (induction bs arbitrary: u) (auto simp: map_get_put_ok split: option.splits)

lemma with_builtins_get:
  "keys_ok u \<Longrightarrow> map_get h (with_builtins u) = (case map_get h u of None \<Rightarrow> builtin_get h | e \<Rightarrow> e)"
  and with_builtins_keys: "keys_ok u \<Longrightarrow> keys_ok (with_builtins u)"
  using with_builtins_get_aux [of u BUILTIN h] by (auto simp: with_builtins_def builtin_get_def split: option.splits)

text \<open>The table that an expansion walks.\<close>

definition walked :: "config \<Rightarrow> str str_map" where
  "walked c = with_builtins (config_aliases c)"

lemma walked_get:
  "table_ok (cf_table c) \<Longrightarrow> map_get h (walked c) = (case config_alias c h of None \<Rightarrow> builtin_get h | e \<Rightarrow> e)"
  by (simp add: walked_def with_builtins_get config_aliases_keys config_aliases_get)

lemma set_alias_effect:
  assumes ok: "table_ok (cf_table c)" and s: "set_alias c name expansion = (Inr (), c')"
  shows "table_ok (cf_table c')" "config_alias c' h = (if h = name then Some expansion else config_alias c h)"
proof -
  let ?t = "or_insert_table ''aliases'' (cf_table c)"
  obtain al where al: "table_at ''aliases'' ?t = Some al"
    and c': "cf_table c' = map_put ''aliases'' (TTable (map_put name (TStr expansion) al)) ?t"
    using s by (auto simp: set_alias_def Let_def table_at_def split: if_splits option.splits)
  have t: "table_ok ?t" by (rule table_ok_insert [OF ok])
  have k: "keys_ok al" by (rule table_okD(4) [OF t al])
  show "table_ok (cf_table c')" using t k by (simp add: c' table_ok_put_aliases)
  have kt: "keys_ok ?t" using t by (rule table_okD)
  have old: "config_alias c j = Option.bind (map_get j al) as_str" for j
    using al table_okD(1) [OF ok]
    by (cases "map_get ''aliases'' (cf_table c)")
      (auto simp: config_alias_def alias_table_at table_at_def or_insert_table_get)
  show "config_alias c' h = (if h = name then Some expansion else config_alias c h)"
    using kt k unfolding old by (simp add: config_alias_def alias_table_at c' table_at_put map_get_put_ok)
qed

lemma remove_alias_effect:
  assumes ok: "table_ok (cf_table c)"
  shows "table_ok (cf_table (snd (remove_alias c name)))"
    "config_alias (snd (remove_alias c name)) h = (if h = name then None else config_alias c h)"
proof -
  have "table_ok (cf_table (snd (remove_alias c name)))
    \<and> config_alias (snd (remove_alias c name)) h = (if h = name then None else config_alias c h)"
  proof (cases "table_at ''aliases'' (cf_table c)")
    case None
    then show ?thesis using ok by (simp add: remove_alias_def config_alias_def alias_table_at)
  next
    case (Some al)
    have k: "keys_ok al" by (rule table_okD(4) [OF ok Some])
    show ?thesis using ok k table_okD(1) [OF ok]
      by (simp add: remove_alias_def alias_table_at Some table_ok_put_aliases config_alias_def table_at_put map_get_del)
  qed
  then show "table_ok (cf_table (snd (remove_alias c name)))"
    "config_alias (snd (remove_alias c name)) h = (if h = name then None else config_alias c h)" by simp_all
qed

subsection \<open>The invariant of the aliases\<close>

definition BUILTIN_COMMANDS :: "str list" where
  "BUILTIN_COMMANDS = [''pr'', ''label'', ''milestone'', ''auth'']"

definition aliases_ok :: "str list \<Rightarrow> config \<Rightarrow> bool" where
  "aliases_ok commands c \<longleftrightarrow> table_ok (cf_table c)
     \<and> (\<forall>h e. config_alias c h = Some e \<longrightarrow> h \<notin> set commands \<and> plain_word h)
     \<and> (\<forall>h. ends (walked c) h) \<and> plain_heads (walked c)"

definition commands_ok :: "str list \<Rightarrow> bool" where
  "commands_ok commands \<longleftrightarrow> list_all plain_word commands \<and> set BUILTIN_COMMANDS \<subseteq> set commands
     \<and> list_all (\<lambda>(n, _). n \<notin> set commands) BUILTIN"

lemma plain_of_member: "commands_ok commands \<Longrightarrow> h \<in> set commands \<Longrightarrow> plain_word h"
  by (auto simp: commands_ok_def list_all_iff)

lemma builtin_split:
  "alias_split ''pr'' = Inr [''pr'']" "alias_split ''label'' = Inr [''label'']" "alias_split ''milestone'' = Inr [''milestone'']"
  "alias_split ''auth login'' = Inr [''auth'', ''login'']" "alias_split ''auth status'' = Inr [''auth'', ''status'']"
  by code_simp+

lemma builtin_get_cases: "builtin_get h = Some e \<Longrightarrow> \<exists>w ws. alias_split e = Inr (w # ws) \<and> w \<in> set BUILTIN_COMMANDS"
  by (auto simp: builtin_get_def BUILTIN_def builtin_split BUILTIN_COMMANDS_def split: if_splits)

lemma builtin_not_command: "commands_ok commands \<Longrightarrow> h \<in> set commands \<Longrightarrow> builtin_get h = None"
  by (auto simp: builtin_get_def commands_ok_def list_all_iff map_of_eq_None_iff)

lemma builtin_names_plain: "builtin_get h = Some e \<Longrightarrow> plain_word h"
proof -
  have "list_all plain_word (map fst BUILTIN)" unfolding plain_word_def list_all_iff by code_simp
  then show "builtin_get h = Some e \<Longrightarrow> ?thesis" by (auto simp: builtin_get_def list_all_iff dest!: map_of_SomeD)
qed

lemma aliases_ok_command:
  assumes "commands_ok commands" "aliases_ok commands c" "h \<in> set commands"
  shows "map_get h (walked c) = None"
  using assms builtin_not_command [of commands h]
  by (cases "config_alias c h") (auto simp: aliases_ok_def walked_get)

lemma chain_ends_at_command: "map_get h t = None \<Longrightarrow> ends t h"
  by (rule ends_stop) (simp add: next_head_def)

text \<open>A command is never looked up; a built-in alias leads to a command.\<close>

lemma no_aliases_ok:
  assumes "commands_ok commands" "table_ok (cf_table c)" "config_aliases c = []"
  shows "aliases_ok commands c"
proof -
  have none: "config_alias c h = None" for h using config_aliases_get [OF assms(2), of h] assms(3) by simp
  then have g: "map_get h (walked c) = builtin_get h" for h using assms(2) by (simp add: walked_get)
  have w: "w \<in> set commands" if "next_head (walked c) h w" for h w
    using that builtin_get_cases [of h] assms(1) by (auto simp: next_head_def g commands_ok_def)
  have "ends (walked c) h" for h
  proof (cases "\<exists>w. next_head (walked c) h w")
    case True
    then obtain w where nh: "next_head (walked c) h w" by blast
    have "ends (walked c) w" using builtin_not_command [OF assms(1) w [OF nh]] by (intro chain_ends_at_command) (simp add: g)
    with nh show ?thesis by (rule ends_next)
  qed (auto intro: ends_stop)
  moreover have "plain_heads (walked c)" using w plain_of_member [OF assms(1)] by (auto simp: plain_heads_def)
  ultimately show ?thesis using assms(2) none by (simp add: aliases_ok_def)
qed


lemma check_expansion_Inr:
  assumes "check_expansion commands name expansion existing = Inr u"
  shows "\<exists>w ws. alias_split expansion = Inr (w # ws)
    \<and> (w \<in> set commands \<or> map_get w existing \<noteq> None \<or> w \<in> set (map fst BUILTIN) \<or> w = name)
    \<and> find_cycle name (map_put name expansion (with_builtins existing)) = None"
proof (cases "alias_split expansion")
  case (Inl e)
  then show ?thesis using assms by (simp add: check_expansion_def res_bind_def)
next
  case (Inr ws)
  then show ?thesis using assms
    by (cases ws) (simp_all add: check_expansion_def res_bind_def split: if_splits option.splits)
qed

lemma set_alias_refused: "keys_ok (cf_table c) \<Longrightarrow> set_alias c name expansion = (Inl e, c') \<Longrightarrow> c' = c"
  by (auto simp: set_alias_def Let_def or_insert_table_def set_table_def map_get_put_ok split: if_splits option.splits)

lemma aliases_ok_set:
  assumes cmds: "commands_ok commands" and ok: "aliases_ok commands c" and plain: "plain_word name"
    and cn: "check_name commands name = Inr ()"
    and ce: "check_expansion commands name expansion (config_aliases c) = Inr ()"
    and s: "set_alias c name expansion = (Inr (), c')"
  shows "aliases_ok commands c'"
proof -
  have t: "table_ok (cf_table c)" using ok by (simp add: aliases_ok_def)
  have t': "table_ok (cf_table c')" by (rule set_alias_effect [OF t s])
  have g': "map_get h (walked c') = (if h = name then Some expansion else map_get h (walked c))" for h
    by (simp add: walked_get t t' set_alias_effect(2) [OF t s])
  obtain w ws where sp: "alias_split expansion = Inr (w # ws)"
    and head: "w \<in> set commands \<or> map_get w (config_aliases c) \<noteq> None \<or> w \<in> fst ` set BUILTIN \<or> w = name"
    and fc: "find_cycle name (map_put name expansion (walked c)) = None"
    using check_expansion_Inr [OF ce] by (auto simp: walked_def)
  have pw: "plain_word w"
  proof -
    have "plain_word w" if "w \<in> fst ` set BUILTIN"
      using that builtin_names_plain [of w] by (auto simp: builtin_get_def BUILTIN_def)
    then show ?thesis using head plain_of_member [OF cmds] plain ok
      by (auto simp: config_aliases_get [OF t] aliases_ok_def)
  qed
  have put: "map_get h (map_put name expansion (walked c)) = map_get h (walked c')" for h
  proof -
    have "keys_ok (walked c)" unfolding walked_def by (intro with_builtins_keys config_aliases_keys t)
    then show ?thesis by (simp add: g' map_get_put_ok)
  qed
  have "ends (map_put name expansion (walked c)) name" using fc unfolding find_cycle_def by (rule cycle_loop_ends)
  moreover have "next_head (map_put name expansion (walked c)) = next_head (walked c')"
    by (simp add: next_head_def put fun_eq_iff)
  moreover have "ends a h \<Longrightarrow> next_head a = next_head b \<Longrightarrow> ends b h" for a b h
    by (induction rule: ends.induct) (auto intro: ends.intros)
  ultimately have en: "ends (walked c') name" by blast
  have "ends (walked c') h" for h
  proof (rule ends_change [of "walked c" h name])
    show "ends (walked c) h" using ok by (simp add: aliases_ok_def)
  qed (simp add: g', rule en)
  moreover have "plain_heads (walked c')"
    using ok sp pw by (auto simp: aliases_ok_def plain_heads_def next_head_def g' split: if_splits)
  moreover have "name \<notin> set commands" using cn by (auto simp: check_name_def split: if_splits)
  ultimately show ?thesis using t' ok plain by (auto simp: aliases_ok_def set_alias_effect(2) [OF t s])
qed

lemma aliases_ok_remove:
  assumes cmds: "commands_ok commands" and ok: "aliases_ok commands c"
  shows "aliases_ok commands (snd (remove_alias c name))" (is "aliases_ok _ ?c")
proof -
  have t: "table_ok (cf_table c)" using ok by (simp add: aliases_ok_def)
  note t' = remove_alias_effect(1) [OF t] and ca = remove_alias_effect(2) [OF t]
  have g': "map_get h (walked ?c) = (if h = name then builtin_get name else map_get h (walked c))" for h
    by (simp add: walked_get t t' ca)
  have w: "w \<in> set commands" if "next_head (walked ?c) name w" for w
    using that cmds by (auto simp: next_head_def g' commands_ok_def dest!: builtin_get_cases)
  have stop: "ends (walked ?c) h" if "h \<in> set commands" for h
    using that aliases_ok_command [OF cmds ok that] builtin_not_command [OF cmds that]
    by (intro chain_ends_at_command) (auto simp: g')
  have en: "ends (walked ?c) name"
  proof (cases "\<exists>w. next_head (walked ?c) name w")
    case True
    then obtain w' where nh: "next_head (walked ?c) name w'" by blast
    show ?thesis by (rule ends_next [OF nh stop [OF w [OF nh]]])
  qed (rule ends_stop)
  have "ends (walked ?c) h" for h
  proof (rule ends_change [of "walked c" h name])
    show "ends (walked c) h" using ok by (simp add: aliases_ok_def)
  qed (simp add: g', rule en)
  moreover have "plain_heads (walked ?c)" unfolding plain_heads_def
  proof (intro allI impI)
    fix h v assume nh: "next_head (walked ?c) h v"
    show "plain_word v"
    proof (cases "h = name")
      case True
      then show ?thesis using nh w plain_of_member [OF cmds] by blast
    next
      case False
      then show ?thesis using nh ok by (auto simp: aliases_ok_def plain_heads_def next_head_def g')
    qed
  qed
  ultimately show ?thesis using t' ok by (auto simp: aliases_ok_def ca split: if_splits)
qed

lemma aliases_ok_import:
  assumes "commands_ok commands" "aliases_ok commands c" "list_all (plain_word \<circ> fst) incoming"
    "import_entries commands clobber incoming c = (r, c')"
  shows "aliases_ok commands c'"
  using assms
proof (induction commands clobber incoming c arbitrary: r c' rule: import_entries.induct)
  case (2 commands clobber name expansion rest c)
  have unit: "x = Inr ()" if "x = Inr y" for x :: "(error, unit) res" and y using that by simp
  show ?case
  proof (cases "map_get name (config_aliases c) \<noteq> None \<and> \<not> clobber")
    case True
    then show ?thesis using 2 by (auto simp: Let_def split: prod.splits)
  next
    case False
    show ?thesis
    proof (cases "res_bind (check_name commands name) (\<lambda>_. check_expansion commands name expansion (config_aliases c))")
      case (Inl e)
      then show ?thesis using 2(2) [OF refl False Inl] 2(4-) False by (auto simp: Let_def split: prod.splits)
    next
      case (Inr u)
      then have chk: "check_name commands name = Inr ()" "check_expansion commands name expansion (config_aliases c) = Inr ()"
        by (auto simp: res_bind_eq_Inr)
      obtain q c1 where sa: "set_alias c name expansion = (q, c1)" by (cases "set_alias c name expansion")
      show ?thesis
      proof (cases q)
        case (Inl e)
        then have "c1 = c" using sa 2(5) by (auto simp: aliases_ok_def dest: table_okD intro: set_alias_refused)
        then show ?thesis using 2(4-) False Inr sa Inl by (auto simp: Let_def)
      next
        case q: (Inr u')
        have "aliases_ok commands c1"
          using aliases_ok_set [OF 2(4) 2(5) _ chk, of c1] 2(6) sa q by (cases u') simp_all
        then show ?thesis using 2(3) [OF refl False Inr sa [symmetric] q] 2(4-) False Inr sa q
          by (auto simp: Let_def split: prod.splits)
      qed
    qed
  qed
qed simp


text \<open>The preferences that \<open>set\<close>, \<open>delete\<close> and \<open>import\<close> lead to.\<close>

inductive alias_reach :: "str list \<Rightarrow> config \<Rightarrow> config \<Rightarrow> bool" for commands c0 where
  reach_start: "alias_reach commands c0 c0"
| reach_set: "alias_reach commands c0 c \<Longrightarrow> plain_word name \<Longrightarrow> checked_alias commands name expansion c = (Inr (), c')
    \<Longrightarrow> alias_reach commands c0 c'"
| reach_delete: "alias_reach commands c0 c \<Longrightarrow> alias_reach commands c0 (snd (remove_alias c name))"
| reach_import: "alias_reach commands c0 c \<Longrightarrow> list_all (plain_word \<circ> fst) incoming
    \<Longrightarrow> import_entries commands clobber incoming c = (r, c') \<Longrightarrow> alias_reach commands c0 c'"

lemma alias_reach_ok: "alias_reach commands c0 c \<Longrightarrow> commands_ok commands \<Longrightarrow> aliases_ok commands c0 \<Longrightarrow> aliases_ok commands c"
proof (induction rule: alias_reach.induct)
  case (reach_set c name expansion c')
  have "check_name commands name = Inr ()" "check_expansion commands name expansion (config_aliases c) = Inr ()"
    "set_alias c name expansion = (Inr (), c')"
    using reach_set(3) by (auto simp: checked_alias_def split: sum.splits)
  then show ?case using reach_set aliases_ok_set by blast
qed (auto intro: aliases_ok_remove aliases_ok_import)

lemma expand_words_no_loop: "aliases_ok commands c \<Longrightarrow> expand_words name args (walked c) \<noteq> Inl (loop_error name' trace)"
  unfolding expand_words_def by (rule expand_loop_no_loop) (auto simp: aliases_ok_def)

lemma alias_expand_error:
  assumes "alias_expand (Inr c) argv = Inl e"
  shows "(\<exists>name args. expand_words name args (walked c) = Inl e) \<or> (\<forall>name trace. e \<noteq> loop_error name trace)"
  using assms
  by (auto simp: alias_expand_def Let_def res_bind_def res_map_def walked_def loop_error_def alias_usage_def error_new_def
    split: option.splits if_splits sum.splits)


definition sample_commands :: "str list" where
  "sample_commands = [''pr'', ''issue'', ''label'', ''milestone'', ''auth'']"

definition sample_config :: config where
  "sample_config = \<lparr>cf_dir = ''d'', cf_path = (''d'', CONFIG_FILE), cf_table = []\<rparr>"

lemma sample_commands_ok: "commands_ok sample_commands"
  unfolding commands_ok_def plain_word_def by code_simp

lemma sample_reach:
  "alias_reach sample_commands sample_config
     (snd (remove_alias (snd (checked_alias sample_commands ''labels'' ''pull list'' sample_config)) ''labels''))"
proof (rule reach_delete, rule reach_set [OF reach_start])
  show "plain_word ''labels''" unfolding plain_word_def by code_simp
  have "fst (checked_alias sample_commands ''labels'' ''pull list'' sample_config) = Inr ()" by code_simp
  then show "checked_alias sample_commands ''labels'' ''pull list'' sample_config
    = (Inr (), snd (checked_alias sample_commands ''labels'' ''pull list'' sample_config))"
    by (metis prod.collapse)
qed


text \<open>
  C0. The aliases' own reader of words takes back every list of words: written with each character
  escaped, an empty word as a pair of quotes, and spaces between, they are read as they were.
\<close>
theorem alias_words_roundtrip: "list_all word_ok ws \<Longrightarrow> alias_split (join '' '' (map written ws)) = Inr ws"
  by (rule alias_split_written)

lemma alias_words_roundtrip_witness: "alias_split (join '' '' (map written [''a b'', [], [CHR 0x22, CHR 0x5C]])) = Inr [''a b'', [], [CHR 0x22, CHR 0x5C]]"
  by (rule alias_words_roundtrip) (simp add: word_ok_def is_cont_def byte_def)

text \<open>
  C0. Where no expansion uses a dollar, the arguments on the command line come out behind the
  expansion of the bare name, in their order and untouched, however long the chain of aliases is.
\<close>
theorem alias_arguments_kept:
  "plain_table t \<Longrightarrow> expand_words name args t = res_map (\<lambda>ws. ws @ args) (expand_words name [] t)"
  using expand_loop_plain [of t MAX_DEPTH name "[]" name "[]" args] by (simp add: expand_words_def)

lemma alias_arguments_kept_witness:
  "expand_words ''labels'' [''$1'', ''-x''] [(''labels'', ''label'')]
     = res_map (\<lambda>ws. ws @ [''$1'', ''-x'']) (expand_words ''labels'' [] [(''labels'', ''label'')])"
proof (rule alias_arguments_kept)
  show "plain_table [(''labels'', ''label'')]"
    using plain_of_member [OF sample_commands_ok, of "''label''"]
    by (auto simp: plain_table_def map_get_def find_by_def builtin_split sample_commands_def split: if_splits)
qed

text \<open>Lines that are not what the check promised: a chain the check takes and the expansion refuses, and a name with a dollar.\<close>

definition chain_table :: "str str_map" where
  "chain_table = foldl (\<lambda>m (k, e). map_put k e m) [] [(''a'', ''b''), (''b'', ''c''), (''c'', ''d''), (''d'', ''e''), (''e'', ''f''),
     (''f'', ''g''), (''g'', ''h''), (''h'', ''i''), (''i'', ''j''), (''j'', ''pr'')]"

lemma chain_accepted_and_refused:
  "find_cycle ''a'' (with_builtins chain_table) = None"
  "expand_words ''a'' [] (with_builtins chain_table) = Inl (too_deep ''a'')"
  by code_simp+

definition dollar_config :: config where
  "dollar_config = snd (checked_alias sample_commands ''p'' ''p$1'' (snd (checked_alias sample_commands ''p$1'' ''pr'' sample_config)))"

lemma dollar_loops:
  "fst (checked_alias sample_commands ''p'' ''p$1'' (snd (checked_alias sample_commands ''p$1'' ''pr'' sample_config))) = Inr ()"
  "alias_expand (Inr dollar_config) [''fjo'', ''p'', []] = Inl (loop_error ''p'' [''p'', ''p''])"
  by code_simp+

end
