(* ===== verification/Raw_Meta.thy ===== *)
theory Raw_Meta
  imports Keyed "HOL-Library.Product_Lexorder" "HOL-Library.List_Lexorder" "HOL-Library.Char_ord"
begin

text \<open>
  \<open>crates/forgejo-client/src/meta_types.rs\<close>: the tables that describe every operation of the API, and
  their lookups.  A table is a list; \<open>usize\<close> is \<open>nat\<close>.  The tables themselves are generated.
\<close>

subsection \<open>The vocabulary\<close>

datatype location = InPath | InQuery | InFormData

datatype path_encoding = EncSegment | EncPathLike

datatype ctx_fill = FillOwner | FillRepo

datatype value_ty = TyBool | TyInt | TyFloat | TyStr | TyDateTime | TyList | TyJson | TyFile

datatype produces = ProdJson | ProdLdJson | ProdText | ProdHtml | ProdBytes | ProdEmpty

datatype pagination = Unpaged | Paged

record param_meta =
  pm_wire :: str
  pm_flag :: str
  pm_location :: location
  pm_ty :: value_ty
  pm_required :: bool
  pm_repeatable :: bool
  pm_encoding :: path_encoding
  pm_ctx_fill :: "ctx_fill option"
  pm_enum_values :: "str list"
  pm_help :: str

record body_field =
  bf_pointer :: str
  bf_flag :: str
  bf_ty :: value_ty
  bf_required :: bool
  bf_enum_values :: "str list"
  bf_help :: str

record body_meta =
  bm_type_name :: str
  bm_required :: bool
  bm_content_type :: str
  bm_fields :: "body_field list"
  bm_deep :: "str list"

record op_meta =
  om_op_id :: str
  om_group :: str
  om_command :: str
  om_method :: str
  om_path :: str
  om_summary :: str
  om_description :: str
  om_params :: "param_meta list"
  om_body :: "body_meta option"
  om_pagination :: pagination
  om_produces :: produces
  om_scope :: "str option"
  om_deprecated :: "str option"

definition path_params :: "op_meta \<Rightarrow> param_meta list" where
  "path_params op = filter (\<lambda>p. pm_location p = InPath) (om_params op)"

definition query_params :: "op_meta \<Rightarrow> param_meta list" where
  "query_params op = filter (\<lambda>p. pm_location p = InQuery) (om_params op)"

definition form_params :: "op_meta \<Rightarrow> param_meta list" where
  "form_params op = filter (\<lambda>p. pm_location p = InFormData) (om_params op)"

definition is_upload :: "op_meta \<Rightarrow> bool" where
  "is_upload op = list_ex (\<lambda>p. pm_ty p = TyFile) (om_params op)"

record group_meta =
  gm_name :: str
  gm_about :: str
  gm_first :: nat
  gm_len :: nat

text \<open>The fields of a response, for \<open>--json\<close>: name, kind, help.\<close>

datatype meta_field_kind =
    MkBool | MkInt | MkFloat | MkStr | MkDateTime
  | MkEnum "str list"
  | MkObject "(str \<times> meta_field_kind \<times> str) list"
  | MkArray meta_field_kind
  | MkMap meta_field_kind
  | MkJson

fun kind_label :: "meta_field_kind \<Rightarrow> str" where
  "kind_label MkBool = ''bool''"
| "kind_label MkInt = ''int''"
| "kind_label MkFloat = ''float''"
| "kind_label MkStr = ''string''"
| "kind_label MkDateTime = ''datetime''"
| "kind_label (MkEnum _) = ''enum''"
| "kind_label (MkObject _) = ''object''"
| "kind_label (MkArray _) = ''array''"
| "kind_label (MkMap _) = ''map''"
| "kind_label MkJson = ''json''"

subsection \<open>Lookups\<close>

text \<open>\<open>slice::binary_search_by\<close>: halve, keeping the half whose first element is not greater.\<close>

function bsearch_base :: "('e \<Rightarrow> 'k::linorder) \<Rightarrow> 'k \<Rightarrow> 'e list \<Rightarrow> nat \<Rightarrow> nat \<Rightarrow> nat" where
  "bsearch_base key k xs base len =
     (if len \<le> 1 then base
      else (let half = len div 2; mid = base + half in
        bsearch_base key k xs (if key (xs ! mid) > k then base else mid) (len - half)))"
  by pat_completeness auto
termination by (relation "measure (\<lambda>(_, _, _, _, len). len)") auto

definition binary_search :: "('e \<Rightarrow> 'k::linorder) \<Rightarrow> 'k \<Rightarrow> 'e list \<Rightarrow> nat option" where
  "binary_search key k xs =
     (if xs = [] then None
      else (let i = bsearch_base key k xs 0 (length xs) in if key (xs ! i) = k then Some i else None))"

definition lookup_op :: "op_meta list \<Rightarrow> str \<Rightarrow> str \<Rightarrow> op_meta option" where
  "lookup_op ops grp command =
     map_option (\<lambda>i. ops ! i) (binary_search (\<lambda>o1. (om_group o1, om_command o1)) (grp, command) ops)"

definition op_by_id :: "op_meta list \<Rightarrow> str \<Rightarrow> op_meta option" where
  "op_by_id ops op_id = find (\<lambda>o1. om_op_id o1 = op_id) ops"

definition lookup_group :: "group_meta list \<Rightarrow> str \<Rightarrow> group_meta option" where
  "lookup_group groups name = map_option (\<lambda>i. groups ! i) (binary_search gm_name name groups)"

text \<open>Slicing out of range panics: \<open>None\<close>.\<close>

definition ops_in :: "op_meta list \<Rightarrow> group_meta \<Rightarrow> op_meta list option" where
  "ops_in ops g =
     (if gm_first g + gm_len g \<le> length ops then Some (take (gm_len g) (drop (gm_first g) ops)) else None)"

subsection \<open>The search finds what a scan finds\<close>

text \<open>The table is sorted: the keys strictly increase.\<close>

definition sorted_by_key :: "('e \<Rightarrow> 'k::linorder) \<Rightarrow> 'e list \<Rightarrow> bool" where
  "sorted_by_key key xs = sorted_wrt (<) (map key xs)"

declare bsearch_base.simps [simp del]

lemma bsearch_range:
  "0 < len \<Longrightarrow> base \<le> bsearch_base key k xs base len \<and> bsearch_base key k xs base len < base + len"
proof (induction key k xs base len rule: bsearch_base.induct)
  case (1 key k xs base len)
  show ?case
  proof (cases "len \<le> 1")
    case False
    then show ?thesis using 1(1) [OF False refl refl]
      by (subst (1 2) bsearch_base.simps) (auto simp: Let_def split: if_splits)
  qed (use 1(2) in \<open>simp add: bsearch_base.simps\<close>)
qed

lemma sorted_by_keyD: "sorted_by_key key xs \<Longrightarrow> i < j \<Longrightarrow> j < length xs \<Longrightarrow> key (xs ! i) < key (xs ! j)"
  by (auto simp: sorted_by_key_def sorted_wrt_iff_nth_less)

lemma bsearch_hits:
  assumes "sorted_by_key key xs" "key (xs ! i) = k" "base \<le> i" "i < base + len" "base + len \<le> length xs"
  shows "bsearch_base key k xs base len = i"
  using assms
proof (induction key k xs base len rule: bsearch_base.induct)
  case (1 key k xs base len)
  show ?case
  proof (cases "len \<le> 1")
    case True
    then show ?thesis using 1(4-6) by (simp add: bsearch_base.simps)
  next
    case False
    define mid where "mid = base + len div 2"
    have mid: "base < mid" "mid < base + len" using False by (auto simp: mid_def)
    have iff: "key (xs ! mid) > k \<longleftrightarrow> i < mid"
    proof (cases i mid rule: linorder_cases)
      case less
      then show ?thesis using sorted_by_keyD [OF 1(2), of i mid] mid 1(3,6) by simp
    next
      case greater
      then show ?thesis using sorted_by_keyD [OF 1(2), of mid i] mid 1(3,5,6) by auto
    qed (use 1(3) in simp)
    show ?thesis using 1(1) [OF False refl refl] 1(2-6) False iff mid
      by (subst bsearch_base.simps) (auto simp: Let_def mid_def)
  qed
qed

lemma binary_search_Some: "binary_search key k xs = Some i \<Longrightarrow> i < length xs \<and> key (xs ! i) = k"
  using bsearch_range [of "length xs" 0 key k xs] by (auto simp: binary_search_def Let_def split: if_splits)

lemma binary_search_hit: "sorted_by_key key xs \<Longrightarrow> i < length xs \<Longrightarrow> binary_search key (key (xs ! i)) xs = Some i"
  using bsearch_hits [of key xs i _ 0 "length xs"] by (auto simp: binary_search_def Let_def)

lemma binary_search_find:
  assumes "sorted_by_key key xs"
  shows "map_option (\<lambda>i. xs ! i) (binary_search key k xs) = find (\<lambda>x. key x = k) xs"
proof (cases "find (\<lambda>x. key x = k) xs")
  case None
  then have "binary_search key k xs = None"
    using binary_search_Some [of key k xs] by (cases "binary_search key k xs") (auto simp: find_None_iff dest: nth_mem)
  then show ?thesis using None by simp
next
  case (Some x)
  then obtain i where "i < length xs" "key (xs ! i) = k" "x = xs ! i" by (auto simp: find_Some_iff)
  then show ?thesis using Some binary_search_hit [OF assms, of i] by simp
qed

subsection \<open>Well-formed tables\<close>

text \<open>What the engine relies on: both tables sorted, and each group the run of its operations.\<close>

definition ops_sorted :: "op_meta list \<Rightarrow> bool" where
  "ops_sorted ops = sorted_by_key (\<lambda>o1. (om_group o1, om_command o1)) ops"

definition tables_ok :: "op_meta list \<Rightarrow> group_meta list \<Rightarrow> bool" where
  "tables_ok ops groups \<longleftrightarrow> ops_sorted ops \<and> sorted_by_key gm_name groups
     \<and> list_all (\<lambda>g. ops_in ops g = Some (filter (\<lambda>o1. om_group o1 = gm_name g) ops)) groups"

lemma lookup_op_find:
  "ops_sorted ops \<Longrightarrow> lookup_op ops grp command = find (\<lambda>o1. om_group o1 = grp \<and> om_command o1 = command) ops"
  unfolding ops_sorted_def lookup_op_def by (subst binary_search_find) simp_all

lemma lookup_group_find: "sorted_by_key gm_name groups \<Longrightarrow> lookup_group groups name = find (\<lambda>g. gm_name g = name) groups"
  unfolding lookup_group_def by (rule binary_search_find)

end
