(* ===== verification/Raw_Build.thy ===== *)
theory Raw_Build
  imports Raw_Meta Rust_Str
begin

text \<open>
  \<open>crates/fjo-raw/src/build.rs\<close>: which part of the command tree an invocation needs, and that part as
  the description given to \<open>clap\<close>.  An argument and a command of \<open>clap\<close> are records of what the code sets
  on them; what \<open>clap\<close> makes of them is not modelled.  An \<open>OsString\<close> is its bytes.  \<open>up\<close> is
  \<open>char::to_uppercase\<close> outside ASCII.
\<close>

subsection \<open>Descriptions for clap\<close>

datatype value_parser = ParseString | ParseBool | ParseI64 | ParseF64 | ParseU64From nat

datatype arg_action = ActSet | ActAppend | ActSetTrue

datatype value_hint = HintUnset | HintOther | HintFilePath

record clap_arg =
  ca_id :: str
  ca_long :: "str option"
  ca_index :: "nat option"
  ca_value_name :: "str option"
  ca_parser :: value_parser
  ca_num_args :: "(nat \<times> nat option) option"
  ca_require_equals :: bool
  ca_default_missing :: "str option"
  ca_required :: bool
  ca_action :: arg_action
  ca_hint :: value_hint
  ca_help :: str

definition arg_new :: "str \<Rightarrow> clap_arg" where
  "arg_new ident = \<lparr>ca_id = ident, ca_long = None, ca_index = None, ca_value_name = None, ca_parser = ParseString,
     ca_num_args = None, ca_require_equals = False, ca_default_missing = None, ca_required = False,
     ca_action = ActSet, ca_hint = HintUnset, ca_help = []\<rparr>"

datatype command = Command (co_name: str) (co_alias: "str option") (co_about: str) (co_long_about: "str option")
  (co_needs_sub: bool) (co_args: "clap_arg list") (co_subs: "command list")

subsection \<open>Identifiers\<close>

definition ID_BODY_FILE :: str where "ID_BODY_FILE = ''fjo:body-file''"
definition ID_DRY_RUN :: str where "ID_DRY_RUN = ''fjo:dry-run''"
definition ID_PAGINATE :: str where "ID_PAGINATE = ''fjo:paginate''"
definition ID_LIMIT :: str where "ID_LIMIT = ''fjo:limit''"

definition path_flag_id :: "str \<Rightarrow> str" where "path_flag_id flag = ''path:'' @ flag"
definition path_pos_id :: "str \<Rightarrow> str" where "path_pos_id flag = ''pos:'' @ flag"
definition query_id :: "str \<Rightarrow> str" where "query_id flag = ''query:'' @ flag"
definition form_id :: "str \<Rightarrow> str" where "form_id flag = ''form:'' @ flag"
definition body_id :: "str \<Rightarrow> str" where "body_id flag = ''body:'' @ flag"

subsection \<open>Peeking at the command line\<close>

record peeked =
  pk_group :: "str option"
  pk_leaf :: "str option"

definition RAW_VALUE_FLAGS :: "str list" where
  "RAW_VALUE_FLAGS = [''--host'', ''--hostname'', ''--login'', ''--repo'', ''-R'', ''--token'', ''--otp'', ''--sudo'',
     ''--config'', ''--jq'', ''-q'', ''--template'', ''-t'', ''--output'']"

text \<open>The next word with the tokens behind it and whether \<open>--\<close> was seen.\<close>

function (sequential) next_word :: "bool \<Rightarrow> str list \<Rightarrow> str option \<times> str list \<times> bool" where
  "next_word end_of_flags [] = (None, [], end_of_flags)"
| "next_word end_of_flags (tok # toks) =
     (if end_of_flags \<or> tok = ''-'' \<or> \<not> starts_with tok ''-'' then (Some tok, toks, end_of_flags)
      else if tok = ''--'' then next_word True toks
      else if \<not> List.member tok CHR ''='' \<and> List.member RAW_VALUE_FLAGS tok then next_word end_of_flags (tl toks)
      else next_word end_of_flags toks)"
  by pat_completeness auto
termination by (relation "measure (\<lambda>(_, toks). length toks)") auto

definition to_str :: "str option \<Rightarrow> str option" where
  "to_str w = (case w of Some s \<Rightarrow> if utf8_valid s then Some s else None | None \<Rightarrow> None)"

definition peek :: "str list \<Rightarrow> peeked option" where
  "peek argv =
     (let (w, it, eof) = next_word False (tl argv) in
      case to_str w of
        None \<Rightarrow> None
      | Some first \<Rightarrow>
          if first \<noteq> ''raw'' \<and> first \<noteq> ''x'' then None
          else (let (w, it, eof) = next_word eof it; grp = to_str w;
                    leaf = (case grp of None \<Rightarrow> None | Some _ \<Rightarrow> to_str (fst (next_word eof it)))
                in Some \<lparr>pk_group = grp, pk_leaf = leaf\<rparr>))"

subsection \<open>Names and help\<close>

fun value_name_loop :: "(str \<Rightarrow> str) \<Rightarrow> str list \<Rightarrow> str \<Rightarrow> bool \<Rightarrow> str" where
  "value_name_loop up [] out first = out"
| "value_name_loop up (ch # cs) out first =
     (if ch = ''-'' \<or> ch = ''_'' then value_name_loop up cs (out @ ''_'') False
      else (let upper = length ch = 1 \<and> is_ascii_upper (hd ch);
                out = (if upper \<and> \<not> first \<and> \<not> ends_with out ''_'' then out @ ''_'' else out)
            in value_name_loop up cs (out @ (if length ch = 1 then to_ascii_uppercase ch else up ch)) False))"

definition value_name :: "(str \<Rightarrow> str) \<Rightarrow> str \<Rightarrow> str" where
  "value_name up wire = value_name_loop up (chars wire) [] True"

definition about_line :: "op_meta \<Rightarrow> str" where
  "about_line op =
     (let summary = (if om_summary op = [] then om_op_id op else om_summary op) in
      case om_deprecated op of Some _ \<Rightarrow> ''(deprecated) '' @ summary | None \<Rightarrow> summary)"

definition long_help :: "op_meta \<Rightarrow> str" where
  "long_help op =
     (case om_deprecated op of
        Some n \<Rightarrow> ''DEPRECATED'' @ (if n \<noteq> [] then '': '' @ n else []) @ [CHR 0x0A, CHR 0x0A]
      | None \<Rightarrow> [])
     @ (if om_description op \<noteq> [] then om_description op @ [CHR 0x0A, CHR 0x0A]
        else if om_summary op \<noteq> [] then om_summary op @ [CHR 0x0A, CHR 0x0A] else [])
     @ (''HTTP: '' @ om_method op @ '' '' @ om_path op @ [CHR 0x0A])
     @ (case om_scope op of Some scope \<Rightarrow> (''token scope: '' @ scope @ [CHR 0x0A]) | None \<Rightarrow> [])
     @ (case om_body op of
          None \<Rightarrow> []
        | Some b \<Rightarrow>
            (''request body: '' @ bm_type_name b @ '' ('' @ bm_content_type b @ (if bm_required b then '', required'' else '', optional'') @ '')'' @ [CHR 0x0A])
            @ (if bm_deep b \<noteq> []
               then ([CHR 0x0A] @ ''These body fields are nested too deeply to expose as flags: '' @ join '', '' (bm_deep b) @ ''.'' @ [CHR 0x0A] @ ''Supply them with --body-file <PATH> (a JSON object; `-` reads stdin); any flags you also pass override the file field by field.'' @ [CHR 0x0A])
               else []))"

definition help_text :: "str \<Rightarrow> str list \<Rightarrow> bool \<Rightarrow> str option \<Rightarrow> str" where
  "help_text help enum_values required n =
     (let s = (if required then ''(required) '' else []) @ help;
          s = (if enum_values \<noteq> []
               then (if \<not> ends_with s '' '' \<and> s \<noteq> [] then s @ '' '' else s)
                 @ (''[values: '' @ join '', '' enum_values @ ''; not enforced]'')
               else s);
          s = (case n of Some n \<Rightarrow> s @ ('' ['' @ n @ '']'') | None \<Rightarrow> s)
      in trim s)"

subsection \<open>Unique long names\<close>

text \<open>The set of names used so far is a list; a number is tried until one is free.\<close>

definition long_candidates :: "str \<Rightarrow> str \<Rightarrow> str list" where
  "long_candidates preferred kind = [preferred] @ (if preferred = ''limit'' then [''per-page''] else []) @ [kind @ ''-'' @ preferred]"

definition numbered :: "str \<Rightarrow> nat \<Rightarrow> str" where
  "numbered preferred n = preferred @ ''-'' @ show_nat n"

lemma numbered_inj: "numbered p m = numbered p n \<longleftrightarrow> m = n"
proof -
  have "show_nat m = show_nat n \<Longrightarrow> m = n" by (metis show_nat_value)
  then show ?thesis unfolding numbered_def by blast
qed

lemma finite_numbered: "finite {m. n \<le> m \<and> numbered p m \<in> set used}"
proof -
  have "numbered p ` {m. n \<le> m \<and> numbered p m \<in> set used} \<subseteq> set used" by auto
  then have "finite (numbered p ` {m. n \<le> m \<and> numbered p m \<in> set used})" by (rule finite_subset) simp
  then show ?thesis by (rule finite_imageD) (auto simp: inj_on_def numbered_inj)
qed

function free_number :: "str list \<Rightarrow> str \<Rightarrow> nat \<Rightarrow> nat" where
  "free_number used preferred n =
     (if List.member used (numbered preferred n) then free_number used preferred (Suc n) else n)"
  by pat_completeness auto
termination
proof (relation "measure (\<lambda>(used, p, n). card {m. n \<le> m \<and> numbered p m \<in> set used})", rule wf_measure)
  fix used p n assume "List.member used (numbered p n)"
  then have "{m. Suc n \<le> m \<and> numbered p m \<in> set used} \<subset> {m. n \<le> m \<and> numbered p m \<in> set used}"
    by (auto simp: Suc_le_eq)
  then show "((used, p, Suc n), used, p, n) \<in> measure (\<lambda>(used, p, n). card {m. n \<le> m \<and> numbered p m \<in> set used})"
    using psubset_card_mono [OF finite_numbered] by simp
qed

declare free_number.simps [simp del]

definition unique_long :: "str list \<Rightarrow> str \<Rightarrow> str \<Rightarrow> str \<times> str list" where
  "unique_long used preferred kind =
     (let c = (case find (\<lambda>c. \<not> List.member used c) (long_candidates preferred kind) of
                 Some c \<Rightarrow> c
               | None \<Rightarrow> numbered preferred (free_number used preferred 2))
      in (c, c # used))"

subsection \<open>Arguments\<close>

definition value_hint_of :: "value_ty \<Rightarrow> value_hint" where
  "value_hint_of ty = (if ty = TyFile then HintFilePath else HintOther)"

definition positional_arg :: "(str \<Rightarrow> str) \<Rightarrow> param_meta \<Rightarrow> nat \<Rightarrow> clap_arg" where
  "positional_arg up p index = (arg_new (path_pos_id (pm_flag p)))\<lparr>ca_index := Some index,
     ca_value_name := Some (value_name up (pm_wire p)), ca_required := False, ca_hint := value_hint_of (pm_ty p),
     ca_help := help_text (pm_help p) (pm_enum_values p) True (Some (''or --'' @ pm_flag p))\<rparr>"

definition path_flag_arg :: "(str \<Rightarrow> str) \<Rightarrow> param_meta \<Rightarrow> str \<Rightarrow> clap_arg" where
  "path_flag_arg up p long = (arg_new (path_flag_id (pm_flag p)))\<lparr>ca_long := Some long,
     ca_value_name := Some (value_name up (pm_wire p)), ca_required := False, ca_action := ActSet,
     ca_hint := value_hint_of (pm_ty p),
     ca_help := help_text (pm_help p) (pm_enum_values p) True (Some ((''or positional <'' @ value_name up (pm_wire p) @ ''>'')))\<rparr>"

definition value_arg :: "str \<Rightarrow> str \<Rightarrow> value_ty \<Rightarrow> bool \<Rightarrow> clap_arg" where
  "value_arg ident long ty repeatable =
     (let a = (arg_new ident)\<lparr>ca_long := Some long, ca_required := False\<rparr>;
          a = (case ty of
                 TyBool \<Rightarrow> a\<lparr>ca_value_name := Some ''BOOL'', ca_parser := ParseBool, ca_num_args := Some (0, Some 1),
                              ca_require_equals := True, ca_default_missing := Some ''true''\<rparr>
               | TyInt \<Rightarrow> a\<lparr>ca_value_name := Some ''N'', ca_parser := ParseI64\<rparr>
               | TyFloat \<Rightarrow> a\<lparr>ca_value_name := Some ''NUM'', ca_parser := ParseF64\<rparr>
               | TyDateTime \<Rightarrow> a\<lparr>ca_value_name := Some ''RFC3339''\<rparr>
               | TyFile \<Rightarrow> a\<lparr>ca_value_name := Some ''PATH'', ca_hint := HintFilePath\<rparr>
               | TyJson \<Rightarrow> a\<lparr>ca_value_name := Some ''JSON''\<rparr>
               | TyList \<Rightarrow> a\<lparr>ca_value_name := Some ''VALUE''\<rparr>
               | TyStr \<Rightarrow> a\<lparr>ca_value_name := Some ''VALUE''\<rparr>)
      in a\<lparr>ca_action := if repeatable \<and> ty \<noteq> TyBool then ActAppend else ActSet\<rparr>)"

definition body_field_arg :: "body_field \<Rightarrow> str \<Rightarrow> clap_arg" where
  "body_field_arg f long = (value_arg (body_id (bf_flag f)) long (bf_ty f) (bf_ty f = TyList))\<lparr>ca_help :=
     help_text (bf_help f) (bf_enum_values f) (bf_required f) (Some ''body field'')\<rparr>"

definition body_file_arg :: clap_arg where
  "body_file_arg = (arg_new ID_BODY_FILE)\<lparr>ca_long := Some ''body-file'', ca_value_name := Some ''PATH'', ca_hint := HintFilePath,
     ca_action := ActSet, ca_help := ''Read the JSON request body from PATH; `-` reads stdin. Body flags override it''\<rparr>"

definition dry_run_arg :: clap_arg where
  "dry_run_arg = (arg_new ID_DRY_RUN)\<lparr>ca_long := Some ''dry-run'', ca_action := ActSetTrue,
     ca_help := ''Print the method, URL, and body that would be sent, and exit''\<rparr>"

definition paginate_arg :: clap_arg where
  "paginate_arg = (arg_new ID_PAGINATE)\<lparr>ca_long := Some ''paginate'', ca_action := ActSetTrue,
     ca_help := ''Follow pagination and return every page as one list''\<rparr>"

definition limit_arg :: clap_arg where
  "limit_arg = (arg_new ID_LIMIT)\<lparr>ca_long := Some ''limit'', ca_value_name := Some ''N'', ca_parser := ParseU64From 1,
     ca_action := ActSet, ca_help := ''Stop after N items in total (not per page)''\<rparr>"

subsection \<open>One operation as a command\<close>

fun path_args :: "(str \<Rightarrow> str) \<Rightarrow> nat \<Rightarrow> str list \<Rightarrow> param_meta list \<Rightarrow> clap_arg list \<times> str list" where
  "path_args up i used [] = ([], used)"
| "path_args up i used (p # ps) =
     (let (long, used) = unique_long used (pm_flag p) ''param''; (args, used) = path_args up (Suc i) used ps
      in (positional_arg up p (Suc i) # path_flag_arg up p long # args, used))"

fun param_args :: "(str \<Rightarrow> str) \<Rightarrow> str \<Rightarrow> str list \<Rightarrow> param_meta list \<Rightarrow> clap_arg list \<times> str list" where
  "param_args id_of kind used [] = ([], used)"
| "param_args id_of kind used (p # ps) =
     (let (long, used) = unique_long used (pm_flag p) kind; (args, used) = param_args id_of kind used ps
      in ((value_arg (id_of (pm_flag p)) long (pm_ty p) (pm_repeatable p))
            \<lparr>ca_help := help_text (pm_help p) (pm_enum_values p) (pm_required p) None\<rparr> # args, used))"

fun field_args :: "str list \<Rightarrow> body_field list \<Rightarrow> clap_arg list \<times> str list" where
  "field_args used [] = ([], used)"
| "field_args used (f # fs) =
     (let (long, used) = unique_long used (bf_flag f) ''body''; (args, used) = field_args used fs
      in (body_field_arg f long # args, used))"

definition reserved_longs :: "bool \<Rightarrow> str list" where
  "reserved_longs paged = (if paged then [''limit'', ''paginate''] else []) @ [''dry-run'', ''body-file'']"

definition leaf_command :: "(str \<Rightarrow> str) \<Rightarrow> op_meta \<Rightarrow> command" where
  "leaf_command up op =
     (let paged = om_pagination op = Paged;
          (path, longs) = path_args up 0 (reserved_longs paged) (path_params op);
          (quer, longs) = param_args query_id ''query'' longs (query_params op);
          (frm, longs) = param_args form_id ''form'' longs (form_params op);
          (fields, longs) = (case om_body op of Some b \<Rightarrow> field_args longs (bm_fields b) | None \<Rightarrow> ([], longs))
      in Command (om_command op) None (about_line op) (Some (long_help op)) False
           (path @ quer @ frm @ fields @ [body_file_arg, dry_run_arg] @ (if paged then [paginate_arg, limit_arg] else [])) [])"

subsection \<open>The tree\<close>

definition search_command :: command where
  "search_command = Command ''search'' None ''Find an operation by name, summary, or URL path''
     (Some ((''Rank all operations against the given words and print the best matches as full invocations, ready to copy.'' @ [CHR 0x0A, CHR 0x0A] @ ''Example: fjo raw search pull request'')))
     False [(arg_new ''terms'')\<lparr>ca_value_name := Some ''WORDS'', ca_num_args := Some (1, None), ca_required := True,
       ca_help := ''Words to match against the command name, summary, and path''\<rparr>] []"

definition group_stub :: "group_meta \<Rightarrow> command list \<Rightarrow> command" where
  "group_stub g subs = Command (gm_name g) None (gm_about g) None True [] subs"

definition leaf_stub :: "op_meta \<Rightarrow> command" where
  "leaf_stub op = Command (om_command op) None (about_line op) None False [] []"

definition raw_shell :: "command list \<Rightarrow> command" where
  "raw_shell subs = Command ''raw'' (Some ''x'') ''Call any Forgejo API operation directly''
     (Some ((''Commands for every operation in the bundled Forgejo API specification.'' @ [CHR 0x0A, CHR 0x0A] @ ''Path parameters are accepted positionally or as flags; `--body-file -` reads a JSON request body from stdin, and individual body flags override it. Use `fjo raw search <words>` to find an operation by name, summary, or URL path.'')))
     True [] subs"

definition raw_command :: "(str \<Rightarrow> str) \<Rightarrow> op_meta list \<Rightarrow> group_meta list \<Rightarrow> str option \<Rightarrow> str option \<Rightarrow> command option" where
  "raw_command up ops groups grp leaf =
     (case Option.bind grp (lookup_group groups) of
        None \<Rightarrow> Some (raw_shell (map (\<lambda>g. group_stub g []) groups @ [search_command]))
      | Some g \<Rightarrow>
          (case Option.bind leaf (lookup_op ops (gm_name g)) of
             Some op \<Rightarrow> Some (raw_shell [group_stub g [leaf_command up op]])
           | None \<Rightarrow> map_option (\<lambda>os. raw_shell [group_stub g (map leaf_stub os)]) (ops_in ops g)))"

definition build_command :: "(str \<Rightarrow> str) \<Rightarrow> op_meta list \<Rightarrow> group_meta list \<Rightarrow> str option \<Rightarrow> str option \<Rightarrow> command option" where
  "build_command up ops groups grp leaf =
     map_option (\<lambda>raw. Command ''fjo'' None [] None False [] [raw]) (raw_command up ops groups grp leaf)"

subsection \<open>Lemmas: long names and identifiers\<close>

lemma free_number_free: "numbered p (free_number used p n) \<notin> set used"
  by (induction used p n rule: free_number.induct) (subst free_number.simps, auto)

lemma unique_long_fresh: "unique_long used p kind = (c, used') \<Longrightarrow> c \<notin> set used \<and> used' = c # used"
  using free_number_free [of p used 2]
  by (auto simp: unique_long_def Let_def dest: find_Some_set split: option.splits)

definition longs_of :: "clap_arg list \<Rightarrow> str list" where
  "longs_of args = List.map_filter ca_long args"

lemma longs_of_simps [simp]:
  "longs_of [] = []"
  "longs_of (a # args) = (case ca_long a of None \<Rightarrow> longs_of args | Some l \<Rightarrow> l # longs_of args)"
  "longs_of (xs @ ys) = longs_of xs @ longs_of ys"
  by (auto simp: longs_of_def List.map_filter_simps List.map_filter_def)

lemma value_arg_keeps [simp]: "ca_long (value_arg i l ty r) = Some l" "ca_id (value_arg i l ty r) = i"
  by (cases ty; simp add: value_arg_def arg_new_def)+

lemma arg_longs [simp]:
  "ca_long (positional_arg up p i) = None" "ca_long (path_flag_arg up p l) = Some l" "ca_long (body_field_arg f l) = Some l"
  "ca_long body_file_arg = Some ''body-file''" "ca_long dry_run_arg = Some ''dry-run''"
  "ca_long paginate_arg = Some ''paginate''" "ca_long limit_arg = Some ''limit''"
  by (simp_all add: positional_arg_def path_flag_arg_def body_field_arg_def body_file_arg_def dry_run_arg_def
      paginate_arg_def limit_arg_def arg_new_def)

lemma arg_ids [simp]:
  "ca_id (positional_arg up p i) = path_pos_id (pm_flag p)" "ca_id (path_flag_arg up p l) = path_flag_id (pm_flag p)"
  "ca_id (body_field_arg f l) = body_id (bf_flag f)"
  "ca_id body_file_arg = ID_BODY_FILE" "ca_id dry_run_arg = ID_DRY_RUN"
  "ca_id paginate_arg = ID_PAGINATE" "ca_id limit_arg = ID_LIMIT"
  by (simp_all add: positional_arg_def path_flag_arg_def body_field_arg_def body_file_arg_def dry_run_arg_def
      paginate_arg_def limit_arg_def arg_new_def)

text \<open>Every step puts its name in front of the names used so far and keeps them distinct.\<close>

lemma path_args_longs:
  "path_args up i used ps = (args, used') \<Longrightarrow> distinct used \<Longrightarrow> used' = rev (longs_of args) @ used \<and> distinct used'"
  by (induction ps arbitrary: i used args used') (auto simp: Let_def split: prod.splits dest!: unique_long_fresh)

lemma param_args_longs:
  "param_args id_of kind used ps = (args, used') \<Longrightarrow> distinct used \<Longrightarrow> used' = rev (longs_of args) @ used \<and> distinct used'"
  by (induction ps arbitrary: used args used') (auto simp: Let_def split: prod.splits dest!: unique_long_fresh)

lemma field_args_longs:
  "field_args used fs = (args, used') \<Longrightarrow> distinct used \<Longrightarrow> used' = rev (longs_of args) @ used \<and> distinct used'"
  by (induction fs arbitrary: used args used') (auto simp: Let_def split: prod.splits dest!: unique_long_fresh)

lemma path_args_ids:
  "path_args up i used ps = (args, used') \<Longrightarrow>
     map ca_id args = concat (map (\<lambda>p. [path_pos_id (pm_flag p), path_flag_id (pm_flag p)]) ps)"
  by (induction ps arbitrary: i used args used') (auto simp: Let_def split: prod.splits)

lemma param_args_ids: "param_args id_of kind used ps = (args, used') \<Longrightarrow> map ca_id args = map (\<lambda>p. id_of (pm_flag p)) ps"
  by (induction ps arbitrary: used args used') (auto simp: Let_def split: prod.splits)

lemma field_args_ids: "field_args used fs = (args, used') \<Longrightarrow> map ca_id args = map (\<lambda>f. body_id (bf_flag f)) fs"
  by (induction fs arbitrary: used args used') (auto simp: Let_def split: prod.splits)

definition op_fields :: "op_meta \<Rightarrow> body_field list" where
  "op_fields op = (case om_body op of Some b \<Rightarrow> bm_fields b | None \<Rightarrow> [])"

lemma leaf_command_parts:
  obtains path quer frm fields l1 l2 l3 l4 where
    "path_args up 0 (reserved_longs (om_pagination op = Paged)) (path_params op) = (path, l1)"
    "param_args query_id ''query'' l1 (query_params op) = (quer, l2)"
    "param_args form_id ''form'' l2 (form_params op) = (frm, l3)"
    "field_args l3 (op_fields op) = (fields, l4)"
    "co_args (leaf_command up op) = path @ quer @ frm @ fields @ [body_file_arg, dry_run_arg]
       @ (if om_pagination op = Paged then [paginate_arg, limit_arg] else [])"
proof -
  have f: "(case om_body op of Some b \<Rightarrow> field_args l (bm_fields b) | None \<Rightarrow> ([], l)) = field_args l (op_fields op)" for l
    by (simp add: op_fields_def split: option.splits)
  obtain path l1 where s1: "path_args up 0 (reserved_longs (om_pagination op = Paged)) (path_params op) = (path, l1)" by (rule prod.exhaust)
  obtain quer l2 where s2: "param_args query_id ''query'' l1 (query_params op) = (quer, l2)" by (rule prod.exhaust)
  obtain frm l3 where s3: "param_args form_id ''form'' l2 (form_params op) = (frm, l3)" by (rule prod.exhaust)
  obtain fields l4 where s4: "field_args l3 (op_fields op) = (fields, l4)" by (rule prod.exhaust)
  show thesis using s1 s2 s3 s4 by (rule that) (simp add: leaf_command_def Let_def f s1 s2 s3 s4)
qed

lemma leaf_longs: "distinct (longs_of (co_args (leaf_command up op)))"
proof -
  obtain path quer frm fields l1 l2 l3 l4 where s:
    "path_args up 0 (reserved_longs (om_pagination op = Paged)) (path_params op) = (path, l1)"
    "param_args query_id ''query'' l1 (query_params op) = (quer, l2)"
    "param_args form_id ''form'' l2 (form_params op) = (frm, l3)"
    "field_args l3 (op_fields op) = (fields, l4)"
    and a: "co_args (leaf_command up op) = path @ quer @ frm @ fields @ [body_file_arg, dry_run_arg]
       @ (if om_pagination op = Paged then [paginate_arg, limit_arg] else [])"
    by (rule leaf_command_parts)
  have "distinct (reserved_longs (om_pagination op = Paged))" by (simp add: reserved_longs_def)
  then have "distinct l4 \<and> l4 = rev (longs_of fields) @ rev (longs_of frm) @ rev (longs_of quer) @ rev (longs_of path)
      @ reserved_longs (om_pagination op = Paged)"
    using path_args_longs [OF s(1)] param_args_longs [OF s(2)] param_args_longs [OF s(3)] field_args_longs [OF s(4)]
    by (metis append.assoc)
  then show ?thesis unfolding a by (auto simp: reserved_longs_def)
qed

lemma distinct_pairs:
  assumes "\<And>x y. g x = g y \<longleftrightarrow> x = y" "\<And>x y. h x = h y \<longleftrightarrow> x = y" "\<And>x y. g x \<noteq> h y"
  shows "distinct (map f ps) \<Longrightarrow> distinct (concat (map (\<lambda>p. [g (f p), h (f p)]) ps))"
  by (induction ps) (auto simp: assms assms(3) [symmetric] image_iff)

lemma distinct_tagged: "distinct (map f ps) \<Longrightarrow> distinct (map (\<lambda>p. t @ f p) ps)"
  by (induction ps) auto

lemma leaf_ids:
  assumes "distinct (map pm_flag (path_params op))" "distinct (map pm_flag (query_params op))"
    "distinct (map pm_flag (form_params op))" "distinct (map bf_flag (op_fields op))"
  shows "distinct (map ca_id (co_args (leaf_command up op)))"
proof -
  obtain path quer frm fields l1 l2 l3 l4 where s:
    "path_args up 0 (reserved_longs (om_pagination op = Paged)) (path_params op) = (path, l1)"
    "param_args query_id ''query'' l1 (query_params op) = (quer, l2)"
    "param_args form_id ''form'' l2 (form_params op) = (frm, l3)"
    "field_args l3 (op_fields op) = (fields, l4)"
    and a: "co_args (leaf_command up op) = path @ quer @ frm @ fields @ [body_file_arg, dry_run_arg]
       @ (if om_pagination op = Paged then [paginate_arg, limit_arg] else [])"
    by (rule leaf_command_parts)
  note ids = path_args_ids [OF s(1)] param_args_ids [OF s(2)] param_args_ids [OF s(3)] field_args_ids [OF s(4)]
  have p: "distinct (map ca_id path)"
    unfolding ids by (rule distinct_pairs [OF _ _ _ assms(1)]) (auto simp: path_pos_id_def path_flag_id_def)
  have q: "distinct (map ca_id quer)" "distinct (map ca_id frm)" "distinct (map ca_id fields)"
    unfolding ids query_id_def form_id_def body_id_def by (intro distinct_tagged assms)+
  have sets: "hd ` set (map ca_id path) \<subseteq> {CHR ''p''}" "hd ` set (map ca_id quer) \<subseteq> {CHR ''q''}"
    "take 2 ` set (map ca_id frm) \<subseteq> {''fo''}" "hd ` set (map ca_id fields) \<subseteq> {CHR ''b''}"
    unfolding ids by (auto simp: path_pos_id_def path_flag_id_def query_id_def form_id_def body_id_def)
  have hd: "hd x = CHR ''f''" if "take 2 x = ''fo''" for x :: str using that by (cases x) auto
  let ?engine = "map ca_id ([body_file_arg, dry_run_arg] @ (if om_pagination op = Paged then [paginate_arg, limit_arg] else []))"
  have e: "distinct ?engine" "take 2 ` set ?engine \<subseteq> {''fj''}" "hd ` set ?engine \<subseteq> {CHR ''f''}"
    by (auto simp: ID_BODY_FILE_def ID_DRY_RUN_def ID_PAGINATE_def ID_LIMIT_def)
  have disj: "A \<inter> B = {}" if "h ` A \<subseteq> {a}" "h ` B \<subseteq> {b}" "a \<noteq> b" for h :: "str \<Rightarrow> 'c" and A B a b
    using that by blast
  have frm: "hd ` set (map ca_id frm) \<subseteq> {CHR ''f''}" using sets(3) hd by blast
  note ds = disj [OF sets(1) sets(2)] disj [OF sets(1) frm] disj [OF sets(1) sets(4)] disj [OF sets(1) e(3)]
    disj [OF sets(2) frm] disj [OF sets(2) sets(4)] disj [OF sets(2) e(3)]
    disj [OF frm sets(4)] disj [OF sets(3) e(2)] disj [OF sets(4) e(3)]
  show ?thesis unfolding a map_append distinct_append set_append Int_Un_distrib Int_Un_distrib2
    using p q e(1) ds by (simp only: map_append) auto
qed


subsection \<open>The part that is built is the part of the whole\<close>

definition sub_of :: "command \<Rightarrow> str \<Rightarrow> command option" where
  "sub_of c name = find (\<lambda>s. co_name s = name) (co_subs c)"

fun descend :: "command \<Rightarrow> str list \<Rightarrow> command option" where
  "descend c [] = Some c"
| "descend c (n # ns) = Option.bind (sub_of c n) (\<lambda>s. descend s ns)"

text \<open>The tree that an eager build would make: every operation of every group in full.\<close>

definition whole_tree :: "(str \<Rightarrow> str) \<Rightarrow> op_meta list \<Rightarrow> group_meta list \<Rightarrow> command" where
  "whole_tree up ops groups =
     raw_shell (map (\<lambda>g. group_stub g (map (leaf_command up) (filter (\<lambda>o1. om_group o1 = gm_name g) ops))) groups @ [search_command])"

definition sub_names :: "command \<Rightarrow> str list" where
  "sub_names c = map co_name (co_subs c)"

lemma shell_simps [simp]:
  "co_subs (raw_shell subs) = subs" "co_subs (group_stub g subs) = subs" "co_name (group_stub g subs) = gm_name g"
  "co_name (leaf_stub op) = om_command op" "co_name (leaf_command up op) = om_command op" "co_name search_command = ''search''"
  by (simp_all add: raw_shell_def group_stub_def leaf_stub_def leaf_command_def search_command_def Let_def split: prod.splits)

lemma find_map: "find P (map f xs) = map_option f (find (P \<circ> f) xs)"
  by (induction xs) auto

lemma find_append: "find P (xs @ ys) = (case find P xs of Some x \<Rightarrow> Some x | None \<Rightarrow> find P ys)"
  by (induction xs) auto

lemma find_filter: "find P (filter Q xs) = find (\<lambda>x. Q x \<and> P x) xs"
  by (induction xs) auto

lemma whole_group:
  assumes "tables_ok ops groups" "lookup_group groups g = Some gm"
  shows "gm_name gm = g" "sub_of (whole_tree up ops groups) g = Some (group_stub gm (map (leaf_command up) (filter (\<lambda>o1. om_group o1 = g) ops)))"
    "ops_in ops gm = Some (filter (\<lambda>o1. om_group o1 = g) ops)"
proof -
  have f: "find (\<lambda>x. gm_name x = g) groups = Some gm" using assms lookup_group_find by (auto simp: tables_ok_def)
  then have "gm_name gm = g \<and> gm \<in> set groups" by (auto simp: find_Some_iff)
  then show "gm_name gm = g" "ops_in ops gm = Some (filter (\<lambda>o1. om_group o1 = g) ops)"
    using assms(1) by (auto simp: tables_ok_def list_all_iff)
  then show "sub_of (whole_tree up ops groups) g = Some (group_stub gm (map (leaf_command up) (filter (\<lambda>o1. om_group o1 = g) ops)))"
    using f by (simp add: sub_of_def whole_tree_def find_append find_map comp_def)
qed

lemma whole_leaf:
  assumes "tables_ok ops groups" "lookup_group groups g = Some gm"
  shows "descend (whole_tree up ops groups) [g, l] = map_option (leaf_command up) (lookup_op ops g l)"
proof -
  have "lookup_op ops g l = find (\<lambda>o1. om_group o1 = g \<and> om_command o1 = l) ops"
    using assms(1) by (simp add: tables_ok_def lookup_op_find)
  then show ?thesis unfolding descend.simps whole_group(2) [OF assms] by (simp add: sub_of_def find_map find_filter comp_def)
qed

lemma lookup_op_names: "ops_sorted ops \<Longrightarrow> lookup_op ops g l = Some op \<Longrightarrow> om_group op = g \<and> om_command op = l"
  by (auto simp: lookup_op_find dest: find_Some_set)

lemma lazy_leaf:
  assumes "tables_ok ops groups" "lookup_group groups g = Some gm" "lookup_op ops g l = Some op"
  shows "\<exists>c. raw_command up ops groups (Some g) (Some l) = Some c \<and> descend c [g, l] = descend (whole_tree up ops groups) [g, l]"
proof -
  have "om_command op = l" using assms lookup_op_names by (auto simp: tables_ok_def)
  then show ?thesis unfolding whole_leaf [OF assms(1,2)]
    using assms(2,3) whole_group(1) [OF assms(1,2)] by (simp add: raw_command_def sub_of_def)
qed

lemma lazy_group:
  assumes "tables_ok ops groups" "lookup_group groups g = Some gm" "\<And>l. leaf = Some l \<Longrightarrow> lookup_op ops g l = None"
  shows "\<exists>c gc wc. raw_command up ops groups (Some g) leaf = Some c \<and> descend c [g] = Some gc
    \<and> descend (whole_tree up ops groups) [g] = Some wc \<and> sub_names gc = sub_names wc"
proof -
  have "Option.bind leaf (lookup_op ops g) = None" using assms(3) by (cases leaf) auto
  then show ?thesis using assms(2) whole_group [OF assms(1,2)]
    by (simp add: raw_command_def sub_of_def sub_names_def comp_def)
qed

lemma lazy_top:
  assumes "Option.bind grp (lookup_group groups) = None"
  shows "\<exists>c. raw_command up ops groups grp leaf = Some c \<and> sub_names c = sub_names (whole_tree up ops groups)"
  using assms by (simp add: raw_command_def sub_names_def whole_tree_def comp_def)

subsection \<open>Properties\<close>


definition sample_op :: "str \<Rightarrow> str \<Rightarrow> op_meta" where
  "sample_op grp command = \<lparr>om_op_id = ''x'', om_group = grp, om_command = command, om_method = ''GET'', om_path = ''/repos/{owner}'',
     om_summary = [], om_description = [],
     om_params = [\<lparr>pm_wire = ''owner'', pm_flag = ''owner'', pm_location = InPath, pm_ty = TyStr, pm_required = True,
         pm_repeatable = False, pm_encoding = EncSegment, pm_ctx_fill = Some FillOwner, pm_enum_values = [], pm_help = ''owner''\<rparr>,
       \<lparr>pm_wire = ''limit'', pm_flag = ''limit'', pm_location = InQuery, pm_ty = TyInt, pm_required = False,
         pm_repeatable = False, pm_encoding = EncSegment, pm_ctx_fill = None, pm_enum_values = [], pm_help = ''page size''\<rparr>],
     om_body = None, om_pagination = Paged, om_produces = ProdJson, om_scope = None, om_deprecated = None\<rparr>"

definition sample_ops :: "op_meta list" where
  "sample_ops = [sample_op ''issue'' ''list'', sample_op ''repo'' ''create'', sample_op ''repo'' ''get'']"

definition sample_groups :: "group_meta list" where
  "sample_groups = [\<lparr>gm_name = ''issue'', gm_about = [], gm_first = 0, gm_len = 1\<rparr>, \<lparr>gm_name = ''repo'', gm_about = [], gm_first = 1, gm_len = 2\<rparr>]"

lemma sample_tables_ok: "tables_ok sample_ops sample_groups"
  unfolding tables_ok_def ops_sorted_def sorted_by_key_def by code_simp


text \<open>
  C0. Whatever the tables hold, no two arguments of a command have the same long name, which would make
  \<open>clap\<close> panic; and no two have the same identifier when the flags of each kind of parameter differ.
\<close>
theorem leaf_args_distinct:
  "distinct (List.map_filter ca_long (co_args (leaf_command up op)))
   \<and> (distinct (map pm_flag (path_params op)) \<and> distinct (map pm_flag (query_params op))
      \<and> distinct (map pm_flag (form_params op)) \<and> distinct (map bf_flag (op_fields op))
      \<longrightarrow> distinct (map ca_id (co_args (leaf_command up op))))"
  using leaf_longs leaf_ids by (simp add: longs_of_def)

lemma leaf_args_distinct_witness:
  "distinct (map ca_id (co_args (leaf_command id (sample_op ''repo'' ''get''))))
   \<and> List.map_filter ca_long (co_args (leaf_command id (sample_op ''repo'' ''get'')))
     = [''owner'', ''per-page'', ''body-file'', ''dry-run'', ''paginate'', ''limit'']"
proof -
  have "distinct (map pm_flag (path_params (sample_op ''repo'' ''get'')))" "distinct (map pm_flag (query_params (sample_op ''repo'' ''get'')))"
    "distinct (map pm_flag (form_params (sample_op ''repo'' ''get'')))" "distinct (map bf_flag (op_fields (sample_op ''repo'' ''get'')))"
    by (simp_all add: sample_op_def path_params_def query_params_def form_params_def op_fields_def)
  moreover have "List.map_filter ca_long (co_args (leaf_command id (sample_op ''repo'' ''get'')))
     = [''owner'', ''per-page'', ''body-file'', ''dry-run'', ''paginate'', ''limit'']"
    by code_simp
  ultimately show ?thesis using leaf_args_distinct [of id "sample_op ''repo'' ''get''"] by simp
qed

end
