(* ===== verification/Raw_Bind.thy ===== *)
theory Raw_Bind
  imports Raw_Build Encode Project
begin

text \<open>
  From the matches of \<open>clap\<close> to a described request: \<open>crates/fjo-raw/src/bind.rs\<close> and \<open>bodyfile.rs\<close>.
  The matches are the values under each identifier, in order; all of one argument's values have the type
  of its parser, and asking for another type gives nothing.  A float is the text it is printed as.
  Reading stdin and files and the parser of JSON (with the text, line and column of its error) are
  parameters, as is the pretty printer.
\<close>

subsection \<open>Values\<close>

datatype arg_value = VBool bool | VInt int | VFloat str | VStr str | VU64 nat

type_synonym matches = "str \<Rightarrow> arg_value list"

fun val_bool :: "arg_value \<Rightarrow> bool option" where
  "val_bool (VBool b) = Some b"
| "val_bool _ = None"

fun val_int :: "arg_value \<Rightarrow> int option" where
  "val_int (VInt i) = Some i"
| "val_int _ = None"

fun val_float :: "arg_value \<Rightarrow> str option" where
  "val_float (VFloat s) = Some s"
| "val_float _ = None"

fun val_str :: "arg_value \<Rightarrow> str option" where
  "val_str (VStr s) = Some s"
| "val_str _ = None"

fun val_u64 :: "arg_value \<Rightarrow> nat option" where
  "val_u64 (VU64 n) = Some n"
| "val_u64 _ = None"

definition matched_one :: "(arg_value \<Rightarrow> 'a option) \<Rightarrow> matches \<Rightarrow> str \<Rightarrow> 'a option" where
  "matched_one get m ident = (case m ident of [] \<Rightarrow> None | v # _ \<Rightarrow> get v)"

definition matched_many :: "(arg_value \<Rightarrow> 'a option) \<Rightarrow> matches \<Rightarrow> str \<Rightarrow> 'a list" where
  "matched_many get m ident =
     (if list_ex (\<lambda>v. case get v of None \<Rightarrow> True | Some _ \<Rightarrow> False) (m ident) then [] else List.map_filter get (m ident))"

definition matched_strings :: "matches \<Rightarrow> str \<Rightarrow> value_ty \<Rightarrow> str list" where
  "matched_strings m ident ty =
     (case ty of
        TyBool \<Rightarrow> map (\<lambda>b. if b then ''true'' else ''false'') (matched_many val_bool m ident)
      | TyInt \<Rightarrow> map show_int (matched_many val_int m ident)
      | TyFloat \<Rightarrow> matched_many val_float m ident
      | _ \<Rightarrow> matched_many val_str m ident)"

record raw_lib =
  rw_parse :: "str \<Rightarrow> (str \<times> nat \<times> nat, json) res"
  rw_pretty :: "json \<Rightarrow> str"
  rw_float :: "str \<Rightarrow> json"
  rw_stdin :: "(str, str) res"
  rw_read :: "str \<Rightarrow> (str, str) res"
  rw_upper :: "str \<Rightarrow> str"

definition raw_usage :: "str \<Rightarrow> str list \<Rightarrow> error" where
  "raw_usage t args = error_new (Usage (Fmt t args))"

definition matched_json :: "raw_lib \<Rightarrow> matches \<Rightarrow> str \<Rightarrow> value_ty \<Rightarrow> str \<Rightarrow> (error, json option) res" where
  "matched_json lib m ident ty flag =
     (case ty of
        TyBool \<Rightarrow> Inr (map_option JBool (matched_one val_bool m ident))
      | TyInt \<Rightarrow> Inr (map_option (\<lambda>i. JNum (show_int i)) (matched_one val_int m ident))
      | TyFloat \<Rightarrow> Inr (map_option (rw_float lib) (matched_one val_float m ident))
      | TyList \<Rightarrow> (let vs = matched_many val_str m ident in Inr (if vs \<noteq> [] then Some (JArr (map JStr vs)) else None))
      | TyJson \<Rightarrow>
          (case matched_one val_str m ident of
             None \<Rightarrow> Inr None
           | Some s \<Rightarrow>
               (case rw_parse lib s of
                  Inr v \<Rightarrow> Inr (Some v)
                | Inl (e, _, _) \<Rightarrow> Inl (raw_usage ''--{flag} expects JSON: {e}'' [flag, e])))
      | _ \<Rightarrow> Inr (map_option JStr (matched_one val_str m ident)))"

subsection \<open>The body file\<close>

fun json_kind :: "json \<Rightarrow> str" where
  "json_kind JNull = ''null''"
| "json_kind (JBool _) = ''a boolean''"
| "json_kind (JNum _) = ''a number''"
| "json_kind (JStr _) = ''a string''"
| "json_kind (JArr _) = ''an array''"
| "json_kind (JObj _) = ''an object''"

definition load :: "raw_lib \<Rightarrow> str \<Rightarrow> (error, json) res" where
  "load lib path =
     (case (if path = ''-'' then
              (case rw_stdin lib of Inr s \<Rightarrow> Inr s | Inl e \<Rightarrow> Inl (raw_usage ''--body-file -: could not read stdin: {e}'' [e]))
            else (case rw_read lib path of Inr s \<Rightarrow> Inr s | Inl e \<Rightarrow> Inl (raw_usage ''--body-file {path}: {e}'' [path, e]))) of
        Inl e \<Rightarrow> Inl e
      | Inr t \<Rightarrow>
          if trim t = [] then Inr (JObj [])
          else (case rw_parse lib t of
                  Inr v \<Rightarrow> Inr v
                | Inl (e, ln, col) \<Rightarrow> Inl (raw_usage ''--body-file {path} is not valid JSON: {e} (line {}, column {})''
                    [path, e, show_nat ln, show_nat col])))"

definition unescape_token :: "str \<Rightarrow> str" where
  "unescape_token token = replace_all (replace_all token ''~1'' ''/'') ''~0'' ''~''"

definition not_an_object :: "str \<Rightarrow> str \<Rightarrow> json \<Rightarrow> error" where
  "not_an_object pointer at v =
     (let prefix = (case rsplit_once_c at CHR ''/'' of None \<Rightarrow> [] | Some (p, _) \<Rightarrow> p);
          prefix = (if prefix = [] then ''the body'' else prefix)
      in raw_usage ''cannot set {pointer} in the --body-file: {prefix} is {kind}, not an object'' [pointer, prefix, json_kind v])"

text \<open>The walk down the tokens, with the part of the pointer walked so far.\<close>

fun set_tokens :: "str \<Rightarrow> str \<Rightarrow> json \<Rightarrow> str list \<Rightarrow> json \<Rightarrow> (error, json) res" where
  "set_tokens pointer so_far cur [] v = Inr v"
| "set_tokens pointer so_far cur (token # rest) v =
     (let so_far = so_far @ ''/'' @ token in
      case cur of
        JObj m \<Rightarrow>
          if rest = [] then Inr (JObj (obj_insert token v m))
          else (let child = (case map_of m token of Some c \<Rightarrow> c | None \<Rightarrow> JObj []) in
                res_map (\<lambda>c. JObj (obj_insert token c m)) (set_tokens pointer so_far child rest v))
      | _ \<Rightarrow> Inl (not_an_object pointer so_far cur))"

definition pointer_tokens :: "str \<Rightarrow> str list option" where
  "pointer_tokens pointer = map_option (\<lambda>rest. map unescape_token (split_c rest CHR ''/'')) (strip_prefix pointer ''/'')"

definition set_pointer :: "json \<Rightarrow> str \<Rightarrow> json \<Rightarrow> (error, json) res" where
  "set_pointer root pointer v =
     (case pointer_tokens pointer of
        None \<Rightarrow> Inl (raw_usage ((''{pointer:?} is not a JSON pointer: it must start with '' @ [CHR 0x27] @ ''/'' @ [CHR 0x27])) [pointer])
      | Some tokens \<Rightarrow> set_tokens pointer [] root tokens v)"

fun apply_overrides :: "json \<Rightarrow> (str \<times> json) list \<Rightarrow> (error, json) res" where
  "apply_overrides base [] = Inr base"
| "apply_overrides base ((pointer, v) # rest) = res_bind (set_pointer base pointer v) (\<lambda>b. apply_overrides b rest)"

definition merge_body :: "json \<Rightarrow> (str \<times> json) list \<Rightarrow> (error, json) res" where
  "merge_body base overrides =
     (if overrides = [] then Inr base
      else case base of
        JObj _ \<Rightarrow> apply_overrides base overrides
      | _ \<Rightarrow> Inl (raw_usage ((''--body-file holds {} but {} must be set inside a JSON object '' @ [CHR 0xE2, CHR 0x80, CHR 0x94] @ '' drop the flag, or give a body file whose top level is an object''))
               [json_kind base, join '', '' (map (\<lambda>(p, _). ''--'' @ trim_start_c p CHR ''/'') overrides)]))"

subsection \<open>The path\<close>

definition missing_path_param :: "raw_lib \<Rightarrow> op_meta \<Rightarrow> param_meta \<Rightarrow> error" where
  "missing_path_param lib op p =
     (let how = (if pm_ctx_fill p \<noteq> None then '', or -R owner/repo, or run inside a clone of the repository'' else []);
          name = value_name (rw_upper lib) (pm_wire p)
      in raw_usage ''fjo raw {} {} needs {}: pass it as <{name}> or --{} <{name}>{how}''
           [om_group op, om_command op, pm_wire p, name, pm_flag p, name, how])"

definition resolve_path_param :: "raw_lib \<Rightarrow> op_meta \<Rightarrow> param_meta \<Rightarrow> matches \<Rightarrow> repo_slug option \<Rightarrow> (error, str) res" where
  "resolve_path_param lib op p m ctx =
     (case (matched_one val_str m (path_flag_id (pm_flag p)), matched_one val_str m (path_pos_id (pm_flag p))) of
        (Some f, Some pos) \<Rightarrow>
          if f \<noteq> pos
          then Inl (raw_usage ((''{} was given twice with different values: {:?} positionally but {:?} as --{} '' @ [CHR 0xE2, CHR 0x80, CHR 0x94] @ '' pass it only one way'')) [pm_wire p, pos, f, pm_flag p])
          else Inr f
      | (Some f, None) \<Rightarrow> Inr f
      | (None, Some pos) \<Rightarrow> Inr pos
      | (None, None) \<Rightarrow>
          (case (pm_ctx_fill p, ctx) of
             (Some FillOwner, Some slug) \<Rightarrow> Inr (slug_owner slug)
           | (Some FillRepo, Some slug) \<Rightarrow> Inr (slug_name slug)
           | _ \<Rightarrow> Inl (missing_path_param lib op p)))"

definition encode_param :: "param_meta \<Rightarrow> str \<Rightarrow> str" where
  "encode_param p v = (case pm_encoding p of EncSegment \<Rightarrow> seg v | EncPathLike \<Rightarrow> path_like v)"

function render_loop :: "(param_meta \<Rightarrow> (error, str) res) \<Rightarrow> op_meta \<Rightarrow> str \<Rightarrow> str \<Rightarrow> (error, str) res" where
  "render_loop resolve op out rest =
     (case find_c CHR ''{'' rest of
        None \<Rightarrow> Inr (out @ rest)
      | Some at \<Rightarrow>
          (case find_c CHR ''}'' (drop at rest) of
             None \<Rightarrow> Inl (raw_usage ''{}: malformed path template {:?}'' [om_op_id op, om_path op])
           | Some n \<Rightarrow>
               (let wire = take (n - 1) (drop (Suc at) rest) in
                case find (\<lambda>p. pm_wire p = wire) (path_params op) of
                  None \<Rightarrow> Inl (raw_usage (''{}: path needs {{{wire}}} but the operation declares no such parameter'') [om_op_id op, wire])
                | Some p \<Rightarrow>
                    (case resolve p of
                       Inl e \<Rightarrow> Inl e
                     | Inr v \<Rightarrow> render_loop resolve op (out @ take at rest @ encode_param p v) (drop (Suc (at + n)) rest)))))"
  by pat_completeness auto
termination by (relation "measure (\<lambda>(_, _, _, rest). length rest)") (auto dest: find_c_take)

text \<open>The final assertion: \<open>None\<close> is a panic.\<close>

definition render_path :: "raw_lib \<Rightarrow> op_meta \<Rightarrow> matches \<Rightarrow> repo_slug option \<Rightarrow> (error, str) res option" where
  "render_path lib op m ctx =
     (case render_loop (\<lambda>p. resolve_path_param lib op p m ctx) op [] (om_path op) of
        Inl e \<Rightarrow> Some (Inl e)
      | Inr out \<Rightarrow> if List.member out CHR ''{'' then None else Some (Inr out))"

subsection \<open>The request\<close>

record planned_request =
  pr_op :: op_meta
  pr_path :: str
  pr_query :: "(str \<times> str) list"
  pr_body :: "json option"
  pr_form :: "(str \<times> str) list"
  pr_uploads :: "(str \<times> str) list"
  pr_paginate :: bool
  pr_limit :: "nat option"
  pr_dry_run :: bool

fun body_overrides :: "raw_lib \<Rightarrow> matches \<Rightarrow> body_field list \<Rightarrow> (error, (str \<times> json) list) res" where
  "body_overrides lib m [] = Inr []"
| "body_overrides lib m (f # fs) =
     res_bind (matched_json lib m (body_id (bf_flag f)) (bf_ty f) (bf_flag f)) (\<lambda>v.
       res_map (\<lambda>rest. (case v of Some v \<Rightarrow> [(bf_pointer f, v)] | None \<Rightarrow> []) @ rest) (body_overrides lib m fs))"

definition build_body :: "raw_lib \<Rightarrow> op_meta \<Rightarrow> matches \<Rightarrow> (error, json option) res" where
  "build_body lib op m =
     res_bind (body_overrides lib m (op_fields op)) (\<lambda>overrides.
       let body_file = matched_one val_str m ID_BODY_FILE;
           required = (case om_body op of Some b \<Rightarrow> bm_required b | None \<Rightarrow> False) in
       if body_file = None \<and> overrides = [] then Inr (if required then Some (JObj []) else None)
       else res_bind (case body_file of Some p \<Rightarrow> load lib p | None \<Rightarrow> Inr (JObj [])) (\<lambda>base.
         res_map Some (merge_body base overrides)))"

definition bind_query :: "op_meta \<Rightarrow> matches \<Rightarrow> (str \<times> str) list" where
  "bind_query op m =
     concat (map (\<lambda>p. map (\<lambda>v. (pm_wire p, v)) (matched_strings m (query_id (pm_flag p)) (pm_ty p))) (query_params op))"

definition bind_uploads :: "op_meta \<Rightarrow> matches \<Rightarrow> (str \<times> str) list" where
  "bind_uploads op m =
     List.map_filter (\<lambda>p. map_option (\<lambda>v. (pm_wire p, v)) (matched_one val_str m (form_id (pm_flag p))))
       (filter (\<lambda>p. pm_ty p = TyFile) (form_params op))"

definition bind_form :: "op_meta \<Rightarrow> matches \<Rightarrow> (str \<times> str) list" where
  "bind_form op m =
     concat (map (\<lambda>p. map (\<lambda>v. (pm_wire p, v)) (matched_strings m (form_id (pm_flag p)) (pm_ty p)))
       (filter (\<lambda>p. pm_ty p \<noteq> TyFile) (form_params op)))"

definition or_false :: "bool option \<Rightarrow> bool" where
  "or_false b = (case b of Some x \<Rightarrow> x | None \<Rightarrow> False)"

definition bind_op :: "raw_lib \<Rightarrow> op_meta \<Rightarrow> matches \<Rightarrow> repo_slug option \<Rightarrow> (error, planned_request) res option" where
  "bind_op lib op m ctx =
     map_option (\<lambda>r. res_bind r (\<lambda>path. res_bind (build_body lib op m) (\<lambda>body.
       Inr \<lparr>pr_op = op, pr_path = path, pr_query = bind_query op m, pr_body = body, pr_form = bind_form op m,
            pr_uploads = bind_uploads op m, pr_paginate = or_false (matched_one val_bool m ID_PAGINATE),
            pr_limit = matched_one val_u64 m ID_LIMIT, pr_dry_run = or_false (matched_one val_bool m ID_DRY_RUN)\<rparr>)))
       (render_path lib op m ctx)"

definition plan_method :: "planned_request \<Rightarrow> str" where
  "plan_method r = om_method (pr_op r)"

definition plan_content_type :: "planned_request \<Rightarrow> str option" where
  "plan_content_type r = map_option bm_content_type (om_body (pr_op r))"

definition path_and_query :: "planned_request \<Rightarrow> str" where
  "path_and_query r = (if pr_query r = [] then pr_path r else pr_path r @ ''?'' @ query_string (pr_query r))"

definition describe_plan :: "raw_lib \<Rightarrow> planned_request \<Rightarrow> str" where
  "describe_plan lib r =
     (plan_method r @ '' '' @ path_and_query r @ [CHR 0x0A])
     @ concat (map (\<lambda>(name, path). (''upload: '' @ name @ ''='' @ path @ [CHR 0x0A])) (pr_uploads r))
     @ concat (map (\<lambda>(name, v). (''form: '' @ name @ ''='' @ v @ [CHR 0x0A])) (pr_form r))
     @ (case pr_body r of
          None \<Rightarrow> []
        | Some b \<Rightarrow> (case plan_content_type r of Some ct \<Rightarrow> (''content-type: '' @ ct @ [CHR 0x0A]) | None \<Rightarrow> []) @ rw_pretty lib b @ [CHR 0x0A])"

subsection \<open>Lemmas: the path\<close>

lemma encode_param_set: "c \<in> set (encode_param p v) \<Longrightarrow> is_unreserved c \<or> c = CHR ''%'' \<or> pm_encoding p = EncPathLike \<and> c = CHR ''/''"
  by (cases "pm_encoding p") (auto simp: encode_param_def seg_def path_like_def dest!: set_encode_pct)

lemma not_unreserved_braces [simp]: "\<not> is_unreserved CHR ''{''" "\<not> is_unreserved CHR ''}''"
  by code_simp+

lemma encode_param_brace: "CHR ''{'' \<notin> set (encode_param p v)"
  using encode_param_set [of "CHR ''{''" p v] by auto

declare render_loop.simps [simp del]

lemma render_loop_None: "find_c CHR ''{'' rest = None \<Longrightarrow> render_loop resolve op out rest = Inr (out @ rest)"
  by (simp add: render_loop.simps [of resolve op out rest])

lemma render_loop_Some:
  assumes "render_loop resolve op out rest = Inr s" "find_c CHR ''{'' rest = Some at"
  obtains n p v where "find_c CHR ''}'' (drop at rest) = Some n"
    "find (\<lambda>p. pm_wire p = take (n - 1) (drop (Suc at) rest)) (path_params op) = Some p" "resolve p = Inr v"
    "render_loop resolve op (out @ take at rest @ encode_param p v) (drop (Suc (at + n)) rest) = Inr s"
  using assms unfolding render_loop.simps [of resolve op out rest]
  by (simp add: Let_def split: option.splits sum.splits)

lemma render_loop_no_brace:
  "render_loop resolve op out rest = Inr s \<Longrightarrow> CHR ''{'' \<notin> set out \<Longrightarrow> CHR ''{'' \<notin> set s"
proof (induction resolve op out rest arbitrary: s rule: render_loop.induct)
  case (1 resolve op out rest)
  show ?case
  proof (cases "find_c CHR ''{'' rest")
    case None
    then show ?thesis using 1(2,3) render_loop_None [OF None] by (auto simp: find_c_def split: if_splits)
  next
    case (Some at)
    obtain n p v where n: "find_c CHR ''}'' (drop at rest) = Some n"
      and p: "find (\<lambda>p. pm_wire p = take (n - 1) (drop (Suc at) rest)) (path_params op) = Some p"
      and v: "resolve p = Inr v"
      and r: "render_loop resolve op (out @ take at rest @ encode_param p v) (drop (Suc (at + n)) rest) = Inr s"
      using 1(2) Some by (rule render_loop_Some)
    have "CHR ''{'' \<notin> set (take at rest)" using find_c_take [OF Some] by simp
    then show ?thesis using 1(1) [OF Some n refl p v r] 1(3) encode_param_brace by simp
  qed
qed

lemma render_path_total: "render_path lib op m ctx \<noteq> None"
  using render_loop_no_brace [of "\<lambda>p. resolve_path_param lib op p m ctx" op "[]" "om_path op"]
  by (auto simp: render_path_def split: sum.splits)

text \<open>A character that no encoder emits is in the path as often as in the template.\<close>

lemma render_loop_count:
  assumes "\<not> is_unreserved c" "c \<noteq> CHR ''%''" "c \<noteq> CHR ''{''" "c \<noteq> CHR ''}''"
  shows "render_loop resolve op out rest = Inr s
    \<Longrightarrow> \<forall>p\<in>set (path_params op). c \<notin> set (pm_wire p) \<and> (c = CHR ''/'' \<longrightarrow> pm_encoding p = EncSegment)
    \<Longrightarrow> count_list s c = count_list out c + count_list rest c"
proof (induction resolve op out rest arbitrary: s rule: render_loop.induct)
  case (1 resolve op out rest)
  show ?case
  proof (cases "find_c CHR ''{'' rest")
    case None
    then show ?thesis using 1(2) render_loop_None [OF None] by auto
  next
    case (Some at)
    define wire where "wire n = take (n - 1) (drop (Suc at) rest)" for n
    obtain n p v where n: "find_c CHR ''}'' (drop at rest) = Some n"
      and p: "find (\<lambda>p. pm_wire p = take (n - 1) (drop (Suc at) rest)) (path_params op) = Some p"
      and v: "resolve p = Inr v"
      and r: "render_loop resolve op (out @ take at rest @ encode_param p v) (drop (Suc (at + n)) rest) = Inr s"
      using 1(2) Some by (rule render_loop_Some)
    have pin: "p \<in> set (path_params op)" "pm_wire p = take (n - 1) (drop (Suc at) rest)" using find_Some_set [OF p] by auto
    have e: "count_list (encode_param p v) c = 0"
      using encode_param_set [of c p v] assms(1,2) bspec [OF 1(3) pin(1)] by (auto simp: count_list_0_iff)
    note fa = find_c_take [OF Some] and fn = find_c_take [OF n]
    have n0: "0 < n" using fa fn by (cases n) (auto simp: hd_drop_conv_nth)
    have "drop at rest = CHR ''{'' # drop (Suc at) rest" using fa by (simp add: Cons_nth_drop_Suc [symmetric])
    moreover have "drop (Suc at) rest = take (n - 1) (drop (Suc at) rest) @ CHR ''}'' # drop (Suc (at + n)) rest"
    proof -
      have "n - 1 + Suc at = at + n" using n0 by simp
      then have d: "drop (n - 1) (drop (Suc at) rest) = drop (at + n) rest" by (metis drop_drop)
      have "rest ! (at + n) = CHR ''}''" "at + n < length rest" using fn by auto
      then have "drop (at + n) rest = CHR ''}'' # drop (Suc (at + n)) rest" by (metis Cons_nth_drop_Suc)
      then have "drop (n - 1) (drop (Suc at) rest) = CHR ''}'' # drop (Suc (at + n)) rest" using d by metis
      then show ?thesis by (metis append_take_drop_id)
    qed
    ultimately have "rest = take at rest @ CHR ''{'' # pm_wire p @ CHR ''}'' # drop (Suc (at + n)) rest"
      using append_take_drop_id [of at rest] pin by metis
    then have "count_list rest c
        = count_list (take at rest @ CHR ''{'' # pm_wire p @ CHR ''}'' # drop (Suc (at + n)) rest) c" by (rule arg_cong)
    also have "\<dots> = count_list (take at rest) c + count_list (pm_wire p) c + count_list (drop (Suc (at + n)) rest) c"
      using assms(3,4) by simp
    finally have "count_list rest c = count_list (take at rest) c + count_list (pm_wire p) c + count_list (drop (Suc (at + n)) rest) c" .
    moreover have "count_list (pm_wire p) c = 0" using bspec [OF 1(3) pin(1)] by (simp add: count_list_0_iff)
    ultimately show ?thesis using 1(1) [OF Some n refl p v r 1(3)] e by simp
  qed
qed

subsection \<open>Lemmas: the body\<close>

lemma map_of_obj_insert: "map_of (obj_insert k v m) j = (if j = k then Some v else map_of m j)"
  by (induction k v m rule: obj_insert.induct) auto

fun json_at :: "json \<Rightarrow> str list \<Rightarrow> json option" where
  "json_at v [] = Some v"
| "json_at v (t # ts) = Option.bind (json_get v t) (\<lambda>c. json_at c ts)"

lemma json_at_empty: "ts \<noteq> [] \<Longrightarrow> json_at (JObj []) ts = None"
  by (cases ts) auto

lemma set_tokens_get: "set_tokens ptr sf cur ts v = Inr r \<Longrightarrow> json_at r ts = Some v"
proof (induction ts arbitrary: sf cur r)
  case (Cons t ts)
  then obtain ob where "cur = JObj ob" by (cases cur) (auto simp: Let_def)
  then show ?case using Cons by (cases ts) (auto simp: Let_def map_of_obj_insert res_map_eq_Inr)
qed simp

lemma set_tokens_other:
  "set_tokens ptr sf cur ts v = Inr r \<Longrightarrow> \<not> prefix ts us \<Longrightarrow> \<not> prefix us ts \<Longrightarrow> json_at r us = json_at cur us"
proof (induction ts arbitrary: sf cur r us)
  case (Cons t ts)
  then obtain ob where ob: "cur = JObj ob" by (cases cur) (auto simp: Let_def)
  obtain u us' where us: "us = u # us'" using Cons(4) by (cases us) auto
  show ?case
  proof (cases "ts = []")
    case True
    then show ?thesis using Cons(2,3) ob us by (auto simp: map_of_obj_insert)
  next
    case False
    define child where "child = (case map_of ob t of Some c \<Rightarrow> c | None \<Rightarrow> JObj [])"
    obtain c where c: "set_tokens ptr (sf @ ''/'' @ t) child ts v = Inr c" and r: "r = JObj (obj_insert t c ob)"
      using Cons(2) ob False by (auto simp: Let_def child_def res_map_eq_Inr)
    show ?thesis
    proof (cases "u = t")
      case True
      then have inc: "\<not> prefix ts us'" "\<not> prefix us' ts" using Cons(3,4) us by auto
      have "json_at c us' = json_at child us'" by (rule Cons(1) [OF c inc])
      moreover have "us' \<noteq> []" using inc by auto
      ultimately show ?thesis using True us ob r
        by (auto simp: child_def map_of_obj_insert json_at_empty split: option.splits)
    qed (simp add: us ob r map_of_obj_insert)
  qed
qed simp

lemma set_pointer_get:
  "set_pointer root p v = Inr r \<Longrightarrow> \<exists>ts. pointer_tokens p = Some ts \<and> json_at r ts = Some v
     \<and> (\<forall>us. \<not> prefix ts us \<and> \<not> prefix us ts \<longrightarrow> json_at r us = json_at root us)"
  by (auto simp: set_pointer_def split: option.splits dest: set_tokens_get set_tokens_other)

text \<open>Pointers of which none lies inside another.\<close>

definition apart :: "str \<Rightarrow> str \<Rightarrow> bool" where
  "apart p q \<longleftrightarrow> (case (pointer_tokens p, pointer_tokens q) of
     (Some ts, Some us) \<Rightarrow> \<not> prefix ts us \<and> \<not> prefix us ts | _ \<Rightarrow> False)"

definition lies_at :: "json \<Rightarrow> str \<Rightarrow> json option" where
  "lies_at v p = Option.bind (pointer_tokens p) (json_at v)"

lemma apply_overrides_other:
  "apply_overrides base ov = Inr r \<Longrightarrow> \<forall>(p, _)\<in>set ov. apart p q \<Longrightarrow> lies_at r q = lies_at base q"
proof (induction ov arbitrary: base)
  case (Cons x ov)
  obtain p v where x: "x = (p, v)" by (cases x)
  obtain b where b: "set_pointer base p v = Inr b" "apply_overrides b ov = Inr r"
    using Cons(2) by (auto simp: x res_bind_eq_Inr)
  have "lies_at b q = lies_at base q"
    using set_pointer_get [OF b(1)] Cons(3) by (auto simp: x lies_at_def apart_def split: option.splits)
  then show ?case using Cons(1) [OF b(2)] Cons(3) by simp
qed simp

lemma apply_overrides_get:
  assumes "apply_overrides base ov = Inr r" "sorted_wrt apart (map fst ov)" "(p, v) \<in> set ov"
  shows "lies_at r p = Some v"
  using assms
proof (induction ov arbitrary: base)
  case (Cons x ov)
  obtain p' v' where x: "x = (p', v')" by (cases x)
  obtain b where b: "set_pointer base p' v' = Inr b" "apply_overrides b ov = Inr r"
    using Cons(2) by (auto simp: x res_bind_eq_Inr)
  show ?case
  proof (cases "(p, v) = x")
    case True
    have sym: "apart q p'" if "apart p' q" for q using that by (auto simp: apart_def split: option.splits)
    have "lies_at r p' = lies_at b p'" using Cons(3) sym by (intro apply_overrides_other [OF b(2)]) (auto simp: x)
    then show ?thesis using set_pointer_get [OF b(1)] True by (auto simp: x lies_at_def)
  next
    case False
    then show ?thesis using Cons(1) [OF b(2)] Cons(3,4) by auto
  qed
qed simp

lemma merge_body_effect:
  assumes "merge_body base ov = Inr r" "sorted_wrt apart (map fst ov)"
  shows "(\<forall>(p, v)\<in>set ov. lies_at r p = Some v) \<and> (\<forall>q. (\<forall>(p, _)\<in>set ov. apart p q) \<longrightarrow> lies_at r q = lies_at base q)"
proof (cases "ov = []")
  case True
  then show ?thesis using assms(1) by (simp add: merge_body_def)
next
  case False
  then have a: "apply_overrides base ov = Inr r" using assms(1) by (cases base) (simp_all add: merge_body_def)
  show ?thesis using apply_overrides_get [OF a assms(2)] apply_overrides_other [OF a] by fast
qed

text \<open>What the parser of an argument lets through is what is read back.\<close>

fun parsed_by :: "value_parser \<Rightarrow> arg_value \<Rightarrow> bool" where
  "parsed_by ParseString (VStr _) = True"
| "parsed_by ParseBool (VBool _) = True"
| "parsed_by ParseI64 (VInt _) = True"
| "parsed_by ParseF64 (VFloat _) = True"
| "parsed_by (ParseU64From lo) (VU64 n) = (lo \<le> n)"
| "parsed_by _ _ = False"

lemma value_arg_parser:
  "ca_parser (value_arg i l ty r) = (case ty of TyBool \<Rightarrow> ParseBool | TyInt \<Rightarrow> ParseI64 | TyFloat \<Rightarrow> ParseF64 | _ \<Rightarrow> ParseString)"
  by (cases ty) (simp_all add: value_arg_def arg_new_def)

lemma matched_many_all:
  "list_all (\<lambda>v. get v \<noteq> None) (m i) \<Longrightarrow> length (matched_many get m i) = length (m i)"
proof -
  have "list_all (\<lambda>v. get v \<noteq> None) xs \<Longrightarrow> length (List.map_filter get xs) = length xs" for xs
    by (induction xs) (auto simp: List.map_filter_simps)
  moreover have "list_all (\<lambda>v. get v \<noteq> None) xs \<Longrightarrow> \<not> list_ex (\<lambda>v. case get v of None \<Rightarrow> True | Some _ \<Rightarrow> False) xs" for xs
    by (induction xs) auto
  ultimately show "list_all (\<lambda>v. get v \<noteq> None) (m i) \<Longrightarrow> ?thesis" by (simp add: matched_many_def)
qed

lemma matched_strings_all:
  assumes "list_all (parsed_by (ca_parser (value_arg i l ty r))) (m i)"
  shows "length (matched_strings m i ty) = length (m i)"
proof -
  have "list_all (\<lambda>v. val_bool v \<noteq> None) (m i)" if "list_all (parsed_by ParseBool) (m i)"
    using that by (auto simp: list_all_iff elim!: parsed_by.elims)
  moreover have "list_all (\<lambda>v. val_int v \<noteq> None) (m i)" if "list_all (parsed_by ParseI64) (m i)"
    using that by (auto simp: list_all_iff elim!: parsed_by.elims)
  moreover have "list_all (\<lambda>v. val_float v \<noteq> None) (m i)" if "list_all (parsed_by ParseF64) (m i)"
    using that by (auto simp: list_all_iff elim!: parsed_by.elims)
  moreover have "list_all (\<lambda>v. val_str v \<noteq> None) (m i)" if "list_all (parsed_by ParseString) (m i)"
    using that by (auto simp: list_all_iff elim!: parsed_by.elims)
  ultimately show ?thesis using assms
    by (cases ty) (simp_all add: value_arg_parser matched_strings_def matched_many_all)
qed

subsection \<open>Properties\<close>


definition sample_raw_lib :: raw_lib where
  "sample_raw_lib = \<lparr>rw_parse = \<lambda>s. Inl (''expected value'', 1, 1), rw_pretty = \<lambda>v. [], rw_float = JNum, rw_stdin = Inr [], rw_read = \<lambda>p. Inl ''not found'', rw_upper = id\<rparr>"

definition sample_matches :: matches where
  "sample_matches i = (if i = ''pos:owner'' then [VStr ''a/{b}?''] else [])"


text \<open>
  C0. When the flags of a body are merged into the body file, every flag's value is at its place in the
  result, and whatever lies apart from all of them is what the file had there, or nothing, as it had.
\<close>
theorem body_flags_override:
  assumes "merge_body base overrides = Inr r" "sorted_wrt apart (map fst overrides)"
  shows "(\<forall>(p, v)\<in>set overrides. lies_at r p = Some v)
    \<and> (\<forall>q. (\<forall>(p, _)\<in>set overrides. apart p q) \<longrightarrow> lies_at r q = lies_at base q)"
  by (rule merge_body_effect [OF assms])

definition sample_base :: json where
  "sample_base = JObj [(''title'', JStr ''old''), (''base'', JStr ''main'')]"

definition sample_overrides :: "(str \<times> json) list" where
  "sample_overrides = [(''/title'', JStr ''new''), (''/repo/owner'', JStr ''o'')]"

definition sample_merged :: json where
  "sample_merged = JObj [(''title'', JStr ''new''), (''base'', JStr ''main''), (''repo'', JObj [(''owner'', JStr ''o'')])]"

lemma body_flags_override_witness:
  "merge_body sample_base sample_overrides = Inr sample_merged
   \<and> lies_at sample_merged ''/repo/owner'' = Some (JStr ''o'') \<and> lies_at sample_merged ''/base'' = lies_at sample_base ''/base''"
proof -
  have m: "merge_body sample_base sample_overrides = Inr sample_merged" by code_simp
  have s: "sorted_wrt apart (map fst sample_overrides)" by code_simp
  have a: "list_all (\<lambda>(p, _). apart p ''/base'') sample_overrides" by code_simp
  then show ?thesis using m body_flags_override [OF m s] by (auto simp: list_all_iff sample_overrides_def)
qed

text \<open>
  C0. No value given for a query or form parameter is lost between the parser and the request: what the
  argument's own parser accepted is read back, one string for each.
\<close>
theorem no_value_lost:
  assumes "list_all (parsed_by (ca_parser (value_arg i l ty r))) (m i)"
  shows "length (matched_strings m i ty) = length (m i)"
  using assms by (rule matched_strings_all [of i l ty r m])

lemma no_value_lost_witness:
  "length (matched_strings (\<lambda>i. [VInt 50, VInt (- 3)]) ''query:limit'' TyInt) = length [VInt 50, VInt (- 3)]"
  by (rule no_value_lost [of "''query:limit''" "''limit''" TyInt False "\<lambda>i. [VInt 50, VInt (- 3)]"]) (simp add: value_arg_parser)

text \<open>A flag renamed to avoid a collision is still named by its old name in the messages.\<close>

lemma renamed_flag_misnamed:
  "fst (unique_long [''dry-run''] ''dry-run'' ''param'') = ''param-dry-run''" by code_simp

end
