(* ===== verification/Raw_Search.thy ===== *)
theory Raw_Search
  imports Raw_Build
begin

text \<open>
  \<open>crates/fjo-raw/src/search.rs\<close>: ranking the operations against words.  Scores are \<open>u32\<close> values; they are
  natural numbers here, a score being at most 36 for each word.
\<close>

subsection \<open>Scores\<close>

definition DEFAULT_LIMIT :: nat where "DEFAULT_LIMIT = 15"

record hit =
  hit_op :: op_meta
  hit_score :: nat

definition normalize_char :: "str \<Rightarrow> str" where
  "normalize_char c = (if List.member [''-'', ''_'', ''/'', ''{'', ''}'', ''.''] c then '' '' else to_ascii_lowercase c)"

definition normalize_words :: "str \<Rightarrow> str" where
  "normalize_words s = concat (map normalize_char (chars s))"

definition haystacks :: "op_meta \<Rightarrow> (str \<times> nat) list" where
  "haystacks op = [(normalize_words (om_command op), 6), (normalize_words (om_group op), 3), (normalize_words (om_summary op), 3),
     (normalize_words (om_path op), 2)]"

text \<open>\<open>chars.any\<close> consumes up to the character it finds.\<close>

fun subsequence_loop :: "str list \<Rightarrow> str list \<Rightarrow> bool" where
  "subsequence_loop hay [] = True"
| "subsequence_loop hay (n # ns) =
     (case dropWhile (\<lambda>h. h \<noteq> n) hay of [] \<Rightarrow> False | _ # rest \<Rightarrow> subsequence_loop rest ns)"

definition is_subsequence :: "str \<Rightarrow> str \<Rightarrow> bool" where
  "is_subsequence hay needle = subsequence_loop (chars hay) (chars needle)"

definition word_score :: "str \<Rightarrow> str \<Rightarrow> nat \<Rightarrow> nat" where
  "word_score hay needle weight =
     (case str_find needle hay of
        Some at \<Rightarrow> if at = 0 then weight * 6 else if hay ! (at - 1) = CHR '' '' then weight * 5 else weight * 4
      | None \<Rightarrow> if is_subsequence hay needle then weight else 0)"

definition best_score :: "op_meta \<Rightarrow> str \<Rightarrow> nat" where
  "best_score op needle = foldl max 0 (map (\<lambda>(hay, w). word_score hay needle w) (haystacks op))"

text \<open>The loop over the words, left at the first that matches nothing.\<close>

fun total_score :: "op_meta \<Rightarrow> nat \<Rightarrow> str list \<Rightarrow> nat option" where
  "total_score op total_so_far [] = Some total_so_far"
| "total_score op total_so_far (n # ns) =
     (let best = best_score op n in if best = 0 then None else total_score op (total_so_far + best) ns)"

definition search_needles :: "str list \<Rightarrow> str list" where
  "search_needles terms = filter (\<lambda>t. trim t \<noteq> []) (map normalize_words terms)"

text \<open>A stable sort by descending score, then by group and command.\<close>

definition before_hit :: "hit \<Rightarrow> hit \<Rightarrow> bool" where
  "before_hit a b \<longleftrightarrow> hit_score b < hit_score a
     \<or> hit_score b = hit_score a \<and> (om_group (hit_op a), om_command (hit_op a)) \<le> (om_group (hit_op b), om_command (hit_op b))"

fun insert_hit :: "hit \<Rightarrow> hit list \<Rightarrow> hit list" where
  "insert_hit x [] = [x]"
| "insert_hit x (y # ys) = (if before_hit x y then x # y # ys else y # insert_hit x ys)"

definition sort_hits :: "hit list \<Rightarrow> hit list" where
  "sort_hits hs = foldr insert_hit hs []"

definition hit_of :: "op_meta \<Rightarrow> nat \<Rightarrow> hit" where
  "hit_of op s = \<lparr>hit_op = op, hit_score = s\<rparr>"

definition search_ops :: "op_meta list \<Rightarrow> str list \<Rightarrow> nat \<Rightarrow> hit list" where
  "search_ops ops terms limit =
     (let needles = search_needles terms in
      if needles = [] then []
      else take limit (sort_hits (List.map_filter
        (\<lambda>op. map_option (hit_of op) (total_score op 0 needles)) ops)))"

subsection \<open>Printing\<close>

definition required_body_hint :: "body_field list \<Rightarrow> str" where
  "required_body_hint fs = concat (map (\<lambda>f. ('' --'' @ bf_flag f @ '' '' @ [CHR 0xE2, CHR 0x80, CHR 0xA6])) (filter bf_required fs))"

definition invocation :: "(str \<Rightarrow> str) \<Rightarrow> op_meta \<Rightarrow> str" where
  "invocation up op =
     (''fjo raw '' @ om_group op @ '' '' @ om_command op)
     @ concat (map (\<lambda>p. ('' <'' @ value_name up (pm_wire p) @ ''>'')) (path_params op))
     @ (case om_body op of Some b \<Rightarrow> if bm_required b then required_body_hint (bm_fields b) else [] | None \<Rightarrow> [])"

text \<open>\<open>quote\<close> is the Debug form of a string.\<close>

definition render_hits :: "(str \<Rightarrow> str) \<Rightarrow> (str \<Rightarrow> str) \<Rightarrow> hit list \<Rightarrow> str list \<Rightarrow> str" where
  "render_hits up quote hits terms =
     (if hits = []
      then (''no operation matches '' @ quote (join '' '' terms) @ [CHR 0x0A, CHR 0x0A] @ ''try fewer or different words, or `fjo raw --help` to browse the groups'' @ [CHR 0x0A])
      else concat (map (\<lambda>h. invocation up (hit_op h) @ ([CHR 0x0A] @ ''    '' @ om_method (hit_op h) @ '' '' @ om_path (hit_op h))
        @ (if om_summary (hit_op h) \<noteq> [] then (''  --  '' @ om_summary (hit_op h)) else []) @ [CHR 0x0A]) hits))"

subsection \<open>Lemmas\<close>

lemma insert_hit_mset: "mset (insert_hit x ys) = add_mset x (mset ys)"
  by (induction ys) auto

lemma sort_hits_mset: "mset (sort_hits hs) = mset hs"
  unfolding sort_hits_def by (induction hs) (auto simp: insert_hit_mset)

lemma before_hit_trans: "before_hit a b \<Longrightarrow> before_hit b c \<Longrightarrow> before_hit a c"
  by (auto simp: before_hit_def)

lemma before_hit_total: "before_hit a b \<or> before_hit b a"
  by (auto simp: before_hit_def)

lemma insert_hit_set: "set (insert_hit x ys) = insert x (set ys)"
  by (induction ys) auto

lemma insert_hit_sorted: "sorted_wrt before_hit ys \<Longrightarrow> sorted_wrt before_hit (insert_hit x ys)"
proof (induction ys)
  case (Cons y ys)
  show ?case
  proof (cases "before_hit x y")
    case True
    then show ?thesis using Cons(2) before_hit_trans by auto
  next
    case False
    then show ?thesis using Cons before_hit_total [of x y] by (auto simp: insert_hit_set)
  qed
qed simp

lemma sort_hits_sorted: "sorted_wrt before_hit (sort_hits hs)"
  unfolding sort_hits_def by (induction hs) (auto simp: insert_hit_sorted)

lemma total_score_iff: "(\<exists>s. total_score op t ns = Some s) \<longleftrightarrow> list_all (\<lambda>n. best_score op n \<noteq> 0) ns"
  by (induction ns arbitrary: t) (auto simp: Let_def)

lemma subsequence_loop_subseq: "subsequence_loop hay needle \<longleftrightarrow> subseq needle hay"
proof (induction needle arbitrary: hay)
  case (Cons n ns)
  show ?case
  proof (cases "dropWhile (\<lambda>h. h \<noteq> n) hay")
    case Nil
    then have "n \<notin> set hay" by (auto simp: dropWhile_eq_Nil_conv)
    moreover have "\<not> subseq (n # ns) hay" using \<open>n \<notin> set hay\<close> subseq_order.order_trans list_emb_set [of "(=)" "n # ns" hay n] by auto
    ultimately show ?thesis unfolding subsequence_loop.simps Nil by simp
  next
    case d: (Cons h rest)
    have h: "h = n" using hd_dropWhile [of "\<lambda>h. h \<noteq> n" hay] d by simp
    have hay: "hay = takeWhile (\<lambda>h. h \<noteq> n) hay @ n # rest" using d h by (metis takeWhile_dropWhile_id)
    have "subseq (n # ns) (xs @ n # rest) \<longleftrightarrow> subseq ns rest" if "n \<notin> set xs" for xs
      using that by (induction xs) auto
    moreover have "n \<notin> set (takeWhile (\<lambda>h. h \<noteq> n) hay)" by (auto dest: set_takeWhileD)
    ultimately have "subseq (n # ns) hay \<longleftrightarrow> subseq ns rest" using hay by metis
    then show ?thesis using Cons d by simp
  qed
qed simp

lemma search_ops_parts:
  "search_needles terms \<noteq> [] \<Longrightarrow> \<exists>hs. search_ops ops terms limit = take limit (sort_hits hs)
     \<and> set hs = {hit_of op s |op s. op \<in> set ops \<and> total_score op 0 (search_needles terms) = Some s}"
  by (rule exI [of _ "List.map_filter (\<lambda>op. map_option (hit_of op) (total_score op 0 (search_needles terms))) ops"])
    (force simp: search_ops_def Let_def List.map_filter_def image_iff)

subsection \<open>Properties\<close>

text \<open>
  C0. A search prints at most its limit of operations, best first; each of them has every word
  in its command, group, summary or path, at least as a subsequence; and an operation that has every
  word is left out only for as many others that rank no lower.
\<close>
theorem search_finds_best:
  assumes "search_needles terms \<noteq> []"
  shows "length (search_ops ops terms limit) \<le> limit \<and> sorted_wrt before_hit (search_ops ops terms limit)
    \<and> (\<forall>h\<in>set (search_ops ops terms limit). hit_op h \<in> set ops \<and> list_all (\<lambda>n. best_score (hit_op h) n \<noteq> 0) (search_needles terms))
    \<and> (\<forall>op\<in>set ops. list_all (\<lambda>n. best_score op n \<noteq> 0) (search_needles terms) \<longrightarrow>
         op \<in> hit_op ` set (search_ops ops terms limit)
         \<or> length (search_ops ops terms limit) = limit
           \<and> (\<exists>s. \<forall>h\<in>set (search_ops ops terms limit). before_hit h (hit_of op s)))"
proof -
  obtain hs where r: "search_ops ops terms limit = take limit (sort_hits hs)"
    and hs: "set hs = {hit_of op s |op s. op \<in> set ops \<and> total_score op 0 (search_needles terms) = Some s}"
    using search_ops_parts [OF assms] by blast
  have ss: "set (sort_hits hs) = set hs" by (metis sort_hits_mset set_mset_mset)
  have in_hs: "hit_op h \<in> set ops \<and> list_all (\<lambda>n. best_score (hit_op h) n \<noteq> 0) (search_needles terms)" if "h \<in> set hs" for h
    using that hs total_score_iff [of "hit_op h" 0 "search_needles terms"] by (auto simp: hit_of_def)
  have srt: "sorted_wrt before_hit (take limit (sort_hits hs) @ drop limit (sort_hits hs))" using sort_hits_sorted by simp
  have left: "op \<in> hit_op ` set (take limit (sort_hits hs))
      \<or> length (take limit (sort_hits hs)) = limit \<and> (\<exists>s. \<forall>h\<in>set (take limit (sort_hits hs)). before_hit h (hit_of op s))"
    if op: "op \<in> set ops \<and> list_all (\<lambda>n. best_score op n \<noteq> 0) (search_needles terms)" for op
  proof -
    obtain s where "total_score op 0 (search_needles terms) = Some s" using op total_score_iff by blast
    then have "hit_of op s \<in> set (take limit (sort_hits hs) @ drop limit (sort_hits hs))" using op hs ss by auto
    then consider "hit_of op s \<in> set (take limit (sort_hits hs))" | "hit_of op s \<in> set (drop limit (sort_hits hs))" by (auto simp only: set_append)
    then show ?thesis
    proof cases
      case 1
      then show ?thesis by (force simp: hit_of_def)
    next
      case 2
      then have "length (take limit (sort_hits hs)) = limit" by (cases "limit \<le> length (sort_hits hs)") auto
      moreover have "\<forall>h\<in>set (take limit (sort_hits hs)). before_hit h (hit_of op s)"
        using srt 2 unfolding sorted_wrt_append by blast
      ultimately show ?thesis by blast
    qed
  qed
  show ?thesis unfolding r using srt in_hs left ss by (auto simp: sorted_wrt_append dest: in_set_takeD)
qed

lemma search_finds_best_witness:
  "length (search_ops sample_ops [''list''] 2) \<le> 2 \<and> map (om_command \<circ> hit_op) (search_ops sample_ops [''list''] 2) = [''list'']"
proof -
  have n: "search_needles [''list''] \<noteq> []" by code_simp
  have "map (om_command \<circ> hit_op) (search_ops sample_ops [''list''] 2) = [''list'']" by code_simp
  then show ?thesis using search_finds_best [OF n, of sample_ops 2] by simp
qed

end
