(* ===== verification/Api_Fields.thy ===== *)
theory Api_Fields
  imports Raw_Bind
begin

text \<open>
  \<open>crates/fjo/src/api/fields.rs\<close>: the \<open>-f\<close> and \<open>-F\<close> arguments of \<open>fjo api\<close> and the object or the query
  they make.  Stdin is what is left to read of it (or the error reading it gives): it is threaded through,
  because only the first field that reads it gets its contents.
\<close>

subsection \<open>One field\<close>

datatype typing = RawField | TypedField

record api_field =
  af_key :: str
  af_value :: json

type_synonym stdin_state = "(str, str) res"

definition read_stdin :: "stdin_state \<Rightarrow> stdin_state" where
  "read_stdin s = (case s of Inr _ \<Rightarrow> Inr [] | Inl e \<Rightarrow> Inl e)"

definition read_field_file :: "raw_lib \<Rightarrow> str \<Rightarrow> str \<Rightarrow> stdin_state \<Rightarrow> (error, str) res \<times> stdin_state" where
  "read_field_file lib key path stdin =
     (if path = ''-''
      then ((case stdin of Inr s \<Rightarrow> Inr s | Inl e \<Rightarrow> Inl (raw_usage ''--field {key}=@-: could not read stdin: {e}'' [key, e])),
            read_stdin stdin)
      else ((case rw_read lib path of Inr s \<Rightarrow> Inr s | Inl e \<Rightarrow> Inl (raw_usage (''--field {key}=@'' @ ''{path}: {e}'') [key, path, e])), stdin))"

definition typed_value :: "raw_lib \<Rightarrow> str \<Rightarrow> str \<Rightarrow> stdin_state \<Rightarrow> (error, json) res \<times> stdin_state" where
  "typed_value lib key raw stdin =
     (case strip_prefix raw ''@'' of
        Some path \<Rightarrow> (let (r, stdin) = read_field_file lib key path stdin in (res_map JStr r, stdin))
      | None \<Rightarrow>
          (Inr (if raw = ''true'' then JBool True
                else if raw = ''false'' then JBool False
                else if raw = ''null'' then JNull
                else (case parse_i64 raw of Some n \<Rightarrow> JNum (show_int n) | None \<Rightarrow> JStr raw)), stdin))"

definition parse_field :: "raw_lib \<Rightarrow> typing \<Rightarrow> str \<Rightarrow> stdin_state \<Rightarrow> (error, api_field) res \<times> stdin_state" where
  "parse_field lib typing spec stdin =
     (case split_once_c spec CHR ''='' of
        None \<Rightarrow>
          (if ends_with spec ''[]'' then Inr \<lparr>af_key = spec, af_value = JArr []\<rparr>
           else Inl (raw_usage ''{spec:?} is not a field: write it as key=value (or key[] for an empty array)'' [spec]), stdin)
      | Some (key, raw) \<Rightarrow>
          if key = [] then (Inl (raw_usage ((''{spec:?} has no field name before the '' @ [CHR 0x27] @ ''='' @ [CHR 0x27])) [spec]), stdin)
          else (case typing of
                  RawField \<Rightarrow> (Inr \<lparr>af_key = key, af_value = JStr raw\<rparr>, stdin)
                | TypedField \<Rightarrow>
                    (let (r, stdin) = typed_value lib key raw stdin
                     in (res_map (\<lambda>v. \<lparr>af_key = key, af_value = v\<rparr>) r, stdin))))"

fun parse_fields :: "raw_lib \<Rightarrow> (typing \<times> str) list \<Rightarrow> stdin_state \<Rightarrow> (error, api_field list) res \<times> stdin_state" where
  "parse_fields lib [] stdin = (Inr [], stdin)"
| "parse_fields lib ((typing, spec) # specs) stdin =
     (case parse_field lib typing spec stdin of
        (Inl e, stdin) \<Rightarrow> (Inl e, stdin)
      | (Inr f, stdin) \<Rightarrow> (let (r, stdin) = parse_fields lib specs stdin in (res_map (\<lambda>fs. f # fs) r, stdin)))"

subsection \<open>Keys\<close>

datatype key_seg = SegKey str | SegPush

function (sequential) split_segs :: "str \<Rightarrow> str \<Rightarrow> (error, key_seg list) res" where
  "split_segs key [] = Inr []"
| "split_segs key (c # cs) =
     (case find_c CHR '']'' (c # cs) of
        None \<Rightarrow> Inl (raw_usage ((''{key:?} has an unclosed '' @ [CHR 0x27] @ ''['' @ [CHR 0x27])) [key])
      | Some close \<Rightarrow>
          if c \<noteq> CHR ''['' then Inl (raw_usage ((''{key:?}: expected '' @ [CHR 0x27] @ ''['' @ [CHR 0x27] @ '' after '' @ [CHR 0x27] @ '']'' @ [CHR 0x27])) [key])
          else (let inner = take (close - 1) cs in
            res_map (\<lambda>segs. (if inner = [] then SegPush else SegKey inner) # segs) (split_segs key (drop close cs))))"
  by pat_completeness auto
termination by (relation "measure (\<lambda>(_, rest). length rest)") auto

definition split_key :: "str \<Rightarrow> (error, str \<times> key_seg list) res" where
  "split_key key =
     (case find_c CHR ''['' key of
        None \<Rightarrow> Inr (key, [])
      | Some at \<Rightarrow>
          if take at key = [] then Inl (raw_usage ((''{key:?} has no field name before the '' @ [CHR 0x27] @ ''['' @ [CHR 0x27])) [key])
          else res_map (\<lambda>segs. (take at key, segs)) (split_segs key (drop at key)))"

subsection \<open>The body\<close>

definition field_conflict :: "str \<Rightarrow> str \<Rightarrow> error" where
  "field_conflict key name = raw_usage ''{key:?} conflicts with an earlier field that set {name:?} to a different shape'' [key, name]"

text \<open>\<open>insert\<close>, on the members of the object that it is always called on.\<close>

fun insert_field :: "(str \<times> json) list \<Rightarrow> str \<Rightarrow> key_seg list \<Rightarrow> json \<Rightarrow> str \<Rightarrow> (error, (str \<times> json) list) res" where
  "insert_field ob name [] v key = Inr (obj_insert name v ob)"
| "insert_field ob name [SegPush] v key =
     (case (case map_of ob name of Some x \<Rightarrow> x | None \<Rightarrow> JArr []) of
        JArr items \<Rightarrow> Inr (obj_insert name (JArr (items @ (case v of JArr others \<Rightarrow> others | _ \<Rightarrow> [v]))) ob)
      | _ \<Rightarrow> Inl (field_conflict key name))"
| "insert_field ob name (SegKey k # rest) v key =
     (case (case map_of ob name of Some x \<Rightarrow> x | None \<Rightarrow> JObj []) of
        JObj m \<Rightarrow> res_map (\<lambda>m. obj_insert name (JObj m) ob) (insert_field m k rest v key)
      | _ \<Rightarrow> Inl (field_conflict key name))"
| "insert_field ob name (SegPush # s # rest) v key =
     Inl (raw_usage ''{key:?} indexes into an array element, which --field cannot express; use --input <file> with the body you want'' [key])"

fun fold_fields :: "(str \<times> json) list \<Rightarrow> api_field list \<Rightarrow> (error, (str \<times> json) list) res" where
  "fold_fields ob [] = Inr ob"
| "fold_fields ob (f # fs) =
     res_bind (split_key (af_key f)) (\<lambda>(name, segs).
     res_bind (insert_field ob name segs (af_value f) (af_key f)) (\<lambda>ob. fold_fields ob fs))"

definition to_body :: "api_field list \<Rightarrow> (error, json) res" where
  "to_body fs = res_map JObj (fold_fields [] fs)"

subsection \<open>The query\<close>

text \<open>\<open>show\<close> prints a JSON value.\<close>

definition scalar_text :: "(json \<Rightarrow> str) \<Rightarrow> json \<Rightarrow> str" where
  "scalar_text show v = (case v of JStr s \<Rightarrow> s | JNull \<Rightarrow> [] | _ \<Rightarrow> show v)"

definition to_query :: "(json \<Rightarrow> str) \<Rightarrow> api_field list \<Rightarrow> (str \<times> str) list" where
  "to_query show fs =
     concat (map (\<lambda>f. case af_value f of
         JArr [] \<Rightarrow> [(af_key f, [])]
       | JArr items \<Rightarrow> map (\<lambda>v. (af_key f, scalar_text show v)) items
       | v \<Rightarrow> [(af_key f, scalar_text show v)]) fs)"

subsection \<open>Lemmas: keys\<close>

fun written_seg :: "key_seg \<Rightarrow> str" where
  "written_seg (SegKey k) = ''['' @ k @ '']''"
| "written_seg SegPush = ''[]''"

fun seg_ok :: "key_seg \<Rightarrow> bool" where
  "seg_ok (SegKey k) = (k \<noteq> [] \<and> CHR '']'' \<notin> set k)"
| "seg_ok SegPush = True"

definition written_key :: "str \<Rightarrow> key_seg list \<Rightarrow> str" where
  "written_key name segs = name @ concat (map written_seg segs)"

definition key_ok :: "str \<Rightarrow> key_seg list \<Rightarrow> bool" where
  "key_ok name segs \<longleftrightarrow> name \<noteq> [] \<and> CHR ''['' \<notin> set name \<and> list_all seg_ok segs"

lemma split_seg_step:
  "CHR '']'' \<notin> set inner \<Longrightarrow> split_segs key (CHR ''['' # inner @ CHR '']'' # rest)
     = res_map (\<lambda>segs. (if inner = [] then SegPush else SegKey inner) # segs) (split_segs key rest)"
  using find_c_append [of "CHR '']''" "CHR ''['' # inner" rest] by (simp add: Let_def)

lemma split_segs_written: "list_all seg_ok segs \<Longrightarrow> split_segs key (concat (map written_seg segs)) = Inr segs"
proof (induction segs)
  case (Cons s segs)
  then show ?case
    using split_seg_step [of "[]" key "concat (map written_seg segs)"] split_seg_step [of _ key "concat (map written_seg segs)"]
    by (cases s) (auto simp: res_map_def)
qed simp

lemma split_key_written: "key_ok name segs \<Longrightarrow> split_key (written_key name segs) = Inr (name, segs)"
proof -
  assume ok: "key_ok name segs"
  then have segs: "split_segs k (concat (map written_seg segs)) = Inr segs" for k
    by (intro split_segs_written) (simp add: key_ok_def)
  show ?thesis
  proof (cases segs)
    case Nil
    then show ?thesis using ok by (simp add: split_key_def written_key_def key_ok_def)
  next
    case (Cons s ss)
    obtain rest where r: "concat (map written_seg segs) = CHR ''['' # rest" by (cases s) (auto simp: Cons)
    then have f: "find_c CHR ''['' (written_key name segs) = Some (length name)"
      using ok by (simp add: written_key_def key_ok_def find_c_append)
    have "split_key (written_key name segs)
        = res_map (\<lambda>s. (name, s)) (split_segs (written_key name segs) (concat (map written_seg segs)))"
      using ok unfolding split_key_def f by (simp add: written_key_def key_ok_def)
    then show ?thesis using segs by (simp add: res_map_def)
  qed
qed

subsection \<open>Lemmas: the body\<close>

text \<open>A key of names only sets what a pointer with the same names sets.\<close>

lemma insert_field_pointer:
  "map_option JObj (res_ok (insert_field ob name (map SegKey ks) v key)) = res_ok (set_tokens ptr sf (JObj ob) (name # ks) v)"
proof (induction ks arbitrary: ob name sf)
  case (Cons k ks)
  define child where "child = (case map_of ob name of Some x \<Rightarrow> x | None \<Rightarrow> JObj [])"
  show ?case
  proof (cases child)
    case (JObj m)
    have i: "insert_field ob name (map SegKey (k # ks)) v key
        = res_map (\<lambda>m. obj_insert name (JObj m) ob) (insert_field m k (map SegKey ks) v key)"
      using JObj by (simp add: child_def)
    have s: "set_tokens ptr sf (JObj ob) (name # k # ks) v
        = res_map (\<lambda>c. JObj (obj_insert name c ob)) (set_tokens ptr (sf @ ''/'' @ name) (JObj m) (k # ks) v)"
      using JObj by (simp add: child_def Let_def del: set_tokens.simps(2)) (simp only: set_tokens.simps(2) [of ptr sf] Let_def json.case, simp add: child_def)
    show ?thesis unfolding i s using Cons [of m k "sf @ ''/'' @ name"]
      by (cases "insert_field m k (map SegKey ks) v key"; cases "set_tokens ptr (sf @ ''/'' @ name) (JObj m) (k # ks) v")
        (simp_all add: res_map_def res_ok_def)
  qed (simp_all add: child_def [symmetric] Let_def res_map_def res_ok_def)
qed (simp add: res_ok_def)

text \<open>The fields as pointers, set one after another.\<close>

fun set_all :: "json \<Rightarrow> (str list \<times> json) list \<Rightarrow> json option" where
  "set_all base [] = Some base"
| "set_all base ((ts, v) # rest) = Option.bind (res_ok (set_tokens [] [] base ts v)) (\<lambda>b. set_all b rest)"

definition named_field :: "str \<times> str list \<times> json \<Rightarrow> api_field" where
  "named_field = (\<lambda>(name, ks, v). \<lparr>af_key = written_key name (map SegKey ks), af_value = v\<rparr>)"

lemma fold_fields_pointers:
  "list_all (\<lambda>(name, ks, v). key_ok name (map SegKey ks)) xs \<Longrightarrow>
   map_option JObj (res_ok (fold_fields ob (map named_field xs))) = set_all (JObj ob) (map (\<lambda>(name, ks, v). (name # ks, v)) xs)"
proof (induction xs arbitrary: ob)
  case (Cons x xs)
  obtain name ks v where x: "x = (name, ks, v)" by (cases x)
  define key where "key = written_key name (map SegKey ks)"
  have f: "fold_fields ob (map named_field (x # xs))
      = res_bind (insert_field ob name (map SegKey ks) v key) (\<lambda>ob. fold_fields ob (map named_field xs))"
    using Cons(2) split_key_written [of name "map SegKey ks"] by (simp add: x named_field_def key_def res_bind_def)
  show ?case
  proof (cases "insert_field ob name (map SegKey ks) v key")
    case (Inl e)
    then have "res_ok (set_tokens [] [] (JObj ob) (name # ks) v) = None"
      using insert_field_pointer [of ob name ks v key "[]" "[]"] by simp
    then show ?thesis unfolding f by (simp add: x Inl res_bind_def del: set_tokens.simps)
  next
    case (Inr ob')
    then have "res_ok (set_tokens [] [] (JObj ob) (name # ks) v) = Some (JObj ob')"
      using insert_field_pointer [of ob name ks v key "[]" "[]"] by simp
    then show ?thesis unfolding f using Cons(1) [of ob'] Cons(2) by (simp add: x Inr res_bind_def del: set_tokens.simps)
  qed
qed simp

lemma obj_insert_twice: "obj_insert k w (obj_insert k v m) = obj_insert k w m"
  by (induction k v m rule: obj_insert.induct) auto

definition scalar_json :: "json \<Rightarrow> bool" where
  "scalar_json v = (case v of JArr _ \<Rightarrow> False | _ \<Rightarrow> True)"

definition push_field :: "str \<Rightarrow> json \<Rightarrow> api_field" where
  "push_field name v = \<lparr>af_key = written_key name [SegPush], af_value = v\<rparr>"

lemma fold_pushes:
  assumes "key_ok name []" "list_all scalar_json vs" "map_of ob name = Some (JArr items)"
  shows "fold_fields ob (map (push_field name) vs) = Inr (if vs = [] then ob else obj_insert name (JArr (items @ vs)) ob)"
  using assms
proof (induction vs arbitrary: ob items)
  case (Cons v vs)
  have k: "split_key (written_key name [SegPush]) = Inr (name, [SegPush])"
    by (rule split_key_written) (use Cons(2) in \<open>simp add: key_ok_def\<close>)
  have one: "(case v of JArr others \<Rightarrow> others | _ \<Rightarrow> [v]) = [v]" using Cons(3) by (cases v) (simp_all add: scalar_json_def)
  have "fold_fields ob (map (push_field name) (v # vs))
      = fold_fields (obj_insert name (JArr (items @ [v])) ob) (map (push_field name) vs)"
    by (simp add: push_field_def k res_bind_def Cons(4) one)
  also have "\<dots> = Inr (obj_insert name (JArr (items @ v # vs)) ob)"
    using Cons(1) [of "obj_insert name (JArr (items @ [v])) ob" "items @ [v]"] Cons(2,3) map_of_obj_insert
    by (simp add: obj_insert_twice)
  finally show ?case by simp
qed simp

lemma fold_pushes_new:
  assumes "key_ok name []" "list_all scalar_json vs" "vs \<noteq> []" "map_of ob name = None"
  shows "fold_fields ob (map (push_field name) vs) = Inr (obj_insert name (JArr vs) ob)"
proof -
  obtain v vs' where vs: "vs = v # vs'" using assms(3) by (cases vs) auto
  have k: "split_key (written_key name [SegPush]) = Inr (name, [SegPush])"
    by (rule split_key_written) (use assms(1) in \<open>simp add: key_ok_def\<close>)
  have one: "(case v of JArr others \<Rightarrow> others | _ \<Rightarrow> [v]) = [v]" using assms(2) by (cases v) (simp_all add: scalar_json_def vs)
  have "fold_fields ob (map (push_field name) vs) = fold_fields (obj_insert name (JArr [v]) ob) (map (push_field name) vs')"
    by (simp add: vs push_field_def k res_bind_def assms(4) one)
  also have "\<dots> = Inr (obj_insert name (JArr vs) ob)"
    using fold_pushes [OF assms(1), of vs' "obj_insert name (JArr [v]) ob" "[v]"] assms(2) map_of_obj_insert
    by (simp add: vs obj_insert_twice)
  finally show ?thesis .
qed

subsection \<open>Properties\<close>

text \<open>
  C0. Fields whose keys are names in brackets make the very object that setting the same names as pointers,
  one after another, makes out of the empty one, and are refused exactly when a pointer is.
\<close>
theorem fields_are_pointers:
  assumes "list_all (\<lambda>(name, ks, v). key_ok name (map SegKey ks)) xs"
  shows "res_ok (to_body (map named_field xs)) = set_all (JObj []) (map (\<lambda>(name, ks, v). (name # ks, v)) xs)"
  using fold_fields_pointers [OF assms, of "[]"]
  by (cases "fold_fields [] (map named_field xs)") (simp_all add: to_body_def res_map_def)

lemma fields_are_pointers_witness:
  "res_ok (to_body (map named_field [(''head'', [''repo''], JStr ''x''), (''title'', [], JStr ''t'')]))
   = Some (JObj [(''head'', JObj [(''repo'', JStr ''x'')]), (''title'', JStr ''t'')])"
proof -
  have h: "list_all (\<lambda>(name, ks, v). key_ok name (map SegKey ks)) [(''head'', [''repo''], JStr ''x''), (''title'', [], JStr ''t'')]"
    by (simp add: key_ok_def)
  have "set_all (JObj []) (map (\<lambda>(name, ks, v). (name # ks, v)) [(''head'', [''repo''], JStr ''x''), (''title'', [], JStr ''t'')])
    = Some (JObj [(''head'', JObj [(''repo'', JStr ''x'')]), (''title'', JStr ''t'')])" by code_simp
  then show ?thesis using fields_are_pointers [OF h] by simp
qed

text \<open>
  C0. The values of one repeated \<open>key[]\<close> are collected into one list, in the order they were written,
  behind what an earlier field put there.
\<close>
theorem pushes_collected:
  assumes "key_ok name []" "list_all scalar_json vs" "vs \<noteq> []"
    "map_of ob name = None \<and> items = [] \<or> map_of ob name = Some (JArr items)"
  shows "fold_fields ob (map (push_field name) vs) = Inr (obj_insert name (JArr (items @ vs)) ob)"
  using assms fold_pushes fold_pushes_new by auto

lemma pushes_collected_witness:
  "fold_fields [(''labels'', JArr [JNum ''1''])] (map (push_field ''labels'') [JStr ''a'', JStr ''b''])
   = Inr (obj_insert ''labels'' (JArr ([JNum ''1''] @ [JStr ''a'', JStr ''b''])) [(''labels'', JArr [JNum ''1''])])"
  by (rule pushes_collected) (simp_all add: key_ok_def scalar_json_def)

text \<open>Only the first field that reads stdin gets it: the second is sent an empty string.\<close>

lemma stdin_read_once:
  "fst (parse_fields sample_raw_lib [(TypedField, ''a=@-''), (TypedField, ''b=@-'')] (Inr ''x''))
   = Inr [\<lparr>af_key = ''a'', af_value = JStr ''x''\<rparr>, \<lparr>af_key = ''b'', af_value = JStr []\<rparr>]"
  by code_simp

end
