(* ===== verification/Output.thy ===== *)
theory Output
  imports Alias Project Template_Eval "HOL-Library.Countable"
begin

text \<open>
  \<open>crates/fjo/src/output/mod.rs\<close> (the chain from a document to what is printed, and where it goes), the
  printing half of \<open>jq.rs\<close> and \<open>pager.rs\<close>.  A compiled filter is a function from a document to its results
  (\<open>jaq\<close>), a template its nodes; what is printed is returned, with what was printed before an error.  The
  compact and pretty printers of JSON are parameters.
\<close>

subsection \<open>Where output goes\<close>

datatype dest = ToStdout | ToFile str

definition dest_for :: "str option \<Rightarrow> dest" where
  "dest_for out = (case out of Some p \<Rightarrow> ToFile p | None \<Rightarrow> ToStdout)"

definition is_text_mime :: "str \<Rightarrow> bool" where
  "is_text_mime mime =
     (let m = to_ascii_lowercase (trim (takeWhile (\<lambda>c. c \<noteq> CHR '';'') mime)) in
      starts_with m ''text/'' \<or> ends_with m ''+json'' \<or> ends_with m ''+xml''
      \<or> List.member [''application/json'', ''application/ld+json'', ''application/xml'', ''application/x-yaml''] m)"

definition guard_binary :: "str \<Rightarrow> term_info \<Rightarrow> dest \<Rightarrow> bool \<Rightarrow> (error, unit) res" where
  "guard_binary mime t d force =
     (if force \<or> (case d of ToFile _ \<Rightarrow> True | ToStdout \<Rightarrow> False) \<or> \<not> tm_tty t \<or> is_text_mime mime then Inr ()
      else Inl (error_new (Usage (Fmt ((''refusing to write {mime} to the terminal; it would likely corrupt your session.'' @ [CHR 0x0A] @ ''redirect it with `--output <file>`, pipe it somewhere, or pass --force to override'')) [mime]))))"

subsection \<open>The pipeline\<close>

record out_pipeline =
  pl_fields :: "str list option"
  pl_jq :: "(json \<Rightarrow> (error, json list) res) option"
  pl_template :: "node list option"

definition pipeline_new :: out_pipeline where
  "pipeline_new = \<lparr>pl_fields = None, pl_jq = None, pl_template = None\<rparr>"

definition with_fields :: "str list option \<Rightarrow> out_pipeline \<Rightarrow> out_pipeline" where
  "with_fields fs p = p\<lparr>pl_fields := fs\<rparr>"

definition with_jq :: "(json \<Rightarrow> (error, json list) res) option \<Rightarrow> out_pipeline \<Rightarrow> out_pipeline" where
  "with_jq f p = p\<lparr>pl_jq := f\<rparr>"

definition with_template :: "node list option \<Rightarrow> out_pipeline \<Rightarrow> out_pipeline" where
  "with_template t p = p\<lparr>pl_template := t\<rparr>"

definition is_explicit :: "out_pipeline \<Rightarrow> bool" where
  "is_explicit p \<longleftrightarrow>
     (case pl_fields p of Some _ \<Rightarrow> True | None \<Rightarrow> False) \<or> (case pl_jq p of Some _ \<Rightarrow> True | None \<Rightarrow> False)
     \<or> (case pl_template p of Some _ \<Rightarrow> True | None \<Rightarrow> False)"

definition transform :: "out_pipeline \<Rightarrow> json \<Rightarrow> (error, json list) res" where
  "transform p v =
     res_bind (case pl_fields p of Some fs \<Rightarrow> project v fs | None \<Rightarrow> Inr v) (\<lambda>projected.
       case pl_jq p of Some f \<Rightarrow> f projected | None \<Rightarrow> Inr [projected])"

definition write_results :: "(json \<Rightarrow> str) \<Rightarrow> json list \<Rightarrow> str" where
  "write_results show vs = concat (map (\<lambda>v. (case v of JStr s \<Rightarrow> s | _ \<Rightarrow> show v) @ [CHR 0x0A]) vs)"

definition write_json :: "(json \<Rightarrow> str) \<Rightarrow> (json \<Rightarrow> str) \<Rightarrow> term_info \<Rightarrow> json \<Rightarrow> str" where
  "write_json show pretty t v = (if tm_tty t then pretty v else show v) @ [CHR 0x0A]"

fun render_each :: "template_env \<Rightarrow> node list \<Rightarrow> json list \<Rightarrow> (str \<times> (error, unit) res) option" where
  "render_each env nodes [] = Some ([], Inr ())"
| "render_each env nodes (v # vs) =
     (case render env nodes v of
        None \<Rightarrow> None
      | Some (Inl e) \<Rightarrow> Some ([], Inl e)
      | Some (Inr s) \<Rightarrow> map_option (\<lambda>(out, r). (s @ out, r)) (render_each env nodes vs))"

text \<open>\<open>None\<close> is a panic of the template's table.\<close>

definition pipeline_render ::
  "template_env \<Rightarrow> (json \<Rightarrow> str) \<Rightarrow> out_pipeline \<Rightarrow> json \<Rightarrow> (str \<times> (error, unit) res) option" where
  "pipeline_render env pretty p v =
     (case transform p v of
        Inl e \<Rightarrow> Some ([], Inl e)
      | Inr results \<Rightarrow>
          (case pl_template p of
             Some nodes \<Rightarrow> render_each env nodes results
           | None \<Rightarrow>
               (case pl_jq p of
                  Some _ \<Rightarrow> Some (write_results (js_show (te_json env)) results, Inr ())
                | None \<Rightarrow> Some (concat (map (write_json (js_show (te_json env)) pretty (te_term env)) results), Inr ()))))"

text \<open>The caret under an error of a filter: the line that holds the column, counted in characters from one.\<close>

function line_holding :: "nat \<Rightarrow> nat \<Rightarrow> nat \<Rightarrow> str list \<Rightarrow> str list \<Rightarrow> str list \<times> nat" where
  "line_holding col line_start consumed line cs =
     (if cs = [] then (line, line_start)
      else (let candidate = takeWhile (\<lambda>c. c \<noteq> [CHR 0x0A]) cs;
                rest = dropWhile (\<lambda>c. c \<noteq> [CHR 0x0A]) cs;
                candidate = (case rest of [] \<Rightarrow> candidate | nl # _ \<Rightarrow> candidate @ [nl]);
                consumed' = consumed + length candidate
            in if col \<le> consumed' then (candidate, consumed)
               else line_holding col consumed consumed' candidate (tl rest)))"
  by pat_completeness auto
termination
proof (relation "measure (\<lambda>(_, _, _, _, cs). length cs)")
  fix cs x :: "str list"
  assume "cs \<noteq> []" and x: "x = dropWhile (\<lambda>c. c \<noteq> [CHR 0x0A]) cs"
  have "length x \<le> length cs" unfolding x by (rule length_dropWhile_le)
  then show "((col, consumed, consumed', candidate, tl x), col, line_start, consumed, line, cs)
      \<in> measure (\<lambda>(_, _, _, _, cs). length cs)" for col consumed consumed' candidate line_start line
    using \<open>cs \<noteq> []\<close> by (cases x) auto
qed auto

definition trim_line_end :: "str list \<Rightarrow> str list" where
  "trim_line_end cs = rev (dropWhile (\<lambda>c. c = [CHR 0x0A] \<or> c = [CHR 0x0D]) (rev cs))"

definition render_compile_error :: "(str \<Rightarrow> nat) \<Rightarrow> str \<Rightarrow> str \<Rightarrow> nat option \<Rightarrow> str" where
  "render_compile_error width expr message col =
     (case col of
        None \<Rightarrow> (''  '' @ expr @ [CHR 0x0A] @ ''  '' @ message)
      | Some col \<Rightarrow>
          (let (line, line_start) = line_holding col 0 0 (chars expr) (chars expr);
               line = trim_line_end line;
               in_line = col - line_start - 1;
               pad = width (concat (take in_line line))
           in (''  '' @ concat line @ [CHR 0x0A] @ ''  '' @ replicate pad CHR '' '' @ ''^ '' @ message)))"

subsection \<open>The pager\<close>

function (sequential) command_loop :: "str list \<Rightarrow> str \<Rightarrow> bool \<Rightarrow> str option \<Rightarrow> str list" where
  "command_loop [] cur started quote = (if started \<or> cur \<noteq> [] then [cur] else [])"
| "command_loop (c # cs) cur started (Some q) =
     (if c = q then command_loop cs cur started None
      else if q = SQ then command_loop cs (cur @ c) started (Some q)
      else if c = BSL then
        (case cs of d # cs' \<Rightarrow> command_loop cs' (cur @ d) started (Some q)
         | [] \<Rightarrow> command_loop [] (cur @ BSL) started (Some q))
      else command_loop cs (cur @ c) started (Some q))"
| "command_loop (c # cs) cur started None =
     (if c = SQ \<or> c = DQ then command_loop cs cur True (Some c)
      else if c = BSL then
        (case cs of d # cs' \<Rightarrow> command_loop cs' (cur @ d) True None
         | [] \<Rightarrow> command_loop [] (cur @ BSL) started None)
      else if is_whitespace c then
        (if started \<or> cur \<noteq> [] then cur # command_loop cs [] False None else command_loop cs cur started None)
      else command_loop cs (cur @ c) True None)"
  by pat_completeness auto
termination by (relation "measure (\<lambda>(cs, _). length cs)") auto

definition split_command :: "str \<Rightarrow> str list" where
  "split_command s = command_loop (chars s) [] False None"

definition resolve_pager :: "env \<Rightarrow> term_info \<Rightarrow> str option \<Rightarrow> str list option" where
  "resolve_pager env t config =
     (if \<not> tm_tty t then None
      else (case (case env ''FJO_PAGER'' of Some v \<Rightarrow> Some v
                  | None \<Rightarrow> (case env ''PAGER'' of Some v \<Rightarrow> Some v | None \<Rightarrow> config)) of
              None \<Rightarrow> None
            | Some raw \<Rightarrow>
                (let trimmed = trim raw in
                 if trimmed = [] \<or> trimmed = ''cat'' then None
                 else (let argv = split_command trimmed in
                   case argv of [] \<Rightarrow> None | p # _ \<Rightarrow> if p \<noteq> [] then Some argv else None))))"

text \<open>The program that is started, with the changes to its environment.\<close>

definition pager_start :: "env \<Rightarrow> term_info \<Rightarrow> str option \<Rightarrow> (str list \<times> (str \<times> str option) list) option" where
  "pager_start env t config =
     map_option (\<lambda>argv. (argv, [(''PAGER'', None)]
       @ (case env ''LESS'' of None \<Rightarrow> [(''LESS'', Some ''FRX'')] | Some _ \<Rightarrow> [])
       @ (case env ''LV'' of None \<Rightarrow> [(''LV'', Some ''-c'')] | Some _ \<Rightarrow> [])))
     (resolve_pager env t config)"

definition pager_finish :: "(io_error, unit) res \<Rightarrow> (io_error, unit) res" where
  "pager_finish r = (case r of Inl BrokenPipe \<Rightarrow> Inr () | _ \<Rightarrow> r)"

instance json :: countable
  by countable_datatype


subsection \<open>Lemmas: the pager's words\<close>

interpretation pager_words: word_splitter "\<lambda>cs w h. command_loop cs w h None" "\<lambda>ws. ws" "(#)"
proof unfold_locales
  have "is_whitespace '' ''" by (simp add: is_whitespace_def unicode_ws_def)
  then show "command_loop ('' '' # cs) w True None = w # command_loop cs [] False None" for cs w
    by (simp add: SQ_def DQ_def BSL_def)
  show "command_loop (DQ # DQ # cs) [] h None = command_loop cs [] True None" for cs h
    by (simp add: SQ_def DQ_def BSL_def)
  show "command_loop (BSL # c # cs) w h None = command_loop cs (w @ c) True None" for c cs w h
    by (simp add: SQ_def DQ_def BSL_def)
qed simp_all

lemma split_command_written: "list_all word_ok ws \<Longrightarrow> split_command (join '' '' (map written ws)) = ws"
  unfolding split_command_def by (rule pager_words.run_joined)

lemma render_each_plain:
  "transform p v = Inr vs \<Longrightarrow> pl_template p = None \<Longrightarrow> pl_jq p = None \<Longrightarrow> \<not> tm_tty (te_term env) \<Longrightarrow>
   pipeline_render env pretty p v = Some (concat (map (\<lambda>v. js_show (te_json env) v @ [CHR 0x0A]) vs), Inr ())"
proof -
  have "write_json sh pretty (te_term env) = (\<lambda>v. sh v @ [CHR 0x0A])" if "\<not> tm_tty (te_term env)" for sh
    using that by (simp add: write_json_def fun_eq_iff)
  then show "transform p v = Inr vs \<Longrightarrow> pl_template p = None \<Longrightarrow> pl_jq p = None \<Longrightarrow> \<not> tm_tty (te_term env) \<Longrightarrow> ?thesis"
    by (simp add: pipeline_render_def)
qed

subsection \<open>Properties\<close>


definition faithful_env :: template_env where
  "faithful_env = sample_env\<lparr>te_json := \<lparr>js_parse = (\<lambda>s. Some (from_nat (length s))), js_show = (\<lambda>v. replicate (to_nat v) CHR ''x''),
     js_lossy = id\<rparr>\<rparr>"


lemma splitters_agree_aux:
  "split_loop cs w h q = Inr ws \<Longrightarrow> BSL \<notin> set cs \<Longrightarrow> (w \<noteq> [] \<longrightarrow> h) \<Longrightarrow> (q \<noteq> None \<longrightarrow> h) \<Longrightarrow> q \<in> {None, Some SQ, Some DQ}
   \<Longrightarrow> command_loop cs w h q = ws"
proof (induction cs w h q arbitrary: ws rule: split_loop.induct)
  case (1 w h q)
  then show ?case by (auto split: if_splits)
next
  case (2 c cs w h q)
  then show ?case by (auto simp: SQ_def DQ_def BSL_def split: if_splits)
next
  case (3 c cs w h)
  then show ?case by (auto simp: res_map_eq_Inr split: if_splits)
qed

text \<open>
  C0. The splitter of the pager's command and the splitter of aliases read the same words from a text without
  backslashes; the pager's accepts every text, also one that ends inside a quote.
\<close>
theorem splitters_agree:
  assumes "alias_split s = Inr ws" "BSL \<notin> set (chars s)"
  shows "split_command s = ws"
  using assms splitters_agree_aux [of "chars s" "[]" False None ws] by (simp add: alias_split_def split_command_def)

lemma splitters_agree_witness: "split_command ''less -R'' = [''less'', ''-R'']"
  by (rule splitters_agree) code_simp+

text \<open>Every text that is written from words is read back by the pager's splitter too.\<close>

lemma pager_words_roundtrip: "list_all word_ok ws \<Longrightarrow> split_command (join '' '' (map written ws)) = ws"
  by (rule split_command_written)

lemma pager_needs_terminal: "resolve_pager env t config = Some argv \<Longrightarrow> tm_tty t \<and> argv \<noteq> [] \<and> hd argv \<noteq> []"
proof -
  have "(case argv of [] \<Rightarrow> None | p # _ \<Rightarrow> if p \<noteq> [] then Some argv else None) = Some a \<Longrightarrow> a \<noteq> [] \<and> hd a \<noteq> []" for a argv :: "str list"
    by (cases argv) (auto split: if_splits)
  then show "resolve_pager env t config = Some argv \<Longrightarrow> ?thesis"
    unfolding resolve_pager_def Let_def by (fastforce split: if_splits option.splits)
qed

text \<open>Nothing binary reaches a terminal unless it is forced.\<close>

lemma binary_never_shown: "guard_binary mime t ToStdout False = Inr () \<Longrightarrow> tm_tty t \<Longrightarrow> is_text_mime mime"
  by (auto simp: guard_binary_def split: if_splits)

end
