(* ===== verification/Api.thy ===== *)
theory Api
  imports Api_Fields Output Runtime
begin

text \<open>
  Requests made by hand: \<open>crates/fjo/src/api/mod.rs\<close> and \<open>paginate.rs\<close>, and the adapter of described requests
  in \<open>crates/fjo/src/raw.rs\<close>.  The repository, the branch and the parser of method names (the \<open>http\<close> crate)
  are parameters, as are the printer of JSON, the reading of files, and the place of each value on the
  command line (\<open>clap\<close>).
\<close>

subsection \<open>The command line\<close>

record api_args =
  aa_endpoint :: str
  aa_method :: "str option"
  aa_raw_field :: "str list"
  aa_field :: "str list"
  aa_input :: "str option"
  aa_header :: "str list"
  aa_include :: bool
  aa_slurp :: bool
  aa_silent :: bool
  aa_verbose :: bool

record api_lib =
  al_raw :: raw_lib
  al_method :: "str \<Rightarrow> http_method option"
  al_show :: "json \<Rightarrow> str"
  al_read_bytes :: "str \<Rightarrow> (str, str) res"
  al_repo :: "(error, repo_slug) res"
  al_branch :: "(error, str) res"

definition ID_RAW_FIELD :: str where "ID_RAW_FIELD = ''raw-field''"
definition ID_FIELD :: str where "ID_FIELD = ''field''"

definition indexed_fields :: "nat list option \<Rightarrow> typing \<Rightarrow> str list \<Rightarrow> (nat \<times> typing \<times> str) list" where
  "indexed_fields indices typing vs =
     (case indices of
        Some idx \<Rightarrow> map (\<lambda>(i, v). (i, typing, v)) (zip idx vs)
      | None \<Rightarrow> map (\<lambda>v. (USIZE_MAX, typing, v)) vs)"

text \<open>\<open>sort_by_key\<close> is stable.\<close>

definition ordered_fields :: "(str \<Rightarrow> nat list option) \<Rightarrow> api_args \<Rightarrow> (typing \<times> str) list" where
  "ordered_fields indices args =
     map snd (sort_key fst (indexed_fields (indices ID_RAW_FIELD) RawField (aa_raw_field args)
       @ indexed_fields (indices ID_FIELD) TypedField (aa_field args)))"

definition json_selection :: "str option \<Rightarrow> (error, str list option) res" where
  "json_selection json =
     (case json of
        None \<Rightarrow> Inr None
      | Some s \<Rightarrow>
          if s = [] then Inl (raw_usage ''fjo api cannot list fields for arbitrary endpoints. Specify --json id,name, inspect with --jq keys, or list fields with `fjo raw <group> <op> --json`.'' [])
          else Inr (Some (filter (\<lambda>n. n \<noteq> []) (map trim (split_c s CHR '','')))))"

subsection \<open>The request\<close>

definition set_method :: "api_lib \<Rightarrow> request \<Rightarrow> str \<Rightarrow> (error, request) res" where
  "set_method lib req name =
     (case al_method lib name of
        Some m \<Rightarrow> Inr (req\<lparr>req_method := m\<rparr>)
      | None \<Rightarrow> Inl (raw_usage ''{name:?} is not an HTTP method'' [name]))"

definition method_for :: "api_lib \<Rightarrow> api_args \<Rightarrow> bool \<Rightarrow> (error, str) res" where
  "method_for lib args any_field =
     (case aa_method args of
        Some m \<Rightarrow>
          (let upper = to_ascii_uppercase (trim m) in
           res_map (\<lambda>_. upper) (set_method lib (request_get ''/'') upper))
      | None \<Rightarrow> Inr (if any_field \<or> (case aa_input args of Some _ \<Rightarrow> True | None \<Rightarrow> False) then ''POST'' else ''GET''))"

text \<open>\<open>substitute\<close>: the values are asked for when a placeholder needs them.\<close>

function substitute_loop :: "api_lib \<Rightarrow> str \<Rightarrow> str \<Rightarrow> str \<Rightarrow> (error, str) res" where
  "substitute_loop lib endpoint out rest =
     (case find_c CHR ''{'' rest of
        None \<Rightarrow> Inr (out @ rest)
      | Some at \<Rightarrow>
          (case find_c CHR ''}'' (drop at rest) of
             None \<Rightarrow> Inl (raw_usage ((''{endpoint:?} has an unclosed '' @ [CHR 0x27] @ ''{'' @ [CHR 0x27])) [endpoint])
           | Some n \<Rightarrow>
               (let name = take (n - 1) (drop (Suc at) rest) in
                case (if name = ''owner'' then res_map slug_owner (al_repo lib)
                      else if name = ''repo'' then res_map slug_name (al_repo lib)
                      else if name = ''branch'' then al_branch lib
                      else Inl (raw_usage ''{{{other}}} is not a placeholder fjo substitutes; it knows {{owner}}, {{repo}}, and {{branch}}'' [name])) of
                  Inl e \<Rightarrow> Inl e
                | Inr v \<Rightarrow> substitute_loop lib endpoint (out @ take at rest @ seg v) (drop (Suc (at + n)) rest))))"
  by pat_completeness auto
termination by (relation "measure (\<lambda>(_, _, _, rest). length rest)") (auto dest: find_c_take)

definition api_substitute :: "api_lib \<Rightarrow> str \<Rightarrow> (error, str) res" where
  "api_substitute lib endpoint =
     (if \<not> List.member endpoint CHR ''{'' then Inr endpoint else substitute_loop lib endpoint [] endpoint)"

definition strip_api_prefix :: "str \<Rightarrow> str" where
  "strip_api_prefix endpoint =
     (let rest = trim_start_c (trim endpoint) CHR ''/'' in
      CHR ''/'' # (case strip_prefix rest ''api/v1/'' of
         Some after \<Rightarrow> after
       | None \<Rightarrow> if rest = ''api/v1'' then [] else rest))"

definition decode_part :: "str \<Rightarrow> (error, str) res" where
  "decode_part s =
     (case decode_query s of
        Some t \<Rightarrow> Inr t
      | None \<Rightarrow> Inl (raw_usage ((''{s:?} in the endpoint'' @ [CHR 0x27] @ ''s query is not valid UTF-8 once its %-escapes are decoded'')) [s]))"

definition split_query :: "str \<Rightarrow> (error, (str \<times> str) list) res" where
  "split_query qs =
     res_list (\<lambda>pair.
       let (k, v) = (case split_once_c pair CHR ''='' of Some kv \<Rightarrow> kv | None \<Rightarrow> (pair, [])) in
       res_bind (decode_part k) (\<lambda>k. res_map (\<lambda>v. (k, v)) (decode_part v)))
       (filter (\<lambda>pair. pair \<noteq> []) (split_c qs CHR ''&''))"

definition endpoint_path :: "api_lib \<Rightarrow> str \<Rightarrow> (error, str \<times> (str \<times> str) list) res" where
  "endpoint_path lib endpoint =
     res_bind (api_substitute lib endpoint) (\<lambda>substituted.
       let trimmed = trim substituted in
       if trimmed = [] then Inl (raw_usage ''the endpoint is empty; try `fjo api version`'' [])
       else (case split_once_c trimmed CHR ''?'' of
               Some (path, qs) \<Rightarrow> res_map (\<lambda>q. (strip_api_prefix path, q)) (split_query qs)
             | None \<Rightarrow> Inr (strip_api_prefix trimmed, [])))"

definition split_header :: "str \<Rightarrow> (error, str \<times> str) res" where
  "split_header spec =
     (case split_once_c spec CHR '':'' of
        None \<Rightarrow> Inl (raw_usage ((''{spec:?} is not a header; write it as '' @ [CHR 0x27] @ ''Name: value'' @ [CHR 0x27])) [spec])
      | Some (name, v) \<Rightarrow>
          if trim name = [] then Inl (raw_usage ((''{spec:?} has no header name before the '' @ [CHR 0x27] @ '':'' @ [CHR 0x27])) [spec])
          else Inr (trim name, trim v))"

definition read_input :: "api_lib \<Rightarrow> str \<Rightarrow> stdin_state \<Rightarrow> (error, str) res" where
  "read_input lib src stdin =
     (if src = ''-'' then (case stdin of Inr s \<Rightarrow> Inr s | Inl e \<Rightarrow> Inl (raw_usage ''--input -: could not read stdin: {e}'' [e]))
      else (case al_read_bytes lib src of Inr s \<Rightarrow> Inr s | Inl e \<Rightarrow> Inl (raw_usage ''--input {source}: {e}'' [src, e])))"

fun add_headers :: "request \<Rightarrow> str list \<Rightarrow> (error, request) res" where
  "add_headers req [] = Inr req"
| "add_headers req (h # hs) = res_bind (split_header h) (\<lambda>(n, v). add_headers (with_header req n v) hs)"

text \<open>The first half of \<open>execute\<close>: the request that is sent.\<close>

definition api_request :: "api_lib \<Rightarrow> api_args \<Rightarrow> api_field list \<Rightarrow> str \<Rightarrow> stdin_state \<Rightarrow> (error, request) res" where
  "api_request lib args parsed verb stdin =
     (let has_input = (case aa_input args of Some _ \<Rightarrow> True | None \<Rightarrow> False);
          fields_to_query = (has_input \<or> verb = ''GET'' \<or> verb = ''HEAD'') in
      res_bind (endpoint_path lib (aa_endpoint args)) (\<lambda>(path, endpoint_query).
      res_bind (set_method lib (with_accept (request_get path) AcceptJson) verb) (\<lambda>req.
      let req = foldl (\<lambda>r (k, v). request_query r k v) req endpoint_query;
          req = (if fields_to_query then foldl (\<lambda>r (k, v). request_query r k v) req (to_query (al_show lib) parsed) else req) in
      res_bind (case aa_input args of
                  Some src \<Rightarrow> res_map BodyJson (read_input lib src stdin)
                | None \<Rightarrow>
                    if parsed \<noteq> [] \<and> \<not> fields_to_query then res_map (\<lambda>b. BodyJson (al_show lib b)) (to_body parsed)
                    else Inr BodyNone) (\<lambda>b.
      add_headers (req\<lparr>req_body := b\<rparr>) (aa_header args)))))"

text \<open>What \<open>run\<close> decides before there is a runtime, and the request it ends in.\<close>

definition api_prepare ::
  "api_lib \<Rightarrow> (str \<Rightarrow> nat list option) \<Rightarrow> global_opts \<Rightarrow> api_args \<Rightarrow> stdin_state \<Rightarrow> (error, request) res" where
  "api_prepare lib indices globals args stdin =
     (case parse_fields (al_raw lib) (ordered_fields indices args) stdin of
        (Inl e, _) \<Rightarrow> Inl e
      | (Inr parsed, stdin) \<Rightarrow>
          res_bind (method_for lib args (parsed \<noteq> [] \<and> \<not> gl_paginate globals)) (\<lambda>verb.
          res_bind (json_selection (gl_json globals)) (\<lambda>_. api_request lib args parsed verb stdin)))"

definition looks_like_json :: "str \<Rightarrow> bool" where
  "looks_like_json b = (case dropWhile is_ascii_ws b of c # _ \<Rightarrow> c = CHR ''{'' \<or> c = CHR ''['' | [] \<Rightarrow> False)"

definition api_request_line :: "client \<Rightarrow> request \<Rightarrow> str" where
  "api_request_line c req =
     (let qs = query_string (req_query req) in cl_api_base c @ req_path req @ (if qs \<noteq> [] then ''?'' @ qs else []))"

definition trace_request :: "client \<Rightarrow> request \<Rightarrow> str \<Rightarrow> str list \<Rightarrow> str" where
  "trace_request c req verb hs =
     (''> '' @ verb @ '' '' @ redact_url (api_request_line c req) @ [CHR 0x0A])
     @ concat (map (\<lambda>h. case split_once_c h CHR '':'' of
         Some (n, v) \<Rightarrow> (''> '' @ trim n @ '': '' @ header_value (trim n) (trim v) @ [CHR 0x0A]) | None \<Rightarrow> []) hs)
     @ (''>'' @ [CHR 0x0A])"

subsection \<open>Page by page\<close>

record api_pages =
  ap_pages :: "json list list"
  ap_items :: nat
  ap_stopped :: stop_reason

text \<open>The loop of \<open>walk\<close>; \<open>page\<close> is the client's.\<close>

function api_walk_loop ::
  "('s \<Rightarrow> request \<Rightarrow> (error, json list \<times> page_info) res \<times> 's) \<Rightarrow> request \<Rightarrow> nat option \<Rightarrow> paginator \<Rightarrow> nat \<Rightarrow> json list list \<Rightarrow> nat \<Rightarrow> 's
   \<Rightarrow> (error, api_pages) res \<times> 's" where
  "api_walk_loop fetch1 base per_page pg page pages items s =
     (let req = (case per_page of Some n \<Rightarrow> set_query base ''limit'' (show_nat n) | None \<Rightarrow> base);
          req = (if 1 < page then set_query req ''page'' (show_nat page) else req) in
      case fetch1 s req of
        (Inl e, s) \<Rightarrow> (Inl e, s)
      | (Inr (vs, info), s) \<Rightarrow>
          (let k = keep pg (length vs); items = items + k; pages = pages @ [take k vs] in
           case advance pg info of
             (pg, Inl e) \<Rightarrow> (Inl e, s)
           | (pg, Inr (Stop reason)) \<Rightarrow> (Inr \<lparr>ap_pages = pages, ap_items = items, ap_stopped = reason\<rparr>, s)
           | (pg, Inr nx) \<Rightarrow> api_walk_loop fetch1 base per_page pg (pg_pages_seen pg + 1) pages items s))"
  by pat_completeness auto
termination
  by (relation "measure (\<lambda>(_, _, _, pg, _). MAX_PAGES - pg_pages_seen pg)")
    (auto dest!: sym [of _ "advance _ _"] advance_continues)

definition api_walk ::
  "('s \<Rightarrow> capabilities option \<times> 's) \<Rightarrow> ('s \<Rightarrow> request \<Rightarrow> (error, json list \<times> page_info) res \<times> 's) \<Rightarrow> request \<Rightarrow> nat option \<Rightarrow> 's
   \<Rightarrow> (error, api_pages) res \<times> 's" where
  "api_walk caps fetch1 base limit s =
     (let (per_page, s) = (if has_query base ''limit'' then (None, s)
            else (let (c, s) = caps s in (effective_limit None c, s)))
      in api_walk_loop fetch1 base per_page (paginator_new limit) 1 [] 0 s)"

definition flatten_pages :: "json list \<Rightarrow> json" where
  "flatten_pages pages = JArr (concat (map (\<lambda>p. case p of JArr items \<Rightarrow> items | _ \<Rightarrow> [p]) pages))"

subsection \<open>Described requests\<close>

definition accept_for :: "produces \<Rightarrow> accept" where
  "accept_for p =
     (case p of ProdJson \<Rightarrow> AcceptJson | ProdLdJson \<Rightarrow> AcceptOther ''application/ld+json'' | ProdText \<Rightarrow> AcceptText
      | ProdHtml \<Rightarrow> AcceptHtml | ProdBytes \<Rightarrow> AcceptOctets | ProdEmpty \<Rightarrow> AcceptAny)"

definition needs_context :: "op_meta \<Rightarrow> bool" where
  "needs_context op = list_ex (\<lambda>p. pm_ctx_fill p \<noteq> None) (om_params op)"

definition part_new :: "str \<Rightarrow> source \<Rightarrow> str option \<Rightarrow> part" where
  "part_new name src filename = \<lparr>part_name = name, part_filename = filename, part_mime = None, part_src = src\<rparr>"

text \<open>\<open>file_name\<close> is the name a file part has (\<open>Part::file\<close>).\<close>

definition build_request :: "api_lib \<Rightarrow> (str \<Rightarrow> str option) \<Rightarrow> planned_request \<Rightarrow> (error, request) res" where
  "build_request lib file_name plan =
     res_bind (set_method lib (with_accept (request_get (pr_path plan)) (accept_for (om_produces (pr_op plan)))) (plan_method plan)) (\<lambda>req.
       let req = req\<lparr>req_scope := om_scope (pr_op plan)\<rparr>;
           req = foldl (\<lambda>r (k, v). request_query r k v) req (pr_query plan) in
       if pr_uploads plan \<noteq> [] \<or> pr_form plan \<noteq> []
       then Inr (req\<lparr>req_body := BodyMultipart (map (\<lambda>(n, v). part_new n (Bytes v) None) (pr_form plan)
              @ map (\<lambda>(n, p). if p = ''-'' then part_new n Stdin (Some ''stdin'') else part_new n (Path p) (file_name p)) (pr_uploads plan))\<rparr>)
       else (case pr_body plan of
               Some b \<Rightarrow> Inr (req\<lparr>req_body := BodyJson (al_show lib b)\<rparr>)
             | None \<Rightarrow> Inr req))"

subsection \<open>The fields of an operation\<close>

fun inner_of :: "meta_field_kind \<Rightarrow> field_kind" where
  "inner_of MkBool = FkBool"
| "inner_of MkInt = FkInt"
| "inner_of MkFloat = FkFloat"
| "inner_of MkStr = FkStr"
| "inner_of MkDateTime = FkDateTime"
| "inner_of _ = FkJson"

fun listed_kind :: "meta_field_kind \<Rightarrow> field_kind" where
  "listed_kind MkBool = FkBool"
| "listed_kind MkInt = FkInt"
| "listed_kind MkFloat = FkFloat"
| "listed_kind MkStr = FkStr"
| "listed_kind MkDateTime = FkDateTime"
| "listed_kind (MkEnum vs) = FkEnum vs"
| "listed_kind (MkObject _) = FkObject []"
| "listed_kind (MkArray k) = FkArray (inner_of k)"
| "listed_kind (MkMap k) = FkMap (inner_of k)"
| "listed_kind MkJson = FkJson"

definition fields_for :: "(str \<times> (str \<times> meta_field_kind \<times> str) list) list \<Rightarrow> op_meta \<Rightarrow> field_spec list" where
  "fields_for table op =
     (case binary_search fst (om_op_id op) table of
        Some i \<Rightarrow> map (\<lambda>(name, kind, help). FieldSpec name (listed_kind kind) help) (snd (table ! i))
      | None \<Rightarrow> [])"

definition raw_resolve_fields :: "(str \<times> (str \<times> meta_field_kind \<times> str) list) list \<Rightarrow> op_meta \<Rightarrow> str \<Rightarrow> (error, selection) res" where
  "raw_resolve_fields table op raw =
     (let fs = fields_for table op in
      if fs = []
      then Inl (raw_usage (''fjo raw {} {} has no selectable fields: it answers with {}, not a typed object.'' @ [CHR 0x0A]
             @ ''use --jq to reach into the response instead'')
           [om_group op, om_command op,
            (case om_produces op of ProdEmpty \<Rightarrow> ''nothing'' | ProdText \<Rightarrow> ''plain text'' | ProdHtml \<Rightarrow> ''HTML''
             | ProdBytes \<Rightarrow> ''a byte stream'' | _ \<Rightarrow> ''an untyped value'')])
      else resolve_fields raw fs)"

lemma listed_label: "kind_label k = label (listed_kind k) \<or> (\<exists>i. k = MkArray i \<or> k = MkMap i) \<or> (\<exists>vs. k = MkEnum vs)"
  by (cases k) simp_all


subsection \<open>Lemmas: the request\<close>

lemma foldl_query:
  "foldl (\<lambda>r (k, v). request_query r k v) req kvs = req\<lparr>req_query := req_query req @ kvs\<rparr>"
  by (induction kvs arbitrary: req) (auto simp: request_query_def)

lemma add_headers_keeps:
  "add_headers req hs = Inr r \<Longrightarrow> req_method r = req_method req \<and> req_query r = req_query req \<and> req_body r = req_body req \<and> req_path r = req_path req"
proof (induction hs arbitrary: req)
  case (Cons h hs)
  obtain n v where "split_header h = Inr (n, v)" "add_headers (with_header req n v) hs = Inr r"
    using Cons(2) by (auto simp: res_bind_eq_Inr)
  then show ?case using Cons(1) [of "with_header req n v"] by (simp add: with_header_def)
qed simp

lemma set_method_Inr: "set_method lib req name = Inr r \<Longrightarrow> \<exists>m. al_method lib name = Some m \<and> r = req\<lparr>req_method := m\<rparr>"
  by (auto simp: set_method_def split: option.splits)

lemma api_request_parts:
  assumes "api_request lib args parsed verb stdin = Inr req"
  shows "\<exists>path q m b. endpoint_path lib (aa_endpoint args) = Inr (path, q) \<and> al_method lib verb = Some m
    \<and> req_method req = m \<and> req_path req = req_path (request_get path) \<and> req_body req = b
    \<and> (if aa_input args \<noteq> None \<or> verb = ''GET'' \<or> verb = ''HEAD''
       then req_query req = q @ to_query (al_show lib) parsed \<and> (aa_input args = None \<longrightarrow> b = BodyNone)
       else req_query req = q \<and> (if parsed = [] then b = BodyNone else \<exists>v. to_body parsed = Inr v \<and> b = BodyJson (al_show lib v)))"
proof -
  obtain path q where e: "endpoint_path lib (aa_endpoint args) = Inr (path, q)"
    using assms by (cases "endpoint_path lib (aa_endpoint args)") (auto simp: api_request_def Let_def res_bind_def)
  obtain r where r: "set_method lib (with_accept (request_get path) AcceptJson) verb = Inr r"
    using assms e by (cases "set_method lib (with_accept (request_get path) AcceptJson) verb")
      (auto simp: api_request_def Let_def res_bind_def)
  then obtain m where m: "al_method lib verb = Some m" "r = (with_accept (request_get path) AcceptJson)\<lparr>req_method := m\<rparr>"
    using set_method_Inr by blast
  have r0: "req_method r = m" "req_path r = req_path (request_get path)" "req_query r = []"
    by (simp_all add: m(2) with_accept_def request_get_def request_new_def)
  show ?thesis
  proof (cases "aa_input args")
    case (Some src)
    then show ?thesis using assms e r m(1) r0
      by (auto simp: api_request_def Let_def foldl_query res_bind_eq_Inr dest!: add_headers_keeps split: if_splits)
  next
    case None
    then show ?thesis using assms e r m(1) r0
      by (auto simp: api_request_def Let_def foldl_query res_bind_eq_Inr res_map_eq_Inr dest!: add_headers_keeps split: if_splits)
  qed
qed

lemma endpoint_path_no_query: "endpoint_path lib endpoint = Inr (path, q) \<Longrightarrow> CHR ''?'' \<notin> set path"
proof -
  assume e: "endpoint_path lib endpoint = Inr (path, q)"
  have strip: "set (strip_api_prefix p) \<subseteq> insert CHR ''/'' (set p)" for p
  proof -
    have t: "set (trim_start_c (trim p) CHR ''/'') \<subseteq> set p"
      using set_trim_subset [of p] set_dropWhileD by (fastforce simp: trim_start_c_def)
    have sp: "strip_prefix a b = Some c \<Longrightarrow> set c \<subseteq> set a" for a b c :: str
      by (auto simp: strip_prefix_def dest: in_set_dropD split: if_splits)
    show ?thesis
    proof (cases "strip_prefix (trim_start_c (trim p) CHR ''/'') ''api/v1/''")
      case (Some c)
      then show ?thesis using t sp [OF Some] by (auto simp: strip_api_prefix_def Let_def)
    qed (use t in \<open>auto simp: strip_api_prefix_def Let_def\<close>)
  qed
  obtain sub where sub: "api_substitute lib endpoint = Inr sub"
    using e by (cases "api_substitute lib endpoint") (auto simp: endpoint_path_def res_bind_def)
  show ?thesis
  proof (cases "split_once_c (trim sub) CHR ''?''")
    case None
    then have "path = strip_api_prefix (trim sub)" using e sub by (simp add: endpoint_path_def Let_def res_bind_def split: if_splits)
    then show ?thesis using None strip [of "trim sub"] by auto
  next
    case (Some pq)
    obtain p qs where pq: "pq = (p, qs)" by (cases pq)
    have "path = strip_api_prefix p"
      using e sub Some by (simp add: endpoint_path_def Let_def res_bind_def pq res_map_eq_Inr split: if_splits)
    moreover have "CHR ''?'' \<notin> set p" using Some by (simp add: pq split_once_c_Some)
    ultimately show ?thesis using strip [of p] by auto
  qed
qed

subsection \<open>Lemmas: page by page\<close>

declare api_walk_loop.simps [simp del]

lemma keep_le: "keep p n \<le> n"
  by (simp add: keep_def split: option.splits)

lemma keep_within: "pg_user_limit p = Some l \<Longrightarrow> keep p n \<le> l - pg_cumulative p"
  by (simp add: keep_def)

lemma advance_record: "advance p i = (p', r) \<Longrightarrow> p' = record_page p i"
  by (metis advance_fst fst_conv)

text \<open>What was counted is what was kept, and it stays within the limit while the pages last.\<close>

text \<open>A source of pages counts what it returns.\<close>

locale page_source =
  fixes f :: "'s \<Rightarrow> request \<Rightarrow> (error, json list \<times> page_info) res \<times> 's"
  assumes counted: "f s req = (Inr (vs, info), s') \<Longrightarrow> pi_returned info = length vs"
begin

lemma walk_loop_bounds:
  "api_walk_loop f base pp pg page pages items s = (Inr r, s') \<Longrightarrow> items = sum_list (map length pages)
   \<Longrightarrow> (\<And>l. pg_user_limit pg = Some l \<Longrightarrow> items \<le> l \<and> items \<le> pg_cumulative pg)
   \<Longrightarrow> length pages = pg_pages_seen pg \<Longrightarrow> pg_pages_seen pg < MAX_PAGES
   \<Longrightarrow> ap_items r = sum_list (map length (ap_pages r)) \<and> (\<forall>l. pg_user_limit pg = Some l \<longrightarrow> ap_items r \<le> l)
     \<and> length (ap_pages r) \<le> MAX_PAGES"
proof (induction "MAX_PAGES - pg_pages_seen pg" arbitrary: pg page pages items s rule: less_induct)
  case less
  define req where "req = (if 1 < page then set_query (case pp of Some n \<Rightarrow> set_query base ''limit'' (show_nat n) | None \<Rightarrow> base) ''page'' (show_nat page)
      else (case pp of Some n \<Rightarrow> set_query base ''limit'' (show_nat n) | None \<Rightarrow> base))"
  note unf = api_walk_loop.simps [of f base pp pg page pages items s, unfolded Let_def, folded req_def]
  obtain vs info s1 where f: "f s req = (Inr (vs, info), s1)"
    using less.prems(1) unfolding unf by (auto split: prod.splits sum.splits)
  obtain pg' nx where a: "advance pg info = (pg', Inr nx)"
    using less.prems(1) unfolding unf f by (auto split: prod.splits sum.splits)
  define k where "k = keep pg (length vs)"
  have step: "api_walk_loop f base pp pg page pages items s =
      (case nx of Stop reason \<Rightarrow> (Inr \<lparr>ap_pages = pages @ [take k vs], ap_items = items + k, ap_stopped = reason\<rparr>, s1)
       | _ \<Rightarrow> api_walk_loop f base pp pg' (pg_pages_seen pg' + 1) (pages @ [take k vs]) (items + k) s1)"
    unfolding unf by (simp add: f a k_def cong: next_page.case_cong)
  have pg': "pg' = record_page pg info" by (rule advance_record [OF a])
  have kl: "k \<le> length vs" by (simp add: k_def keep_le)
  have items': "items + k = sum_list (map length (pages @ [take k vs]))" using less.prems(2) kl by simp
  have lim: "items + k \<le> l \<and> items + k \<le> pg_cumulative pg'" if "pg_user_limit pg' = Some l" for l
    using less.prems(3) [of l] keep_within [of pg l "length vs"] kl that counted [OF f] by (auto simp: k_def pg')
  have seen: "length (pages @ [take k vs]) = pg_pages_seen pg'" using less.prems(4) by (simp add: pg')
  show ?case
  proof (cases "\<exists>reason. nx = Stop reason")
    case True
    then show ?thesis using less.prems(1,4,5) step items' lim by (auto simp: pg')
  next
    case False
    then have nxt: "api_walk_loop f base pp pg' (pg_pages_seen pg' + 1) (pages @ [take k vs]) (items + k) s1 = (Inr r, s')"
      using less.prems(1) step by (cases nx) auto
    have m: "pg_pages_seen pg' < MAX_PAGES" using advance_continues [OF a] False by auto
    then have "MAX_PAGES - pg_pages_seen pg' < MAX_PAGES - pg_pages_seen pg" by (simp add: pg')
    from less.hyps [OF this nxt items' lim seen m] show ?thesis by (metis pg' record_page_simps(3))
  qed
qed

lemma walk_bounds:
  assumes "api_walk caps f base limit s = (Inr r, s')"
  shows "ap_items r = sum_list (map length (ap_pages r)) \<and> (\<forall>l. limit = Some l \<longrightarrow> ap_items r \<le> l) \<and> length (ap_pages r) \<le> MAX_PAGES"
proof -
  obtain pp s1 where l: "api_walk_loop f base pp (paginator_new limit) 1 [] 0 s1 = (Inr r, s')"
    using assms by (auto simp: api_walk_def Let_def split: if_splits prod.splits)
  have "pg_pages_seen (paginator_new limit) < MAX_PAGES" by (simp add: paginator_new_def MAX_PAGES_def)
  from walk_loop_bounds [OF l _ _ _ this] show ?thesis by (auto simp: paginator_new_def)
qed

end

interpretation client_source: page_source "\<lambda>s req. client_page wi c de req s" for wi c and de :: "json decoder"
  by unfold_locales
    (auto simp: client_page_def page_info_from_headers_def res_bind_eq_Inr res_map_eq_Inr split: prod.splits)

subsection \<open>Properties\<close>


definition sample_api_lib :: api_lib where
  "sample_api_lib = \<lparr>al_raw = sample_raw_lib, al_method = (\<lambda>s. if s = ''GET'' then Some GET else if s = ''POST'' then Some POST else None),
     al_show = (\<lambda>v. ''{}''), al_read_bytes = (\<lambda>p. Inl ''not found''), al_repo = Inr (slug_new ''o'' ''r''), al_branch = Inr ''main''\<rparr>"

definition sample_api_args :: api_args where
  "sample_api_args = \<lparr>aa_endpoint = ''api/v1/repos/{owner}/x?limit=2'', aa_method = None, aa_raw_field = [''state=open''], aa_field = [],
     aa_input = None, aa_header = [], aa_include = False, aa_slurp = False, aa_silent = False, aa_verbose = False\<rparr>"

definition sample_api_request :: request where
  "sample_api_request = (request_get ''/repos/o/x'')\<lparr>req_query := [(''limit'', ''2''), (''state'', ''open'')]\<rparr>"


text \<open>
  C0. The ways to write an endpoint that documentation has, with and without a leading slash and with and
  without \<open>api/v1\<close>, are the same path.
\<close>
theorem endpoint_spellings_agree:
  assumes "printable p" "\<not> starts_with p ''/''" "\<not> starts_with p ''api/v1/''" "p \<noteq> ''api/v1''"
  shows "strip_api_prefix p = ''/'' @ p \<and> strip_api_prefix (''/'' @ p) = ''/'' @ p
    \<and> strip_api_prefix (''api/v1/'' @ p) = ''/'' @ p \<and> strip_api_prefix (''/api/v1/'' @ p) = ''/'' @ p"
proof -
  have printable: "printable (''/'' @ p)" "printable (''api/v1/'' @ p)" "printable (''/api/v1/'' @ p)"
    using assms(1) by (simp_all add: byte_def)
  have ts: "trim_start_c p CHR ''/'' = p" using assms(2) by (cases p) (auto simp: trim_start_c_def starts_with_def)
  have sp: "strip_prefix p ''api/v1/'' = None" using assms(3) by (simp add: strip_prefix_def starts_with_def)
  have api: "strip_prefix (''api/v1/'' @ p) ''api/v1/'' = Some p" by (simp add: strip_prefix_def starts_with_def)
  have "trim_start_c (''/'' @ p) CHR ''/'' = p" "trim_start_c (''api/v1/'' @ p) CHR ''/'' = ''api/v1/'' @ p"
    "trim_start_c (''/api/v1/'' @ p) CHR ''/'' = ''api/v1/'' @ p"
    using ts by (simp_all add: trim_start_c_def)
  then show ?thesis unfolding strip_api_prefix_def Let_def trim_printable [OF assms(1)] trim_printable [OF printable(1)]
      trim_printable [OF printable(2)] trim_printable [OF printable(3)]
    using ts sp api assms(4) by simp
qed

lemma endpoint_spellings_agree_witness: "strip_api_prefix (''/api/v1/'' @ ''user/repos'') = ''/'' @ ''user/repos''"
  using endpoint_spellings_agree [of "''user/repos''"] by (simp add: starts_with_def byte_def)

text \<open>
  C0. A walk page by page gives no more items than the limit, as many as it says, and it ends after at most
  the page bound, whatever the server answers.
\<close>
theorem api_walk_bounded:
  assumes "api_walk caps (\<lambda>s req. client_page wi c de req s) base limit s = (Inr r, s')"
  shows "ap_items r = sum_list (map length (ap_pages r)) \<and> (\<forall>l. limit = Some l \<longrightarrow> ap_items r \<le> l) \<and> length (ap_pages r) \<le> MAX_PAGES"
  using assms by (rule client_source.walk_bounds)

end
