(* ===== verification/Spec2Isabelle.thy ===== *)
theory Spec2Isabelle
  imports Encode Base64 Redact Slug Compat Errors Retry Request Capabilities Paginate Host_Key Hosts Secrets Remote_Url Git_Spec Git Context Config Classify Client Oauth Runtime Tty Ansi Tables Project Template_Lex Template_Parse Template_Eval Render Alias Raw_Meta Raw_Build Raw_Bind Raw_Search Splitter Api_Fields Output Api
begin

text \<open>Header to be written.\<close>

section \<open>From the answer of the server to the terminal\<close>

lemma server_said_printed:
  assumes "server_says (err_kind e) = Some m" "trim m \<noteq> []"
  shows "sublist (trim m) (render_error lib c e)"
proof -
  have "\<exists>k\<in>{''server says'', ''body''}. (k, m) \<in> set (ad_facts (advise lib (err_kind e) (err_ctx e)))
      \<or> (k, trim m) \<in> set (ad_facts (advise lib (err_kind e) (err_ctx e)))"
    using assms
    by (cases "err_kind e")
      (simp_all add: server_says_def advise_def fact_blank quoted_trim opt_text_def advise_validation_def
        advise_repo_unchecked_def advise_repo_missing_def advise_collection_def advise_resource_def advise_conflict_def
        advise_quota_def advise_state_def advise_forbidden_def advise_server_error_def advise_unexpected_def)
  then show ?thesis using advice_fact_printed [of _ _ lib e c] assms(2) trim_idem by metis
qed

lemma classify_not_io: "classify lib ra status hdrs body ctx \<noteq> Io x"
  by (simp add: classify_def classify_404_def route_not_found_def Let_def split: prod.splits repo_probe.splits list.splits option.splits)



end
